(* ===== verification/Ncps_Prelude.thy ===== *)
theory Ncps_Prelude
  imports Main "HOL-Library.Word"
begin

text \<open>
  Shared vocabulary of the development: the error values of the Go packages, the
  exception-state monad in which the stateful operations are written, the rules that push
  an invariant through a program of that monad, and generic facts on lists.

  Errors. A Go error is identified with the sentinel at the end of its \<open>%w\<close> chain,
  since \<open>errors.Is\<close> is the only way the code inspects an error: wrapping with
  \<open>fmt.Errorf("...: %w", err)\<close> leaves the model's value unchanged and message texts
  are not modelled.

  Programs. A Go function that reads and writes state and returns \<open>(x, error)\<close> is a
  function from a state to an error or a value, and a state. \<open>attemptE\<close> makes the outcome of a call a
  value, which is Go's \<open>x, err := call()\<close>.
\<close>

section \<open>Types\<close>

type_synonym bytes = string

datatype (plugins only: code size) err =
    ErrInputTooShort            \<comment> \<open>helper.ErrInputTooShort\<close>
  | ErrInvalidSizeSuffix        \<comment> \<open>helper.ErrInvalidSizeSuffix\<close>
  | ErrNumSyntax                \<comment> \<open>strconv.ErrSyntax\<close>
  | ErrNumRange                 \<comment> \<open>strconv.ErrRange\<close>
  | ErrInvalidNarInfoHash       \<comment> \<open>narinfo.ErrInvalidHash\<close>
  | ErrInvalidNarHash           \<comment> \<open>nar.ErrInvalidHash\<close>
  | ErrInvalidURL               \<comment> \<open>nar.ErrInvalidURL\<close>
  | ErrUnknownFileExtension     \<comment> \<open>nar.ErrUnknownFileExtension\<close>
  | ErrQuery                    \<comment> \<open>an error of url.ParseQuery\<close>
  | ErrPanic                    \<comment> \<open>a Go panic\<close>
  | ErrSplitNone                \<comment> \<open>nixcacheinfo.ErrSplitOnceFoundNoSeparators\<close>
  | ErrSplitMultiple            \<comment> \<open>nixcacheinfo.ErrSplitOnceFoundMultipleSeparators\<close>
  | ErrUnknownKey               \<comment> \<open>nixcacheinfo.ErrUnknownKey\<close>
  | ErrTokenTooLong             \<comment> \<open>bufio.ErrTooLong\<close>
  | ErrNotFound                 \<comment> \<open>storage.ErrNotFound\<close>
  | ErrAlreadyExists            \<comment> \<open>storage.ErrAlreadyExists\<close>
  | ErrChunkNotFound            \<comment> \<open>chunk.ErrNotFound\<close>
  | ErrDBNotFound               \<comment> \<open>database.ErrNotFound\<close>
  | ErrNoRows                   \<comment> \<open>sql.ErrNoRows\<close>
  | ErrDuplicateKey             \<comment> \<open>an error with database.IsDuplicateKeyError\<close>
  | ErrDeadlock                 \<comment> \<open>an error with database.IsDeadlockError\<close>
  | ErrDB                       \<comment> \<open>any other database error\<close>
  | ErrForeignKey               \<comment> \<open>a foreign key violation\<close>
  | ErrMismatchedSlices         \<comment> \<open>database.ErrMismatchedSlices\<close>
  | ErrCanceled                 \<comment> \<open>context.Canceled\<close>
  | ErrDeadlineExceeded         \<comment> \<open>context.DeadlineExceeded\<close>
  | ErrIO                       \<comment> \<open>an error of the operating system\<close>
  | ErrExist                    \<comment> \<open>an error with os.IsExist\<close>
  | ErrNotExist                 \<comment> \<open>an error with os.IsNotExist\<close>
  | ErrUnlockUnknownKey         \<comment> \<open>local.ErrUnlockUnknownKey\<close>
  | ErrRUnlockUnknownKey        \<comment> \<open>local.ErrRUnlockUnknownKey\<close>
  | ErrCircuitBreakerOpen       \<comment> \<open>redis.ErrCircuitBreakerOpen\<close>
  | ErrWriteLockHeld            \<comment> \<open>redis.ErrWriteLockHeld\<close>
  | ErrReadersTimeout           \<comment> \<open>redis.ErrReadersTimeout\<close>
  | ErrWriteLockTimeout         \<comment> \<open>redis.ErrWriteLockTimeout\<close>
  | ErrExtendLockNotFound       \<comment> \<open>redis.ErrExtendLockNotFound\<close>
  | ErrConnection               \<comment> \<open>an error with redis.isConnectionError\<close>
  | ErrRedis                    \<comment> \<open>any other Redis error\<close>
  | ErrCDCDisabled              \<comment> \<open>cache.ErrCDCDisabled\<close>
  | ErrNarAlreadyChunked        \<comment> \<open>cache.ErrNarAlreadyChunked\<close>
  | ErrMigrationInProgress      \<comment> \<open>cache.ErrMigrationInProgress\<close>
  | ErrNarInfoPurged            \<comment> \<open>cache.errNarInfoPurged\<close>
  | ErrChunking                 \<comment> \<open>an error of the chunker\<close>
  | ErrUnexpectedEOF            \<comment> \<open>io.ErrUnexpectedEOF\<close>
  | ErrSignature                \<comment> \<open>an error of the signature package\<close>
  | ErrNixHash                  \<comment> \<open>an error of nixhash.ParseAny\<close>
  | ErrNarInfoParse             \<comment> \<open>an error of narinfo.Parse\<close>
  | ErrPathMustBeAbsolute       \<comment> \<open>local.ErrPathMustBeAbsolute\<close>
  | ErrPathMustExist            \<comment> \<open>local.ErrPathMustExist\<close>
  | ErrPathMustBeADirectory     \<comment> \<open>local.ErrPathMustBeADirectory\<close>
  | ErrPathMustBeWritable       \<comment> \<open>local.ErrPathMustBeWritable\<close>
  | ErrUnsupportedCompression   \<comment> \<open>nar.ErrUnsupportedCompressionType\<close>
  | ErrCodec                    \<comment> \<open>an error of a compression library\<close>
  | ErrUpstream                 \<comment> \<open>an error of an upstream cache\<close>
  | ErrS3                       \<comment> \<open>an error of the S3 service\<close>
  | ErrBucketNotFound           \<comment> \<open>s3.ErrBucketNotFound\<close>
  | ErrConfigNotFound           \<comment> \<open>config.ErrConfigNotFound\<close>
  | ErrCDCDisabledAfterEnabled  \<comment> \<open>config.ErrCDCDisabledAfterEnabled\<close>
  | ErrCDCConfigMismatch        \<comment> \<open>config.ErrCDCConfigMismatch\<close>
  | ErrCDCInvalidChunkSizes     \<comment> \<open>config.ErrCDCInvalidChunkSizes\<close>
  | ErrUpstreamNotFound         \<comment> \<open>upstream.ErrNotFound\<close>
  | ErrURLRequired              \<comment> \<open>upstream.ErrURLRequired\<close>
  | ErrURLMustContainScheme     \<comment> \<open>upstream.ErrURLMustContainScheme\<close>
  | ErrUnexpectedStatus         \<comment> \<open>upstream.ErrUnexpectedHTTPStatusCode\<close>
  | ErrSignatureInvalid         \<comment> \<open>upstream.ErrSignatureValidationFailed\<close>
  | ErrInvalidNarInfo           \<comment> \<open>upstream.ErrInvalidNarInfo\<close>
  | ErrNarInfoCheck             \<comment> \<open>an error of NarInfo.Check\<close>
  | ErrGoAway                   \<comment> \<open>an HTTP error whose text has "http2: server sent GOAWAY"\<close>
  | ErrNetTimeout               \<comment> \<open>a net.Error with Timeout\<close>
  | ErrHostnameRequired         \<comment> \<open>cache.ErrHostnameRequired\<close>
  | ErrHostnameScheme           \<comment> \<open>cache.ErrHostnameMustNotContainScheme\<close>
  | ErrHostnamePath             \<comment> \<open>cache.ErrHostnameMustNotContainPath\<close>
  | ErrBucketRequired           \<comment> \<open>s3.ErrBucketRequired\<close>
  | ErrEndpointRequired         \<comment> \<open>s3.ErrEndpointRequired\<close>
  | ErrInvalidEndpointScheme    \<comment> \<open>s3.ErrInvalidEndpointScheme\<close>
  | ErrAccessKeyIDRequired      \<comment> \<open>s3.ErrAccessKeyIDRequired\<close>
  | ErrSecretAccessKeyRequired  \<comment> \<open>s3.ErrSecretAccessKeyRequired\<close>
  | ErrNoSuchKey                \<comment> \<open>an S3 answer with the code NoSuchKey\<close>
  | ErrNoRedisAddrs             \<comment> \<open>redis.ErrNoRedisAddrs\<close>
  | ErrQuorum                   \<comment> \<open>redis.ErrInsufficientNodesQuorum\<close>
  | ErrLockTaken                \<comment> \<open>a redsync.ErrTaken\<close>
  | ErrLockFailed               \<comment> \<open>redsync.ErrFailed\<close>
  | ErrFsckIssuesFound          \<comment> \<open>ncps.ErrFsckIssuesFound\<close>
  | ErrCheck                    \<comment> \<open>a violation of a CHECK of the schema\<close>
  | ErrJoined "err list"         \<comment> \<open>errors.Join; the code never joins joined errors but to flatten them\<close>

text \<open>\<open>errors.Is\<close> looks at every error that was joined.\<close>

definition errors_Is :: "err \<Rightarrow> err \<Rightarrow> bool" where
  "errors_Is e target \<longleftrightarrow> e = target \<or> (case e of ErrJoined es \<Rightarrow> target \<in> set es | _ \<Rightarrow> False)"

type_synonym 'a result = "err + 'a"

definition rbind :: "'a result \<Rightarrow> ('a \<Rightarrow> 'b result) \<Rightarrow> 'b result" where
  "rbind r f = (case r of Inl e \<Rightarrow> Inl e | Inr x \<Rightarrow> f x)"

lemma rbind_simps [simp]: "rbind (Inl e) f = Inl e" "rbind (Inr x) f = f x"
  by (simp_all add: rbind_def)

lemma rbind_Inr: "rbind r f = Inr y \<longleftrightarrow> (\<exists>x. r = Inr x \<and> f x = Inr y)"
  by (cases r) auto

section \<open>The exception-state monad\<close>

type_synonym ('s, 'a) prog = "'s \<Rightarrow> 'a result \<times> 's"

definition returnE :: "'a \<Rightarrow> ('s, 'a) prog" where
  "returnE x s = (Inr x, s)"

definition raiseE :: "err \<Rightarrow> ('s, 'a) prog" where
  "raiseE e s = (Inl e, s)"

definition bindE :: "('s, 'a) prog \<Rightarrow> ('a \<Rightarrow> ('s, 'b) prog) \<Rightarrow> ('s, 'b) prog" where
  "bindE m f s = (case m s of (Inl e, t) \<Rightarrow> (Inl e, t) | (Inr x, t) \<Rightarrow> f x t)"

definition thenE :: "('s, 'a) prog \<Rightarrow> ('s, 'b) prog \<Rightarrow> ('s, 'b) prog" where
  "thenE m k = bindE m (\<lambda>_. k)"

definition attemptE :: "('s, 'a) prog \<Rightarrow> ('s, 'a result) prog" where
  "attemptE m s = (case m s of (r, t) \<Rightarrow> (Inr r, t))"

definition liftE :: "'a result \<Rightarrow> ('s, 'a) prog" where
  "liftE r s = (r, s)"

definition getsE :: "('s \<Rightarrow> 'a) \<Rightarrow> ('s, 'a) prog" where
  "getsE f s = (Inr (f s), s)"

definition modifyE :: "('s \<Rightarrow> 's) \<Rightarrow> ('s, unit) prog" where
  "modifyE f s = (Inr (), f s)"

definition whenE :: "bool \<Rightarrow> ('s, unit) prog \<Rightarrow> ('s, unit) prog" where
  "whenE b m = (if b then m else returnE ())"

text \<open>A call whose error is replaced.\<close>

definition map_err :: "(err \<Rightarrow> err) \<Rightarrow> ('s, 'a) prog \<Rightarrow> ('s, 'a) prog" where
  "map_err g m s = (case m s of (r, t) \<Rightarrow> (map_sum g id r, t))"

text \<open>A deferred call: \<open>d\<close> runs on every exit of \<open>m\<close>; its own error is discarded.\<close>

definition finallyE :: "('s, 'a) prog \<Rightarrow> ('s, unit) prog \<Rightarrow> ('s, 'a) prog" where
  "finallyE m d s = (case m s of (r, t) \<Rightarrow> (r, snd (d t)))"

text \<open>A call whose error is only logged.\<close>

definition ignoreE :: "('s, 'a) prog \<Rightarrow> ('s, unit) prog" where
  "ignoreE m = bindE (attemptE m) (\<lambda>_. returnE ())"

primrec forE :: "'x list \<Rightarrow> ('x \<Rightarrow> ('s, unit) prog) \<Rightarrow> ('s, unit) prog" where
  "forE [] f = returnE ()"
| "forE (x # xs) f = thenE (f x) (forE xs f)"

primrec mapE :: "('x \<Rightarrow> ('s, 'y) prog) \<Rightarrow> 'x list \<Rightarrow> ('s, 'y list) prog" where
  "mapE f [] = returnE []"
| "mapE f (x # xs) = bindE (f x) (\<lambda>y. bindE (mapE f xs) (\<lambda>ys. returnE (y # ys)))"

lemmas prog_defs = returnE_def raiseE_def bindE_def thenE_def attemptE_def liftE_def
  getsE_def modifyE_def whenE_def finallyE_def ignoreE_def

lemma bindE_liftE [simp]: "bindE (liftE (Inr x)) f = f x" "bindE (liftE (Inl e)) f = raiseE e"
  by (simp_all add: fun_eq_iff bindE_def liftE_def raiseE_def)

lemma bindE_returnE [simp]: "bindE (returnE x) f = f x" "bindE (raiseE e) f = raiseE e"
  by (simp_all add: fun_eq_iff bindE_def returnE_def raiseE_def)

section \<open>Invariants and triples\<close>

definition keeps :: "('s \<Rightarrow> bool) \<Rightarrow> ('s, 'a) prog \<Rightarrow> bool" where
  "keeps P m \<longleftrightarrow> (\<forall>s. P s \<longrightarrow> P (snd (m s)))"

definition triple ::
  "('s \<Rightarrow> bool) \<Rightarrow> ('s, 'a) prog \<Rightarrow> ('a \<Rightarrow> 's \<Rightarrow> bool) \<Rightarrow> (err \<Rightarrow> 's \<Rightarrow> bool) \<Rightarrow> bool" where
  "triple P m Q E \<longleftrightarrow> (\<forall>s. P s \<longrightarrow> (case m s of (Inr x, t) \<Rightarrow> Q x t | (Inl e, t) \<Rightarrow> E e t))"

named_theorems keeps_intros "rules that push an invariant through a program"

lemma keepsI [intro?]: "(\<And>s. P s \<Longrightarrow> P (snd (m s))) \<Longrightarrow> keeps P m"
  by (simp add: keeps_def)

lemma keepsD: "keeps P m \<Longrightarrow> P s \<Longrightarrow> P (snd (m s))"
  by (simp add: keeps_def)

lemma keeps_returnE [keeps_intros]: "keeps P (returnE x)"
  by (simp add: keeps_def returnE_def)

lemma keeps_raiseE [keeps_intros]: "keeps P (raiseE e)"
  by (simp add: keeps_def raiseE_def)

lemma keeps_liftE [keeps_intros]: "keeps P (liftE r)"
  by (simp add: keeps_def liftE_def)

lemma keeps_getsE [keeps_intros]: "keeps P (getsE f)"
  by (simp add: keeps_def getsE_def)

lemma keeps_modifyE: "(\<And>s. P s \<Longrightarrow> P (f s)) \<Longrightarrow> keeps P (modifyE f)"
  by (simp add: keeps_def modifyE_def)

lemma keeps_bindE [keeps_intros]:
  assumes "keeps P m" and "\<And>x. keeps P (f x)"
  shows "keeps P (bindE m f)"
proof (rule keepsI)
  fix s assume "P s"
  with assms(1) have "P (snd (m s))" by (rule keepsD)
  then show "P (snd (bindE m f s))"
    using assms(2) by (cases "m s") (auto simp: bindE_def keeps_def split: sum.split)
qed

lemma keeps_bindE_results:
  assumes "keeps P m" "\<And>s x t. P s \<Longrightarrow> m s = (Inr x, t) \<Longrightarrow> keeps P (f x)"
  shows "keeps P (bindE m f)"
proof (rule keepsI)
  fix s assume "P s"
  with assms(1) have "P (snd (m s))" by (rule keepsD)
  then show "P (snd (bindE m f s))"
    using assms(2) [OF \<open>P s\<close>] by (cases "m s") (auto simp: bindE_def keeps_def split: sum.split)
qed

lemma keeps_thenE [keeps_intros]: "keeps P m \<Longrightarrow> keeps P k \<Longrightarrow> keeps P (thenE m k)"
  unfolding thenE_def by (rule keeps_bindE)

lemma keeps_attemptE [keeps_intros]: "keeps P m \<Longrightarrow> keeps P (attemptE m)"
  by (auto simp: keeps_def attemptE_def split: prod.splits)

lemma keeps_whenE [keeps_intros]: "keeps P m \<Longrightarrow> keeps P (whenE b m)"
  by (simp add: whenE_def keeps_returnE)

lemma keeps_finallyE [keeps_intros]: "keeps P m \<Longrightarrow> keeps P d \<Longrightarrow> keeps P (finallyE m d)"
  by (auto simp: keeps_def finallyE_def split: prod.splits)

lemma keeps_ignoreE [keeps_intros]: "keeps P m \<Longrightarrow> keeps P (ignoreE m)"
  unfolding ignoreE_def by (intro keeps_intros)

lemma keeps_map_err [keeps_intros]: "keeps P m \<Longrightarrow> keeps P (map_err g m)"
  by (auto simp: keeps_def map_err_def split: prod.splits)

lemma map_err_Inr: "map_err g m s = (Inr x, t) \<longleftrightarrow> m s = (Inr x, t)"
  by (cases "m s"; cases "fst (m s)") (auto simp: map_err_def)

lemma map_err_Inl: "map_err g m s = (Inl e, t) \<longleftrightarrow> (\<exists>e'. m s = (Inl e', t) \<and> e = g e')"
  by (cases "m s"; cases "fst (m s)") (auto simp: map_err_def)

lemma keeps_forE [keeps_intros]: "(\<And>x. keeps P (f x)) \<Longrightarrow> keeps P (forE xs f)"
  by (induction xs) (auto intro: keeps_intros)

lemma keeps_mapE [keeps_intros]: "(\<And>x. keeps P (f x)) \<Longrightarrow> keeps P (mapE f xs)"
  by (induction xs) (auto intro!: keeps_intros)

lemma keeps_if [keeps_intros]: "keeps P m \<Longrightarrow> keeps P k \<Longrightarrow> keeps P (if b then m else k)"
  by simp

lemma keeps_option [keeps_intros]:
  "keeps P m \<Longrightarrow> (\<And>x. keeps P (k x)) \<Longrightarrow> keeps P (case r of None \<Rightarrow> m | Some x \<Rightarrow> k x)"
  by (simp split: option.split)

lemma keeps_sum [keeps_intros]:
  "(\<And>e. keeps P (m e)) \<Longrightarrow> (\<And>x. keeps P (k x)) \<Longrightarrow>
   keeps P (case r of Inl e \<Rightarrow> m e | Inr x \<Rightarrow> k x)"
  by (simp split: sum.split)

lemma keeps_prod [keeps_intros]:
  "(\<And>x y. keeps P (k x y)) \<Longrightarrow> keeps P (case r of (x, y) \<Rightarrow> k x y)"
  by (simp split: prod.split)

lemma keeps_let [keeps_intros]: "(\<And>x. keeps P (k x)) \<Longrightarrow> keeps P (let x = v in k x)"
  by simp

lemma tripleI [intro?]:
  "(\<And>s x t. P s \<Longrightarrow> m s = (Inr x, t) \<Longrightarrow> Q x t) \<Longrightarrow>
   (\<And>s e t. P s \<Longrightarrow> m s = (Inl e, t) \<Longrightarrow> E e t) \<Longrightarrow> triple P m Q E"
  by (auto simp: triple_def split: prod.split sum.split)

lemma triple_Inr: "triple P m Q E \<Longrightarrow> P s \<Longrightarrow> m s = (Inr x, t) \<Longrightarrow> Q x t"
  by (force simp: triple_def)

lemma triple_Inl: "triple P m Q E \<Longrightarrow> P s \<Longrightarrow> m s = (Inl e, t) \<Longrightarrow> E e t"
  by (force simp: triple_def)

lemma triple_bindE:
  assumes "triple P m R E" and "\<And>x. triple (R x) (f x) Q E"
  shows "triple P (bindE m f) Q E"
  using assms by (fastforce simp: triple_def bindE_def split: prod.splits sum.splits)

lemma triple_thenE: "triple P m (\<lambda>_. R) E \<Longrightarrow> triple R k Q E \<Longrightarrow> triple P (thenE m k) Q E"
  unfolding thenE_def by (rule triple_bindE)

lemma triple_weaken:
  "triple P m Q E \<Longrightarrow> (\<And>s. P' s \<Longrightarrow> P s) \<Longrightarrow> (\<And>x s. Q x s \<Longrightarrow> Q' x s) \<Longrightarrow> (\<And>e s. E e s \<Longrightarrow> E' e s) \<Longrightarrow>
   triple P' m Q' E'"
  unfolding triple_def by (fastforce split: prod.splits sum.splits)

lemma triple_keeps: "keeps P m \<Longrightarrow> triple P m (\<lambda>_. P) (\<lambda>_. P)"
  by (auto simp: triple_def keeps_def split: prod.splits sum.splits)

lemma triple_pre: "keeps P m \<Longrightarrow> triple P m (\<lambda>_. P) (\<lambda>_ _. True)"
  by (auto simp: triple_def keeps_def split: prod.splits sum.splits)

lemma keeps_triple:
  assumes "triple P m Q E" "\<And>x s. Q x s \<Longrightarrow> P s" "\<And>e s. E e s \<Longrightarrow> P s"
  shows "keeps P m"
proof (rule keepsI)
  fix s
  assume "P s"
  moreover obtain r t where "m s = (r, t)" by fastforce
  ultimately show "P (snd (m s))" using assms by (cases r) (auto simp: triple_def)
qed

lemma triple_assume: "(C \<Longrightarrow> triple P m Q E) \<Longrightarrow> triple (\<lambda>s. P s \<and> C) m Q E"
  by (auto simp: triple_def)

lemma triple_returnE: "(\<And>s. P s \<Longrightarrow> Q x s) \<Longrightarrow> triple P (returnE x) Q E"
  by (simp add: triple_def returnE_def)

lemma triple_raiseE: "(\<And>s. P s \<Longrightarrow> E e s) \<Longrightarrow> triple P (raiseE e) Q E"
  by (simp add: triple_def raiseE_def)

lemma triple_liftE: "(\<And>x s. r = Inr x \<Longrightarrow> P s \<Longrightarrow> Q x s) \<Longrightarrow> (\<And>e s. r = Inl e \<Longrightarrow> P s \<Longrightarrow> E e s) \<Longrightarrow> triple P (liftE r) Q E"
  by (auto simp: triple_def liftE_def split: sum.split)

lemma triple_finallyE:
  assumes "triple P m Q E" and "\<And>x. keeps (Q x) d" and "\<And>e. keeps (E e) d"
  shows "triple P (finallyE m d) Q E"
  using assms by (auto simp: triple_def finallyE_def keeps_def split: prod.splits sum.splits)

lemma triple_attemptE:
  "triple P m Q E \<Longrightarrow> triple P (attemptE m) (\<lambda>r. case r of Inl e \<Rightarrow> E e | Inr x \<Rightarrow> Q x) F"
  by (auto simp: triple_def attemptE_def split: prod.splits sum.splits)

lemma bindE_Inr:
  "bindE m f s = (Inr y, t) \<longleftrightarrow> (\<exists>x u. m s = (Inr x, u) \<and> f x u = (Inr y, t))"
  by (auto simp: bindE_def split: prod.splits sum.splits)

lemma bindE_Inl:
  "bindE m f s = (Inl e, t) \<longleftrightarrow>
   m s = (Inl e, t) \<or> (\<exists>x u. m s = (Inr x, u) \<and> f x u = (Inl e, t))"
  by (auto simp: bindE_def split: prod.splits sum.splits)

lemma thenE_Inr:
  "thenE m k s = (Inr y, t) \<longleftrightarrow> (\<exists>x u. m s = (Inr x, u) \<and> k u = (Inr y, t))"
  by (simp add: thenE_def bindE_Inr)

text \<open>The value of a program whose first call is known.\<close>

lemma bindE_run: "m s = (Inr x, t) \<Longrightarrow> bindE m f s = f x t"
  by (simp add: bindE_def)

lemma thenE_run: "m s = (Inr x, t) \<Longrightarrow> thenE m k s = k t"
  by (simp add: thenE_def bindE_def)

lemma bindE_stop: "m s = (Inl e, t) \<Longrightarrow> bindE m f s = (Inl e, t)"
  by (simp add: bindE_def)

lemma attemptE_run: "m s = (r, t) \<Longrightarrow> attemptE m s = (Inr r, t)"
  by (simp add: attemptE_def)

lemmas runs = bindE_run thenE_run bindE_stop attemptE_run

section \<open>Lists\<close>

lemma list_all_filter_id [simp]: "(\<And>x. x \<in> set xs \<Longrightarrow> P x) \<Longrightarrow> filter P xs = xs"
  by (induction xs) auto

lemma distinct_map_filter [intro]: "distinct (map f xs) \<Longrightarrow> distinct (map f (filter P xs))"
  by (induction xs) auto

lemma map_update_same [simp]:
  "(\<And>x. x \<in> set xs \<Longrightarrow> g (f x) = g x) \<Longrightarrow> map (\<lambda>x. g (f x)) xs = map g xs"
  by (induction xs) auto

lemma filter_key_unique: "distinct (map f xs) \<Longrightarrow> r \<in> set xs \<Longrightarrow> filter (\<lambda>x. f x = f r) xs = [r]"
  by (induction xs) (auto simp: filter_empty_conv image_iff)

lemma sort_key_snoc:
  assumes "\<And>x. x \<in> set xs \<Longrightarrow> f x \<le> f y"
  shows "sort_key f (xs @ [y]) = sort_key f xs @ [y]"
proof -
  have insort: "insort_key f x (zs @ [y]) = insort_key f x zs @ [y]" if "f x \<le> f y" for x zs
    using that by (induction zs) auto
  have "foldr (insort_key f) xs (zs @ [y]) = foldr (insort_key f) xs zs @ [y]" for zs
    using assms by (induction xs) (auto simp: insort)
  from this [of "[]"] show ?thesis by (simp add: sort_key_def)
qed

end
