(* ===== verification/Go_Strings.thy ===== *)
theory Go_Strings
  imports Ncps_Prelude "HOL-Library.Char_ord" "HOL-Library.List_Lexorder" "HOL-Library.Sublist"
begin

text \<open>
  The functions of Go's standard library that the packages below call on strings:
  \<open>strings.Cut\<close>, \<open>strings.Index\<close>, \<open>strings.Contains\<close>, \<open>strings.HasPrefix\<close>,
  \<open>strings.TrimSuffix\<close>, \<open>strconv.ParseUint\<close>, \<open>filepath.Base\<close>, \<open>filepath.Clean\<close>,
  \<open>filepath.Join\<close>, \<open>url.QueryEscape\<close>, \<open>url.QueryUnescape\<close>, \<open>url.ParseQuery\<close> and
  \<open>url.Values.Encode\<close>. A Go string is a sequence of bytes, here a list of \<open>char\<close>.
\<close>

section \<open>Package strings\<close>

text \<open>The index of the first occurrence of \<open>sep\<close>; \<open>None\<close> is Go's \<open>-1\<close>.\<close>

fun str_index :: "string \<Rightarrow> string \<Rightarrow> nat option" where
  "str_index s sep =
     (if prefix sep s then Some 0
      else (case s of [] \<Rightarrow> None | _ # r \<Rightarrow> map_option Suc (str_index r sep)))"

declare str_index.simps [simp del]

definition str_contains :: "string \<Rightarrow> string \<Rightarrow> bool" where
  "str_contains s sep \<longleftrightarrow> str_index s sep \<noteq> None"

definition str_cut :: "string \<Rightarrow> string \<Rightarrow> string \<times> string \<times> bool" where
  "str_cut s sep =
     (case str_index s sep of
        None \<Rightarrow> (s, [], False)
      | Some i \<Rightarrow> (take i s, drop (i + length sep) s, True))"

definition trim_suffix :: "string \<Rightarrow> string \<Rightarrow> string" where
  "trim_suffix s suf = (if suffix suf s then take (length s - length suf) s else s)"

text \<open>Splitting at every occurrence of one byte.\<close>

fun split_on :: "char \<Rightarrow> string \<Rightarrow> string list" where
  "split_on c [] = [[]]"
| "split_on c (x # xs) =
     (if x = c then [] # split_on c xs
      else (case split_on c xs of [] \<Rightarrow> [[x]] | w # ws \<Rightarrow> (x # w) # ws))"

fun join_with :: "string \<Rightarrow> string list \<Rightarrow> string" where
  "join_with sep [] = []"
| "join_with sep [w] = w"
| "join_with sep (w # ws) = w @ sep @ join_with sep ws"

lemma split_on_nonempty [simp]: "split_on c s \<noteq> []"
  by (induction s) (auto split: list.split)

lemma split_on_plain: "c \<notin> set w \<Longrightarrow> split_on c w = [w]"
  by (induction w) auto

lemma split_on_append: "c \<notin> set w \<Longrightarrow> split_on c (w @ c # s) = w # split_on c s"
  by (induction w) auto

lemma split_on_concat: "split_on c (d @ c # f) = split_on c d @ split_on c f"
  by (induction d) (auto split: list.split simp: append_eq_Cons_conv)

lemma last_component_inj:
  assumes "(c :: char) \<notin> set f" and "c \<notin> set g" and "a @ c # f = b @ c # g"
  shows "f = g"
  using arg_cong [OF assms(3), of "\<lambda>s. last (split_on c s)"] assms(1,2)
  by (simp add: split_on_concat split_on_plain)

lemma split_on_no_sep: "w \<in> set (split_on c s) \<Longrightarrow> c \<notin> set w"
  by (induction s arbitrary: w) (auto split: if_splits list.splits)

lemma split_join:
  "ws \<noteq> [] \<Longrightarrow> (\<And>w. w \<in> set ws \<Longrightarrow> c \<notin> set w) \<Longrightarrow> split_on c (join_with [c] ws) = ws"
proof (induction "[c]" ws rule: join_with.induct)
  case (2 w)
  then show ?case by (simp add: split_on_plain)
next
  case (3 w v vs)
  then show ?case by (simp add: split_on_append)
qed simp

lemma str_index_append: "c \<notin> set w \<Longrightarrow> str_index (w @ c # s) [c] = Some (length w)"
  by (induction w) (auto simp: str_index.simps)

lemma str_index_none: "c \<notin> set w \<Longrightarrow> str_index w [c] = None"
  by (induction w) (auto simp: str_index.simps)

lemma str_cut_append: "c \<notin> set w \<Longrightarrow> str_cut (w @ c # s) [c] = (w, s, True)"
  by (simp add: str_cut_def str_index_append)

lemma str_cut_none: "c \<notin> set w \<Longrightarrow> str_cut w [c] = (w, [], False)"
  by (simp add: str_cut_def str_index_none)

lemma str_index_prefix: "str_index s sep = Some i \<Longrightarrow> prefix (take i s @ sep) s"
proof (induction s arbitrary: i)
  case Nil
  then show ?case by (subst (asm) str_index.simps) (auto split: if_splits)
next
  case (Cons x s)
  from Cons.prems show ?case
    by (subst (asm) str_index.simps) (auto split: if_splits dest: Cons.IH)
qed

lemma str_index_skip:
  "hd sep \<notin> set w \<Longrightarrow> sep \<noteq> [] \<Longrightarrow> str_index (w @ sep @ s) sep = Some (length w)"
proof (induction w)
  case Nil
  then show ?case by (simp add: str_index.simps)
next
  case (Cons x w)
  then have "\<not> prefix sep (x # w @ sep @ s)"
    by (cases sep) auto
  with Cons show ?case by (subst str_index.simps) simp
qed

lemma str_index_absent: "sep \<noteq> [] \<Longrightarrow> hd sep \<notin> set w \<Longrightarrow> str_index w sep = None"
  by (induction w) (auto simp: str_index.simps prefix_Cons)

section \<open>Package strconv\<close>

definition is_digit :: "char \<Rightarrow> bool" where
  "is_digit c \<longleftrightarrow> CHR ''0'' \<le> c \<and> c \<le> CHR ''9''"

definition digit_val :: "char \<Rightarrow> nat" where
  "digit_val c = of_char c - 48"

definition digits_val :: "string \<Rightarrow> nat" where
  "digits_val s = foldl (\<lambda>n c. 10 * n + digit_val c) 0 s"

text \<open>\<open>strconv.ParseUint(s, 10, 64)\<close>: no sign, no underscore, at most 64 bits. A bit size
  of 0 means the machine word, which is 64 bits on the supported platforms.\<close>

definition parse_uint :: "string \<Rightarrow> 64 word result" where
  "parse_uint s =
     (if s = [] \<or> \<not> list_all is_digit s then Inl ErrNumSyntax
      else if digits_val s < 2 ^ 64 then Inr (of_nat (digits_val s)) else Inl ErrNumRange)"

lemma parse_uint_unat: "parse_uint s = Inr n \<Longrightarrow> unat n = digits_val s"
  by (auto simp: parse_uint_def unat_of_nat split: if_splits)

text \<open>The decimal text of a number (\<open>strconv.FormatUint\<close>, \<open>%d\<close>).\<close>

definition digit_char :: "nat \<Rightarrow> char" where
  "digit_char d = char_of (48 + d)"

fun show_nat :: "nat \<Rightarrow> string" where
  "show_nat n = (if n < 10 then [digit_char n] else show_nat (n div 10) @ [digit_char (n mod 10)])"

declare show_nat.simps [simp del]

lemma digit_char_ok: "d < 10 \<Longrightarrow> is_digit (digit_char d) \<and> digit_val (digit_char d) = d"
  by (auto simp: digit_char_def is_digit_def digit_val_def less_eq_char_def)

lemma show_nat_digits: "show_nat n \<noteq> [] \<and> list_all is_digit (show_nat n)"
  by (induction n rule: show_nat.induct) (subst (1 2) show_nat.simps, auto simp: digit_char_ok)

lemma digits_val_snoc: "digits_val (s @ [c]) = 10 * digits_val s + digit_val c"
  by (simp add: digits_val_def)

lemma digits_val_show: "digits_val (show_nat n) = n"
proof (induction n rule: show_nat.induct)
  case (1 n)
  then show ?case
    by (subst show_nat.simps) (auto simp: digits_val_snoc digit_char_ok, simp add: digits_val_def digit_char_ok)
qed

lemma parse_uint_show: "n < 2 ^ 64 \<Longrightarrow> parse_uint (show_nat n) = Inr (of_nat n)"
  using show_nat_digits [of n] by (simp add: parse_uint_def digits_val_show)

lemma parse_uint_show_word: "parse_uint (show_nat (unat n)) = Inr n"
proof -
  have "unat n < 2 ^ 64" using unsigned_less [of n, where ?'a = nat] by simp
  from parse_uint_show [OF this] show ?thesis by simp
qed

lemma show_nat_length: "n < 10 ^ Suc k \<Longrightarrow> length (show_nat n) \<le> Suc k"
proof (induction k arbitrary: n)
  case (Suc k)
  then have "n div 10 < 10 ^ Suc k" by (simp add: less_mult_imp_div_less)
  from Suc.IH [OF this] show ?case by (subst show_nat.simps) simp
qed (simp add: show_nat.simps)

lemma show_nat_word_length: "length (show_nat (unat (n :: 64 word))) \<le> 20"
proof -
  have "unat n < 2 ^ 64" using unsigned_less [of n, where ?'a = nat] by simp
  then have "unat n < 10 ^ Suc 19" by simp
  from show_nat_length [OF this] show ?thesis by simp
qed

section \<open>Package path/filepath\<close>

fun strip_trailing :: "char \<Rightarrow> string \<Rightarrow> string" where
  "strip_trailing c s = (if s \<noteq> [] \<and> last s = c then strip_trailing c (butlast s) else s)"

declare strip_trailing.simps [simp del]

definition path_base :: "string \<Rightarrow> string" where
  "path_base p =
     (if p = [] then ''.''
      else (let q = strip_trailing (CHR ''/'') p
            in if q = [] then ''/'' else last (split_on (CHR ''/'') q)))"

fun clean_comps :: "bool \<Rightarrow> string list \<Rightarrow> string list \<Rightarrow> string list" where
  "clean_comps rooted acc [] = rev acc"
| "clean_comps rooted acc (c # cs) =
     (if c = [] \<or> c = ''.'' then clean_comps rooted acc cs
      else if c = ''..'' then
        (case acc of
           a # as \<Rightarrow> if a = ''..'' then clean_comps rooted (c # acc) cs
                     else clean_comps rooted as cs
         | [] \<Rightarrow> if rooted then clean_comps rooted [] cs else clean_comps rooted [c] cs)
      else clean_comps rooted (c # acc) cs)"

definition path_clean :: "string \<Rightarrow> string" where
  "path_clean p =
     (let rooted = prefix ''/'' p;
          r = join_with ''/'' (clean_comps rooted [] (split_on (CHR ''/'') p))
      in if rooted then ''/'' @ r else if r = [] then ''.'' else r)"

definition path_join :: "string list \<Rightarrow> string" where
  "path_join ps =
     (let qs = filter (\<lambda>p. p \<noteq> []) ps in if qs = [] then [] else path_clean (join_with ''/'' qs))"

definition plain_comp :: "string \<Rightarrow> bool" where
  "plain_comp c \<longleftrightarrow> c \<noteq> [] \<and> c \<noteq> ''.'' \<and> c \<noteq> ''..'' \<and> CHR ''/'' \<notin> set c"

lemma clean_comps_plain:
  "list_all plain_comp cs \<Longrightarrow> clean_comps rooted acc cs = rev acc @ cs"
  by (induction cs arbitrary: acc) (auto simp: plain_comp_def)

lemma join_with_nonempty: "ws \<noteq> [] \<Longrightarrow> list_all (\<lambda>w. w \<noteq> []) ws \<Longrightarrow> join_with sep ws \<noteq> []"
  by (induction sep ws rule: join_with.induct) auto

lemma path_join_plain:
  assumes "cs \<noteq> []" and "list_all plain_comp cs"
  shows "path_join cs = join_with ''/'' cs"
proof -
  have ne: "list_all (\<lambda>w. w \<noteq> []) cs" and nosep: "\<And>w. w \<in> set cs \<Longrightarrow> CHR ''/'' \<notin> set w"
    using assms(2) by (auto simp: list_all_iff plain_comp_def)
  have flt: "filter (\<lambda>p. p \<noteq> []) cs = cs"
    using ne by (auto simp: list_all_iff)
  have split: "split_on (CHR ''/'') (join_with ''/'' cs) = cs"
    using assms(1) nosep by (rule split_join)
  obtain c ds where cs: "cs = c # ds" using assms(1) by (cases cs) auto
  have "\<not> prefix ''/'' (join_with ''/'' cs)"
    using ne nosep [of c] by (cases ds; cases c) (auto simp: cs)
  with assms flt split ne show ?thesis
    by (simp add: path_join_def path_clean_def Let_def clean_comps_plain join_with_nonempty)
qed

lemma strip_trailing_id: "s = [] \<or> last s \<noteq> c \<Longrightarrow> strip_trailing c s = s"
  by (subst strip_trailing.simps) auto

lemma path_base_plain:
  assumes "CHR ''/'' \<notin> set f" and "f \<noteq> []"
  shows "path_base (d @ ''/'' @ f) = f" and "path_base f = f"
proof -
  have l: "last f \<noteq> CHR ''/''" using assms by (metis last_in_set)
  have *: "last (split_on (CHR ''/'') (d @ CHR ''/'' # f)) = f"
    using assms by (simp add: split_on_concat split_on_plain)
  show "path_base (d @ ''/'' @ f) = f"
    using l assms * by (simp add: path_base_def strip_trailing_id Let_def)
  show "path_base f = f"
    using l assms by (simp add: path_base_def strip_trailing_id Let_def split_on_plain)
qed

section \<open>Package net/url: query strings\<close>

text \<open>
  \<open>url.Values\<close> is a Go map from a key to a list of values, here an association list.
  \<open>Encode\<close> sorts the keys, so the order of the list has no influence on what is printed.
\<close>

type_synonym url_values = "(string \<times> string list) list"

definition upper_hex :: "nat \<Rightarrow> char" where
  "upper_hex n = ''0123456789ABCDEF'' ! n"

definition unhex :: "char \<Rightarrow> nat option" where
  "unhex c =
     (if CHR ''0'' \<le> c \<and> c \<le> CHR ''9'' then Some (of_char c - 48)
      else if CHR ''a'' \<le> c \<and> c \<le> CHR ''f'' then Some (of_char c - 87)
      else if CHR ''A'' \<le> c \<and> c \<le> CHR ''F'' then Some (of_char c - 55)
      else None)"

definition query_unreserved :: "char \<Rightarrow> bool" where
  "query_unreserved c \<longleftrightarrow>
     list_ex (\<lambda>(lo, hi). lo \<le> c \<and> c \<le> hi)
       [(CHR ''0'', CHR ''9''), (CHR ''A'', CHR ''Z''), (CHR ''a'', CHR ''z'')] \<or> c \<in> set ''-_.~''"

definition escape_char :: "char \<Rightarrow> string" where
  "escape_char c =
     (if query_unreserved c then [c]
      else if c = CHR '' '' then ''+''
      else [CHR ''%'', upper_hex (of_char c div 16), upper_hex (of_char c mod 16)])"

definition query_escape :: "string \<Rightarrow> string" where
  "query_escape s = concat (map escape_char s)"

fun query_unescape :: "string \<Rightarrow> string result" where
  "query_unescape [] = Inr []"
| "query_unescape (c # s) =
     (if c = CHR ''%'' then
        (case s of
           h # l # r \<Rightarrow>
             (case (unhex h, unhex l) of
                (Some x, Some y) \<Rightarrow>
                  map_sum id (\<lambda>t. char_of (16 * x + y) # t) (query_unescape r)
              | _ \<Rightarrow> Inl ErrQuery)
         | _ \<Rightarrow> Inl ErrQuery)
      else map_sum id (\<lambda>t. (if c = CHR ''+'' then CHR '' '' else c) # t) (query_unescape s))"

fun values_add :: "string \<Rightarrow> string \<Rightarrow> url_values \<Rightarrow> url_values" where
  "values_add k v [] = [(k, [v])]"
| "values_add k v ((k', vs) # m) =
     (if k = k' then (k', vs @ [v]) # m else (k', vs) # values_add k v m)"

text \<open>
  The loop of \<open>url.ParseQuery\<close> over the pieces between ampersands. A malformed piece is
  skipped and the first error is remembered; \<open>nar.ParseURL\<close> discards the values when there is one.
\<close>

fun parse_query_loop :: "string list \<Rightarrow> url_values \<Rightarrow> bool \<Rightarrow> url_values \<times> bool" where
  "parse_query_loop [] m bad = (m, bad)"
| "parse_query_loop (p # ps) m bad =
     (if str_contains p '';'' then parse_query_loop ps m True
      else if p = [] then parse_query_loop ps m bad
      else (case str_cut p ''='' of
              (k, v, _) \<Rightarrow>
                (case (query_unescape k, query_unescape v) of
                   (Inr k', Inr v') \<Rightarrow> parse_query_loop ps (values_add k' v' m) bad
                 | _ \<Rightarrow> parse_query_loop ps m True)))"

definition parse_query :: "string \<Rightarrow> url_values result" where
  "parse_query q =
     (case parse_query_loop (split_on (CHR ''&'') q) [] False of
        (m, bad) \<Rightarrow> if bad then Inl ErrQuery else Inr m)"

definition encode_pairs :: "url_values \<Rightarrow> string list" where
  "encode_pairs m =
     concat (map (\<lambda>(k, vs). map (\<lambda>v. query_escape k @ ''='' @ query_escape v) vs) m)"

definition values_encode :: "url_values \<Rightarrow> string" where
  "values_encode m = join_with ''&'' (encode_pairs (sort_key fst m))"

section \<open>Encoding and parsing a query are inverse\<close>

lemma unhex_upper_hex: "n < 16 \<Longrightarrow> unhex (upper_hex n) = Some n"
proof -
  assume "n < 16"
  moreover have "\<forall>n \<in> set [0..<16]. unhex (upper_hex n) = Some n"
    by code_simp
  ultimately show ?thesis by simp
qed

lemma upper_hex_no_sep: "n < 16 \<Longrightarrow> upper_hex n \<notin> {CHR ''&'', CHR '';'', CHR ''='', CHR ''?''}"
proof -
  assume "n < 16"
  moreover have "\<forall>n \<in> set [0..<16]. upper_hex n \<notin> {CHR ''&'', CHR '';'', CHR ''='', CHR ''?''}"
    by code_simp
  ultimately show ?thesis by simp
qed

lemma unreserved_no_sep: "query_unreserved c \<Longrightarrow> c \<notin> {CHR ''&'', CHR '';'', CHR ''='', CHR ''?''}"
  by (auto simp: query_unreserved_def less_eq_char_def)

lemma nibbles: "of_char c div 16 < (16::nat)" "of_char c mod 16 < (16::nat)"
  using nat_of_char_less_256 [of c] by (simp_all add: less_mult_imp_div_less)

lemma escape_char_no_sep:
  "list_all (\<lambda>x. x \<notin> {CHR ''&'', CHR '';'', CHR ''='', CHR ''?''}) (escape_char c)"
  using unreserved_no_sep [of c] upper_hex_no_sep [OF nibbles(1) [of c]]
    upper_hex_no_sep [OF nibbles(2) [of c]]
  by (simp add: escape_char_def)

lemma query_escape_no_sep:
  "set (query_escape s) \<inter> {CHR ''&'', CHR '';'', CHR ''='', CHR ''?''} = {}"
  using escape_char_no_sep by (fastforce simp: query_escape_def list_all_iff)

lemma query_unescape_escape: "query_unescape (query_escape s) = Inr s"
proof (induction s)
  case (Cons c s)
  have r: "char_of (16 * (of_char c div 16) + of_char c mod 16 :: nat) = c"
    by simp
  have p: "query_unreserved c \<Longrightarrow> c \<noteq> CHR ''%'' \<and> c \<noteq> CHR ''+''"
    by (auto simp: query_unreserved_def less_eq_char_def)
  have s: "query_escape (c # s) = escape_char c @ query_escape s"
    by (simp add: query_escape_def)
  from Cons p show ?case
    by (simp add: s escape_char_def unhex_upper_hex nibbles r del: mult_div_mod_eq)
qed (simp add: query_escape_def)

text \<open>A canonical map of values: keys sorted and distinct, no key without a value.\<close>

definition canonical_values :: "url_values \<Rightarrow> bool" where
  "canonical_values m \<longleftrightarrow> sorted (map fst m) \<and> distinct (map fst m) \<and> list_all (\<lambda>(_, vs). vs \<noteq> []) m"

abbreviation encode_pair :: "string \<Rightarrow> string \<Rightarrow> string" where
  "encode_pair k v \<equiv> query_escape k @ ''='' @ query_escape v"

lemma encode_pair_plain:
  "CHR ''&'' \<notin> set (encode_pair k v)" "CHR ''?'' \<notin> set (encode_pair k v)"
  "\<not> str_contains (encode_pair k v) '';''" "str_cut (encode_pair k v) ''='' = (query_escape k, query_escape v, True)"
proof -
  note ns = query_escape_no_sep [of k] query_escape_no_sep [of v]
  show "CHR ''&'' \<notin> set (encode_pair k v)" "CHR ''?'' \<notin> set (encode_pair k v)"
    using ns by auto
  have "CHR '';'' \<notin> set (encode_pair k v)" using ns by auto
  then show "\<not> str_contains (encode_pair k v) '';''"
    by (simp add: str_contains_def str_index_none)
  show "str_cut (encode_pair k v) ''='' = (query_escape k, query_escape v, True)"
    using ns str_cut_append [of "CHR ''=''" "query_escape k" "query_escape v"] by auto
qed

lemma parse_query_loop_pair:
  "parse_query_loop (encode_pair k v # ps) m bad = parse_query_loop ps (values_add k v m) bad"
  by (simp add: encode_pair_plain [simplified] query_unescape_escape)

lemma values_add_last:
  "k \<notin> fst ` set m \<Longrightarrow> values_add k v (m @ [(k, vs)]) = m @ [(k, vs @ [v])]"
  by (induction k v m rule: values_add.induct) auto

lemma values_add_new: "k \<notin> fst ` set m \<Longrightarrow> values_add k v m = m @ [(k, [v])]"
  by (induction k v m rule: values_add.induct) auto

lemma parse_query_loop_key:
  "k \<notin> fst ` set m \<Longrightarrow>
   parse_query_loop (map (encode_pair k) ws @ ps) (m @ [(k, vs)]) bad =
   parse_query_loop ps (m @ [(k, vs @ ws)]) bad"
proof (induction ws arbitrary: vs)
  case (Cons w ws)
  then show ?case
    using parse_query_loop_pair [of k w "map (encode_pair k) ws @ ps" "m @ [(k, vs)]" bad]
    by (simp add: values_add_last del: parse_query_loop.simps)
qed simp

lemma parse_query_loop_encode:
  "distinct (map fst (m @ n)) \<Longrightarrow> list_all (\<lambda>(_, vs). vs \<noteq> []) n \<Longrightarrow>
   parse_query_loop (encode_pairs n) m bad = (m @ n, bad)"
proof (induction n arbitrary: m)
  case Nil
  then show ?case by (simp add: encode_pairs_def)
next
  case (Cons a n)
  obtain k v vs where a: "a = (k, v # vs)"
    using Cons.prems(2) by (cases a) (auto simp: neq_Nil_conv)
  have k: "k \<notin> fst ` set m" using Cons.prems(1) a by auto
  have "parse_query_loop (encode_pairs (a # n)) m bad
      = parse_query_loop (map (encode_pair k) vs @ encode_pairs n) (m @ [(k, [v])]) bad"
    using parse_query_loop_pair [of k v "map (encode_pair k) vs @ encode_pairs n" m bad] k
    by (simp add: encode_pairs_def a values_add_new del: parse_query_loop.simps)
  also have "\<dots> = parse_query_loop (encode_pairs n) (m @ [(k, v # vs)]) bad"
    using parse_query_loop_key [OF k, of vs "encode_pairs n" "[v]" bad] by simp
  also have "\<dots> = ((m @ [(k, v # vs)]) @ n, bad)"
    using Cons.prems by (intro Cons.IH) (auto simp: a)
  finally show ?case by (simp add: a)
qed

lemma encode_pairs_plain: "p \<in> set (encode_pairs m) \<Longrightarrow> CHR ''&'' \<notin> set p \<and> CHR ''?'' \<notin> set p"
  using encode_pair_plain(1,2) by (auto simp: encode_pairs_def)

lemma sort_key_canonical: "canonical_values m \<Longrightarrow> sort_key fst m = m"
  unfolding canonical_values_def by (simp add: sorted_sort_id sort_key_id_if_sorted)

lemma parse_query_encode:
  assumes "canonical_values m"
  shows "parse_query (values_encode m) = Inr m"
proof (cases "encode_pairs m = []")
  case True
  with assms have "m = []"
    by (cases m) (auto simp: encode_pairs_def canonical_values_def)
  then show ?thesis
    by (simp add: values_encode_def parse_query_def encode_pairs_def str_contains_def str_index.simps)
next
  case False
  then have "split_on (CHR ''&'') (join_with ''&'' (encode_pairs m)) = encode_pairs m"
    using encode_pairs_plain by (intro split_join) auto
  moreover have "parse_query_loop (encode_pairs m) [] False = ([] @ m, False)"
    using assms by (intro parse_query_loop_encode) (auto simp: canonical_values_def)
  ultimately show ?thesis
    using assms by (simp add: values_encode_def parse_query_def sort_key_canonical)
qed

end
