(* ===== verification/Nix_Cache_Info.thy ===== *)
theory Nix_Cache_Info
  imports Go_Strings
begin

text \<open>
  Package \<open>pkg/nixcacheinfo\<close>: the parser of the \<open>nix-cache-info\<close> file an upstream
  cache serves. The parser reads lines through \<open>bufio.Scanner\<close>, whose behaviour on long
  lines and carriage returns is part of the model.
\<close>

record nix_cache_info =
  nci_StoreDir :: string
  nci_WantMassQuery :: "64 word"
  nci_Priority :: "64 word"

definition empty_nci :: nix_cache_info where
  "empty_nci = \<lparr>nci_StoreDir = [], nci_WantMassQuery = 0, nci_Priority = 0\<rparr>"

definition splitOnce :: "string \<Rightarrow> string \<Rightarrow> (string \<times> string) result" where
  "splitOnce s sep =
     (case str_index s sep of
        None \<Rightarrow> Inl ErrSplitNone
      | Some idx \<Rightarrow>
          if str_contains (drop (idx + 1) s) sep then Inl ErrSplitMultiple
          else Inr (take idx s, drop (idx + length sep) s))"

text \<open>
  \<open>bufio.Scanner\<close> with \<open>ScanLines\<close>: the pieces between newlines, without an empty last piece. A line of
  64 KiB or more does not fit the buffer and stops the scan with an error; the lines
  before it are delivered. One trailing carriage return is dropped.
\<close>

definition max_token :: nat where
  "max_token = 65536"

definition raw_lines :: "string \<Rightarrow> string list" where
  "raw_lines s = (let ls = split_on (CHR ''\<newline>'') s in if last ls = [] then butlast ls else ls)"

definition drop_cr :: "string \<Rightarrow> string" where
  "drop_cr l = (if l \<noteq> [] \<and> last l = CHR 0x0D then butlast l else l)"

definition parse_line :: "string \<Rightarrow> nix_cache_info \<Rightarrow> nix_cache_info result" where
  "parse_line line nci =
     (if line = [] then Inr nci
      else rbind (splitOnce line '': '') (\<lambda>(k, v).
        if k = ''StoreDir'' then Inr (nci\<lparr>nci_StoreDir := v\<rparr>)
        else if k = ''WantMassQuery'' then
          rbind (parse_uint v) (\<lambda>n. Inr (nci\<lparr>nci_WantMassQuery := n\<rparr>))
        else if k = ''Priority'' then rbind (parse_uint v) (\<lambda>n. Inr (nci\<lparr>nci_Priority := n\<rparr>))
        else Inl ErrUnknownKey))"

primrec parse_lines :: "string list \<Rightarrow> nix_cache_info \<Rightarrow> nix_cache_info result" where
  "parse_lines [] nci = Inr nci"
| "parse_lines (l # ls) nci =
     (if max_token \<le> length l then Inl ErrTokenTooLong
      else rbind (parse_line (drop_cr l) nci) (parse_lines ls))"

definition nci_Parse :: "string \<Rightarrow> nix_cache_info result" where
  "nci_Parse s = parse_lines (raw_lines s) empty_nci"

section \<open>Splitting\<close>

lemma str_index_first:
  "str_index s sep = Some i \<Longrightarrow> j < i \<Longrightarrow> \<not> prefix sep (drop j s)"
proof (induction s arbitrary: i j)
  case Nil
  then show ?case by (subst (asm) str_index.simps) (auto split: if_splits)
next
  case (Cons x s)
  from Cons.prems show ?case
    by (subst (asm) str_index.simps, cases j) (auto split: if_splits dest: Cons.IH)
qed

lemma str_index_None: "str_index s sep = None \<Longrightarrow> \<not> prefix sep (drop j s)"
proof (induction s arbitrary: j)
  case Nil
  then show ?case by (subst (asm) str_index.simps) (auto split: if_splits)
next
  case (Cons x s)
  from Cons.prems show ?case
    by (subst (asm) str_index.simps, cases j) (auto split: if_splits dest: Cons.IH)
qed

lemma str_index_drop: "str_index s sep = Some i \<Longrightarrow> prefix sep (drop i s)"
proof (induction s arbitrary: i)
  case Nil
  then show ?case by (subst (asm) str_index.simps) (auto split: if_splits)
next
  case (Cons x s)
  from Cons.prems show ?case
    by (subst (asm) str_index.simps) (auto split: if_splits dest: Cons.IH)
qed

text \<open>\<open>splitOnce\<close> succeeds on the strings with exactly one occurrence of the separator (counting
  overlapping ones), and the two parts around the separator give the string back.\<close>

theorem splitOnce_spec:
  assumes "splitOnce s sep = Inr (k, v)"
  shows "s = k @ sep @ v \<and> {i. i \<le> length s \<and> prefix sep (drop i s)} = {length k}"
proof -
  obtain i where i: "str_index s sep = Some i" "\<not> str_contains (drop (i + 1) s) sep"
    and kv: "k = take i s" "v = drop (i + length sep) s"
    using assms by (auto simp: splitOnce_def split: option.splits if_splits)
  have pre: "prefix sep (drop i s)" by (rule str_index_drop [OF i(1)])
  then obtain r where r: "drop i s = sep @ r" by (auto simp: prefix_def)
  then have v: "v = r" using kv by (metis add.commute append_eq_conv_conj drop_drop)
  have s: "s = k @ sep @ v" using kv(1) r v by (metis append_take_drop_id)
  have le: "i \<le> length s"
  proof (rule ccontr)
    assume "\<not> i \<le> length s"
    then have "drop (length s) s = drop i s" "length s < i" by auto
    with pre str_index_first [OF i(1), of "length s"] show False by simp
  qed
  have after: "\<not> prefix sep (drop j s)" if "i < j" for j
  proof -
    have "str_index (drop (i + 1) s) sep = None" using i(2) by (simp add: str_contains_def)
    from str_index_None [OF this, of "j - (i + 1)"] that show ?thesis by (simp add: add.commute)
  qed
  have k: "length k = i" using kv(1) le by simp
  have "x = i" if "prefix sep (drop x s)" for x
    using that after [of x] str_index_first [OF i(1), of x] by (meson linorder_neqE_nat)
  with pre le k have "{i. i \<le> length s \<and> prefix sep (drop i s)} = {length k}" by blast
  with s show ?thesis by blast
qed

section \<open>Printing and parsing\<close>

text \<open>The text of a cache info, a line per field.\<close>

definition nci_print :: "nix_cache_info \<Rightarrow> string" where
  "nci_print nci =
     ''StoreDir: '' @ nci_StoreDir nci @ ''\<newline>'' @
     ''WantMassQuery: '' @ show_nat (unat (nci_WantMassQuery nci)) @ ''\<newline>'' @
     ''Priority: '' @ show_nat (unat (nci_Priority nci))"

lemma splitOnce_line:
  assumes "CHR '':'' \<notin> set k" and "CHR '':'' \<notin> set v"
  shows "splitOnce (k @ '': '' @ v) '': '' = Inr (k, v)"
proof -
  have "str_index (k @ '': '' @ v) '': '' = Some (length k)"
    using assms(1) str_index_skip [of "'': ''" k v] by simp
  moreover have "str_index (CHR '' '' # v) '': '' = None"
    using assms(2) by (intro str_index_absent) auto
  ultimately show ?thesis by (simp add: splitOnce_def str_contains_def)
qed

text \<open>The text of a cache info parses back to it, when the store directory is an ordinary path.\<close>

theorem nci_Parse_print:
  assumes "set (nci_StoreDir nci) \<inter> {CHR ''\<newline>'', CHR 0x0D, CHR '':''} = {}"
    and "length (nci_StoreDir nci) < 65000"
  shows "nci_Parse (nci_print nci) = Inr nci"
proof -
  define a where "a = ''StoreDir'' @ '': '' @ nci_StoreDir nci"
  define b where "b = ''WantMassQuery'' @ '': '' @ show_nat (unat (nci_WantMassQuery nci))"
  define c where "c = ''Priority'' @ '': '' @ show_nat (unat (nci_Priority nci))"
  have d: "set (show_nat n) \<inter> {CHR ''\<newline>'', CHR 0x0D, CHR '':''} = {}" for n
    using show_nat_digits [of n] by (auto simp: list_all_iff is_digit_def less_eq_char_def)
  have nl: "x \<notin> set w" if "x \<in> {CHR ''\<newline>'', CHR 0x0D}" "w \<in> {a, b, c}" for x w
    using that assms(1) d by (auto simp: a_def b_def c_def)
  have "nci_print nci = a @ CHR ''\<newline>'' # b @ CHR ''\<newline>'' # c"
    by (simp add: nci_print_def a_def b_def c_def)
  then have "split_on (CHR ''\<newline>'') (nci_print nci) = [a, b, c]"
    using nl by (simp add: split_on_append split_on_plain)
  moreover have "c \<noteq> []" by (simp add: c_def)
  ultimately have lines: "raw_lines (nci_print nci) = [a, b, c]"
    by (simp add: raw_lines_def)
  have cr: "drop_cr w = w" if "w \<in> {a, b, c}" for w
    using nl [of "CHR 0x0D" w] that last_in_set [of w] by (auto simp: drop_cr_def simp del: last_in_set)
  have la: "length a < max_token" "length b < max_token" "length c < max_token"
    using assms(2) show_nat_word_length [of "nci_WantMassQuery nci"] show_nat_word_length [of "nci_Priority nci"]
    by (simp_all add: a_def b_def c_def max_token_def)
  have pa: "parse_line a n = Inr (n\<lparr>nci_StoreDir := nci_StoreDir nci\<rparr>)" for n
    using assms(1) splitOnce_line [of "''StoreDir''" "nci_StoreDir nci"] by (simp add: parse_line_def a_def)
  have pb: "parse_line b n = Inr (n\<lparr>nci_WantMassQuery := nci_WantMassQuery nci\<rparr>)" for n
    using d splitOnce_line [of "''WantMassQuery''" "show_nat (unat (nci_WantMassQuery nci))"]
    by (simp add: parse_line_def b_def parse_uint_show_word)
  have pc: "parse_line c n = Inr (n\<lparr>nci_Priority := nci_Priority nci\<rparr>)" for n
    using d splitOnce_line [of "''Priority''" "show_nat (unat (nci_Priority nci))"]
    by (simp add: parse_line_def c_def parse_uint_show_word)
  show ?thesis
    using la by (simp add: nci_Parse_def lines cr pa pb pc empty_nci_def not_le)
qed

section \<open>Examples\<close>

theorem splitOnce_spec_witness:
  "''a: b'' = ''a'' @ '': '' @ ''b'' \<and> {i. i \<le> length ''a: b'' \<and> prefix '': '' (drop i ''a: b'')} = {length ''a''}"
  by (rule splitOnce_spec) code_simp

theorem nci_Parse_print_witness:
  "nci_Parse (nci_print \<lparr>nci_StoreDir = ''/nix/store'', nci_WantMassQuery = 1, nci_Priority = 40\<rparr>) =
   Inr \<lparr>nci_StoreDir = ''/nix/store'', nci_WantMassQuery = 1, nci_Priority = 40\<rparr>"
  by (rule nci_Parse_print) simp_all

end
