(* ===== verification/Circuit_Breaker.thy ===== *)
theory Circuit_Breaker
  imports Ncps_Prelude
begin

text \<open>
  Package \<open>pkg/circuitbreaker\<close>. A time is an integer number of nanoseconds, the zero
  \<open>time.Time\<close> is \<open>None\<close>, and the clock (\<open>timeNow\<close>) is an argument of every operation that
  reads it. Each operation holds the breaker's mutex for its whole body, so a concurrent
  history is a sequence of operations.
\<close>

datatype cb_state = StateClosed | StateOpen | StateHalfOpen

record circuit_breaker =
  cb_failureCount :: int
  cb_threshold :: int
  cb_timeout :: int
  cb_openedAt :: "int option"

definition DefaultThreshold :: int where
  "DefaultThreshold = 5"

definition DefaultTimeout :: int where
  "DefaultTimeout = 60000000000"

definition cb_New :: "int \<Rightarrow> int \<Rightarrow> circuit_breaker" where
  "cb_New threshold timeout =
     \<lparr>cb_failureCount = 0,
      cb_threshold = (if threshold \<le> 0 then DefaultThreshold else threshold),
      cb_timeout = (if timeout \<le> 0 then DefaultTimeout else timeout),
      cb_openedAt = None\<rparr>"

definition RecordFailure :: "int \<Rightarrow> circuit_breaker \<Rightarrow> circuit_breaker" where
  "RecordFailure now cb =
     (let cb = cb\<lparr>cb_failureCount := cb_failureCount cb + 1\<rparr>
      in if cb_failureCount cb \<ge> cb_threshold cb then cb\<lparr>cb_openedAt := Some now\<rparr> else cb)"

definition RecordSuccess :: "circuit_breaker \<Rightarrow> circuit_breaker" where
  "RecordSuccess cb = cb\<lparr>cb_failureCount := 0, cb_openedAt := None\<rparr>"

definition AllowRequest :: "int \<Rightarrow> circuit_breaker \<Rightarrow> bool \<times> circuit_breaker" where
  "AllowRequest now cb =
     (case cb_openedAt cb of
        None \<Rightarrow> (True, cb)
      | Some t \<Rightarrow>
          if now - t \<ge> cb_timeout cb then (True, cb\<lparr>cb_openedAt := Some now\<rparr>) else (False, cb))"

definition State :: "int \<Rightarrow> circuit_breaker \<Rightarrow> cb_state" where
  "State now cb =
     (case cb_openedAt cb of
        None \<Rightarrow> StateClosed
      | Some t \<Rightarrow> if now - t \<ge> cb_timeout cb then StateHalfOpen else StateOpen)"

definition IsOpen :: "int \<Rightarrow> circuit_breaker \<Rightarrow> bool" where
  "IsOpen now cb \<longleftrightarrow> State now cb \<noteq> StateClosed"

definition ForceOpen :: "int \<Rightarrow> circuit_breaker \<Rightarrow> circuit_breaker" where
  "ForceOpen now cb = cb\<lparr>cb_failureCount := cb_threshold cb, cb_openedAt := Some now\<rparr>"

section \<open>Histories\<close>

datatype cb_event = EvFailure int | EvSuccess | EvAllow int | EvForce int

text \<open>One event, and whether it let a request through.\<close>

fun cb_step :: "cb_event \<Rightarrow> circuit_breaker \<Rightarrow> bool \<times> circuit_breaker" where
  "cb_step (EvFailure now) cb = (False, RecordFailure now cb)"
| "cb_step EvSuccess cb = (False, RecordSuccess cb)"
| "cb_step (EvAllow now) cb = AllowRequest now cb"
| "cb_step (EvForce now) cb = (False, ForceOpen now cb)"

text \<open>A history: how many requests it lets through, and the breaker after it.\<close>

fun cb_run :: "cb_event list \<Rightarrow> circuit_breaker \<Rightarrow> nat \<times> circuit_breaker" where
  "cb_run [] cb = (0, cb)"
| "cb_run (e # es) cb =
     (case cb_step e cb of (b, cb') \<Rightarrow>
       (case cb_run es cb' of (n, cb'') \<Rightarrow> (of_bool b + n, cb'')))"

text \<open>The breaker is closed exactly while fewer failures than the threshold are counted.\<close>

definition cb_inv :: "circuit_breaker \<Rightarrow> bool" where
  "cb_inv cb \<longleftrightarrow> 0 < cb_threshold cb \<and> 0 < cb_timeout cb \<and> 0 \<le> cb_failureCount cb \<and>
     (cb_openedAt cb = None \<longleftrightarrow> cb_failureCount cb < cb_threshold cb)"

lemmas cb_defs = RecordFailure_def RecordSuccess_def AllowRequest_def ForceOpen_def Let_def

lemma cb_inv_step: "cb_inv cb \<Longrightarrow> cb_inv (snd (cb_step e cb))"
  by (cases e) (auto simp: cb_inv_def cb_defs split: option.split)

lemma cb_step_config [simp]:
  "cb_threshold (snd (cb_step e cb)) = cb_threshold cb" "cb_timeout (snd (cb_step e cb)) = cb_timeout cb"
  by (cases e; auto simp: cb_defs split: option.split)+

lemma cb_inv_run: "cb_inv cb \<Longrightarrow> cb_inv (snd (cb_run es cb))"
proof (induction es arbitrary: cb)
  case (Cons e es)
  then show ?case using cb_inv_step [of cb e] by (auto split: prod.splits) (metis snd_conv)
qed simp

text \<open>From a new breaker, after any history, the breaker is well formed: it blocks or probes exactly when the
  number of consecutive failures has reached the threshold, which is positive whatever the configuration.\<close>

theorem cb_closed_iff:
  "let cb = snd (cb_run es (cb_New threshold timeout))
   in cb_inv cb \<and> (IsOpen now cb \<longleftrightarrow> cb_failureCount cb \<ge> cb_threshold cb)"
proof -
  have "cb_inv (cb_New threshold timeout)"
    by (simp add: cb_inv_def cb_New_def DefaultThreshold_def DefaultTimeout_def)
  then have "cb_inv (snd (cb_run es (cb_New threshold timeout)))" by (rule cb_inv_run)
  then show ?thesis
    by (auto simp: cb_inv_def IsOpen_def State_def Let_def split: option.split)
qed

section \<open>The half-open window\<close>

fun ev_time :: "cb_event \<Rightarrow> int option" where
  "ev_time (EvFailure t) = Some t"
| "ev_time EvSuccess = None"
| "ev_time (EvAllow t) = Some t"
| "ev_time (EvForce t) = Some t"

text \<open>No success is recorded and every event falls in the window that starts at \<open>a\<close> and is shorter than \<open>d\<close>.\<close>

definition in_window :: "int \<Rightarrow> int \<Rightarrow> cb_event list \<Rightarrow> bool" where
  "in_window a d es \<longleftrightarrow>
     list_all (\<lambda>e. case ev_time e of None \<Rightarrow> False | Some t \<Rightarrow> a \<le> t \<and> t < a + d) es"

lemma window_blocked:
  assumes "cb_inv cb" and "cb_openedAt cb = Some t" and "a \<le> t" and "in_window a (cb_timeout cb) es"
  shows "fst (cb_run es cb) = 0"
  using assms
proof (induction es arbitrary: cb t)
  case (Cons e es)
  obtain b cb' where step: "cb_step e cb = (b, cb')" by (cases "cb_step e cb")
  have "cb_inv cb'" "cb_timeout cb' = cb_timeout cb"
    using step Cons.prems(1) cb_inv_step [of cb e] cb_step_config(2) [of e cb] by auto
  moreover have "\<not> b" "\<exists>t'. cb_openedAt cb' = Some t' \<and> a \<le> t'"
    using step Cons.prems by (cases e; auto simp: in_window_def cb_inv_def cb_defs split: if_splits)+
  moreover have "in_window a (cb_timeout cb) es"
    using Cons.prems(4) by (simp add: in_window_def)
  ultimately show ?case
    using Cons.IH [of cb'] step by (auto split: prod.splits)
qed simp

text \<open>While the breaker is open, at most one request passes in a window shorter than the timeout in
  which no success is recorded.\<close>

theorem half_open_single:
  assumes "cb_inv cb" and "cb_openedAt cb \<noteq> None" and "in_window a (cb_timeout cb) es"
  shows "fst (cb_run es cb) \<le> 1"
  using assms
proof (induction es arbitrary: cb)
  case (Cons e es)
  obtain b cb' where step: "cb_step e cb = (b, cb')" by (cases "cb_step e cb")
  have inv: "cb_inv cb'" "cb_timeout cb' = cb_timeout cb"
    using step Cons.prems(1) cb_inv_step [of cb e] cb_step_config(2) [of e cb] by auto
  have w: "in_window a (cb_timeout cb) es"
    using Cons.prems(3) by (simp add: in_window_def)
  have "cb_openedAt cb' \<noteq> None"
    using step Cons.prems by (cases e) (auto simp: in_window_def cb_inv_def cb_defs split: if_splits)
  then have rest: "fst (cb_run es cb') \<le> 1" using Cons.IH inv w by simp
  show ?case
  proof (cases b)
    case True
    then obtain now where "e = EvAllow now" "a \<le> now" "cb_openedAt cb' = Some now"
      using step Cons.prems by (cases e) (auto simp: in_window_def cb_defs split: if_splits option.splits)
    then have "fst (cb_run es cb') = 0" using inv w by (intro window_blocked) auto
    with step show ?thesis by (auto split: prod.splits)
  qed (use step rest in \<open>auto split: prod.splits\<close>)
qed simp

lemma failures_count:
  "cb_inv cb \<Longrightarrow>
   cb_failureCount (snd (cb_run (map EvFailure ts) cb)) = cb_failureCount cb + int (length ts) \<and>
   cb_threshold (snd (cb_run (map EvFailure ts) cb)) = cb_threshold cb \<and>
   cb_timeout (snd (cb_run (map EvFailure ts) cb)) = cb_timeout cb \<and>
   (ts \<noteq> [] \<and> cb_failureCount cb + int (length ts) \<ge> cb_threshold cb \<longrightarrow>
      cb_openedAt (snd (cb_run (map EvFailure ts) cb)) = Some (last ts))"
proof (induction ts arbitrary: cb)
  case (Cons t ts)
  have "cb_inv (RecordFailure t cb)" using cb_inv_step [OF Cons.prems, of "EvFailure t"] by simp
  from Cons.IH [OF this] Cons.prems show ?case
    by (auto simp: cb_defs split: prod.splits if_splits)
qed simp

text \<open>After a success, \<open>n\<close> failures leave the breaker closed exactly when \<open>n\<close> is below the threshold; once
  it is open, a request is refused until the timeout has passed since the last failure, and then one is let through.\<close>

theorem opens_at_threshold:
  assumes "cb_inv cb" and "ts \<noteq> []"
  shows "fst (AllowRequest now (snd (cb_run (EvSuccess # map EvFailure ts) cb))) \<longleftrightarrow>
    int (length ts) < cb_threshold cb \<or> now - last ts \<ge> cb_timeout cb"
proof -
  define cb1 where "cb1 = snd (cb_run (map EvFailure ts) (RecordSuccess cb))"
  have inv: "cb_inv (RecordSuccess cb)" using cb_inv_step [OF assms(1), of EvSuccess] by simp
  have inv1: "cb_inv cb1" unfolding cb1_def by (rule cb_inv_run [OF inv])
  have run: "snd (cb_run (EvSuccess # map EvFailure ts) cb) = cb1"
    by (simp add: cb1_def split: prod.splits)
  have c: "cb_failureCount cb1 = int (length ts)" "cb_threshold cb1 = cb_threshold cb" "cb_timeout cb1 = cb_timeout cb"
    "int (length ts) \<ge> cb_threshold cb \<Longrightarrow> cb_openedAt cb1 = Some (last ts)"
    using failures_count [OF inv, of ts] assms(2) by (simp_all add: cb1_def RecordSuccess_def)
  show ?thesis
  proof (cases "int (length ts) < cb_threshold cb")
    case True
    with inv1 c have "cb_openedAt cb1 = None" by (simp add: cb_inv_def)
    with True show ?thesis unfolding run by (simp add: AllowRequest_def)
  next
    case False
    with c show ?thesis unfolding run by (simp add: AllowRequest_def)
  qed
qed

section \<open>Examples\<close>

theorem half_open_single_witness:
  "fst (cb_run [EvAllow 70, EvFailure 71, EvAllow 72, EvAllow 75] (ForceOpen 0 (cb_New 2 60))) \<le> 1"
  by (rule half_open_single [where a = 70]) (simp_all add: cb_inv_def cb_New_def ForceOpen_def in_window_def)

theorem opens_at_threshold_witness:
  "fst (AllowRequest 20 (snd (cb_run [EvSuccess, EvFailure 1, EvFailure 5] (cb_New 2 60)))) = False"
  using opens_at_threshold [of "cb_New 2 60" "[1, 5]" 20] by (simp add: cb_inv_def cb_New_def)

end
