(* ===== verification/Local_Lock.thy ===== *)
theory Local_Lock
  imports Ncps_Prelude
begin

text \<open>
  Package \<open>pkg/lock/local\<close>: the in-process locks by key. A lock table maps a key to a
  \<open>keyLock\<close> object, which holds a mutex and the number of goroutines that use it; an
  object leaves the table with its last user. A goroutine keeps a pointer to the object
  between \<open>getLock\<close> and the acquisition, outside the table's own mutex, so objects live in an explicit store of
  addresses and the goroutines interleave at the points where the code lets go of \<open>l.mu\<close>.

  \<open>Locker\<close> and \<open>RWLocker\<close> differ in the mutex of their objects: \<open>sync.Mutex\<close> and
  \<open>sync.RWMutex\<close>. What the table needs of a mutex is the locale \<open>mutex_laws\<close>.
\<close>

section \<open>The mutexes of package sync\<close>

datatype lock_mode = LWrite | LRead

record 'm mutex_ops =
  mx_zero :: 'm
  mx_try :: "lock_mode \<Rightarrow> 'm \<Rightarrow> 'm option"
  mx_unlock :: "lock_mode \<Rightarrow> 'm \<Rightarrow> 'm option"

text \<open>\<open>mx_try\<close> is the mutex after an acquisition that can happen now. \<open>mx_unlock\<close> is \<open>None\<close> when the
  runtime aborts: unlock of an unlocked mutex.\<close>

definition sync_Mutex :: "bool mutex_ops" where
  "sync_Mutex =
     \<lparr>mx_zero = False,
      mx_try = (\<lambda>md m. case md of LWrite \<Rightarrow> if m then None else Some True | LRead \<Rightarrow> None),
      mx_unlock = (\<lambda>md m. case md of LWrite \<Rightarrow> if m then Some False else None | LRead \<Rightarrow> None)\<rparr>"

record rw_mutex =
  rwm_writer :: bool
  rwm_readers :: nat

definition sync_RWMutex :: "rw_mutex mutex_ops" where
  "sync_RWMutex =
     \<lparr>mx_zero = \<lparr>rwm_writer = False, rwm_readers = 0\<rparr>,
      mx_try = (\<lambda>md m. case md of
          LWrite \<Rightarrow> if rwm_writer m \<or> rwm_readers m > 0 then None else Some (m\<lparr>rwm_writer := True\<rparr>)
        | LRead \<Rightarrow> if rwm_writer m then None else Some (m\<lparr>rwm_readers := rwm_readers m + 1\<rparr>)),
      mx_unlock = (\<lambda>md m. case md of
          LWrite \<Rightarrow> if rwm_writer m then Some (m\<lparr>rwm_writer := False\<rparr>) else None
        | LRead \<Rightarrow> if rwm_readers m > 0 then Some (m\<lparr>rwm_readers := rwm_readers m - 1\<rparr>) else None)\<rparr>"

section \<open>The lock table\<close>

record 'm key_lock =
  kl_mutex :: 'm
  kl_refCount :: int

record 'm lock_table =
  lt_lockers :: "string \<Rightarrow> nat option"
  lt_heap :: "nat \<Rightarrow> 'm key_lock"
  lt_next :: nat

definition NewLocker :: "'m mutex_ops \<Rightarrow> 'm lock_table" where
  "NewLocker ops =
     \<lparr>lt_lockers = Map.empty, lt_heap = (\<lambda>_. \<lparr>kl_mutex = mx_zero ops, kl_refCount = 0\<rparr>), lt_next = 0\<rparr>"

definition getLock :: "'m mutex_ops \<Rightarrow> string \<Rightarrow> 'm lock_table \<Rightarrow> nat \<times> 'm lock_table" where
  "getLock ops key l =
     (case lt_lockers l key of
        None \<Rightarrow>
          (lt_next l,
           l\<lparr>lt_lockers := (lt_lockers l)(key \<mapsto> lt_next l),
             lt_heap := (lt_heap l)(lt_next l := \<lparr>kl_mutex = mx_zero ops, kl_refCount = 1\<rparr>),
             lt_next := lt_next l + 1\<rparr>)
      | Some p \<Rightarrow>
          (p, l\<lparr>lt_heap := (lt_heap l)(p := (lt_heap l p)\<lparr>kl_refCount := kl_refCount (lt_heap l p) + 1\<rparr>)\<rparr>))"

definition releaseLock :: "string \<Rightarrow> 'm lock_table \<Rightarrow> 'm lock_table" where
  "releaseLock key l =
     (case lt_lockers l key of
        None \<Rightarrow> l
      | Some p \<Rightarrow>
          (let c = kl_refCount (lt_heap l p) - 1;
               l = l\<lparr>lt_heap := (lt_heap l)(p := (lt_heap l p)\<lparr>kl_refCount := c\<rparr>)\<rparr>
           in if c = 0 then l\<lparr>lt_lockers := (lt_lockers l)(key := None)\<rparr> else l))"

text \<open>\<open>kl.Lock()\<close>, \<open>kl.RLock()\<close> and \<open>kl.TryLock()\<close> through the pointer: \<open>None\<close> when it cannot be acquired now.\<close>

definition kl_try :: "'m mutex_ops \<Rightarrow> lock_mode \<Rightarrow> nat \<Rightarrow> 'm lock_table \<Rightarrow> 'm lock_table option" where
  "kl_try ops md p l =
     (case mx_try ops md (kl_mutex (lt_heap l p)) of
        None \<Rightarrow> None
      | Some m \<Rightarrow> Some (l\<lparr>lt_heap := (lt_heap l)(p := (lt_heap l p)\<lparr>kl_mutex := m\<rparr>)\<rparr>))"

definition Locker_Unlock :: "'m mutex_ops \<Rightarrow> lock_mode \<Rightarrow> string \<Rightarrow> 'm lock_table \<Rightarrow> unit result \<times> 'm lock_table" where
  "Locker_Unlock ops md key l =
     (case lt_lockers l key of
        None \<Rightarrow> (Inl (case md of LWrite \<Rightarrow> ErrUnlockUnknownKey | LRead \<Rightarrow> ErrRUnlockUnknownKey), l)
      | Some p \<Rightarrow>
          (case mx_unlock ops md (kl_mutex (lt_heap l p)) of
             None \<Rightarrow> (Inl ErrPanic, l)
           | Some m \<Rightarrow>
               (Inr (), releaseLock key
                  (l\<lparr>lt_heap := (lt_heap l)(p := (lt_heap l p)\<lparr>kl_mutex := m\<rparr>)\<rparr>))))"

text \<open>A whole \<open>Lock\<close> (\<open>None\<close> while it blocks) and a whole \<open>TryLock\<close>, when no other goroutine runs in between.\<close>

definition Locker_Lock :: "'m mutex_ops \<Rightarrow> lock_mode \<Rightarrow> string \<Rightarrow> 'm lock_table \<Rightarrow> 'm lock_table option" where
  "Locker_Lock ops md key l = (case getLock ops key l of (p, l) \<Rightarrow> kl_try ops md p l)"

definition Locker_TryLock :: "'m mutex_ops \<Rightarrow> string \<Rightarrow> 'm lock_table \<Rightarrow> bool \<times> 'm lock_table" where
  "Locker_TryLock ops key l =
     (case getLock ops key l of (p, l) \<Rightarrow>
       (case kl_try ops LWrite p l of Some l \<Rightarrow> (True, l) | None \<Rightarrow> (False, releaseLock key l)))"

text \<open>\<open>RWLocker\<close> has the same bodies over \<open>sync.RWMutex\<close>, with \<open>RLock\<close> and \<open>RUnlock\<close> in the reader's mode.
  \<open>Extend\<close> of both lockers returns nil at once.\<close>

definition RWLocker_getLock :: "string \<Rightarrow> rw_mutex lock_table \<Rightarrow> nat \<times> rw_mutex lock_table" where
  "RWLocker_getLock = getLock sync_RWMutex"

definition RWLocker_release :: "string \<Rightarrow> rw_mutex lock_table \<Rightarrow> rw_mutex lock_table" where
  "RWLocker_release = releaseLock"

definition RWLocker_Lock :: "string \<Rightarrow> rw_mutex lock_table \<Rightarrow> rw_mutex lock_table option" where
  "RWLocker_Lock = Locker_Lock sync_RWMutex LWrite"

definition RWLocker_RLock :: "string \<Rightarrow> rw_mutex lock_table \<Rightarrow> rw_mutex lock_table option" where
  "RWLocker_RLock = Locker_Lock sync_RWMutex LRead"

definition RWLocker_Unlock :: "string \<Rightarrow> rw_mutex lock_table \<Rightarrow> unit result \<times> rw_mutex lock_table" where
  "RWLocker_Unlock = Locker_Unlock sync_RWMutex LWrite"

definition RWLocker_RUnlock :: "string \<Rightarrow> rw_mutex lock_table \<Rightarrow> unit result \<times> rw_mutex lock_table" where
  "RWLocker_RUnlock = Locker_Unlock sync_RWMutex LRead"

definition RWLocker_TryLock :: "string \<Rightarrow> rw_mutex lock_table \<Rightarrow> bool \<times> rw_mutex lock_table" where
  "RWLocker_TryLock = Locker_TryLock sync_RWMutex"

definition Locker_Extend :: "string \<Rightarrow> 'm lock_table \<Rightarrow> unit result \<times> 'm lock_table" where
  "Locker_Extend key l = (Inr (), l)"

section \<open>Goroutines\<close>

text \<open>
  Where a use of a lock stands: between \<open>getLock\<close> and the acquisition of a \<open>Lock\<close> or a
  \<open>TryLock\<close>, holding the lock, between a failed \<open>TryLock\<close> and its \<open>releaseLock\<close>, or ended by
  an error of \<open>Unlock\<close>.
\<close>

datatype lock_pc =
    Idle
  | Waiting lock_mode string nat
  | Trying string nat
  | Holding lock_mode string nat
  | TryFailed string nat
  | Erred err

type_synonym 'm lock_system = "'m lock_table \<times> lock_pc list"

inductive lock_step :: "'m mutex_ops \<Rightarrow> 'm lock_system \<Rightarrow> 'm lock_system \<Rightarrow> bool" for ops where
  start_lock:
    "i < length pcs \<Longrightarrow> pcs ! i = Idle \<Longrightarrow> getLock ops key l = (p, l') \<Longrightarrow>
     lock_step ops (l, pcs) (l', pcs[i := Waiting md key p])"
| acquire:
    "i < length pcs \<Longrightarrow> pcs ! i = Waiting md key p \<Longrightarrow> kl_try ops md p l = Some l' \<Longrightarrow>
     lock_step ops (l, pcs) (l', pcs[i := Holding md key p])"
| start_try:
    "i < length pcs \<Longrightarrow> pcs ! i = Idle \<Longrightarrow> getLock ops key l = (p, l') \<Longrightarrow>
     lock_step ops (l, pcs) (l', pcs[i := Trying key p])"
| try_ok:
    "i < length pcs \<Longrightarrow> pcs ! i = Trying key p \<Longrightarrow> kl_try ops LWrite p l = Some l' \<Longrightarrow>
     lock_step ops (l, pcs) (l', pcs[i := Holding LWrite key p])"
| try_fail:
    "i < length pcs \<Longrightarrow> pcs ! i = Trying key p \<Longrightarrow> kl_try ops LWrite p l = None \<Longrightarrow>
     lock_step ops (l, pcs) (l, pcs[i := TryFailed key p])"
| try_release:
    "i < length pcs \<Longrightarrow> pcs ! i = TryFailed key p \<Longrightarrow>
     lock_step ops (l, pcs) (releaseLock key l, pcs[i := Idle])"
| unlock:
    "i < length pcs \<Longrightarrow> pcs ! i = Holding md key p \<Longrightarrow> Locker_Unlock ops md key l = (Inr (), l') \<Longrightarrow>
     lock_step ops (l, pcs) (l', pcs[i := Idle])"
| unlock_error:
    "i < length pcs \<Longrightarrow> pcs ! i = Holding md key p \<Longrightarrow> Locker_Unlock ops md key l = (Inl e, l') \<Longrightarrow>
     lock_step ops (l, pcs) (l', pcs[i := Erred e])"

inductive lock_reachable :: "'m mutex_ops \<Rightarrow> 'm lock_system \<Rightarrow> bool" for ops where
  init: "lock_reachable ops (NewLocker ops, replicate n Idle)"
| step: "lock_reachable ops s \<Longrightarrow> lock_step ops s s' \<Longrightarrow> lock_reachable ops s'"

fun pc_ref :: "lock_pc \<Rightarrow> (string \<times> nat) option" where
  "pc_ref Idle = None"
| "pc_ref (Waiting _ k p) = Some (k, p)"
| "pc_ref (Trying k p) = Some (k, p)"
| "pc_ref (Holding _ k p) = Some (k, p)"
| "pc_ref (TryFailed k p) = Some (k, p)"
| "pc_ref (Erred _) = None"

definition refers :: "string \<Rightarrow> lock_pc \<Rightarrow> bool" where
  "refers k pc \<longleftrightarrow> (case pc_ref pc of None \<Rightarrow> False | Some (k', _) \<Rightarrow> k = k')"

definition holds_key :: "lock_mode \<Rightarrow> string \<Rightarrow> lock_pc \<Rightarrow> bool" where
  "holds_key md k pc \<longleftrightarrow> (case pc of Holding md' k' _ \<Rightarrow> md = md' \<and> k = k' | _ \<Rightarrow> False)"

definition tally :: "('a \<Rightarrow> bool) \<Rightarrow> 'a list \<Rightarrow> nat" where
  "tally P xs = length (filter P xs)"

lemma tally_update:
  "i < length xs \<Longrightarrow> tally P (xs[i := y]) + of_bool (P (xs ! i)) = tally P xs + of_bool (P y)"
proof (induction xs arbitrary: i)
  case (Cons x xs)
  then show ?case by (cases i) (auto simp: tally_def)
qed simp

lemma tally_zero: "tally P xs = 0 \<longleftrightarrow> (\<forall>x \<in> set xs. \<not> P x)"
  by (simp add: tally_def filter_empty_conv)

lemma all_lock_modes: "(\<forall>md. Q md) \<longleftrightarrow> Q LWrite \<and> Q LRead"
  by (metis lock_mode.exhaust)

text \<open>Two different positions that satisfy \<open>P\<close> count twice.\<close>

lemma tally_two:
  "i < length xs \<Longrightarrow> j < length xs \<Longrightarrow> i \<noteq> j \<Longrightarrow> P (xs ! i) \<Longrightarrow> P (xs ! j) \<Longrightarrow> 2 \<le> tally P xs"
  using card_mono [of "{i. i < length xs \<and> P (xs ! i)}" "{i, j}"]
  by (auto simp: tally_def length_filter_conv_card)

section \<open>What the table relies on of a mutex\<close>

text \<open>A mutex counts its holders: \<open>holds m md\<close> is how many hold \<open>m\<close> in mode \<open>md\<close>.\<close>

definition exclusive :: "(lock_mode \<Rightarrow> nat) \<Rightarrow> bool" where
  "exclusive h \<longleftrightarrow> h LWrite = 0 \<or> h LWrite = 1 \<and> h LRead = 0"

text \<open>
  The state of table and goroutines: an object is in the table exactly while a goroutine refers to
  its key, its reference count is the number of those, its mutex counts those that hold it,
  every pointer in use is the one in the table, and no goroutine has met an error.
\<close>

definition key_inv :: "('m \<Rightarrow> lock_mode \<Rightarrow> nat) \<Rightarrow> 'm lock_table \<Rightarrow> lock_pc list \<Rightarrow> string \<Rightarrow> bool" where
  "key_inv holds l pcs k \<longleftrightarrow>
     (case lt_lockers l k of
        None \<Rightarrow> tally (refers k) pcs = 0
      | Some p \<Rightarrow> p < lt_next l \<and> 0 < tally (refers k) pcs \<and>
          kl_refCount (lt_heap l p) = int (tally (refers k) pcs) \<and>
          exclusive (holds (kl_mutex (lt_heap l p))) \<and>
          (\<forall>md. holds (kl_mutex (lt_heap l p)) md = tally (holds_key md k) pcs))"

definition lockers_inj :: "'m lock_table \<Rightarrow> bool" where
  "lockers_inj l \<longleftrightarrow> (\<forall>k k' p. lt_lockers l k = Some p \<longrightarrow> lt_lockers l k' = Some p \<longrightarrow> k = k')"

definition pc_ok :: "'m lock_table \<Rightarrow> lock_pc \<Rightarrow> bool" where
  "pc_ok l pc \<longleftrightarrow>
     (case pc_ref pc of None \<Rightarrow> pc = Idle | Some (k, p) \<Rightarrow> lt_lockers l k = Some p)"

definition pcs_inv :: "'m lock_table \<Rightarrow> lock_pc list \<Rightarrow> bool" where
  "pcs_inv l pcs \<longleftrightarrow> lockers_inj l \<and> (\<forall>i < length pcs. pc_ok l (pcs ! i))"

lemma pc_ok_mono:
  "pc_ok l pc \<Longrightarrow> (\<And>k p. lt_lockers l k = Some p \<Longrightarrow> lt_lockers l' k = Some p) \<Longrightarrow> pc_ok l' pc"
  by (auto simp: pc_ok_def split: option.splits)

lemma pcs_inv_update:
  assumes "lockers_inj l" and "pc_ok l pc" and "\<And>j. j < length pcs \<Longrightarrow> j \<noteq> i \<Longrightarrow> pc_ok l (pcs ! j)"
  shows "pcs_inv l (pcs[i := pc])"
  unfolding pcs_inv_def
proof (intro conjI allI impI assms(1))
  fix j assume "j < length (pcs[i := pc])"
  with assms(2,3) show "pc_ok l (pcs[i := pc] ! j)" by (cases "j = i") auto
qed

lemma pcs_invD:
  "pcs_inv l pcs \<Longrightarrow> lt_lockers l k = Some p \<Longrightarrow> lt_lockers l k' = Some p \<Longrightarrow> k = k'"
  "pcs_inv l pcs \<Longrightarrow> i < length pcs \<Longrightarrow> pc_ok l (pcs ! i)"
  "pcs_inv l pcs \<Longrightarrow> i < length pcs \<Longrightarrow> pc_ref (pcs ! i) = Some (k, p) \<Longrightarrow> lt_lockers l k = Some p"
  by (auto simp: pcs_inv_def lockers_inj_def pc_ok_def)

definition lock_inv :: "('m \<Rightarrow> lock_mode \<Rightarrow> nat) \<Rightarrow> 'm lock_system \<Rightarrow> bool" where
  "lock_inv holds s \<longleftrightarrow> (\<forall>k. key_inv holds (fst s) (snd s) k) \<and> pcs_inv (fst s) (snd s)"

lemma unreferenced_unheld: "tally (refers k) pcs = 0 \<Longrightarrow> tally (holds_key md k) pcs = 0"
  unfolding tally_zero by (auto simp: refers_def holds_key_def split: lock_pc.splits)

locale mutex_laws =
  fixes ops :: "'m mutex_ops" and holds :: "'m \<Rightarrow> lock_mode \<Rightarrow> nat"
  assumes zero: "holds (mx_zero ops) md = 0"
    and try_holds: "mx_try ops md m = Some m' \<Longrightarrow> holds m' = (holds m)(md := holds m md + 1)"
    and try_exclusive: "exclusive (holds m) \<Longrightarrow> mx_try ops md m = Some m' \<Longrightarrow> exclusive (holds m')"
    and try_write_free: "holds m LWrite = 0 \<Longrightarrow> holds m LRead = 0 \<Longrightarrow> mx_try ops LWrite m \<noteq> None"
    and unlock_held: "0 < holds m md \<Longrightarrow>
      \<exists>m'. mx_unlock ops md m = Some m' \<and> holds m' = (holds m)(md := holds m md - 1)"
begin

lemma unlock_exclusive:
  "exclusive (holds m) \<Longrightarrow> holds m' = (holds m)(md := holds m md - 1) \<Longrightarrow> exclusive (holds m')"
  by (cases md) (auto simp: exclusive_def)

lemma exclusive_zero: "exclusive (holds (mx_zero ops))"
  by (simp add: exclusive_def zero)

lemma inv_init: "lock_inv holds (NewLocker ops, replicate n Idle)"
  by (simp add: lock_inv_def key_inv_def pcs_inv_def NewLocker_def refers_def tally_zero
      pc_ok_def lockers_inj_def)

lemma inv_get:
  assumes inv: "lock_inv holds (l, pcs)" and i: "i < length pcs" "pcs ! i = Idle"
    and get: "getLock ops key l = (p, l')" and pc: "pc_ref pc = Some (key, p)" "\<forall>md k. \<not> holds_key md k pc"
  shows "lock_inv holds (l', pcs[i := pc])"
proof -
  have t: "tally (refers k) (pcs[i := pc]) = tally (refers k) pcs + of_bool (k = key)"
    "tally (holds_key md k) (pcs[i := pc]) = tally (holds_key md k) pcs" for k md
    using tally_update [OF i(1), of "refers k" pc] tally_update [OF i(1), of "holds_key md k" pc] i(2) pc
    by (auto simp: refers_def holds_key_def)
  have K: "key_inv holds l pcs k" and P: "pcs_inv l pcs" for k
    using inv by (simp_all add: lock_inv_def)
  have "key_inv holds l' (pcs[i := pc]) k" for k
  proof (cases "lt_lockers l key")
    case None
    with get have "l' = l\<lparr>lt_lockers := (lt_lockers l)(key \<mapsto> lt_next l),
        lt_heap := (lt_heap l)(lt_next l := \<lparr>kl_mutex = mx_zero ops, kl_refCount = 1\<rparr>), lt_next := lt_next l + 1\<rparr>"
      by (auto simp: getLock_def)
    with None K [of k] K [of key] unreferenced_unheld [of key pcs] show ?thesis
      by (cases "lt_lockers l k") (auto simp: t key_inv_def zero exclusive_zero)
  next
    case (Some q)
    then have "k = key" if "lt_lockers l k = Some q" by (rule pcs_invD(1) [OF P that])
    with get K [of k] Some show ?thesis
      by (cases "lt_lockers l k") (auto simp: t key_inv_def getLock_def)
  qed
  moreover have "lt_lockers l k \<noteq> Some (lt_next l)" for k
    using K [of k] by (auto simp: key_inv_def)
  then have "pcs_inv l' (pcs[i := pc])"
  proof (intro pcs_inv_update)
    have grow: "lt_lockers l k = Some q \<Longrightarrow> lt_lockers l' k = Some q" for k q
      using get by (auto simp: getLock_def split: option.splits)
    show "pc_ok l' (pcs ! j)" if "j < length pcs" for j
      using pcs_invD(2) [OF P that] grow by (rule pc_ok_mono)
    show "pc_ok l' pc" using get pc(1) by (auto simp: pc_ok_def getLock_def split: option.splits)
    show "lockers_inj l'" if "\<And>k. lt_lockers l k \<noteq> Some (lt_next l)"
      using get P that
      by (auto simp: pcs_inv_def lockers_inj_def getLock_def split: option.splits if_splits)
  qed
  ultimately show ?thesis by (simp add: lock_inv_def)
qed

text \<open>A goroutine that refers to a key sets the mutex of its object.\<close>

lemma inv_mutex:
  assumes inv: "lock_inv holds (l, pcs)" and i: "i < length pcs" "pc_ref (pcs ! i) = Some (key, p)"
    and pc: "pc_ref pc = Some (key, p)"
    and m: "exclusive (holds m)"
      "\<And>md. holds m md + of_bool (holds_key md key (pcs ! i)) =
        holds (kl_mutex (lt_heap l p)) md + of_bool (holds_key md key pc)"
  shows "lock_inv holds (l\<lparr>lt_heap := (lt_heap l)(p := (lt_heap l p)\<lparr>kl_mutex := m\<rparr>)\<rparr>, pcs[i := pc])"
proof -
  have K: "key_inv holds l pcs k" and P: "pcs_inv l pcs" for k
    using inv by (simp_all add: lock_inv_def)
  have p: "lt_lockers l key = Some p" by (rule pcs_invD(3) [OF P i])
  have r: "tally (refers k) (pcs[i := pc]) = tally (refers k) pcs" for k
    using tally_update [OF i(1), of "refers k" pc] i(2) pc by (simp add: refers_def)
  have h: "tally (holds_key md k) (pcs[i := pc]) = tally (holds_key md k) pcs" if "k \<noteq> key" for md k
    using tally_update [OF i(1), of "holds_key md k" pc] i(2) pc that
    by (auto simp: holds_key_def split: lock_pc.splits)
  have h': "tally (holds_key md key) (pcs[i := pc]) = holds m md" for md
    using tally_update [OF i(1), of "holds_key md key" pc] m(2) [of md] K [of key] p
    by (simp add: key_inv_def)
  have "key_inv holds (l\<lparr>lt_heap := (lt_heap l)(p := (lt_heap l p)\<lparr>kl_mutex := m\<rparr>)\<rparr>) (pcs[i := pc]) k" for k
  proof (cases "k = key")
    case True
    with p r h' m(1) K [of key] show ?thesis by (simp add: key_inv_def)
  next
    case False
    with pcs_invD(1) [OF P p] have "lt_lockers l k \<noteq> Some p" by blast
    with False r h K [of k] show ?thesis by (cases "lt_lockers l k") (auto simp: key_inv_def)
  qed
  moreover have "pcs_inv (l\<lparr>lt_heap := (lt_heap l)(p := (lt_heap l p)\<lparr>kl_mutex := m\<rparr>)\<rparr>) (pcs[i := pc])"
    using P p pc
    by (intro pcs_inv_update) (auto simp: pcs_inv_def lockers_inj_def pc_ok_def split: option.splits)
  ultimately show ?thesis by (simp add: lock_inv_def)
qed

lemma inv_release:
  assumes inv: "lock_inv holds (l, pcs)" and i: "i < length pcs" "pc_ref (pcs ! i) = Some (key, p)"
    and nh: "\<And>md. \<not> holds_key md key (pcs ! i)"
  shows "lock_inv holds (releaseLock key l, pcs[i := Idle])"
proof -
  have K: "key_inv holds l pcs k" and P: "pcs_inv l pcs" for k
    using inv by (simp_all add: lock_inv_def)
  have p: "lt_lockers l key = Some p" by (rule pcs_invD(3) [OF P i])
  have r: "tally (refers k) (pcs[i := Idle]) + of_bool (k = key) = tally (refers k) pcs" for k
    using tally_update [OF i(1), of "refers k" Idle] i(2) by (simp add: refers_def)
  have h: "tally (holds_key md k) (pcs[i := Idle]) = tally (holds_key md k) pcs" for md k
    using tally_update [OF i(1), of "holds_key md k" Idle] i(2) nh
    by (cases "k = key") (auto simp: holds_key_def split: lock_pc.splits)
  have q: "lt_lockers l k = Some p \<Longrightarrow> k = key" for k by (rule pcs_invD(1) [OF P _ p])
  have "key_inv holds (releaseLock key l) (pcs[i := Idle]) k" for k
  proof (cases "k = key")
    case True
    show ?thesis
      using K [of key] p r [of key] unreferenced_unheld [of key "pcs[i := Idle]"]
      unfolding True by (auto simp: key_inv_def h releaseLock_def Let_def)
  next
    case False
    then have "lt_lockers (releaseLock key l) k = lt_lockers l k" "lt_next (releaseLock key l) = lt_next l"
      "\<And>a. lt_lockers l k = Some a \<Longrightarrow> lt_heap (releaseLock key l) a = lt_heap l a"
      using p q [of k] by (auto simp: releaseLock_def Let_def)
    with K [of k] r [of k] False h show ?thesis
      by (cases "lt_lockers l k") (simp_all add: key_inv_def)
  qed
  moreover have "pcs_inv (releaseLock key l) (pcs[i := Idle])"
  proof -
    have alone: "pc_ref (pcs ! j) \<noteq> Some (key, p)" if "j < length pcs" "j \<noteq> i" "tally (refers key) pcs = 1" for j
      using tally_two [of i pcs j "refers key"] that i by (auto simp: refers_def)
    have c: "kl_refCount (lt_heap l p) = int (tally (refers key) pcs)"
      using K [of key] p by (simp add: key_inv_def)
    show ?thesis
    proof (rule pcs_inv_update)
      show "lockers_inj (releaseLock key l)"
        using P p by (auto simp: pcs_inv_def lockers_inj_def releaseLock_def Let_def)
      show "pc_ok (releaseLock key l) Idle" by (simp add: pc_ok_def)
      fix j assume j: "j < length pcs" "j \<noteq> i"
      with pcs_invD(2) [OF P j(1)] alone [OF j] c p show "pc_ok (releaseLock key l) (pcs ! j)"
        by (auto simp: pc_ok_def releaseLock_def Let_def split: option.splits)
    qed
  qed
  ultimately show ?thesis by (simp add: lock_inv_def)
qed

lemma inv_acquire:
  assumes inv: "lock_inv holds (l, pcs)" and i: "i < length pcs" "pc_ref (pcs ! i) = Some (key, p)"
    and nh: "\<And>md. \<not> holds_key md key (pcs ! i)" and acq: "kl_try ops md p l = Some l'"
  shows "lock_inv holds (l', pcs[i := Holding md key p])"
proof -
  obtain m where m: "mx_try ops md (kl_mutex (lt_heap l p)) = Some m"
    and l': "l' = l\<lparr>lt_heap := (lt_heap l)(p := (lt_heap l p)\<lparr>kl_mutex := m\<rparr>)\<rparr>"
    using acq by (auto simp: kl_try_def split: option.splits)
  have "lt_lockers l key = Some p" "key_inv holds l pcs key"
    using inv i pcs_invD(3) by (auto simp: lock_inv_def)
  then have "exclusive (holds (kl_mutex (lt_heap l p)))" by (simp add: key_inv_def)
  then have "exclusive (holds m)" using m by (rule try_exclusive)
  then show ?thesis
    unfolding l' using inv i nh try_holds [OF m] by (intro inv_mutex) (auto simp: holds_key_def)
qed

lemma inv_unlock:
  assumes inv: "lock_inv holds (l, pcs)" and i: "i < length pcs" "pcs ! i = Holding md key p"
  shows "\<exists>l'. Locker_Unlock ops md key l = (Inr (), l') \<and> lock_inv holds (l', pcs[i := Idle])"
proof -
  have r: "pc_ref (pcs ! i) = Some (key, p)" using i by simp
  have p: "lt_lockers l key = Some p" and K: "key_inv holds l pcs key"
    using inv i r pcs_invD(3) [of l pcs i key p] by (auto simp: lock_inv_def)
  have "tally (holds_key md key) pcs \<noteq> 0"
    unfolding tally_zero using i nth_mem [OF i(1)] by (force simp: holds_key_def)
  with K p have "0 < holds (kl_mutex (lt_heap l p)) md" by (simp add: key_inv_def)
  then obtain m where m: "mx_unlock ops md (kl_mutex (lt_heap l p)) = Some m"
    "holds m = (holds (kl_mutex (lt_heap l p)))(md := holds (kl_mutex (lt_heap l p)) md - 1)"
    "0 < holds (kl_mutex (lt_heap l p)) md"
    using unlock_held by blast
  define l1 where "l1 = l\<lparr>lt_heap := (lt_heap l)(p := (lt_heap l p)\<lparr>kl_mutex := m\<rparr>)\<rparr>"
  have "exclusive (holds (kl_mutex (lt_heap l p)))" using K p by (simp add: key_inv_def)
  then have "exclusive (holds m)" using m(2) by (rule unlock_exclusive)
  then have "lock_inv holds (l1, pcs[i := TryFailed key p])"
    unfolding l1_def using inv i m(2,3) by (intro inv_mutex) (auto simp: holds_key_def)
  then have "lock_inv holds (releaseLock key l1, pcs[i := TryFailed key p, i := Idle])"
    using i by (intro inv_release) (auto simp: holds_key_def)
  moreover have "Locker_Unlock ops md key l = (Inr (), releaseLock key l1)"
    by (simp add: Locker_Unlock_def p m(1) l1_def)
  ultimately show ?thesis by simp
qed

lemma inv_step: "lock_step ops s s' \<Longrightarrow> lock_inv holds s \<Longrightarrow> lock_inv holds s'"
proof (induction rule: lock_step.induct)
  case (try_fail i pcs key p l)
  have "l\<lparr>lt_heap := (lt_heap l)(p := (lt_heap l p)\<lparr>kl_mutex := kl_mutex (lt_heap l p)\<rparr>)\<rparr> = l" by simp
  moreover have "exclusive (holds (kl_mutex (lt_heap l p)))"
    using try_fail pcs_invD(3) [of l pcs i key p] by (auto simp: lock_inv_def key_inv_def split: option.splits)
  ultimately show ?case
    using try_fail inv_mutex [of l pcs i key p "TryFailed key p" "kl_mutex (lt_heap l p)"]
    by (simp add: holds_key_def)
next
  case (unlock i pcs md key p l l')
  then show ?case using inv_unlock [of l pcs i md key p] by auto
next
  case (unlock_error i pcs md key p l e l')
  then show ?case using inv_unlock [of l pcs i md key p] by auto
qed (auto intro!: inv_get inv_acquire inv_release simp: holds_key_def)

lemma inv_reachable: "lock_reachable ops s \<Longrightarrow> lock_inv holds s"
  by (induction rule: lock_reachable.induct) (auto intro: inv_init inv_step)

text \<open>A writer excludes every other holder of its key.\<close>

lemma writer_alone:
  assumes "lock_reachable ops (l, pcs)" and i: "i < length pcs" "pcs ! i = Holding LWrite key p"
    and j: "j < length pcs" "pcs ! j = Holding md key q"
  shows "j = i"
proof (rule ccontr)
  assume ne: "j \<noteq> i"
  have K: "key_inv holds l pcs key" and P: "pcs_inv l pcs"
    using inv_reachable [OF assms(1)] by (simp_all add: lock_inv_def)
  have p: "lt_lockers l key = Some p" using pcs_invD(3) [OF P i(1)] i(2) by simp
  let ?h = "holds (kl_mutex (lt_heap l p))"
  have h: "exclusive ?h" "\<And>md. ?h md = tally (holds_key md key) pcs"
    using K p by (simp_all add: key_inv_def)
  have w: "holds_key LWrite key (pcs ! i)" "holds_key md key (pcs ! j)"
    using i j by (simp_all add: holds_key_def)
  have "?h LWrite = 1 \<and> ?h LRead = 0"
    using h tally_zero [of "holds_key LWrite key" pcs] w(1) nth_mem [OF i(1)]
    by (auto simp: exclusive_def)
  then show False
    using h(2) [of LWrite] h(2) [of LRead] w nth_mem [OF j(1)] tally_zero [of "holds_key LRead key" pcs]
      tally_two [OF i(1) j(1), of "holds_key LWrite key"] ne
    by (cases md) auto
qed

text \<open>The table holds exactly the keys in use, so nothing is left when every goroutine is idle.\<close>

lemma no_leak:
  assumes "lock_reachable ops (l, pcs)" and "\<forall>i < length pcs. pcs ! i = Idle"
  shows "lt_lockers l = Map.empty"
proof
  fix k
  have "tally (refers k) pcs = 0"
    unfolding tally_zero using assms(2) by (auto simp: in_set_conv_nth refers_def)
  moreover have "key_inv holds l pcs k"
    using inv_reachable [OF assms(1)] by (simp add: lock_inv_def)
  ultimately show "lt_lockers l k = None" by (cases "lt_lockers l k") (auto simp: key_inv_def)
qed

text \<open>A \<open>TryLock\<close> succeeds exactly on a key nobody holds, and leaves the table as it was when it fails.\<close>

lemma TryLock_iff_free:
  assumes "lock_reachable ops (l, pcs)"
  shows "case Locker_TryLock ops key l of (b, l') \<Rightarrow>
    (b \<longleftrightarrow> (\<forall>j < length pcs. \<forall>md q. pcs ! j \<noteq> Holding md key q)) \<and> (b \<or> l' = l)"
proof -
  have K: "key_inv holds l pcs key" and P: "pcs_inv l pcs"
    using inv_reachable [OF assms] by (simp_all add: lock_inv_def)
  have none: "(\<forall>j < length pcs. \<forall>md q. pcs ! j \<noteq> Holding md key q) \<longleftrightarrow>
      tally (holds_key LWrite key) pcs = 0 \<and> tally (holds_key LRead key) pcs = 0"
  proof -
    have "holds_key md key (pcs ! j) \<longleftrightarrow> (\<exists>q. pcs ! j = Holding md key q)" for md j
      by (auto simp: holds_key_def split: lock_pc.split)
    then have "(\<forall>j < length pcs. \<forall>md q. pcs ! j \<noteq> Holding md key q) \<longleftrightarrow>
        (\<forall>md. \<forall>j < length pcs. \<not> holds_key md key (pcs ! j))"
      by auto
    then show ?thesis by (simp add: all_lock_modes tally_zero all_set_conv_all_nth)
  qed
  show ?thesis
  proof (cases "lt_lockers l key")
    case None
    with K have "tally (holds_key md key) pcs = 0" for md
      using unreferenced_unheld [of key pcs md] by (simp add: key_inv_def)
    with None try_write_free [of "mx_zero ops"] show ?thesis
      by (auto simp: none Locker_TryLock_def getLock_def kl_try_def zero)
  next
    case (Some p)
    let ?m = "kl_mutex (lt_heap l p)"
    have h: "exclusive (holds ?m)" "\<And>md. holds ?m md = tally (holds_key md key) pcs" "kl_refCount (lt_heap l p) \<noteq> 0"
      using K Some by (simp_all add: key_inv_def)
    have free: "mx_try ops LWrite ?m \<noteq> None \<longleftrightarrow> holds ?m LWrite = 0 \<and> holds ?m LRead = 0"
    proof
      assume "mx_try ops LWrite ?m \<noteq> None"
      then obtain m' where m': "mx_try ops LWrite ?m = Some m'" by blast
      show "holds ?m LWrite = 0 \<and> holds ?m LRead = 0"
        using try_exclusive [OF h(1) m'] try_holds [OF m'] by (simp add: exclusive_def)
    qed (use try_write_free in blast)
    have "fst (Locker_TryLock ops key l) \<longleftrightarrow> mx_try ops LWrite ?m \<noteq> None"
      using Some by (simp add: Locker_TryLock_def getLock_def kl_try_def split: option.split)
    moreover have "snd (Locker_TryLock ops key l) = l" if "mx_try ops LWrite ?m = None"
      using Some that h(3) by (simp add: Locker_TryLock_def getLock_def kl_try_def releaseLock_def)
    ultimately show ?thesis
      using free h(2) by (auto simp: none split: prod.split)
  qed
qed

text \<open>No goroutine meets an error, and one that waits for a key nobody holds can go on.\<close>

lemma no_error: "lock_reachable ops (l, pcs) \<Longrightarrow> i < length pcs \<Longrightarrow> pcs ! i \<noteq> Erred e"
  using inv_reachable [of "(l, pcs)"] pcs_invD(2) [of l pcs i] by (auto simp: lock_inv_def pc_ok_def)

lemma waiter_proceeds:
  assumes "lock_reachable ops (l, pcs)" and i: "i < length pcs" "pcs ! i = Waiting LWrite key p"
    and free: "\<forall>j < length pcs. \<forall>md q. pcs ! j \<noteq> Holding md key q"
  shows "\<exists>l'. lock_step ops (l, pcs) (l', pcs[i := Holding LWrite key p])"
proof -
  have K: "key_inv holds l pcs key" and P: "pcs_inv l pcs"
    using inv_reachable [OF assms(1)] by (simp_all add: lock_inv_def)
  have p: "lt_lockers l key = Some p" using pcs_invD(3) [OF P i(1)] i(2) by simp
  have "tally (holds_key md key) pcs = 0" for md
    unfolding tally_zero using free
    by (auto simp: in_set_conv_nth holds_key_def split: lock_pc.splits)
  with K p have "holds (kl_mutex (lt_heap l p)) md = 0" for md by (simp add: key_inv_def)
  then obtain l' where "kl_try ops LWrite p l = Some l'"
    using try_write_free [of "kl_mutex (lt_heap l p)"] by (auto simp: kl_try_def)
  with i show ?thesis by (auto intro: lock_step.acquire)
qed

end

section \<open>The two lockers\<close>

interpretation lk: mutex_laws sync_Mutex "\<lambda>m md. case md of LWrite \<Rightarrow> of_bool m | LRead \<Rightarrow> 0"
  by unfold_locales
    (auto simp: sync_Mutex_def exclusive_def fun_eq_iff split: lock_mode.splits if_splits)

interpretation rw: mutex_laws sync_RWMutex
  "\<lambda>m md. case md of LWrite \<Rightarrow> of_bool (rwm_writer m) | LRead \<Rightarrow> rwm_readers m"
  by unfold_locales
    (auto simp: sync_RWMutex_def exclusive_def fun_eq_iff split: lock_mode.splits if_splits)

text \<open>C21. \<open>Locker\<close>: however the goroutines interleave, at most one of them holds a key.\<close>

theorem Locker_mutual_exclusion:
  assumes "lock_reachable sync_Mutex (l, pcs)"
    and "i < length pcs" "pcs ! i = Holding LWrite key p" "j < length pcs" "pcs ! j = Holding LWrite key q"
  shows "j = i"
  using assms by (rule lk.writer_alone)

text \<open>C22. \<open>RWLocker\<close>: a goroutine that holds a key for writing excludes every other holder of
  the key, reader or writer.\<close>

theorem RWLocker_writer_exclusion:
  assumes "lock_reachable sync_RWMutex (l, pcs)"
    and "i < length pcs" "pcs ! i = Holding LWrite key p" "j < length pcs" "pcs ! j = Holding md key q"
  shows "j = i"
  using assms by (rule rw.writer_alone)

text \<open>C23. \<open>RWLocker\<close>: the table holds no object when every goroutine is idle (the reference counts never
  leak or drop an object in use), and no unlock of a held key fails or aborts.\<close>

theorem RWLocker_no_leak_no_error:
  assumes "lock_reachable sync_RWMutex (l, pcs)"
  shows "((\<forall>i < length pcs. pcs ! i = Idle) \<longrightarrow> lt_lockers l = Map.empty) \<and>
    (\<forall>i < length pcs. \<forall>e. pcs ! i \<noteq> Erred e)"
  using rw.no_leak [OF assms] rw.no_error [OF assms] by blast

text \<open>\<open>Locker\<close>: a goroutine that waits for a key that no goroutine holds can take its next step,
  which acquires it: no wake-up is lost with an object that left the table.\<close>

theorem Locker_waiter_proceeds:
  assumes "lock_reachable sync_Mutex (l, pcs)" and "i < length pcs" "pcs ! i = Waiting LWrite key p"
    and "\<forall>j < length pcs. \<forall>md q. pcs ! j \<noteq> Holding md key q"
  shows "\<exists>l'. lock_step sync_Mutex (l, pcs) (l', pcs[i := Holding LWrite key p])"
  using assms by (rule lk.waiter_proceeds)

text \<open>\<open>TryLock\<close> of \<open>RWLocker\<close> acquires exactly when nobody holds the key in any mode, and an
  attempt that fails leaves the lock table unchanged.\<close>

theorem RWLocker_TryLock_iff:
  assumes "lock_reachable sync_RWMutex (l, pcs)"
  shows "case RWLocker_TryLock key l of (b, l') \<Rightarrow>
    (b \<longleftrightarrow> (\<forall>j < length pcs. \<forall>md q. pcs ! j \<noteq> Holding md key q)) \<and> (b \<or> l' = l)"
  unfolding RWLocker_TryLock_def using assms by (rule rw.TryLock_iff_free)

section \<open>A history\<close>

text \<open>Two goroutines use the same key: the first holds it, the second waits.\<close>

definition two_users :: "'m mutex_ops \<Rightarrow> 'm lock_system" where
  "two_users ops =
     (case getLock ops ''k'' (NewLocker ops) of (p, l) \<Rightarrow>
       (case kl_try ops LWrite p l of
          None \<Rightarrow> (l, [Waiting LWrite ''k'' p, Idle])
        | Some l \<Rightarrow>
            (case getLock ops ''k'' l of (q, l) \<Rightarrow> (l, [Holding LWrite ''k'' p, Waiting LWrite ''k'' q]))))"

lemma two_users_reachable: "lock_reachable ops (two_users ops)"
proof -
  obtain p l where a: "getLock ops ''k'' (NewLocker ops) = (p, l)" by fastforce
  have s1: "lock_reachable ops (l, [Waiting LWrite ''k'' p, Idle])"
    using lock_reachable.step [OF lock_reachable.init [of ops 2]
        lock_step.start_lock [of 0 "replicate 2 Idle" ops "''k''", OF _ _ a]]
    by (simp add: numeral_2_eq_2)
  show ?thesis
  proof (cases "kl_try ops LWrite p l")
    case None
    with a s1 show ?thesis by (simp add: two_users_def)
  next
    case (Some l1)
    have s2: "lock_reachable ops (l1, [Holding LWrite ''k'' p, Idle])"
      using lock_reachable.step [OF s1 lock_step.acquire [of 0 _ LWrite "''k''" p ops, OF _ _ Some]] by simp
    obtain q l2 where b: "getLock ops ''k'' l1 = (q, l2)" by fastforce
    have "lock_reachable ops (l2, [Holding LWrite ''k'' p, Waiting LWrite ''k'' q])"
      using lock_reachable.step [OF s2 lock_step.start_lock [of 1 _ ops "''k''", OF _ _ b]] by simp
    with a b Some show ?thesis by (simp add: two_users_def)
  qed
qed

lemma two_users_pcs:
  "snd (two_users sync_Mutex) = [Holding LWrite ''k'' 0, Waiting LWrite ''k'' 0]"
  "snd (two_users sync_RWMutex) = [Holding LWrite ''k'' 0, Waiting LWrite ''k'' 0]"
  by (simp_all add: two_users_def getLock_def NewLocker_def kl_try_def sync_Mutex_def sync_RWMutex_def)

theorem Locker_mutual_exclusion_witness:
  "lock_reachable sync_Mutex (two_users sync_Mutex) \<and>
   snd (two_users sync_Mutex) ! 0 = Holding LWrite ''k'' 0 \<and>
   snd (two_users sync_Mutex) ! 1 \<noteq> Holding LWrite ''k'' 0"
  using Locker_mutual_exclusion [of "fst (two_users sync_Mutex)" "snd (two_users sync_Mutex)" 0 "''k''" 0 1 0]
    two_users_reachable [of sync_Mutex]
  by (auto simp: two_users_pcs)

theorem RWLocker_writer_exclusion_witness:
  "lock_reachable sync_RWMutex (two_users sync_RWMutex) \<and>
   snd (two_users sync_RWMutex) ! 0 = Holding LWrite ''k'' 0 \<and>
   snd (two_users sync_RWMutex) ! 1 \<noteq> Holding LRead ''k'' 0"
  using RWLocker_writer_exclusion [of "fst (two_users sync_RWMutex)" "snd (two_users sync_RWMutex)" 0 "''k''" 0 1 LRead 0]
    two_users_reachable [of sync_RWMutex]
  by (auto simp: two_users_pcs)

theorem RWLocker_no_leak_no_error_witness:
  "lock_reachable sync_RWMutex (two_users sync_RWMutex) \<and>
   snd (two_users sync_RWMutex) ! 1 \<noteq> Erred ErrPanic"
  using RWLocker_no_leak_no_error [of "fst (two_users sync_RWMutex)" "snd (two_users sync_RWMutex)"]
    two_users_reachable [of sync_RWMutex]
  by (auto simp: two_users_pcs)

theorem Locker_waiter_proceeds_witness:
  "\<exists>l'. lock_step sync_Mutex (snd (getLock sync_Mutex ''k'' (NewLocker sync_Mutex)), [Waiting LWrite ''k'' 0])
     (l', [Holding LWrite ''k'' 0])"
proof -
  let ?l = "snd (getLock sync_Mutex ''k'' (NewLocker sync_Mutex))"
  have g: "getLock sync_Mutex ''k'' (NewLocker sync_Mutex) = (0, ?l)"
    by (simp add: getLock_def NewLocker_def)
  have "lock_reachable sync_Mutex (?l, [Waiting LWrite ''k'' 0])"
    using lock_reachable.step [OF lock_reachable.init [of sync_Mutex 1]
        lock_step.start_lock [of 0 "replicate 1 Idle" sync_Mutex "''k''", OF _ _ g]] by simp
  from Locker_waiter_proceeds [OF this, of 0 "''k''" 0] show ?thesis by simp
qed

theorem RWLocker_TryLock_iff_witness:
  "RWLocker_TryLock ''k'' (fst (two_users sync_RWMutex)) = (False, fst (two_users sync_RWMutex))"
proof -
  let ?t = "RWLocker_TryLock ''k'' (fst (two_users sync_RWMutex))"
  have "lock_reachable sync_RWMutex (fst (two_users sync_RWMutex), snd (two_users sync_RWMutex))"
    using two_users_reachable by simp
  from RWLocker_TryLock_iff [OF this, of "''k''"]
  show ?thesis by (cases ?t) (auto simp: two_users_pcs elim!: allE [of _ 0])
qed

end
