(* ===== verification/Database.thy ===== *)
theory Database
  imports Go_Strings
begin

text \<open>
  Package \<open>pkg/database\<close>: the tables of \<open>db/schema/sqlite.sql\<close> and the queries of
  \<open>db/query.sqlite.sql\<close>, compiled by sqlc to \<open>sqlitedb/query.sqlite.sql.go\<close>. A table is the list of its rows in
  the order they were inserted; foreign keys are enforced (\<open>PRAGMA foreign_keys = ON\<close>) and
  deletions cascade as the schema says. The generated wrapper turns \<open>sql.ErrNoRows\<close> into \<open>database.ErrNotFound\<close>.

  \<open>db_now\<close> is the clock behind \<open>CURRENT_TIMESTAMP\<close>. \<open>db_faults\<close> is the schedule of failures, one entry per
  query: \<open>Some e\<close> makes that query fail with \<open>e\<close> and change nothing. The identifiers of all tables come from
  one increasing counter; the code never compares identifiers of different tables.
\<close>

section \<open>Tables\<close>

record narinfo_row =
  ni_id :: nat
  ni_hash :: string
  ni_created_at :: nat
  ni_updated_at :: "nat option"
  ni_last_accessed_at :: nat
  ni_store_path :: "string option"
  ni_url :: "string option"
  ni_compression :: "string option"
  ni_file_hash :: "string option"
  ni_file_size :: "int option"
  ni_nar_hash :: "string option"
  ni_nar_size :: "int option"
  ni_deriver :: "string option"
  ni_system :: "string option"
  ni_ca :: "string option"

record nar_file_row =
  nf_id :: nat
  nf_hash :: string
  nf_compression :: string
  nf_file_size :: nat
  nf_query :: string
  nf_created_at :: nat
  nf_updated_at :: "nat option"
  nf_last_accessed_at :: nat
  nf_total_chunks :: int
  nf_chunking_started_at :: "nat option"
  nf_verified_at :: "nat option"

record chunk_row =
  ck_id :: nat
  ck_hash :: string
  ck_size :: nat
  ck_compressed_size :: nat

record chunk_link =
  cl_nar_file_id :: nat
  cl_chunk_id :: nat
  cl_chunk_index :: nat

record database =
  db_narinfos :: "narinfo_row list"
  db_nar_files :: "nar_file_row list"
  db_chunks :: "chunk_row list"
  db_narinfo_nar_files :: "(nat \<times> nat) list"
  db_references :: "(nat \<times> string) list"
  db_signatures :: "(nat \<times> string) list"
  db_nar_file_chunks :: "chunk_link list"
  db_config :: "(string \<times> string) list"
  db_pinned :: "string list"
  db_next :: nat
  db_now :: nat
  db_faults :: "err option list"

definition empty_db :: database where
  "empty_db = \<lparr>db_narinfos = [], db_nar_files = [], db_chunks = [], db_narinfo_nar_files = [], db_references = [],
     db_signatures = [], db_nar_file_chunks = [], db_config = [], db_pinned = [], db_next = 1, db_now = 0, db_faults = []\<rparr>"

text \<open>One query.\<close>

definition db_call :: "(database, 'a) prog \<Rightarrow> (database, 'a) prog" where
  "db_call m s =
     (case db_faults s of
        [] \<Rightarrow> m s
      | None # fs \<Rightarrow> m (s\<lparr>db_faults := fs\<rparr>)
      | Some e # fs \<Rightarrow> (Inl e, s\<lparr>db_faults := fs\<rparr>))"

text \<open>The first row of a result, for the queries marked \<open>:one\<close>.\<close>

definition one_row :: "'a list \<Rightarrow> 'a result" where
  "one_row xs = (case xs of [] \<Rightarrow> Inl ErrDBNotFound | x # _ \<Rightarrow> Inr x)"

definition select :: "(database \<Rightarrow> 'a) \<Rightarrow> (database, 'a) prog" where
  "select f = db_call (\<lambda>s. (Inr (f s), s))"

definition select_one :: "(database \<Rightarrow> 'a list) \<Rightarrow> (database, 'a) prog" where
  "select_one f = db_call (\<lambda>s. (one_row (f s), s))"

definition exec :: "(database \<Rightarrow> database) \<Rightarrow> (database, unit) prog" where
  "exec f = db_call (\<lambda>s. (Inr (), f s))"

definition execrows :: "(database \<Rightarrow> nat) \<Rightarrow> (database \<Rightarrow> database) \<Rightarrow> (database, nat) prog" where
  "execrows n f = db_call (\<lambda>s. (Inr (n s), f s))"

text \<open>\<open>IsDuplicateKeyError\<close> for SQLite tests the primary result code, which is the same for every constraint.\<close>

definition IsDuplicateKeyError :: "err \<Rightarrow> bool" where
  "IsDuplicateKeyError e \<longleftrightarrow> e \<in> {ErrDuplicateKey, ErrForeignKey, ErrCheck}"

definition IsDeadlockError :: "err \<Rightarrow> bool" where
  "IsDeadlockError e \<longleftrightarrow> e = ErrDeadlock"

definition IsNotFoundError :: "err \<Rightarrow> bool" where
  "IsNotFoundError e \<longleftrightarrow> e = ErrDBNotFound"

section \<open>Changing tables\<close>

definition upd_where :: "('a \<Rightarrow> bool) \<Rightarrow> ('a \<Rightarrow> 'a) \<Rightarrow> 'a list \<Rightarrow> 'a list" where
  "upd_where p f = map (\<lambda>x. if p x then f x else x)"

text \<open>\<open>INSERT ... ON CONFLICT DO NOTHING\<close> on a table whose whole row is its key.\<close>

definition add_row :: "'a \<Rightarrow> 'a list \<Rightarrow> 'a list" where
  "add_row x xs = (if x \<in> set xs then xs else xs @ [x])"

text \<open>Deleting rows, with what the schema deletes along.\<close>

definition delete_narinfos :: "(narinfo_row \<Rightarrow> bool) \<Rightarrow> database \<Rightarrow> database" where
  "delete_narinfos p s =
     (let gone = (\<lambda>i. list_ex (\<lambda>r. p r \<and> ni_id r = i) (db_narinfos s)) in
      s\<lparr>db_narinfos := filter (\<lambda>r. \<not> p r) (db_narinfos s),
        db_narinfo_nar_files := filter (\<lambda>(i, _). \<not> gone i) (db_narinfo_nar_files s),
        db_references := filter (\<lambda>(i, _). \<not> gone i) (db_references s),
        db_signatures := filter (\<lambda>(i, _). \<not> gone i) (db_signatures s)\<rparr>)"

definition delete_nar_files :: "(nar_file_row \<Rightarrow> bool) \<Rightarrow> database \<Rightarrow> database" where
  "delete_nar_files p s =
     (let gone = (\<lambda>i. list_ex (\<lambda>r. p r \<and> nf_id r = i) (db_nar_files s)) in
      s\<lparr>db_nar_files := filter (\<lambda>r. \<not> p r) (db_nar_files s),
        db_narinfo_nar_files := filter (\<lambda>(_, j). \<not> gone j) (db_narinfo_nar_files s),
        db_nar_file_chunks := filter (\<lambda>l. \<not> gone (cl_nar_file_id l)) (db_nar_file_chunks s)\<rparr>)"

definition delete_chunks :: "(chunk_row \<Rightarrow> bool) \<Rightarrow> database \<Rightarrow> database" where
  "delete_chunks p s =
     (let gone = (\<lambda>i. list_ex (\<lambda>r. p r \<and> ck_id r = i) (db_chunks s)) in
      s\<lparr>db_chunks := filter (\<lambda>r. \<not> p r) (db_chunks s),
        db_nar_file_chunks := filter (\<lambda>l. \<not> gone (cl_chunk_id l)) (db_nar_file_chunks s)\<rparr>)"

definition has_narinfo :: "database \<Rightarrow> nat \<Rightarrow> bool" where
  "has_narinfo s i \<longleftrightarrow> list_ex (\<lambda>r. ni_id r = i) (db_narinfos s)"

definition has_nar_file :: "database \<Rightarrow> nat \<Rightarrow> bool" where
  "has_nar_file s i \<longleftrightarrow> list_ex (\<lambda>r. nf_id r = i) (db_nar_files s)"

definition has_chunk_row :: "database \<Rightarrow> nat \<Rightarrow> bool" where
  "has_chunk_row s i \<longleftrightarrow> list_ex (\<lambda>r. ck_id r = i) (db_chunks s)"

section \<open>Queries on narinfos\<close>

definition GetNarInfoByHash :: "string \<Rightarrow> (database, narinfo_row) prog" where
  "GetNarInfoByHash h = select_one (\<lambda>s. filter (\<lambda>r. ni_hash r = h) (db_narinfos s))"

definition GetNarInfoHashByNarURL :: "string \<Rightarrow> (database, string) prog" where
  "GetNarInfoHashByNarURL u = select_one (\<lambda>s. map ni_hash (filter (\<lambda>r. ni_url r = Some u) (db_narinfos s)))"

definition GetNarInfoHashesByURL :: "string \<Rightarrow> (database, string list) prog" where
  "GetNarInfoHashesByURL u = select (\<lambda>s. map ni_hash (filter (\<lambda>r. ni_url r = Some u) (db_narinfos s)))"

text \<open>The columns a caller gives, and the row they make.\<close>

record narinfo_params =
  np_hash :: string
  np_store_path :: "string option"
  np_url :: "string option"
  np_compression :: "string option"
  np_file_hash :: "string option"
  np_file_size :: "int option"
  np_nar_hash :: "string option"
  np_nar_size :: "int option"
  np_deriver :: "string option"
  np_system :: "string option"
  np_ca :: "string option"

definition set_columns :: "narinfo_params \<Rightarrow> nat option \<Rightarrow> narinfo_row \<Rightarrow> narinfo_row" where
  "set_columns a now r =
     r\<lparr>ni_store_path := np_store_path a, ni_url := np_url a, ni_compression := np_compression a,
       ni_file_hash := np_file_hash a, ni_file_size := np_file_size a, ni_nar_hash := np_nar_hash a,
       ni_nar_size := np_nar_size a, ni_deriver := np_deriver a, ni_system := np_system a, ni_ca := np_ca a,
       ni_updated_at := now\<rparr>"

definition new_narinfo_row :: "narinfo_params \<Rightarrow> nat \<Rightarrow> nat \<Rightarrow> narinfo_row" where
  "new_narinfo_row a i now =
     \<lparr>ni_id = i, ni_hash = np_hash a, ni_created_at = now, ni_updated_at = None, ni_last_accessed_at = now,
      ni_store_path = np_store_path a, ni_url = np_url a, ni_compression = np_compression a,
      ni_file_hash = np_file_hash a, ni_file_size = np_file_size a, ni_nar_hash = np_nar_hash a,
      ni_nar_size = np_nar_size a, ni_deriver = np_deriver a, ni_system = np_system a, ni_ca = np_ca a\<rparr>"

text \<open>The CHECKs of the two sizes; \<open>NULL\<close> passes them.\<close>

definition sizes_ok :: "narinfo_params \<Rightarrow> bool" where
  "sizes_ok a \<longleftrightarrow> (\<forall>n \<in> set_option (np_file_size a). 0 \<le> n) \<and> (\<forall>n \<in> set_option (np_nar_size a). 0 \<le> n)"

text \<open>The CHECKs come before the conflict. The upsert only touches a row without URL; otherwise no row comes back.\<close>

definition CreateNarInfo :: "narinfo_params \<Rightarrow> (database, narinfo_row) prog" where
  "CreateNarInfo a = db_call (\<lambda>s.
     if \<not> sizes_ok a then (Inl ErrCheck, s)
     else case filter (\<lambda>r. ni_hash r = np_hash a) (db_narinfos s) of
       [] \<Rightarrow> (let r = new_narinfo_row a (db_next s) (db_now s)
              in (Inr r, s\<lparr>db_narinfos := db_narinfos s @ [r], db_next := db_next s + 1\<rparr>))
     | r # _ \<Rightarrow>
         if ni_url r = None then
           (let r' = set_columns a (Some (db_now s)) r
            in (Inr r', s\<lparr>db_narinfos := upd_where (\<lambda>x. ni_hash x = np_hash a) (set_columns a (Some (db_now s))) (db_narinfos s)\<rparr>))
         else (Inl ErrDBNotFound, s))"

definition UpdateNarInfo :: "narinfo_params \<Rightarrow> (database, narinfo_row) prog" where
  "UpdateNarInfo a = db_call (\<lambda>s.
     case filter (\<lambda>r. ni_hash r = np_hash a) (db_narinfos s) of
       [] \<Rightarrow> (Inl ErrDBNotFound, s)
     | r # _ \<Rightarrow>
         if \<not> sizes_ok a then (Inl ErrCheck, s)
         else (let r' = set_columns a (Some (db_now s)) r
          in (Inr r', s\<lparr>db_narinfos := upd_where (\<lambda>x. ni_hash x = np_hash a) (set_columns a (Some (db_now s))) (db_narinfos s)\<rparr>)))"

definition UpdateNarInfoFileSize :: "string \<Rightarrow> int option \<Rightarrow> (database, unit) prog" where
  "UpdateNarInfoFileSize h n = exec (\<lambda>s. s\<lparr>db_narinfos :=
     upd_where (\<lambda>r. ni_hash r = h) (\<lambda>r. r\<lparr>ni_file_size := n, ni_updated_at := Some (db_now s)\<rparr>) (db_narinfos s)\<rparr>)"

definition UpdateNarInfoFileHash :: "string \<Rightarrow> string option \<Rightarrow> (database, unit) prog" where
  "UpdateNarInfoFileHash h x = exec (\<lambda>s. s\<lparr>db_narinfos :=
     upd_where (\<lambda>r. ni_hash r = h) (\<lambda>r. r\<lparr>ni_file_hash := x, ni_updated_at := Some (db_now s)\<rparr>) (db_narinfos s)\<rparr>)"

definition UpdateNarInfoCompressionAndURL :: "string \<Rightarrow> string \<Rightarrow> string \<Rightarrow> (database, nat) prog" where
  "UpdateNarInfoCompressionAndURL cmp new old = execrows
     (\<lambda>s. length (filter (\<lambda>r. ni_url r = Some old) (db_narinfos s)))
     (\<lambda>s. s\<lparr>db_narinfos := upd_where (\<lambda>r. ni_url r = Some old)
        (\<lambda>r. r\<lparr>ni_compression := Some cmp, ni_url := Some new, ni_updated_at := Some (db_now s)\<rparr>) (db_narinfos s)\<rparr>)"

definition UpdateNarInfoCompressionFileSizeHashAndURL ::
  "string \<Rightarrow> string \<Rightarrow> int option \<Rightarrow> string option \<Rightarrow> string \<Rightarrow> (database, nat) prog" where
  "UpdateNarInfoCompressionFileSizeHashAndURL cmp new sz fh old = execrows
     (\<lambda>s. length (filter (\<lambda>r. ni_url r = Some old) (db_narinfos s)))
     (\<lambda>s. s\<lparr>db_narinfos := upd_where (\<lambda>r. ni_url r = Some old)
        (\<lambda>r. r\<lparr>ni_compression := Some cmp, ni_url := Some new, ni_file_size := sz, ni_file_hash := fh,
               ni_updated_at := Some (db_now s)\<rparr>) (db_narinfos s)\<rparr>)"

definition TouchNarInfo :: "string \<Rightarrow> (database, nat) prog" where
  "TouchNarInfo h = execrows
     (\<lambda>s. length (filter (\<lambda>r. ni_hash r = h) (db_narinfos s)))
     (\<lambda>s. s\<lparr>db_narinfos := upd_where (\<lambda>r. ni_hash r = h)
        (\<lambda>r. r\<lparr>ni_last_accessed_at := db_now s, ni_updated_at := Some (db_now s)\<rparr>) (db_narinfos s)\<rparr>)"

definition DeleteNarInfoByHash :: "string \<Rightarrow> (database, nat) prog" where
  "DeleteNarInfoByHash h = execrows
     (\<lambda>s. length (filter (\<lambda>r. ni_hash r = h) (db_narinfos s))) (delete_narinfos (\<lambda>r. ni_hash r = h))"

definition DeleteNarInfoByID :: "nat \<Rightarrow> (database, nat) prog" where
  "DeleteNarInfoByID i = execrows
     (\<lambda>s. length (filter (\<lambda>r. ni_id r = i) (db_narinfos s))) (delete_narinfos (\<lambda>r. ni_id r = i))"

definition AddNarInfoReference :: "nat \<Rightarrow> string \<Rightarrow> (database, unit) prog" where
  "AddNarInfoReference i ref = db_call (\<lambda>s.
     if has_narinfo s i then (Inr (), s\<lparr>db_references := add_row (i, ref) (db_references s)\<rparr>)
     else (Inl ErrForeignKey, s))"

definition AddNarInfoSignature :: "nat \<Rightarrow> string \<Rightarrow> (database, unit) prog" where
  "AddNarInfoSignature i sig = db_call (\<lambda>s.
     if has_narinfo s i then (Inr (), s\<lparr>db_signatures := add_row (i, sig) (db_signatures s)\<rparr>)
     else (Inl ErrForeignKey, s))"

text \<open>The bulk forms are loops of the generated wrapper. The two queries have no \<open>ORDER BY\<close>: SQLite answers them from the index of the primary key, so that the rows come in
  the order of their bytes.\<close>

definition AddNarInfoReferences :: "nat \<Rightarrow> string list \<Rightarrow> (database, unit) prog" where
  "AddNarInfoReferences i refs = forE refs (AddNarInfoReference i)"

definition AddNarInfoSignatures :: "nat \<Rightarrow> string list \<Rightarrow> (database, unit) prog" where
  "AddNarInfoSignatures i sigs = forE sigs (AddNarInfoSignature i)"

definition GetNarInfoReferences :: "nat \<Rightarrow> (database, string list) prog" where
  "GetNarInfoReferences i = select (\<lambda>s. sort (map snd (filter (\<lambda>(j, _). j = i) (db_references s))))"

definition GetNarInfoSignatures :: "nat \<Rightarrow> (database, string list) prog" where
  "GetNarInfoSignatures i = select (\<lambda>s. sort (map snd (filter (\<lambda>(j, _). j = i) (db_signatures s))))"

definition GetNarInfoCount :: "(database, nat) prog" where
  "GetNarInfoCount = select (\<lambda>s. length (db_narinfos s))"

definition GetUnmigratedNarInfoHashes :: "(database, string list) prog" where
  "GetUnmigratedNarInfoHashes = select (\<lambda>s. map ni_hash (filter (\<lambda>r. ni_url r = None) (db_narinfos s)))"

definition GetMigratedNarInfoHashes :: "(database, string list) prog" where
  "GetMigratedNarInfoHashes = select (\<lambda>s. map ni_hash (filter (\<lambda>r. ni_url r \<noteq> None) (db_narinfos s)))"

definition GetNarInfosWithoutNarFiles :: "(database, narinfo_row list) prog" where
  "GetNarInfosWithoutNarFiles =
     select (\<lambda>s. filter (\<lambda>r. \<not> list_ex (\<lambda>(i, _). i = ni_id r) (db_narinfo_nar_files s)) (db_narinfos s))"

section \<open>Queries on NAR files\<close>

definition nar_file_key :: "string \<Rightarrow> string \<Rightarrow> string \<Rightarrow> nar_file_row \<Rightarrow> bool" where
  "nar_file_key h c q r \<longleftrightarrow> nf_hash r = h \<and> nf_compression r = c \<and> nf_query r = q"

definition GetNarFileByHashAndCompressionAndQuery :: "string \<Rightarrow> string \<Rightarrow> string \<Rightarrow> (database, nar_file_row) prog" where
  "GetNarFileByHashAndCompressionAndQuery h c q = select_one (\<lambda>s. filter (nar_file_key h c q) (db_nar_files s))"

definition GetNarFileByID :: "nat \<Rightarrow> (database, nar_file_row) prog" where
  "GetNarFileByID i = select_one (\<lambda>s. filter (\<lambda>r. nf_id r = i) (db_nar_files s))"

definition GetNarFileByNarInfoID :: "nat \<Rightarrow> (database, nar_file_row) prog" where
  "GetNarFileByNarInfoID i =
     select_one (\<lambda>s. filter (\<lambda>r. (i, nf_id r) \<in> set (db_narinfo_nar_files s)) (db_nar_files s))"

definition GetNarInfoURLByNarFileHash :: "string \<Rightarrow> string \<Rightarrow> string \<Rightarrow> (database, string option) prog" where
  "GetNarInfoURLByNarFileHash h c q = select_one (\<lambda>s.
     map ni_url (filter (\<lambda>n. list_ex (\<lambda>r. nar_file_key h c q r \<and> (ni_id n, nf_id r) \<in> set (db_narinfo_nar_files s))
                               (db_nar_files s)) (db_narinfos s)))"

definition GetNarInfoNarHashByNarFileID :: "nat \<Rightarrow> (database, string option) prog" where
  "GetNarInfoNarHashByNarFileID j = select_one (\<lambda>s.
     map ni_nar_hash (filter (\<lambda>n. (ni_id n, j) \<in> set (db_narinfo_nar_files s)) (db_narinfos s)))"

text \<open>A conflicting insert only resets \<open>updated_at\<close> to the default of the column and returns the row that is there.\<close>

definition CreateNarFile :: "string \<Rightarrow> string \<Rightarrow> string \<Rightarrow> nat \<Rightarrow> int \<Rightarrow> (database, nar_file_row) prog" where
  "CreateNarFile h c q sz tot = db_call (\<lambda>s.
     case filter (nar_file_key h c q) (db_nar_files s) of
       [] \<Rightarrow>
         (let r = \<lparr>nf_id = db_next s, nf_hash = h, nf_compression = c, nf_file_size = sz, nf_query = q,
                   nf_created_at = db_now s, nf_updated_at = None, nf_last_accessed_at = db_now s,
                   nf_total_chunks = tot, nf_chunking_started_at = None, nf_verified_at = None\<rparr>
          in (Inr r, s\<lparr>db_nar_files := db_nar_files s @ [r], db_next := db_next s + 1\<rparr>))
     | r # _ \<Rightarrow>
         (Inr (r\<lparr>nf_updated_at := None\<rparr>),
          s\<lparr>db_nar_files := upd_where (nar_file_key h c q) (\<lambda>r. r\<lparr>nf_updated_at := None\<rparr>) (db_nar_files s)\<rparr>))"

definition upd_nar_file :: "nat \<Rightarrow> (nar_file_row \<Rightarrow> nar_file_row) \<Rightarrow> database \<Rightarrow> database" where
  "upd_nar_file i f s = s\<lparr>db_nar_files := upd_where (\<lambda>r. nf_id r = i) f (db_nar_files s)\<rparr>"

definition SetNarFileChunkingStarted :: "nat \<Rightarrow> (database, unit) prog" where
  "SetNarFileChunkingStarted i = exec (\<lambda>s.
     upd_nar_file i (\<lambda>r. r\<lparr>nf_chunking_started_at := Some (db_now s), nf_updated_at := Some (db_now s)\<rparr>) s)"

definition ClearNarFileChunkingStarted :: "nat \<Rightarrow> (database, unit) prog" where
  "ClearNarFileChunkingStarted i = exec (\<lambda>s.
     upd_nar_file i (\<lambda>r. r\<lparr>nf_chunking_started_at := None, nf_updated_at := Some (db_now s)\<rparr>) s)"

definition UpdateNarFileFileSize :: "nat \<Rightarrow> nat \<Rightarrow> (database, unit) prog" where
  "UpdateNarFileFileSize i n = exec (\<lambda>s.
     upd_nar_file i (\<lambda>r. r\<lparr>nf_file_size := n, nf_updated_at := Some (db_now s)\<rparr>) s)"

definition UpdateNarFileTotalChunks :: "nat \<Rightarrow> int \<Rightarrow> nat \<Rightarrow> (database, unit) prog" where
  "UpdateNarFileTotalChunks i tot sz = exec (\<lambda>s.
     upd_nar_file i (\<lambda>r. r\<lparr>nf_total_chunks := tot, nf_file_size := sz, nf_updated_at := Some (db_now s),
                          nf_chunking_started_at := None\<rparr>) s)"

definition UpdateNarFileVerifiedAt :: "nat \<Rightarrow> (database, unit) prog" where
  "UpdateNarFileVerifiedAt i = exec (\<lambda>s. upd_nar_file i (\<lambda>r. r\<lparr>nf_verified_at := Some (db_now s)\<rparr>) s)"

definition TouchNarFile :: "string \<Rightarrow> string \<Rightarrow> string \<Rightarrow> (database, nat) prog" where
  "TouchNarFile h c q = execrows
     (\<lambda>s. length (filter (nar_file_key h c q) (db_nar_files s)))
     (\<lambda>s. s\<lparr>db_nar_files := upd_where (nar_file_key h c q)
        (\<lambda>r. r\<lparr>nf_last_accessed_at := db_now s, nf_updated_at := Some (db_now s)\<rparr>) (db_nar_files s)\<rparr>)"

definition DeleteNarFileByHash :: "string \<Rightarrow> string \<Rightarrow> string \<Rightarrow> (database, nat) prog" where
  "DeleteNarFileByHash h c q = execrows
     (\<lambda>s. length (filter (nar_file_key h c q) (db_nar_files s))) (delete_nar_files (nar_file_key h c q))"

definition DeleteNarFileByID :: "nat \<Rightarrow> (database, nat) prog" where
  "DeleteNarFileByID i = execrows
     (\<lambda>s. length (filter (\<lambda>r. nf_id r = i) (db_nar_files s))) (delete_nar_files (\<lambda>r. nf_id r = i))"

definition orphaned_nar_file :: "database \<Rightarrow> nar_file_row \<Rightarrow> bool" where
  "orphaned_nar_file s r \<longleftrightarrow> \<not> list_ex (\<lambda>(_, j). j = nf_id r) (db_narinfo_nar_files s)"

definition DeleteOrphanedNarFiles :: "(database, nat) prog" where
  "DeleteOrphanedNarFiles = execrows
     (\<lambda>s. length (filter (orphaned_nar_file s) (db_nar_files s))) (\<lambda>s. delete_nar_files (orphaned_nar_file s) s)"

definition GetOrphanedNarFiles :: "(database, nar_file_row list) prog" where
  "GetOrphanedNarFiles = select (\<lambda>s. filter (orphaned_nar_file s) (db_nar_files s))"

definition GetNarTotalSize :: "(database, nat) prog" where
  "GetNarTotalSize = select (\<lambda>s. sum_list (map nf_file_size (db_nar_files s)))"

definition GetNarFileCount :: "(database, nat) prog" where
  "GetNarFileCount = select (\<lambda>s. length (db_nar_files s))"

definition LinkNarInfoToNarFile :: "nat \<Rightarrow> nat \<Rightarrow> (database, unit) prog" where
  "LinkNarInfoToNarFile i j = db_call (\<lambda>s.
     if has_narinfo s i \<and> has_nar_file s j
     then (Inr (), s\<lparr>db_narinfo_nar_files := add_row (i, j) (db_narinfo_nar_files s)\<rparr>)
     else (Inl ErrForeignKey, s))"

definition LinkNarInfosByURLToNarFile :: "nat \<Rightarrow> string \<Rightarrow> (database, unit) prog" where
  "LinkNarInfosByURLToNarFile j u = db_call (\<lambda>s.
     let ids = map ni_id (filter (\<lambda>r. ni_url r = Some u) (db_narinfos s)) in
     if ids = [] \<or> has_nar_file s j
     then (Inr (), s\<lparr>db_narinfo_nar_files := fold (\<lambda>i. add_row (i, j)) ids (db_narinfo_nar_files s)\<rparr>)
     else (Inl ErrForeignKey, s))"

text \<open>
  A narinfo is returned when the NAR files of the narinfos used no later than it (ties broken by identifier), itself
  included, together are no larger than the bound.
\<close>

definition used_before :: "narinfo_row \<Rightarrow> narinfo_row \<Rightarrow> bool" where
  "used_before a b \<longleftrightarrow> ni_last_accessed_at a < ni_last_accessed_at b \<or>
     ni_last_accessed_at a = ni_last_accessed_at b \<and> ni_id a \<le> ni_id b"

definition size_up_to :: "database \<Rightarrow> narinfo_row \<Rightarrow> nat" where
  "size_up_to s n =
     sum_list (map nf_file_size (filter
       (\<lambda>f. list_ex (\<lambda>m. used_before m n \<and> (ni_id m, nf_id f) \<in> set (db_narinfo_nar_files s)) (db_narinfos s))
       (db_nar_files s)))"

definition GetLeastUsedNarInfos :: "nat \<Rightarrow> (database, narinfo_row list) prog" where
  "GetLeastUsedNarInfos bound = select (\<lambda>s. filter (\<lambda>n. size_up_to s n \<le> bound) (db_narinfos s))"

definition GetCDCNarFilesWithSizeMismatch :: "(database, nar_file_row list) prog" where
  "GetCDCNarFilesWithSizeMismatch = select (\<lambda>s.
     filter (\<lambda>f. nf_total_chunks f > 0 \<and>
       list_ex (\<lambda>n. (ni_id n, nf_id f) \<in> set (db_narinfo_nar_files s) \<and>
                    (case ni_nar_size n of None \<Rightarrow> False | Some k \<Rightarrow> int (nf_file_size f) \<noteq> k)) (db_narinfos s))
       (db_nar_files s))"

definition GetNarFilesToChunk :: "(database, nar_file_row list) prog" where
  "GetNarFilesToChunk = select (\<lambda>s. sort_key nf_id (filter (\<lambda>f. nf_total_chunks f = 0) (db_nar_files s)))"

definition GetNarFilesToChunkCount :: "(database, nat) prog" where
  "GetNarFilesToChunkCount = select (\<lambda>s. length (filter (\<lambda>f. nf_total_chunks f = 0) (db_nar_files s)))"

definition GetAllNarFiles :: "(database, nar_file_row list) prog" where
  "GetAllNarFiles = select db_nar_files"

definition HasAnyChunkedNarFiles :: "(database, bool) prog" where
  "HasAnyChunkedNarFiles = select (\<lambda>s. list_ex (\<lambda>f. nf_total_chunks f > 0) (db_nar_files s))"

text \<open>The join returns a file once for every chunked file of the same hash.\<close>

definition GetOldCompressedNarFiles :: "nat \<Rightarrow> (database, nar_file_row list) prog" where
  "GetOldCompressedNarFiles cutoff = select (\<lambda>s.
     concat (map (\<lambda>old. map (\<lambda>_. old)
        (filter (\<lambda>new. nf_hash old = nf_hash new \<and> nf_total_chunks old = 0 \<and> nf_compression old \<noteq> ''none'' \<and>
                       nf_compression new = ''none'' \<and> nf_total_chunks new > 0 \<and> nf_created_at old < cutoff)
          (db_nar_files s))) (db_nar_files s)))"

definition GetStuckNarFiles :: "nat \<Rightarrow> nat \<Rightarrow> (database, nar_file_row list) prog" where
  "GetStuckNarFiles cutoff batch = select (\<lambda>s.
     take batch (sort_key nf_id (filter (\<lambda>f. nf_total_chunks f = 0 \<and> nf_chunking_started_at f = None \<and>
       nf_created_at f < cutoff) (db_nar_files s))))"

section \<open>Queries on chunks\<close>

definition GetChunkByHash :: "string \<Rightarrow> (database, chunk_row) prog" where
  "GetChunkByHash h = select_one (\<lambda>s. filter (\<lambda>c. ck_hash c = h) (db_chunks s))"

definition CreateChunk :: "string \<Rightarrow> nat \<Rightarrow> nat \<Rightarrow> (database, chunk_row) prog" where
  "CreateChunk h sz csz = db_call (\<lambda>s.
     case filter (\<lambda>c. ck_hash c = h) (db_chunks s) of
       [] \<Rightarrow>
         (let r = \<lparr>ck_id = db_next s, ck_hash = h, ck_size = sz, ck_compressed_size = csz\<rparr>
          in (Inr r, s\<lparr>db_chunks := db_chunks s @ [r], db_next := db_next s + 1\<rparr>))
     | r # _ \<Rightarrow> (Inr r, s))"

definition link_chunk :: "nat \<Rightarrow> nat \<Rightarrow> nat \<Rightarrow> chunk_link list \<Rightarrow> chunk_link list" where
  "link_chunk j c k ls =
     (if list_ex (\<lambda>l. cl_nar_file_id l = j \<and> cl_chunk_index l = k) ls then ls
      else ls @ [\<lparr>cl_nar_file_id = j, cl_chunk_id = c, cl_chunk_index = k\<rparr>])"

definition LinkNarFileToChunk :: "nat \<Rightarrow> nat \<Rightarrow> nat \<Rightarrow> (database, unit) prog" where
  "LinkNarFileToChunk j c k = db_call (\<lambda>s.
     if has_nar_file s j \<and> has_chunk_row s c
     then (Inr (), s\<lparr>db_nar_file_chunks := link_chunk j c k (db_nar_file_chunks s)\<rparr>)
     else (Inl ErrForeignKey, s))"

definition LinkNarFileToChunks :: "nat \<Rightarrow> nat list \<Rightarrow> nat list \<Rightarrow> (database, unit) prog" where
  "LinkNarFileToChunks j cs ks =
     (if length ks \<noteq> length cs then raiseE ErrMismatchedSlices
      else forE (zip cs ks) (\<lambda>(c, k). LinkNarFileToChunk j c k))"

text \<open>The chunks of a NAR file in the order of their index.\<close>

definition linked_chunks :: "database \<Rightarrow> nat \<Rightarrow> (nat \<times> chunk_row) list" where
  "linked_chunks s j =
     concat (map (\<lambda>l. map (Pair (cl_chunk_index l)) (filter (\<lambda>c. ck_id c = cl_chunk_id l) (db_chunks s)))
       (sort_key cl_chunk_index (filter (\<lambda>l. cl_nar_file_id l = j) (db_nar_file_chunks s))))"

definition GetChunksByNarFileID :: "nat \<Rightarrow> (database, chunk_row list) prog" where
  "GetChunksByNarFileID j = select (\<lambda>s. map snd (linked_chunks s j))"

definition GetChunkByNarFileIDAndIndex :: "nat \<Rightarrow> nat \<Rightarrow> (database, chunk_row) prog" where
  "GetChunkByNarFileIDAndIndex j k = select_one (\<lambda>s. map snd (filter (\<lambda>(i, _). i = k) (linked_chunks s j)))"

definition GetChunksByNarFileIDFromIndex :: "nat \<Rightarrow> nat \<Rightarrow> nat \<Rightarrow> (database, chunk_row list) prog" where
  "GetChunksByNarFileIDFromIndex j k n =
     select (\<lambda>s. take n (map snd (filter (\<lambda>(i, _). i \<ge> k) (linked_chunks s j))))"

definition orphaned_chunk :: "database \<Rightarrow> chunk_row \<Rightarrow> bool" where
  "orphaned_chunk s c \<longleftrightarrow> \<not> list_ex (\<lambda>l. cl_chunk_id l = ck_id c) (db_nar_file_chunks s)"

definition GetOrphanedChunks :: "(database, chunk_row list) prog" where
  "GetOrphanedChunks = select (\<lambda>s. filter (orphaned_chunk s) (db_chunks s))"

definition DeleteOrphanedChunks :: "(database, nat) prog" where
  "DeleteOrphanedChunks = execrows
     (\<lambda>s. length (filter (orphaned_chunk s) (db_chunks s))) (\<lambda>s. delete_chunks (orphaned_chunk s) s)"

definition DeleteChunkByID :: "nat \<Rightarrow> (database, unit) prog" where
  "DeleteChunkByID i = exec (delete_chunks (\<lambda>c. ck_id c = i))"

definition DeleteNarFileChunksByNarFileID :: "nat \<Rightarrow> (database, unit) prog" where
  "DeleteNarFileChunksByNarFileID j =
     exec (\<lambda>s. s\<lparr>db_nar_file_chunks := filter (\<lambda>l. cl_nar_file_id l \<noteq> j) (db_nar_file_chunks s)\<rparr>)"

definition GetChunkCount :: "(database, nat) prog" where
  "GetChunkCount = select (\<lambda>s. length (db_chunks s))"

definition GetAllChunks :: "(database, chunk_row list) prog" where
  "GetAllChunks = select db_chunks"

section \<open>Configuration and pinned closures\<close>

definition GetConfigByKey :: "string \<Rightarrow> (database, string) prog" where
  "GetConfigByKey k = select_one (\<lambda>s. map snd (filter (\<lambda>(j, _). j = k) (db_config s)))"

definition CreateConfig :: "string \<Rightarrow> string \<Rightarrow> (database, string) prog" where
  "CreateConfig k v = db_call (\<lambda>s.
     if k \<in> set (map fst (db_config s)) then (Inl ErrDuplicateKey, s)
     else (Inr v, s\<lparr>db_config := db_config s @ [(k, v)]\<rparr>))"

definition SetConfig :: "string \<Rightarrow> string \<Rightarrow> (database, unit) prog" where
  "SetConfig k v = exec (\<lambda>s.
     s\<lparr>db_config := (if k \<in> set (map fst (db_config s))
        then upd_where (\<lambda>(j, _). j = k) (\<lambda>_. (k, v)) (db_config s) else db_config s @ [(k, v)])\<rparr>)"

definition CreatePinnedClosure :: "string \<Rightarrow> (database, string) prog" where
  "CreatePinnedClosure h = db_call (\<lambda>s.
     if h \<in> set (db_pinned s) then (Inl ErrDuplicateKey, s) else (Inr h, s\<lparr>db_pinned := h # db_pinned s\<rparr>))"

definition GetPinnedClosure :: "string \<Rightarrow> (database, string) prog" where
  "GetPinnedClosure h = select_one (\<lambda>s. filter (\<lambda>x. x = h) (db_pinned s))"

definition DeletePinnedClosure :: "string \<Rightarrow> (database, nat) prog" where
  "DeletePinnedClosure h = execrows (\<lambda>s. length (filter (\<lambda>x. x = h) (db_pinned s)))
     (\<lambda>s. s\<lparr>db_pinned := filter (\<lambda>x. x \<noteq> h) (db_pinned s)\<rparr>)"

text \<open>The newest first.\<close>

definition ListPinnedClosures :: "(database, string list) prog" where
  "ListPinnedClosures = select db_pinned"

section \<open>Integrity\<close>

text \<open>Primary and unique keys are distinct, identifiers are below the counter, every foreign key has its row, and every chunk hash satisfies \<open>ok\<close>.\<close>

definition nf_key :: "nar_file_row \<Rightarrow> string \<times> string \<times> string" where
  "nf_key r = (nf_hash r, nf_compression r, nf_query r)"

definition keys_wf :: "('a \<Rightarrow> nat) \<Rightarrow> ('a \<Rightarrow> 'k) \<Rightarrow> nat \<Rightarrow> 'a list \<Rightarrow> bool" where
  "keys_wf i k n xs \<longleftrightarrow> distinct (map i xs) \<and> distinct (map k xs) \<and> list_all (\<lambda>j. j < n) (map i xs)"

definition fk_wf :: "database \<Rightarrow> bool" where
  "fk_wf s \<longleftrightarrow>
     list_all (\<lambda>(i, j). i \<in> set (map ni_id (db_narinfos s)) \<and> j \<in> set (map nf_id (db_nar_files s))) (db_narinfo_nar_files s) \<and>
     list_all (\<lambda>(i, _). i \<in> set (map ni_id (db_narinfos s))) (db_references s) \<and>
     list_all (\<lambda>(i, _). i \<in> set (map ni_id (db_narinfos s))) (db_signatures s) \<and>
     list_all (\<lambda>l. cl_nar_file_id l \<in> set (map nf_id (db_nar_files s)) \<and>
                   cl_chunk_id l \<in> set (map ck_id (db_chunks s))) (db_nar_file_chunks s)"

definition links_wf :: "database \<Rightarrow> bool" where
  "links_wf s \<longleftrightarrow> distinct (db_narinfo_nar_files s) \<and> distinct (db_references s) \<and> distinct (db_signatures s) \<and>
     distinct (map (\<lambda>l. (cl_nar_file_id l, cl_chunk_index l)) (db_nar_file_chunks s)) \<and>
     distinct (map fst (db_config s)) \<and> distinct (db_pinned s)"

definition db_wf :: "(string \<Rightarrow> bool) \<Rightarrow> database \<Rightarrow> bool" where
  "db_wf ok s \<longleftrightarrow> keys_wf ni_id ni_hash (db_next s) (db_narinfos s) \<and>
     keys_wf nf_id nf_key (db_next s) (db_nar_files s) \<and>
     keys_wf ck_id ck_hash (db_next s) (db_chunks s) \<and>
     list_all ok (map ck_hash (db_chunks s)) \<and> fk_wf s \<and> links_wf s"

lemma empty_db_wf: "db_wf ok empty_db"
  by (simp add: db_wf_def keys_wf_def fk_wf_def links_wf_def empty_db_def)

lemma has_iff [simp]:
  "has_narinfo s i \<longleftrightarrow> i \<in> ni_id ` set (db_narinfos s)"
  "has_nar_file s j \<longleftrightarrow> j \<in> nf_id ` set (db_nar_files s)"
  "has_chunk_row s c \<longleftrightarrow> c \<in> ck_id ` set (db_chunks s)"
  by (auto simp: has_narinfo_def has_nar_file_def has_chunk_row_def list_ex_iff)

lemma map_upd_where: "(\<And>x. g (f x) = g x) \<Longrightarrow> map g (upd_where p f xs) = map g xs"
  by (simp add: upd_where_def)

lemma keys_upd_where:
  assumes "\<And>x. i (f x) = i x" and "\<And>x. k (f x) = k x"
  shows "keys_wf i k n (upd_where p f xs) = keys_wf i k n xs"
  using map_upd_where [of i f p xs, OF assms(1)] map_upd_where [of k f p xs, OF assms(2)]
  unfolding keys_wf_def by simp

lemma keys_wf_filter: "keys_wf i k n xs \<Longrightarrow> keys_wf i k n (filter p xs)"
  by (auto simp: keys_wf_def list_all_iff)

lemma keys_wf_snoc:
  "keys_wf i k n xs \<Longrightarrow> i x = n \<Longrightarrow> k x \<notin> k ` set xs \<Longrightarrow> keys_wf i k (n + 1) (xs @ [x])"
  by (fastforce simp: keys_wf_def list_all_iff)

lemma keys_wf_mono: "keys_wf i k n xs \<Longrightarrow> keys_wf i k (Suc n) xs"
  by (auto simp: keys_wf_def list_all_iff)

lemma db_wf_faults [simp]: "db_wf ok (s\<lparr>db_faults := f\<rparr>) = db_wf ok s"
  by (simp add: db_wf_def fk_wf_def links_wf_def)

lemma keeps_db_call:
  assumes "\<And>s. db_wf ok s \<Longrightarrow> db_wf ok (snd (m s))"
  shows "keeps (db_wf ok) (db_call m)"
proof (rule keepsI)
  fix s assume "db_wf ok s"
  with assms [of s] assms [of "s\<lparr>db_faults := tl (db_faults s)\<rparr>"]
  show "db_wf ok (snd (db_call m s))" by (auto simp: db_call_def split: list.split option.split)
qed

named_theorems db_keeps "queries that keep the integrity of the database"

lemma keeps_select [db_keeps]: "keeps (db_wf ok) (select f)" "keeps (db_wf ok) (select_one g)"
  unfolding select_def select_one_def by (rule keeps_db_call, simp)+

lemma keeps_exec: "(\<And>s. db_wf ok s \<Longrightarrow> db_wf ok (f s)) \<Longrightarrow> keeps (db_wf ok) (exec f)"
  unfolding exec_def by (rule keeps_db_call) simp

lemma keeps_execrows: "(\<And>s. db_wf ok s \<Longrightarrow> db_wf ok (f s)) \<Longrightarrow> keeps (db_wf ok) (execrows n f)"
  unfolding execrows_def by (rule keeps_db_call) simp

text \<open>Updates of rows that leave their keys alone, and deletions.\<close>

lemma wf_upd_narinfos:
  assumes "db_wf ok s" and "\<And>r. ni_id (f r) = ni_id r" "\<And>r. ni_hash (f r) = ni_hash r"
  shows "db_wf ok (s\<lparr>db_narinfos := upd_where p f (db_narinfos s)\<rparr>)"
proof -
  have ids: "map ni_id (upd_where p f xs) = map ni_id xs" for xs by (rule map_upd_where) (rule assms(2))
  show ?thesis
    using assms(1) unfolding db_wf_def fk_wf_def links_wf_def
    by (simp add: keys_upd_where [of ni_id f ni_hash, OF assms(2,3)] ids del: set_map set_append)
qed

lemma wf_upd_nar_files:
  assumes "db_wf ok s" and "\<And>r. nf_id (f r) = nf_id r" "\<And>r. nf_key (f r) = nf_key r"
  shows "db_wf ok (s\<lparr>db_nar_files := upd_where p f (db_nar_files s)\<rparr>)"
proof -
  have ids: "map nf_id (upd_where p f xs) = map nf_id xs" for xs by (rule map_upd_where) (rule assms(2))
  show ?thesis
    using assms(1) unfolding db_wf_def fk_wf_def links_wf_def
    by (simp add: keys_upd_where [of nf_id f nf_key, OF assms(2,3)] ids del: set_map set_append)
qed

lemma kept_id:
  "i \<in> f ` set xs \<Longrightarrow> \<not> list_ex (\<lambda>r. p r \<and> f r = i) xs \<Longrightarrow> i \<in> f ` {x \<in> set xs. \<not> p x}"
  by (auto simp: list_ex_iff)

lemma wf_delete_narinfos: "db_wf ok s \<Longrightarrow> db_wf ok (delete_narinfos p s)"
  unfolding db_wf_def fk_wf_def links_wf_def delete_narinfos_def Let_def
  by (auto simp: keys_wf_filter list_all_iff intro!: kept_id)

lemma wf_delete_nar_files: "db_wf ok s \<Longrightarrow> db_wf ok (delete_nar_files p s)"
  unfolding db_wf_def fk_wf_def links_wf_def delete_nar_files_def Let_def
  by (auto simp: keys_wf_filter list_all_iff intro!: kept_id)

lemma wf_delete_chunks: "db_wf ok s \<Longrightarrow> db_wf ok (delete_chunks p s)"
  unfolding db_wf_def fk_wf_def links_wf_def delete_chunks_def Let_def
  by (auto simp: keys_wf_filter list_all_iff intro!: kept_id)

text \<open>Insertions.\<close>

lemma filter_Nil_key: "filter (\<lambda>r. f r = x) xs = [] \<Longrightarrow> x \<notin> f ` set xs"
  by (auto simp: filter_empty_conv)

lemma keeps_CreateNarInfo [db_keeps]: "keeps (db_wf ok) (CreateNarInfo a)"
  unfolding CreateNarInfo_def
proof (rule keeps_db_call)
  fix s assume wf: "db_wf ok s"
  let ?rs = "filter (\<lambda>r. ni_hash r = np_hash a) (db_narinfos s)"
  show "db_wf ok (snd (if \<not> sizes_ok a then (Inl ErrCheck, s)
     else case ?rs of
       [] \<Rightarrow> (let r = new_narinfo_row a (db_next s) (db_now s)
              in (Inr r, s\<lparr>db_narinfos := db_narinfos s @ [r], db_next := db_next s + 1\<rparr>))
     | r # _ \<Rightarrow>
         if ni_url r = None then
           (let r' = set_columns a (Some (db_now s)) r
            in (Inr r', s\<lparr>db_narinfos := upd_where (\<lambda>x. ni_hash x = np_hash a) (set_columns a (Some (db_now s))) (db_narinfos s)\<rparr>))
         else (Inl ErrDBNotFound, s)))"
  proof (cases ?rs)
    case Nil
    then have new: "np_hash a \<notin> ni_hash ` set (db_narinfos s)" by (rule filter_Nil_key)
    let ?r = "new_narinfo_row a (db_next s) (db_now s)"
    have "keys_wf ni_id ni_hash (db_next s + 1) (db_narinfos s @ [?r])"
      using wf new by (intro keys_wf_snoc) (auto simp: db_wf_def new_narinfo_row_def)
    then show ?thesis
      using wf Nil
      by (auto simp: Let_def db_wf_def fk_wf_def links_wf_def list_all_iff intro: keys_wf_mono)
  next
    case (Cons r rs)
    with wf show ?thesis by (auto simp: Let_def set_columns_def intro!: wf_upd_narinfos)
  qed
qed

lemma keeps_UpdateNarInfo [db_keeps]: "keeps (db_wf ok) (UpdateNarInfo a)"
  unfolding UpdateNarInfo_def
  by (rule keeps_db_call) (auto simp: Let_def set_columns_def intro!: wf_upd_narinfos split: list.split)

lemma keeps_narinfo_updates [db_keeps]:
  "keeps (db_wf ok) (UpdateNarInfoFileSize h n)" "keeps (db_wf ok) (UpdateNarInfoFileHash h x)"
  "keeps (db_wf ok) (UpdateNarInfoCompressionAndURL c new old)"
  "keeps (db_wf ok) (UpdateNarInfoCompressionFileSizeHashAndURL c new k fh old)" "keeps (db_wf ok) (TouchNarInfo h)"
  unfolding UpdateNarInfoFileSize_def UpdateNarInfoFileHash_def UpdateNarInfoCompressionAndURL_def
    UpdateNarInfoCompressionFileSizeHashAndURL_def TouchNarInfo_def
  by (auto intro!: keeps_exec keeps_execrows wf_upd_narinfos)

lemma keeps_deletes [db_keeps]:
  "keeps (db_wf ok) (DeleteNarInfoByHash h)" "keeps (db_wf ok) (DeleteNarInfoByID i)"
  "keeps (db_wf ok) (DeleteNarFileByHash h c q)" "keeps (db_wf ok) (DeleteNarFileByID i)" "keeps (db_wf ok) DeleteOrphanedNarFiles"
  "keeps (db_wf ok) DeleteOrphanedChunks" "keeps (db_wf ok) (DeleteChunkByID i)"
  unfolding DeleteNarInfoByHash_def DeleteNarInfoByID_def DeleteNarFileByHash_def DeleteNarFileByID_def
    DeleteOrphanedNarFiles_def DeleteOrphanedChunks_def DeleteChunkByID_def
  by (auto intro!: keeps_exec keeps_execrows wf_delete_narinfos wf_delete_nar_files wf_delete_chunks)

lemma set_add_row [simp]: "set (add_row x xs) = insert x (set xs)"
  by (auto simp: add_row_def)

lemma distinct_add_row [simp]: "distinct (add_row x xs) = distinct xs"
  by (auto simp: add_row_def)

lemma keeps_add_rows [db_keeps]:
  "keeps (db_wf ok) (AddNarInfoReference i ref)" "keeps (db_wf ok) (AddNarInfoSignature i sig)" "keeps (db_wf ok) (LinkNarInfoToNarFile i j)"
  unfolding AddNarInfoReference_def AddNarInfoSignature_def LinkNarInfoToNarFile_def
  by (rule keeps_db_call; auto simp: db_wf_def fk_wf_def links_wf_def list_all_iff)+

lemma keeps_bulk_rows [db_keeps]:
  "keeps (db_wf ok) (AddNarInfoReferences i refs)" "keeps (db_wf ok) (AddNarInfoSignatures i sigs)"
  unfolding AddNarInfoReferences_def AddNarInfoSignatures_def by (intro keeps_intros db_keeps)+

lemma fold_add_row:
  "set (fold (\<lambda>i. add_row (i, j)) ids xs) = set xs \<union> (\<lambda>i. (i, j)) ` set ids"
  "distinct (fold (\<lambda>i. add_row (i, j)) ids xs) = distinct xs"
  by (induction ids arbitrary: xs) auto

lemma keeps_LinkNarInfosByURLToNarFile [db_keeps]: "keeps (db_wf ok) (LinkNarInfosByURLToNarFile j u)"
  unfolding LinkNarInfosByURLToNarFile_def
  by (rule keeps_db_call)
    (auto simp: Let_def db_wf_def fk_wf_def links_wf_def list_all_iff fold_add_row filter_empty_conv)

lemma keeps_CreateNarFile [db_keeps]: "keeps (db_wf ok) (CreateNarFile h c q sz tot)"
  unfolding CreateNarFile_def
proof (rule keeps_db_call)
  fix s assume wf: "db_wf ok s"
  let ?r = "\<lparr>nf_id = db_next s, nf_hash = h, nf_compression = c, nf_file_size = sz, nf_query = q,
                   nf_created_at = db_now s, nf_updated_at = None, nf_last_accessed_at = db_now s,
                   nf_total_chunks = tot, nf_chunking_started_at = None, nf_verified_at = None\<rparr>"
  show "db_wf ok (snd (case filter (nar_file_key h c q) (db_nar_files s) of
       [] \<Rightarrow> (let r = ?r in (Inr r, s\<lparr>db_nar_files := db_nar_files s @ [r], db_next := db_next s + 1\<rparr>))
     | r # _ \<Rightarrow> (Inr (r\<lparr>nf_updated_at := None\<rparr>),
          s\<lparr>db_nar_files := upd_where (nar_file_key h c q) (\<lambda>r. r\<lparr>nf_updated_at := None\<rparr>) (db_nar_files s)\<rparr>)))"
  proof (cases "filter (nar_file_key h c q) (db_nar_files s)")
    case Nil
    then have "nf_key ?r \<notin> nf_key ` set (db_nar_files s)"
      by (auto simp: nf_key_def nar_file_key_def filter_empty_conv)
    then have "keys_wf nf_id nf_key (db_next s + 1) (db_nar_files s @ [?r])"
      using wf by (intro keys_wf_snoc) (auto simp: db_wf_def)
    then show ?thesis
      using wf Nil
      by (auto simp: Let_def db_wf_def fk_wf_def links_wf_def list_all_iff intro: keys_wf_mono)
  next
    case (Cons r rs)
    with wf show ?thesis by (auto simp: nf_key_def intro!: wf_upd_nar_files)
  qed
qed

lemma keeps_nar_file_updates [db_keeps]:
  "keeps (db_wf ok) (SetNarFileChunkingStarted i)" "keeps (db_wf ok) (ClearNarFileChunkingStarted i)"
  "keeps (db_wf ok) (UpdateNarFileFileSize i n)" "keeps (db_wf ok) (UpdateNarFileTotalChunks i tot n)"
  "keeps (db_wf ok) (UpdateNarFileVerifiedAt i)" "keeps (db_wf ok) (TouchNarFile h c q)"
  unfolding SetNarFileChunkingStarted_def ClearNarFileChunkingStarted_def UpdateNarFileFileSize_def
    UpdateNarFileTotalChunks_def UpdateNarFileVerifiedAt_def TouchNarFile_def upd_nar_file_def
  by (auto simp: nf_key_def intro!: keeps_exec keeps_execrows wf_upd_nar_files)

lemma keeps_CreateChunk [db_keeps]:
  assumes ok: "ok h"
  shows "keeps (db_wf ok) (CreateChunk h sz csz)"
  unfolding CreateChunk_def
proof (rule keeps_db_call)
  fix s assume wf: "db_wf ok s"
  let ?r = "\<lparr>ck_id = db_next s, ck_hash = h, ck_size = sz, ck_compressed_size = csz\<rparr>"
  show "db_wf ok (snd (case filter (\<lambda>c. ck_hash c = h) (db_chunks s) of
       [] \<Rightarrow> (let r = ?r in (Inr r, s\<lparr>db_chunks := db_chunks s @ [r], db_next := db_next s + 1\<rparr>))
     | r # _ \<Rightarrow> (Inr r, s)))"
  proof (cases "filter (\<lambda>c. ck_hash c = h) (db_chunks s)")
    case Nil
    then have "ck_hash ?r \<notin> ck_hash ` set (db_chunks s)" using filter_Nil_key [OF Nil] by simp
    then have "keys_wf ck_id ck_hash (db_next s + 1) (db_chunks s @ [?r])"
      using wf by (intro keys_wf_snoc) (auto simp: db_wf_def)
    then show ?thesis
      using wf Nil ok
      by (auto simp: Let_def db_wf_def fk_wf_def links_wf_def list_all_iff intro: keys_wf_mono)
  qed (use wf in simp)
qed

lemma keeps_LinkNarFileToChunk [db_keeps]: "keeps (db_wf ok) (LinkNarFileToChunk j c k)"
  unfolding LinkNarFileToChunk_def
  by (rule keeps_db_call)
    (auto simp: db_wf_def fk_wf_def links_wf_def list_all_iff link_chunk_def list_ex_iff)

lemma keeps_LinkNarFileToChunks [db_keeps]: "keeps (db_wf ok) (LinkNarFileToChunks j cs ks)"
  unfolding LinkNarFileToChunks_def by (intro keeps_intros db_keeps)

lemma keeps_unlink [db_keeps]: "keeps (db_wf ok) (DeleteNarFileChunksByNarFileID j)"
  unfolding DeleteNarFileChunksByNarFileID_def
  by (rule keeps_exec) (auto simp: db_wf_def fk_wf_def links_wf_def list_all_iff)

lemma keeps_config [db_keeps]:
  "keeps (db_wf ok) (CreateConfig k v)" "keeps (db_wf ok) (SetConfig k v)" "keeps (db_wf ok) (CreatePinnedClosure h)"
  "keeps (db_wf ok) (DeletePinnedClosure h)"
proof -
  have u: "map fst (upd_where (\<lambda>(j, _). j = k) (\<lambda>_. (k, v)) xs) = map fst xs" for xs :: "(string \<times> string) list"
    by (auto simp: upd_where_def)
  show "keeps (db_wf ok) (CreateConfig k v)" "keeps (db_wf ok) (CreatePinnedClosure h)"
    unfolding CreateConfig_def CreatePinnedClosure_def
    by (rule keeps_db_call; auto simp: db_wf_def fk_wf_def links_wf_def)+
  show "keeps (db_wf ok) (SetConfig k v)"
    unfolding SetConfig_def
    by (rule keeps_exec) (auto simp: db_wf_def fk_wf_def links_wf_def u simp del: map_map)
  show "keeps (db_wf ok) (DeletePinnedClosure h)"
    unfolding DeletePinnedClosure_def
    by (rule keeps_execrows) (auto simp: db_wf_def fk_wf_def links_wf_def)
qed

lemma keeps_queries [db_keeps]:
  "keeps (db_wf ok) (GetNarInfoByHash h)" "keeps (db_wf ok) (GetNarInfoHashByNarURL u)" "keeps (db_wf ok) (GetNarInfoHashesByURL u)"
  "keeps (db_wf ok) (GetNarInfoReferences i)" "keeps (db_wf ok) (GetNarInfoSignatures i)"
  "keeps (db_wf ok) (GetNarFileByHashAndCompressionAndQuery h c q)" "keeps (db_wf ok) (GetNarFileByNarInfoID i)"
  "keeps (db_wf ok) (GetNarFileByID i)"
  "keeps (db_wf ok) (GetNarInfoURLByNarFileHash h c q)" "keeps (db_wf ok) GetOrphanedNarFiles" "keeps (db_wf ok) GetNarTotalSize"
  "keeps (db_wf ok) (GetLeastUsedNarInfos n)" "keeps (db_wf ok) (GetChunkByHash h)" "keeps (db_wf ok) (GetChunksByNarFileID j)"
  "keeps (db_wf ok) (GetChunkByNarFileIDAndIndex j k)" "keeps (db_wf ok) (GetChunksByNarFileIDFromIndex j k n)"
  "keeps (db_wf ok) GetOrphanedChunks" "keeps (db_wf ok) (GetConfigByKey key)" "keeps (db_wf ok) (GetPinnedClosure h)"
  "keeps (db_wf ok) ListPinnedClosures" "keeps (db_wf ok) (GetOldCompressedNarFiles n)" "keeps (db_wf ok) (GetStuckNarFiles n k)"
  "keeps (db_wf ok) (GetNarInfoNarHashByNarFileID j)"
  unfolding GetNarInfoByHash_def GetNarInfoHashByNarURL_def GetNarInfoHashesByURL_def GetNarInfoReferences_def
    GetNarInfoSignatures_def GetNarFileByHashAndCompressionAndQuery_def GetNarFileByNarInfoID_def
    GetNarInfoURLByNarFileHash_def GetOrphanedNarFiles_def GetNarTotalSize_def GetLeastUsedNarInfos_def GetChunkByHash_def
    GetChunksByNarFileID_def GetChunkByNarFileIDAndIndex_def GetChunksByNarFileIDFromIndex_def GetOrphanedChunks_def
    GetConfigByKey_def GetPinnedClosure_def ListPinnedClosures_def GetOldCompressedNarFiles_def GetStuckNarFiles_def
    GetNarInfoNarHashByNarFileID_def GetNarFileByID_def
  by (rule db_keeps)+

end
