(* ===== verification/Helper.thy ===== *)
theory Helper
  imports Go_Strings
begin

text \<open>
  Package \<open>pkg/helper\<close>: the URL path of a narinfo, the sharded path of a file, sizes with
  units, and the reader that closes several closers.
\<close>

section \<open>Paths\<close>

definition NarInfoURLPath :: "string \<Rightarrow> string" where
  "NarInfoURLPath hash = ''/'' @ hash @ ''.narinfo''"

definition FilePathWithSharding :: "string \<Rightarrow> string result" where
  "FilePathWithSharding fn =
     (if length fn < 3 then Inl ErrInputTooShort
      else Inr (path_join [take 1 fn, take 2 fn, fn]))"

text \<open>A name whose first byte is not a dot and that has no slash stays a path of three components.\<close>

lemma FilePathWithSharding_plain:
  assumes "3 \<le> length fn" and "hd fn \<noteq> CHR ''.''" and "CHR ''/'' \<notin> set fn"
  shows "FilePathWithSharding fn = Inr (take 1 fn @ ''/'' @ take 2 fn @ ''/'' @ fn)"
proof -
  obtain a b c r where fn: "fn = a # b # c # r"
    using assms(1) by (cases fn; cases "tl fn"; cases "tl (tl fn)") auto
  with assms have "list_all plain_comp [take 1 fn, take 2 fn, fn]"
    by (auto simp: plain_comp_def)
  then show ?thesis
    using assms(1) path_join_plain [of "[take 1 fn, take 2 fn, fn]"]
    by (simp add: FilePathWithSharding_def)
qed

section \<open>Sizes with units\<close>

definition to_upper :: "char \<Rightarrow> char" where
  "to_upper c = (if CHR ''a'' \<le> c \<and> c \<le> CHR ''z'' then char_of (of_char c - 32 :: nat) else c)"

definition ParseSize :: "string \<Rightarrow> 64 word result" where
  "ParseSize str =
     (if length str < 2 then Inl ErrInvalidSizeSuffix
      else rbind (parse_uint (butlast str)) (\<lambda>num.
        let suffix = to_upper (last str) in
        if suffix = CHR ''B'' then Inr num
        else if suffix = CHR ''K'' then Inr (num * 1024)
        else if suffix = CHR ''M'' then Inr (num * 1024 * 1024)
        else if suffix = CHR ''G'' then Inr (num * 1024 * 1024 * 1024)
        else if suffix = CHR ''T'' then Inr (num * 1024 * 1024 * 1024 * 1024)
        else Inl ErrInvalidSizeSuffix))"

text \<open>What a unit stands for: a power of 1024, read from either case of the letter.\<close>

definition unit_exponent :: "char \<Rightarrow> nat option" where
  "unit_exponent u =
     map_of [(CHR ''B'', 0), (CHR ''K'', 1), (CHR ''M'', 2), (CHR ''G'', 3), (CHR ''T'', 4)]
       (to_upper u)"

lemma ParseSize_snoc:
  assumes "ds \<noteq> []"
  shows "ParseSize (ds @ [u]) =
    rbind (parse_uint ds) (\<lambda>num.
      case unit_exponent u of None \<Rightarrow> Inl ErrInvalidSizeSuffix | Some k \<Rightarrow> Inr (num * 1024 ^ k))"
  using assms
  by (cases "parse_uint ds") (simp_all add: ParseSize_def unit_exponent_def Let_def Suc_le_eq power4_eq_xxxx power3_eq_cube power2_eq_square mult.assoc)

text \<open>The value of a size is the number times the power of 1024, modulo 2^64.\<close>

lemma unat_scale: "unat (n * 1024 ^ k :: 64 word) = unat n * 1024 ^ k mod 2 ^ 64"
proof -
  have p: "unat (1024 ^ k :: 64 word) = 1024 ^ k mod 2 ^ 64"
    using unat_of_nat [of "1024 ^ k", where ?'a = 64] by simp
  have "unat (n * 1024 ^ k) = unat n * unat (1024 ^ k :: 64 word) mod 2 ^ 64"
    by (simp add: unat_word_ariths)
  then show ?thesis by (simp add: p mod_mult_right_eq)
qed

text \<open>The sizes \<open>ParseSize\<close> accepts and their values: decimal digits below 2^64 and a unit of either case; the
  value is the number times the power of 1024 of the unit, reduced modulo 2^64.\<close>

theorem ParseSize_spec:
  "ParseSize s = Inr n \<longleftrightarrow>
   (\<exists>ds u k. s = ds @ [u] \<and> ds \<noteq> [] \<and> list_all is_digit ds \<and> digits_val ds < 2 ^ 64 \<and>
      unit_exponent u = Some k \<and> unat n = digits_val ds * 1024 ^ k mod 2 ^ 64)"
proof (cases "length s < 2")
  case True
  then have "\<not> (\<exists>ds u. s = ds @ [u] \<and> ds \<noteq> [])" by (auto simp: length_Suc_conv less_2_cases_iff)
  with True show ?thesis by (auto simp: ParseSize_def)
next
  case False
  then obtain ds u where s: "s = ds @ [u]" "ds \<noteq> []"
    by (cases s rule: rev_cases) auto
  have w: "unat n = unat m \<longleftrightarrow> n = m" for m :: "64 word" by (simp add: word_unat_eq_iff)
  show ?thesis
  proof (cases "list_all is_digit ds \<and> digits_val ds < 2 ^ 64")
    case True
    then have p: "parse_uint ds = Inr (of_nat (digits_val ds))" using s(2) by (simp add: parse_uint_def)
    have "unat (of_nat (digits_val ds) * 1024 ^ k :: 64 word) = digits_val ds * 1024 ^ k mod 2 ^ 64" for k
      using True unat_scale [of "of_nat (digits_val ds)" k] by (simp add: unat_of_nat)
    with True s p w show ?thesis
      by (auto simp: ParseSize_snoc split: option.splits) metis+
  next
    case False
    with s show ?thesis by (auto simp: ParseSize_snoc parse_uint_def)
  qed
qed

section \<open>MultiReadCloser\<close>

text \<open>Every closer is called, and the errors are collected (\<open>errors.Join\<close>; none is \<open>[]\<close>).\<close>

primrec MultiReadCloser_Close :: "('s, unit) prog list \<Rightarrow> 's \<Rightarrow> err list \<times> 's" where
  "MultiReadCloser_Close [] s = ([], s)"
| "MultiReadCloser_Close (c # cs) s =
     (case c s of (r, t) \<Rightarrow>
       (case MultiReadCloser_Close cs t of (errs, u) \<Rightarrow>
          ((case r of Inl e \<Rightarrow> [e] | Inr _ \<Rightarrow> []) @ errs, u)))"

lemma MultiReadCloser_Close_state:
  "snd (MultiReadCloser_Close cs s) = fold (\<lambda>c s. snd (c s)) cs s"
proof (induction cs arbitrary: s)
  case (Cons c cs)
  then show ?case by (cases "c s") (auto split: prod.splits, metis snd_conv)
qed simp

end
