(* ===== verification/Nar_URL.thy ===== *)
theory Nar_URL
  imports Helper
begin

text \<open>
  Packages \<open>pkg/nar\<close> and \<open>pkg/narinfo\<close>: the hashes of narinfos and NARs, the compression
  types, the URL of a NAR with its parser and printer, its normal form, and the file paths under which the
  stores keep narinfos and NARs. A regular expression of the source is the predicate that
  decides its language; Go's \<open>$\<close> without the \<open>m\<close> flag is the end of the text.
\<close>

section \<open>Hashes\<close>

definition is_nix32 :: "char \<Rightarrow> bool" where
  "is_nix32 c \<longleftrightarrow> c \<in> set ''0123456789abcdfghijklmnpqrsvwxyz''"

definition is_hex :: "char \<Rightarrow> bool" where
  "is_hex c \<longleftrightarrow> c \<in> set ''0123456789abcdef''"

text \<open>\<open>narinfo.hashRegexp\<close> and \<open>narinfo.ValidateHash\<close>.\<close>

definition narinfo_hash_ok :: "string \<Rightarrow> bool" where
  "narinfo_hash_ok h \<longleftrightarrow> length h = 32 \<and> list_all is_nix32 h"

definition narinfo_ValidateHash :: "string \<Rightarrow> unit result" where
  "narinfo_ValidateHash h = (if narinfo_hash_ok h then Inr () else Inl ErrInvalidNarInfoHash)"

definition narinfo_FilePath :: "string \<Rightarrow> string result" where
  "narinfo_FilePath h =
     (if length h < 3 then Inl ErrInputTooShort
      else rbind (narinfo_ValidateHash h) (\<lambda>_. FilePathWithSharding (h @ ''.narinfo'')))"

text \<open>\<open>nar.narNormalizedHashRegexp\<close>: 52 letters of the Nix32 alphabet or 64 hexadecimal digits.\<close>

definition normalized_hash :: "string \<Rightarrow> bool" where
  "normalized_hash h \<longleftrightarrow>
     length h = 52 \<and> list_all is_nix32 h \<or> length h = 64 \<and> list_all is_hex h"

text \<open>The optional group of \<open>nar.HashPattern\<close>: a narinfo hash and a separator.\<close>

definition hash_prefixed :: "string \<Rightarrow> bool" where
  "hash_prefixed h \<longleftrightarrow>
     32 < length h \<and> narinfo_hash_ok (take 32 h) \<and> h ! 32 \<in> {CHR ''-'', CHR ''_''}"

definition nar_hash_ok :: "string \<Rightarrow> bool" where
  "nar_hash_ok h \<longleftrightarrow> normalized_hash h \<or> hash_prefixed h \<and> normalized_hash (drop 33 h)"

definition nar_ValidateHash :: "string \<Rightarrow> unit result" where
  "nar_ValidateHash h = (if nar_hash_ok h then Inr () else Inl ErrInvalidNarHash)"

text \<open>
  The second group of \<open>nar.narHashLenientRegexp\<close>, \<open>^(?:(P[-_]))?(.+)$\<close>. The optional group
  is preferred, and left out when nothing would remain for \<open>.+\<close>; the dot is any byte but a newline.
\<close>

definition lenient_match :: "string \<Rightarrow> string option" where
  "lenient_match h =
     (if hash_prefixed h \<and> 33 < length h \<and> CHR ''\<newline>'' \<notin> set (drop 33 h) then Some (drop 33 h)
      else if h \<noteq> [] \<and> CHR ''\<newline>'' \<notin> set h then Some h else None)"

section \<open>Compression types\<close>

definition CompressionTypeFromExtension :: "string \<Rightarrow> string result" where
  "CompressionTypeFromExtension ext =
     (if ext = [] \<or> ext = ''none'' then Inr ''none''
      else if ext = ''bz2'' then Inr ''bzip2''
      else if ext = ''zst'' then Inr ''zstd''
      else if ext = ''lzip'' then Inr ''lzip''
      else if ext = ''lz4'' then Inr ''lz4''
      else if ext = ''br'' then Inr ''br''
      else if ext = ''xz'' then Inr ''xz''
      else Inl ErrUnknownFileExtension)"

text \<open>The default branch is a panic.\<close>

definition ToFileExtension :: "string \<Rightarrow> string result" where
  "ToFileExtension ct =
     (if ct = [] \<or> ct = ''none'' then Inr []
      else if ct = ''bzip2'' then Inr ''bz2''
      else if ct = ''zstd'' then Inr ''zst''
      else if ct = ''lzip'' then Inr ''lzip''
      else if ct = ''lz4'' then Inr ''lz4''
      else if ct = ''br'' then Inr ''br''
      else if ct = ''xz'' then Inr ''xz''
      else Inl ErrPanic)"

text \<open>The compression types of the source's constants.\<close>

definition known_compression :: "string \<Rightarrow> bool" where
  "known_compression ct \<longleftrightarrow> ct \<in> {''none'', ''bzip2'', ''zstd'', ''lzip'', ''lz4'', ''br'', ''xz''}"

section \<open>NAR URLs\<close>

record nar_url =
  url_Hash :: string
  url_Compression :: string
  url_Query :: url_values
  url_TransparentZstd :: bool

definition mk_nar_url :: "string \<Rightarrow> string \<Rightarrow> url_values \<Rightarrow> nar_url" where
  "mk_nar_url h c q = \<lparr>url_Hash = h, url_Compression = c, url_Query = q, url_TransparentZstd = False\<rparr>"

definition ParseURL :: "string \<Rightarrow> nar_url result" where
  "ParseURL u =
     (if u = [] then Inl ErrInvalidURL
      else (case str_cut u ''?'' of (pathPart, rawQuery, _) \<Rightarrow>
        let filename = path_base pathPart in
        if filename = [] \<or> filename = ''.'' then Inl ErrInvalidURL
        else (case str_cut filename ''.nar'' of (hash, afterNar, found) \<Rightarrow>
          if \<not> found \<or> hash = [] then Inl ErrInvalidURL
          else rbind (nar_ValidateHash hash) (\<lambda>_.
            if afterNar \<noteq> [] \<and> \<not> prefix ''.'' afterNar then Inl ErrInvalidURL
            else rbind (CompressionTypeFromExtension (drop 1 afterNar)) (\<lambda>ct.
              rbind (parse_query rawQuery) (\<lambda>query.
                Inr (mk_nar_url hash ct query)))))))"

definition nar_FilePath :: "string \<Rightarrow> string \<Rightarrow> string result" where
  "nar_FilePath hash compression =
     (if length hash < 3 then Inl ErrInputTooShort
      else rbind (nar_ValidateHash hash) (\<lambda>_.
        FilePathWithSharding
          (hash @ ''.nar'' @ (if compression \<noteq> [] then ''.'' @ compression else []))))"

definition ToFilePath :: "nar_url \<Rightarrow> string result" where
  "ToFilePath u = rbind (ToFileExtension (url_Compression u)) (nar_FilePath (url_Hash u))"

definition pathWithCompression :: "nar_url \<Rightarrow> string result" where
  "pathWithCompression u =
     rbind (ToFileExtension (url_Compression u)) (\<lambda>e.
       Inr (''nar/'' @ url_Hash u @ ''.nar'' @ (if e \<noteq> [] then ''.'' @ e else [])))"

definition url_String :: "nar_url \<Rightarrow> string result" where
  "url_String u =
     rbind (pathWithCompression u) (\<lambda>p.
       let q = values_encode (url_Query u) in Inr (if q \<noteq> [] then p @ ''?'' @ q else p))"

definition Normalize :: "nar_url \<Rightarrow> nar_url result" where
  "Normalize u =
     (case lenient_match (url_Hash u) of
        None \<Rightarrow> Inl ErrInvalidNarHash
      | Some actualHash \<Rightarrow>
          if \<not> normalized_hash actualHash then Inl ErrInvalidNarHash
          else Inr (mk_nar_url actualHash (url_Compression u) (url_Query u)))"

text \<open>
  \<open>url.URL.JoinPath\<close> with one element, on the path of the base (one that needs no escaping):
  a relative base stays relative, and the result is clean. \<open>JoinURL\<close> acts on the two parts of
  a base URL it changes, the path and the raw query.
\<close>

definition url_JoinPath :: "string \<Rightarrow> string \<Rightarrow> string" where
  "url_JoinPath base e =
     (if prefix ''/'' base then path_join [base, e] else drop 1 (path_join [''/'' @ base, e]))"

definition url_JoinURL :: "nar_url \<Rightarrow> string \<times> string \<Rightarrow> (string \<times> string) result" where
  "url_JoinURL u base =
     rbind (pathWithCompression u) (\<lambda>p.
       let q = values_encode (url_Query u) in
       Inr (url_JoinPath (fst base) (''/'' @ p),
            if q = [] then snd base
            else (if snd base \<noteq> [] then snd base @ ''&'' else []) @ q))"

section \<open>Facts on hashes and extensions\<close>

lemma nix32_no_sep: "is_nix32 c \<Longrightarrow> c \<notin> set ''./?-_\<newline>''"
  by (auto simp: is_nix32_def)

lemma hex_no_sep: "is_hex c \<Longrightarrow> c \<notin> set ''./?-_\<newline>''"
  by (auto simp: is_hex_def)

lemma normalized_hash_no_sep: "normalized_hash h \<Longrightarrow> c \<in> set h \<Longrightarrow> c \<notin> set ''./?-_\<newline>''"
  unfolding normalized_hash_def list_all_iff using nix32_no_sep hex_no_sep by metis

lemma narinfo_hash_no_sep: "narinfo_hash_ok h \<Longrightarrow> c \<in> set h \<Longrightarrow> c \<notin> set ''./?-_\<newline>''"
  unfolding narinfo_hash_ok_def list_all_iff using nix32_no_sep by metis

lemma normalized_hash_length: "normalized_hash h \<Longrightarrow> 52 \<le> length h"
  by (auto simp: normalized_hash_def)

lemma normalized_not_prefixed: "normalized_hash h \<Longrightarrow> \<not> hash_prefixed h"
proof
  assume n: "normalized_hash h" and p: "hash_prefixed h"
  then have "h ! 32 \<in> set h" by (simp add: hash_prefixed_def)
  with n p show False
    using normalized_hash_no_sep [OF n, of "h ! 32"] by (auto simp: hash_prefixed_def)
qed

lemma hash_prefixed_split:
  "hash_prefixed h \<Longrightarrow> h = take 32 h @ h ! 32 # drop 33 h"
  using id_take_nth_drop [of 32 h] by (simp add: hash_prefixed_def)

lemma nar_hash_ok_chars: "nar_hash_ok h \<Longrightarrow> c \<in> set h \<Longrightarrow> c \<notin> set ''./?\<newline>''"
proof -
  assume h: "nar_hash_ok h" and c: "c \<in> set h"
  show ?thesis
  proof (cases "normalized_hash h")
    case True
    with c show ?thesis using normalized_hash_no_sep [of h c] by simp
  next
    case False
    with h have p: "hash_prefixed h" "normalized_hash (drop 33 h)"
      by (auto simp: nar_hash_ok_def)
    have "set h = set (take 32 h) \<union> {h ! 32} \<union> set (drop 33 h)"
      using arg_cong [OF hash_prefixed_split [OF p(1)], of set] by simp
    with c p show ?thesis
      using narinfo_hash_no_sep [of "take 32 h" c] normalized_hash_no_sep [of "drop 33 h" c]
      by (auto simp: hash_prefixed_def)
  qed
qed

lemma nar_hash_ok_length: "nar_hash_ok h \<Longrightarrow> 52 \<le> length h"
  by (auto simp: nar_hash_ok_def dest: normalized_hash_length)

lemma nar_hash_ok_nonempty [simp]: "nar_hash_ok h \<Longrightarrow> h \<noteq> []"
  using nar_hash_ok_length by fastforce

lemma nar_ValidateHash_Inr [simp]: "nar_ValidateHash h = Inr x \<longleftrightarrow> nar_hash_ok h"
  by (simp add: nar_ValidateHash_def)

lemma extension_roundtrip:
  "known_compression ct \<Longrightarrow>
   \<exists>e. ToFileExtension ct = Inr e \<and> CompressionTypeFromExtension e = Inr ct \<and> set e \<inter> set ''./?'' = {}"
  by (auto simp: known_compression_def ToFileExtension_def CompressionTypeFromExtension_def)

lemma CompressionTypeFromExtension_known:
  "CompressionTypeFromExtension ext = Inr ct \<Longrightarrow> known_compression ct"
  by (auto simp: CompressionTypeFromExtension_def known_compression_def split: if_splits)

lemma ToFileExtension_inj:
  "known_compression a \<Longrightarrow> known_compression b \<Longrightarrow> ToFileExtension a = ToFileExtension b \<Longrightarrow> a = b"
  using extension_roundtrip by (metis sum.inject(2))

section \<open>Properties of NAR URLs and paths\<close>

text \<open>The name of the file a URL points to, and how its parts are found again.\<close>

lemma str_cut_nar:
  assumes "CHR ''.'' \<notin> set h"
  shows "str_cut (h @ ''.nar'' @ s) ''.nar'' = (h, s, True)"
  using assms str_index_skip [of "''.nar''" h s] by (simp add: str_cut_def)

lemma ParseURL_parts:
  assumes h: "nar_hash_ok h" and e: "CompressionTypeFromExtension e = Inr ct" "set e \<inter> set ''./?'' = {}"
    and q: "parse_query q = Inr m"
    and u: "u = d @ ''/'' @ h @ ''.nar'' @ (if e \<noteq> [] then ''.'' @ e else []) @ (if b then ''?'' @ q else [])"
    and d: "CHR ''?'' \<notin> set d" and b: "b \<or> q = []"
  shows "ParseURL u = Inr (mk_nar_url h ct m)"
proof -
  define f where "f = h @ ''.nar'' @ (if e \<noteq> [] then ''.'' @ e else [])"
  have hc: "CHR ''.'' \<notin> set h" "CHR ''?'' \<notin> set h" "CHR ''/'' \<notin> set h"
    using nar_hash_ok_chars [OF h] by fastforce+
  have f: "CHR ''?'' \<notin> set (d @ ''/'' @ f)" "CHR ''/'' \<notin> set f" "f \<noteq> []" "f \<noteq> ''.''"
    using hc e(2) d by (auto simp: f_def append_eq_Cons_conv)
  have cut: "str_cut u ''?'' = (d @ ''/'' @ f, q, b)"
  proof (cases b)
    case True
    then have "u = (d @ ''/'' @ f) @ CHR ''?'' # q" by (simp add: u f_def)
    with True show ?thesis using str_cut_append [OF f(1), of q] by simp
  next
    case False
    then have "u = d @ ''/'' @ f" by (simp add: u f_def)
    with False b show ?thesis using str_cut_none [OF f(1)] by simp
  qed
  have base: "path_base (d @ ''/'' @ f) = f" using f by (intro path_base_plain)
  have cut2: "str_cut f ''.nar'' = (h, if e \<noteq> [] then ''.'' @ e else [], True)"
    unfolding f_def by (rule str_cut_nar [OF hc(1)])
  have "u \<noteq> []" by (simp add: u)
  with cut base cut2 f h e q show ?thesis
    by (auto simp: ParseURL_def Let_def nar_ValidateHash_def)
qed

text \<open>C36. Round trip: the text \<open>String\<close> prints for a URL with a valid hash, a known compression and a query in
  canonical order is parsed by \<open>ParseURL\<close> to the same URL, special characters of the query included.\<close>

theorem ParseURL_String:
  assumes "nar_hash_ok (url_Hash u)" and "known_compression (url_Compression u)"
    and "canonical_values (url_Query u)" and "\<not> url_TransparentZstd u"
  shows "rbind (url_String u) ParseURL = Inr u"
proof -
  obtain e where e: "ToFileExtension (url_Compression u) = Inr e"
    "CompressionTypeFromExtension e = Inr (url_Compression u)" "set e \<inter> set ''./?'' = {}"
    using extension_roundtrip [OF assms(2)] by blast
  define q where "q = values_encode (url_Query u)"
  define s where "s = ''nar'' @ ''/'' @ url_Hash u @ ''.nar'' @ (if e \<noteq> [] then ''.'' @ e else [])
                    @ (if q \<noteq> [] then ''?'' @ q else [])"
  have s: "url_String u = Inr s"
    by (simp add: url_String_def pathWithCompression_def e Let_def q_def [symmetric] s_def)
  have "ParseURL s = Inr (mk_nar_url (url_Hash u) (url_Compression u) (url_Query u))"
    by (rule ParseURL_parts [where e = e and q = q and d = "''nar''" and b = "q \<noteq> []"])
      (use assms e parse_query_encode [OF assms(3)] in \<open>auto simp: s_def q_def\<close>)
  with assms(4) s show ?thesis by (simp add: mk_nar_url_def)
qed

text \<open>C38. Whatever \<open>ParseURL\<close> accepts has a valid hash and a known compression, and the hash
  is the beginning of the last component of the path, up to \<open>.nar\<close>.\<close>

theorem ParseURL_sound:
  assumes "ParseURL s = Inr u"
  shows "nar_hash_ok (url_Hash u) \<and> known_compression (url_Compression u) \<and> \<not> url_TransparentZstd u \<and>
    prefix (url_Hash u @ ''.nar'') (path_base (fst (str_cut s ''?'')))"
  using assms str_index_prefix
  by (auto simp: ParseURL_def Let_def rbind_Inr mk_nar_url_def str_cut_def
      dest: CompressionTypeFromExtension_known split: if_splits prod.splits option.splits)

lemma Normalize_spec_aux:
  assumes "nar_hash_ok (url_Hash u)"
  shows "\<exists>v. Normalize u = Inr v \<and> normalized_hash (url_Hash v) \<and> suffix (url_Hash v) (url_Hash u) \<and>
    url_Compression v = url_Compression u \<and> url_Query v = url_Query u \<and> Normalize v = Inr v"
proof -
  have n: "lenient_match h = Some h" if "normalized_hash h" for h
    using that normalized_not_prefixed [OF that] normalized_hash_no_sep [OF that] normalized_hash_length [OF that]
    by (fastforce simp: lenient_match_def)
  have p: "lenient_match h = Some (drop 33 h)" if "hash_prefixed h" "normalized_hash (drop 33 h)" for h
    using that normalized_hash_no_sep [OF that(2)] normalized_hash_length [OF that(2)]
    by (fastforce simp: lenient_match_def)
  show ?thesis
    using assms n p unfolding nar_hash_ok_def
    by (auto simp: Normalize_def mk_nar_url_def suffix_drop)
qed

text \<open>\<open>Normalize\<close> succeeds on every valid hash, keeps compression and query, leaves a suffix of the hash
  that has the normalized form, and is idempotent.\<close>

theorem Normalize_spec:
  assumes "nar_hash_ok (url_Hash u)"
  shows "\<exists>v. Normalize u = Inr v \<and> normalized_hash (url_Hash v) \<and> suffix (url_Hash v) (url_Hash u) \<and>
    url_Compression v = url_Compression u \<and> url_Query v = url_Query u \<and> Normalize v = Inr v"
  using assms by (rule Normalize_spec_aux)

lemma ToFileExtension_plain: "ToFileExtension ct = Inr e \<Longrightarrow> CHR ''/'' \<notin> set e \<and> CHR ''.'' \<notin> set e"
  by (auto simp: ToFileExtension_def split: if_splits)

text \<open>The path of a NAR: three components below the root of the store.\<close>

lemma ToFilePath_plain:
  assumes "nar_hash_ok (url_Hash u)" and "ToFileExtension (url_Compression u) = Inr e"
  shows "ToFilePath u = Inr (take 1 (url_Hash u) @ ''/'' @ take 2 (url_Hash u) @ ''/'' @ url_Hash u @ ''.nar'' @
     (if e \<noteq> [] then ''.'' @ e else []))"
proof -
  let ?h = "url_Hash u" and ?f = "url_Hash u @ ''.nar'' @ (if e \<noteq> [] then ''.'' @ e else [])"
  have l: "52 \<le> length ?h" using assms(1) by (rule nar_hash_ok_length)
  then have hd: "hd ?f = hd ?h" "hd ?h \<in> set ?h"
    using nar_hash_ok_nonempty [OF assms(1)] by (auto simp: hd_append)
  have e: "CHR ''/'' \<notin> set e"
    using ToFileExtension_plain [OF assms(2)] by simp
  have "FilePathWithSharding ?f = Inr (take 1 ?f @ ''/'' @ take 2 ?f @ ''/'' @ ?f)"
    using l hd e nar_hash_ok_chars [OF assms(1)] by (intro FilePathWithSharding_plain) fastforce+
  with l assms show ?thesis
    by (simp add: ToFilePath_def nar_FilePath_def nar_ValidateHash_def)
qed

text \<open>The path of a NAR with a valid hash stays inside the store: three components, none of
  them empty, a dot or two dots, the last one named after the hash.\<close>

theorem ToFilePath_safe:
  assumes "nar_hash_ok (url_Hash u)" and "known_compression (url_Compression u)"
  shows "\<exists>p. ToFilePath u = Inr p \<and> length (split_on (CHR ''/'') p) = 3 \<and>
    list_all plain_comp (split_on (CHR ''/'') p) \<and>
    prefix (url_Hash u @ ''.nar'') (last (split_on (CHR ''/'') p))"
proof -
  let ?h = "url_Hash u"
  obtain e where e: "ToFileExtension (url_Compression u) = Inr e"
    using extension_roundtrip [OF assms(2)] by blast
  define f where "f = ?h @ ''.nar'' @ (if e \<noteq> [] then ''.'' @ e else [])"
  obtain a b r where h: "?h = a # b # r"
    using nar_hash_ok_length [OF assms(1)] by (cases ?h; cases "tl ?h") auto
  have c: "x \<noteq> CHR ''/''" "x \<noteq> CHR ''.''" if "x \<in> set ?h" for x
    using nar_hash_ok_chars [OF assms(1) that] by auto
  have f: "CHR ''/'' \<notin> set f" "plain_comp f"
    using c ToFileExtension_plain [OF e] by (auto simp: f_def plain_comp_def h)
  let ?p = "take 1 ?h @ ''/'' @ take 2 ?h @ ''/'' @ f"
  have "split_on (CHR ''/'') ?p = [take 1 ?h, take 2 ?h, f]"
    using c f by (simp add: h split_on_plain)
  moreover have "list_all plain_comp [take 1 ?h, take 2 ?h, f]"
    using c [of a] c [of b] f by (auto simp: plain_comp_def h)
  moreover have "ToFilePath u = Inr ?p"
    unfolding f_def using ToFilePath_plain [OF assms(1) e] by simp
  moreover have "prefix (?h @ ''.nar'') f" by (simp add: f_def)
  ultimately show ?thesis by (intro exI [of _ ?p]) simp
qed

text \<open>Two valid URLs have the same path exactly when they agree on hash and compression.\<close>

theorem ToFilePath_inj:
  assumes "nar_hash_ok (url_Hash u)" and "known_compression (url_Compression u)"
    and "nar_hash_ok (url_Hash v)" and "known_compression (url_Compression v)"
  shows "ToFilePath u = ToFilePath v \<longleftrightarrow>
    url_Hash u = url_Hash v \<and> url_Compression u = url_Compression v"
proof
  assume eq: "ToFilePath u = ToFilePath v"
  obtain e e' where e: "ToFileExtension (url_Compression u) = Inr e" "ToFileExtension (url_Compression v) = Inr e'"
    using extension_roundtrip [OF assms(2)] extension_roundtrip [OF assms(4)] by blast
  define ext where "ext x = (if x \<noteq> [] then ''.'' @ x else [])" for x :: string
  define f where "f = url_Hash u @ ''.nar'' @ ext e"
  define g where "g = url_Hash v @ ''.nar'' @ ext e'"
  have c: "CHR ''/'' \<notin> set (url_Hash w)" "CHR ''.'' \<notin> set (url_Hash w)" if "nar_hash_ok (url_Hash w)" for w
    using nar_hash_ok_chars [OF that] by fastforce+
  have "CHR ''/'' \<notin> set f" "CHR ''/'' \<notin> set g"
    using c(1) [OF assms(1)] c(1) [OF assms(3)] ToFileExtension_plain [OF e(1)] ToFileExtension_plain [OF e(2)]
    by (simp_all add: f_def g_def ext_def)
  moreover have "(take 1 (url_Hash u) @ ''/'' @ take 2 (url_Hash u)) @ ''/'' @ f
      = (take 1 (url_Hash v) @ ''/'' @ take 2 (url_Hash v)) @ ''/'' @ g"
    using eq ToFilePath_plain [OF assms(1) e(1)] ToFilePath_plain [OF assms(3) e(2)]
    by (simp add: f_def g_def ext_def)
  ultimately have "f = g"
    by (simp only: append_Cons append_Nil) (rule last_component_inj)
  then have "str_cut f ''.nar'' = str_cut g ''.nar''" by simp
  then have "url_Hash u = url_Hash v \<and> ext e = ext e'"
    unfolding f_def g_def by (simp only: str_cut_nar [OF c(2)] assms(1,3) prod.inject simp_thms)
  moreover from this have "e = e'" by (auto simp: ext_def split: if_splits)
  ultimately show "url_Hash u = url_Hash v \<and> url_Compression u = url_Compression v"
    using e ToFileExtension_inj [OF assms(2,4)] by simp
qed (simp add: ToFilePath_def)

section \<open>Examples\<close>

text \<open>A normalized hash, and the same with a narinfo hash in front, as nix-serve prints it.\<close>

definition plain_hash :: string where
  "plain_hash = replicate 52 (CHR ''a'')"

definition served_hash :: string where
  "served_hash = replicate 32 (CHR ''0'') @ ''-'' @ plain_hash"

lemma plain_hash_ok: "normalized_hash plain_hash" "nar_hash_ok plain_hash"
  by (simp_all add: nar_hash_ok_def normalized_hash_def plain_hash_def list_all_iff is_nix32_def)

lemma served_hash_ok: "nar_hash_ok served_hash"
proof -
  have "drop 33 served_hash = plain_hash" by (simp add: served_hash_def)
  moreover have "hash_prefixed served_hash"
    by (simp add: hash_prefixed_def served_hash_def narinfo_hash_ok_def list_all_iff is_nix32_def nth_append)
  ultimately show ?thesis by (simp add: nar_hash_ok_def plain_hash_ok)
qed

theorem ParseURL_String_witness:
  "rbind (url_String (mk_nar_url served_hash ''zstd'' [(''hash'', [''x y''])])) ParseURL =
   Inr (mk_nar_url served_hash ''zstd'' [(''hash'', [''x y''])])"
  by (rule ParseURL_String)
    (simp_all add: mk_nar_url_def served_hash_ok known_compression_def canonical_values_def)

theorem ParseURL_sound_witness:
  "nar_hash_ok plain_hash \<and> known_compression ''xz''"
proof -
  have "ParseURL (''a/b'' @ ''/'' @ plain_hash @ ''.nar'' @ ''.xz'') = Inr (mk_nar_url plain_hash ''xz'' [])"
    by (rule ParseURL_parts [where e = "''xz''" and q = "[]" and b = False and d = "''a/b''"])
      (simp_all add: plain_hash_ok CompressionTypeFromExtension_def parse_query_def str_contains_def str_index.simps)
  from ParseURL_sound [OF this] show ?thesis by (simp add: mk_nar_url_def)
qed

theorem Normalize_spec_witness:
  "\<exists>v. Normalize (mk_nar_url served_hash ''xz'' []) = Inr v \<and> normalized_hash (url_Hash v)"
  using Normalize_spec [of "mk_nar_url served_hash ''xz'' []"] served_hash_ok
  by (auto simp: mk_nar_url_def)

theorem ToFilePath_safe_witness:
  "\<exists>p. ToFilePath (mk_nar_url served_hash ''xz'' []) = Inr p \<and> list_all plain_comp (split_on (CHR ''/'') p)"
  using ToFilePath_safe [of "mk_nar_url served_hash ''xz'' []"] served_hash_ok
  by (auto simp: mk_nar_url_def known_compression_def)

theorem ToFilePath_inj_witness:
  "ToFilePath (mk_nar_url plain_hash ''xz'' []) \<noteq> ToFilePath (mk_nar_url plain_hash ''zstd'' [])"
  using ToFilePath_inj [of "mk_nar_url plain_hash ''xz'' []" "mk_nar_url plain_hash ''zstd'' []"] plain_hash_ok
  by (simp add: mk_nar_url_def known_compression_def)

end
