(* ===== verification/Storage.thy ===== *)
theory Storage
  imports Nar_URL
begin

text \<open>
  Package \<open>pkg/storage\<close> (and \<open>pkg/storage/chunk/store.go\<close>): the interfaces the cache uses to
  keep NARs, narinfos and chunks. A Go interface value is a record of operations over the state of its
  implementation; what a client may rely on is a locale, with the laws of the documented behaviour.
  \<open>calm\<close> tells that no failure of the backend is scheduled.
\<close>

section \<open>Readers\<close>

text \<open>A reader delivers its bytes and then ends, or fails with an error.\<close>

record reader =
  rd_data :: bytes
  rd_err :: "err option"

definition reader_of :: "bytes \<Rightarrow> reader" where
  "reader_of b = \<lparr>rd_data = b, rd_err = None\<rparr>"

text \<open>The text form of a narinfo (\<open>String\<close> and \<open>Parse\<close> of the go-nix library).\<close>

record 'ni narinfo_codec =
  nc_String :: "'ni \<Rightarrow> string"
  nc_Parse :: "string \<Rightarrow> 'ni result"

section \<open>Interfaces\<close>

record 's nar_store =
  ns_HasNar :: "nar_url \<Rightarrow> ('s, bool) prog"
  ns_GetNar :: "nar_url \<Rightarrow> ('s, nat \<times> bytes) prog"
  ns_PutNar :: "nar_url \<Rightarrow> reader \<Rightarrow> ('s, nat) prog"
  ns_DeleteNar :: "nar_url \<Rightarrow> ('s, unit) prog"

record ('s, 'ni) narinfo_store =
  nis_HasNarInfo :: "string \<Rightarrow> ('s, bool) prog"
  nis_GetNarInfo :: "string \<Rightarrow> ('s, 'ni) prog"
  nis_PutNarInfo :: "string \<Rightarrow> 'ni \<Rightarrow> ('s, unit) prog"
  nis_DeleteNarInfo :: "string \<Rightarrow> ('s, unit) prog"

record 's chunk_store =
  cs_HasChunk :: "string \<Rightarrow> ('s, bool) prog"
  cs_GetChunk :: "string \<Rightarrow> ('s, bytes) prog"
  cs_GetRawChunk :: "string \<Rightarrow> ('s, bytes) prog"
  cs_PutChunk :: "string \<Rightarrow> bytes \<Rightarrow> ('s, bool \<times> nat) prog"
  cs_DeleteChunk :: "string \<Rightarrow> ('s, unit) prog"

text \<open>A sequence of puts, successful or not.\<close>

primrec put_all :: "'s nar_store \<Rightarrow> (nar_url \<times> reader) list \<Rightarrow> 's \<Rightarrow> 's" where
  "put_all ops [] s = s"
| "put_all ops (x # xs) s = put_all ops xs (snd (ns_PutNar ops (fst x) (snd x) s))"

text \<open>
  The abstract store: a partial map from keys to bytes, with the four operations of the interface. \<open>run_ops\<close> performs a sequence of operations on
  an implementation, \<open>map_ops\<close> on the map; both collect what every operation returned.
\<close>

datatype nar_op = Put_op nar_url bytes | Get_op nar_url | Has_op nar_url | Delete_op nar_url

datatype nar_res =
    Wrote "nat result"
  | Got "(nat \<times> bytes) result"
  | Present "bool result"
  | Deleted "unit result"

primrec op_url :: "nar_op \<Rightarrow> nar_url" where
  "op_url (Put_op u b) = u"
| "op_url (Get_op u) = u"
| "op_url (Has_op u) = u"
| "op_url (Delete_op u) = u"

primrec run_op :: "'s nar_store \<Rightarrow> nar_op \<Rightarrow> 's \<Rightarrow> nar_res \<times> 's" where
  "run_op ops (Put_op u b) s = map_prod Wrote id (ns_PutNar ops u (reader_of b) s)"
| "run_op ops (Get_op u) s = map_prod Got id (ns_GetNar ops u s)"
| "run_op ops (Has_op u) s = map_prod Present id (ns_HasNar ops u s)"
| "run_op ops (Delete_op u) s = map_prod Deleted id (ns_DeleteNar ops u s)"

primrec map_op :: "'k \<Rightarrow> nar_op \<Rightarrow> ('k \<rightharpoonup> bytes) \<Rightarrow> nar_res \<times> ('k \<rightharpoonup> bytes)" where
  "map_op k (Put_op u b) m = (case m k of None \<Rightarrow> (Wrote (Inr (length b)), m(k \<mapsto> b)) | Some _ \<Rightarrow> (Wrote (Inl ErrAlreadyExists), m))"
| "map_op k (Get_op u) m = (Got (case m k of None \<Rightarrow> Inl ErrNotFound | Some b \<Rightarrow> Inr (length b, b)), m)"
| "map_op k (Has_op u) m = (Present (Inr (m k \<noteq> None)), m)"
| "map_op k (Delete_op u) m = (Deleted (if m k = None then Inl ErrNotFound else Inr ()), m(k := None))"

primrec run_ops :: "'s nar_store \<Rightarrow> nar_op list \<Rightarrow> 's \<Rightarrow> nar_res list \<times> 's" where
  "run_ops ops [] s = ([], s)"
| "run_ops ops (x # xs) s = (case run_op ops x s of (r, t) \<Rightarrow> map_prod (Cons r) id (run_ops ops xs t))"

primrec map_ops :: "(nar_url \<Rightarrow> 'k result) \<Rightarrow> nar_op list \<Rightarrow> ('k \<rightharpoonup> bytes) \<Rightarrow> nar_res list \<times> ('k \<rightharpoonup> bytes)" where
  "map_ops key [] m = ([], m)"
| "map_ops key (x # xs) m = (case map_op (projr (key (op_url x))) x m of (r, n) \<Rightarrow> map_prod (Cons r) id (map_ops key xs n))"

section \<open>What a store of NARs promises\<close>

locale nar_store_laws =
  fixes ops :: "'s nar_store" and key :: "nar_url \<Rightarrow> 'k result"
    and content :: "'s \<Rightarrow> 'k \<Rightarrow> bytes option" and inv :: "'s \<Rightarrow> bool" and calm :: "'s \<Rightarrow> bool"
  assumes put_inv: "inv s \<Longrightarrow> inv (snd (ns_PutNar ops u r s))"
    and del_inv: "inv s \<Longrightarrow> inv (snd (ns_DeleteNar ops u s))"
    and put_calm: "inv s \<Longrightarrow> calm s \<Longrightarrow> calm (snd (ns_PutNar ops u r s))"
    and del_calm: "inv s \<Longrightarrow> calm s \<Longrightarrow> calm (snd (ns_DeleteNar ops u s))"
    and get_result: "inv s \<Longrightarrow> calm s \<Longrightarrow> key u = Inr k \<Longrightarrow>
      ns_GetNar ops u s =
        (case content s k of None \<Rightarrow> Inl ErrNotFound | Some b \<Rightarrow> Inr (length b, b), s)"
    and has_result: "inv s \<Longrightarrow> calm s \<Longrightarrow> key u = Inr k \<Longrightarrow>
      ns_HasNar ops u s = (Inr (content s k \<noteq> None), s)"
    and put_result: "inv s \<Longrightarrow> calm s \<Longrightarrow> key u = Inr k \<Longrightarrow> rd_err r = None \<Longrightarrow>
      content s k = None \<Longrightarrow> fst (ns_PutNar ops u r s) = Inr (length (rd_data r))"
    and put_exists: "inv s \<Longrightarrow> calm s \<Longrightarrow> key u = Inr k \<Longrightarrow> content s k \<noteq> None \<Longrightarrow>
      ns_PutNar ops u r s = (Inl ErrAlreadyExists, s)"
    and put_atomic: "inv s \<Longrightarrow> key u = Inr k \<Longrightarrow>
      content (snd (ns_PutNar ops u r s)) = content s \<and> isl (fst (ns_PutNar ops u r s)) \<or>
      content (snd (ns_PutNar ops u r s)) = (content s)(k \<mapsto> rd_data r) \<and> rd_err r = None"
    and del_result: "inv s \<Longrightarrow> calm s \<Longrightarrow> key u = Inr k \<Longrightarrow>
      fst (ns_DeleteNar ops u s) = (if content s k = None then Inl ErrNotFound else Inr ())"
    and del_content: "inv s \<Longrightarrow> key u = Inr k \<Longrightarrow>
      content (snd (ns_DeleteNar ops u s)) = content s \<and> isl (fst (ns_DeleteNar ops u s)) \<or>
      content (snd (ns_DeleteNar ops u s)) = (content s)(k := None)"
begin

text \<open>What is put is what is read, under the key of the URL and no other.\<close>

lemma get_after_put:
  assumes "inv s" "calm s" "key u = Inr k" "key v = Inr j" "content s k = None"
  shows "fst (ns_GetNar ops v (snd (ns_PutNar ops u (reader_of b) s))) =
    (if j = k then Inr (length b, b) else fst (ns_GetNar ops v s))"
proof -
  let ?t = "snd (ns_PutNar ops u (reader_of b) s)"
  have "\<not> isl (fst (ns_PutNar ops u (reader_of b) s))"
    using put_result [of s u k "reader_of b"] assms by (simp add: reader_of_def)
  then have "content ?t = (content s)(k \<mapsto> b)"
    using put_atomic [of s u k "reader_of b"] assms by (auto simp: reader_of_def)
  moreover have "inv ?t" "calm ?t" using assms put_inv put_calm by blast+
  ultimately show ?thesis
    using assms get_result [of ?t v j] get_result [of s v j] by simp
qed

text \<open>A stored NAR is never overwritten: a second put fails and changes nothing.\<close>

lemma put_keeps_first:
  assumes "inv s" "calm s" "key u = Inr k" "content s k = Some b"
  shows "content (snd (ns_PutNar ops u r s)) = content s \<and> isl (fst (ns_PutNar ops u r s))"
  using put_exists [of s u k r] assms by auto

lemma get_after_delete:
  assumes "inv s" "calm s" "key u = Inr k" "key v = Inr j" "content s k = Some b"
  shows "fst (ns_DeleteNar ops u s) = Inr () \<and>
    fst (ns_GetNar ops v (snd (ns_DeleteNar ops u s))) =
      (if j = k then Inl ErrNotFound else fst (ns_GetNar ops v s))"
proof -
  let ?t = "snd (ns_DeleteNar ops u s)"
  have r: "fst (ns_DeleteNar ops u s) = Inr ()" using del_result [of s u k] assms by simp
  then have "content ?t = (content s)(k := None)"
    using del_content [of s u k] assms by auto
  moreover have "inv ?t" "calm ?t" using assms del_inv del_calm by blast+
  ultimately show ?thesis
    using r assms get_result [of ?t v j] get_result [of s v j] by simp
qed

text \<open>Without failures every operation is simulated by the abstract map, and so is every sequence of operations.\<close>

lemma run_op_simulates:
  assumes "inv s" "calm s" "key (op_url x) = Inr k"
  shows "map_op k x (content s) = map_prod id content (run_op ops x s)" "inv (snd (run_op ops x s))" "calm (snd (run_op ops x s))"
proof -
  show "inv (snd (run_op ops x s))" "calm (snd (run_op ops x s))"
    using assms put_inv put_calm del_inv del_calm get_result has_result by (cases x; simp)+
  have "map_op k (Put_op u b) (content s) = map_prod id content (run_op ops (Put_op u b) s)" if u: "key u = Inr k" for u b
  proof (cases "content s k")
    case None
    then have "fst (ns_PutNar ops u (reader_of b) s) = Inr (length b)" using put_result [OF assms(1,2) u] by (simp add: reader_of_def)
    then show ?thesis using put_atomic [OF assms(1) u, of "reader_of b"] None by (auto simp: reader_of_def map_prod_def split: prod.split)
  qed (use put_exists [OF assms(1,2) u, of "reader_of b"] in simp)
  moreover have "map_op k (Delete_op u) (content s) = map_prod id content (run_op ops (Delete_op u) s)" if u: "key u = Inr k" for u
    using del_result [OF assms(1,2) u] del_content [OF assms(1) u] by (auto simp: map_prod_def fun_upd_idem split: prod.split if_splits)
  ultimately show "map_op k x (content s) = map_prod id content (run_op ops x s)"
    using assms(3) get_result [OF assms(1,2)] has_result [OF assms(1,2)] by (cases x) simp_all
qed

lemma run_ops_refines:
  assumes "inv s" "calm s" "\<forall>x \<in> set xs. \<exists>k. key (op_url x) = Inr k"
  shows "map_prod id content (run_ops ops xs s) = map_ops key xs (content s)"
  using assms
proof (induction xs arbitrary: s)
  case (Cons x xs)
  obtain k where k: "key (op_url x) = Inr k" using Cons.prems(3) by auto
  obtain r t where rt: "run_op ops x s = (r, t)" by fastforce
  note sim = run_op_simulates [OF Cons.prems(1,2) k, unfolded rt, simplified]
  have "map_prod id content (run_ops ops xs t) = map_ops key xs (content t)" using Cons.IH [OF sim(2,3)] Cons.prems(3) by (simp add: id_def)
  then show ?case using sim(1) k rt by (cases "run_ops ops xs t"; cases "map_ops key xs (content t)") auto
qed simp

text \<open>Whatever fails on the way, a NAR that is present after a sequence of puts is complete: it was there before or is the whole
  body of one of the puts.\<close>

lemma put_all_complete:
  assumes "inv s" "\<forall>(u, r) \<in> set xs. \<exists>k. key u = Inr k" "content (put_all ops xs s) k = Some b"
  shows "content s k = Some b \<or> (\<exists>u r. (u, r) \<in> set xs \<and> key u = Inr k \<and> rd_err r = None \<and> b = rd_data r)"
  using assms
proof (induction xs arbitrary: s)
  case (Cons x xs)
  let ?t = "snd (ns_PutNar ops (fst x) (snd x) s)"
  obtain j where j: "key (fst x) = Inr j" using Cons.prems(2) by (cases x) auto
  have "inv ?t" using Cons.prems(1) by (rule put_inv)
  then consider "content ?t k = Some b"
    | "\<exists>u r. (u, r) \<in> set xs \<and> key u = Inr k \<and> rd_err r = None \<and> b = rd_data r"
    using Cons.IH [of ?t] Cons.prems by auto
  then show ?case
  proof cases
    case 1
    then have "content s k = Some b \<or> k = j \<and> b = rd_data (snd x) \<and> rd_err (snd x) = None"
      using put_atomic [OF Cons.prems(1) j, of "snd x"] by (auto split: if_splits)
    moreover have "(fst x, snd x) \<in> set (x # xs)" by simp
    ultimately show ?thesis using j by blast
  qed auto
qed simp

end

section \<open>What a store of chunks promises\<close>

text \<open>Chunks are kept compressed and read back decompressed; putting a chunk that is there is not an error.\<close>

locale chunk_store_laws =
  fixes ops :: "'s chunk_store" and content :: "'s \<Rightarrow> string \<Rightarrow> bytes option"
    and ok :: "string \<Rightarrow> bool" and inv :: "'s \<Rightarrow> bool" and calm :: "'s \<Rightarrow> bool"
  assumes putc_inv: "inv s \<Longrightarrow> ok h \<Longrightarrow> inv (snd (cs_PutChunk ops h d s))"
    and delc_inv: "inv s \<Longrightarrow> ok h \<Longrightarrow> inv (snd (cs_DeleteChunk ops h s))"
    and putc_calm: "inv s \<Longrightarrow> ok h \<Longrightarrow> calm s \<Longrightarrow> calm (snd (cs_PutChunk ops h d s))"
    and delc_calm: "inv s \<Longrightarrow> ok h \<Longrightarrow> calm s \<Longrightarrow> calm (snd (cs_DeleteChunk ops h s))"
    and getc_result: "inv s \<Longrightarrow> calm s \<Longrightarrow> ok h \<Longrightarrow>
      cs_GetChunk ops h s = (case content s h of None \<Rightarrow> Inl ErrChunkNotFound | Some b \<Rightarrow> Inr b, s)"
    and putc_result: "inv s \<Longrightarrow> calm s \<Longrightarrow> ok h \<Longrightarrow>
      \<exists>n. fst (cs_PutChunk ops h d s) = Inr (content s h = None, n)"
    and putc_content: "inv s \<Longrightarrow> ok h \<Longrightarrow>
      content (snd (cs_PutChunk ops h d s)) = content s \<or>
      content (snd (cs_PutChunk ops h d s)) = (content s)(h \<mapsto> d) \<and> content s h = None"
    and putc_stored: "inv s \<Longrightarrow> ok h \<Longrightarrow> \<not> isl (fst (cs_PutChunk ops h d s)) \<Longrightarrow>
      content (snd (cs_PutChunk ops h d s)) h \<noteq> None"
    and delc_content: "inv s \<Longrightarrow> ok h \<Longrightarrow>
      content (snd (cs_DeleteChunk ops h s)) = content s \<and> isl (fst (cs_DeleteChunk ops h s)) \<or>
      content (snd (cs_DeleteChunk ops h s)) = (content s)(h := None)"
begin

text \<open>When the hash of a chunk determines its bytes, what is put under a hash is what is read.\<close>

lemma getc_after_putc:
  assumes "inv s" "calm s" "ok h" "ok g" "content s h \<in> {None, Some d}"
  shows "fst (cs_GetChunk ops g (snd (cs_PutChunk ops h d s))) =
    (if g = h then Inr d else fst (cs_GetChunk ops g s))"
proof -
  let ?t = "snd (cs_PutChunk ops h d s)"
  have "\<not> isl (fst (cs_PutChunk ops h d s))" using putc_result [of s h d] assms by auto
  then have "content ?t h \<noteq> None" using putc_stored assms by blast
  then have "content ?t = (content s)(h \<mapsto> d)"
    using putc_content [OF assms(1,3), of d] assms(5) by auto
  moreover have "inv ?t" "calm ?t" using assms putc_inv putc_calm by blast+
  ultimately show ?thesis using assms getc_result [of ?t g] getc_result [of s g] by simp
qed

end

end
