(* ===== verification/Chunker.thy ===== *)
theory Chunker
  imports Storage
begin

text \<open>
  Package \<open>pkg/chunker\<close>: content-defined chunking of a stream, and \<open>nar.DecompressReader\<close> that often stands before it. The libraries
  are a record of functions: where FastCDC cuts a stream, the BLAKE3 sum in hexadecimal, and the decompressors. \<open>Chunk\<close> delivers its
  chunks on one channel and at most one error on another; the model has the list of chunks and the error.
\<close>

record chunk_lib =
  kl_cut :: "reader \<Rightarrow> bytes list \<times> err option"
  kl_sum :: "bytes \<Rightarrow> string"
  kl_open :: "string \<Rightarrow> reader \<Rightarrow> reader result"

record chunk =
  ch_Hash :: string
  ch_Offset :: nat
  ch_Size :: nat
  ch_CompressedSize :: nat
  ch_Data :: bytes

primrec chunk_from :: "(bytes \<Rightarrow> string) \<Rightarrow> nat \<Rightarrow> bytes list \<Rightarrow> chunk list" where
  "chunk_from blake3 offset [] = []"
| "chunk_from blake3 offset (d # ds) =
     \<lparr>ch_Hash = blake3 d, ch_Offset = offset, ch_Size = length d, ch_CompressedSize = 0, ch_Data = d\<rparr>
     # chunk_from blake3 (offset + length d) ds"

definition CDCChunker_Chunk :: "chunk_lib \<Rightarrow> reader \<Rightarrow> chunk list \<times> err option" where
  "CDCChunker_Chunk lib r = (case kl_cut lib r of (ds, e) \<Rightarrow> (chunk_from (kl_sum lib) 0 ds, e))"

definition DecompressReader :: "chunk_lib \<Rightarrow> reader \<Rightarrow> string \<Rightarrow> reader result" where
  "DecompressReader lib r ct =
     (if ct = ''none'' \<or> ct = [] then Inr r
      else if ct \<in> {''bzip2'', ''zstd'', ''lz4'', ''br'', ''lzip'', ''xz''} then kl_open lib ct r
      else Inl ErrUnsupportedCompression)"

text \<open>What the chunking library promises: the pieces of a stream that ends well are the stream, without empty pieces; when the stream
  fails, the pieces are a part of it from the start and the failure is reported.\<close>

definition cuts_ok :: "chunk_lib \<Rightarrow> reader \<Rightarrow> bool" where
  "cuts_ok lib r \<longleftrightarrow>
     (case kl_cut lib r of (ds, e) \<Rightarrow>
        e = rd_err r \<and> list_all (\<lambda>d. d \<noteq> []) ds \<and>
        (if rd_err r = None then concat ds = rd_data r else prefix (concat ds) (rd_data r)))"

lemma chunk_from_data [simp]: "map ch_Data (chunk_from f n ds) = ds"
  by (induction ds arbitrary: n) auto

lemma chunk_from_hash [simp]: "map ch_Hash (chunk_from f n ds) = map f ds"
  by (induction ds arbitrary: n) auto

lemma chunk_from_size [simp]: "map ch_Size (chunk_from f n ds) = map length ds"
  by (induction ds arbitrary: n) auto

lemma chunk_from_mem:
  "c \<in> set (chunk_from f n ds) \<Longrightarrow>
   ch_Size c = length (ch_Data c) \<and> ch_Hash c = f (ch_Data c) \<and>
   (\<exists>k. ch_Offset c = n + k \<and> take (ch_Size c) (drop k (concat ds)) = ch_Data c)"
proof (induction ds arbitrary: n)
  case (Cons d ds)
  show ?case
  proof (cases "c \<in> set (chunk_from f (n + length d) ds)")
    case True
    from Cons.IH [OF this] obtain k where "ch_Offset c = n + length d + k" "take (ch_Size c) (drop k (concat ds)) = ch_Data c"
      by auto
    then show ?thesis using Cons.IH [OF True] by (auto intro!: exI [of _ "length d + k"])
  qed (use Cons.prems in auto)
qed simp

text \<open>The chunks of a stream that ends well are the stream, cut: in order they give it back, and each one is the piece of the given size at the given offset,
  under the hash of its bytes.\<close>

theorem CDCChunker_Chunk_reassembles:
  assumes "cuts_ok lib r" "rd_err r = None" "CDCChunker_Chunk lib r = (cs, e)"
  shows "e = None \<and> concat (map ch_Data cs) = rd_data r \<and>
    (\<forall>c \<in> set cs. ch_Hash c = kl_sum lib (ch_Data c) \<and> take (ch_Size c) (drop (ch_Offset c) (rd_data r)) = ch_Data c)"
proof -
  obtain ds where ds: "kl_cut lib r = (ds, e)" "cs = chunk_from (kl_sum lib) 0 ds" "e = None" "concat ds = rd_data r"
    using assms by (auto simp: CDCChunker_Chunk_def cuts_ok_def split: prod.splits)
  then show ?thesis using chunk_from_mem [of _ "kl_sum lib" 0 ds] by fastforce
qed

text \<open>A library that cuts after every second byte, for examples.\<close>

fun pairs_of :: "bytes \<Rightarrow> bytes list" where
  "pairs_of (a # b # xs) = [a, b] # pairs_of xs"
| "pairs_of [a] = [[a]]"
| "pairs_of [] = []"

definition demo_chunk_lib :: chunk_lib where
  "demo_chunk_lib = \<lparr>kl_cut = (\<lambda>r. (pairs_of (rd_data r), rd_err r)), kl_sum = (\<lambda>b. replicate (64 - length b) (CHR ''0'') @ b),
     kl_open = (\<lambda>ct r. Inr r)\<rparr>"

lemma pairs_of_ok: "concat (pairs_of xs) = xs \<and> list_all (\<lambda>d. d \<noteq> []) (pairs_of xs)"
  by (induction xs rule: pairs_of.induct) auto

lemma demo_cuts_ok: "cuts_ok demo_chunk_lib r"
  using pairs_of_ok [of "rd_data r"] by (simp add: cuts_ok_def demo_chunk_lib_def)

theorem CDCChunker_Chunk_reassembles_witness:
  "concat (map ch_Data (fst (CDCChunker_Chunk demo_chunk_lib (reader_of ''abcde'')))) = ''abcde''"
  using CDCChunker_Chunk_reassembles [OF demo_cuts_ok [of "reader_of ''abcde''"]]
  by (metis prod.collapse reader.select_convs reader_of_def)

end
