(* ===== verification/Cache_State.thy ===== *)
theory Cache_State
  imports Database Chunker
begin

text \<open>
  Package \<open>pkg/cache\<close>, the ground of it: the state a \<open>Cache\<close> works on, its configuration, and the
  database transactions with their retries (\<open>withTransaction\<close>, \<open>executeTransaction\<close>).

  The state joins the database, the state of the store of NARs and narinfos (one backend serves both), that of the
  chunk store, that of the lockers,
  the keys of \<open>upstreamJobs\<close> and the jobs handed to background goroutines. The code of the go-nix library
  (signatures, hashes, fingerprints) is a record of functions. A hash is represented by the text its \<open>String\<close> method prints.
\<close>

section \<open>Narinfos\<close>

record signature =
  sg_Name :: string
  sg_Data :: string

record narinfo =
  n_StorePath :: string
  n_URL :: string
  n_Compression :: string
  n_FileHash :: "string option"
  n_FileSize :: "64 word"
  n_NarHash :: "string option"
  n_NarSize :: "64 word"
  n_References :: "string list"
  n_Deriver :: string
  n_System :: string
  n_Signatures :: "signature list"
  n_CA :: string

record nix_lib =
  nl_SigString :: "signature \<Rightarrow> string"
  nl_ParseSignature :: "string \<Rightarrow> signature result"
  nl_ParseHash :: "string \<Rightarrow> string result"
  nl_Fingerprint :: "narinfo \<Rightarrow> string"
  nl_Sign :: "string \<Rightarrow> signature result"

section \<open>Lockers\<close>

text \<open>\<open>lock.Locker\<close> and \<open>lock.RWLocker\<close>, as the cache uses them.\<close>

record 'l locker =
  lo_Lock :: "string \<Rightarrow> ('l, unit) prog"
  lo_TryLock :: "string \<Rightarrow> ('l, bool) prog"
  lo_Unlock :: "string \<Rightarrow> ('l, unit) prog"

record 'l rw_locker = "'l locker" +
  lo_RLock :: "string \<Rightarrow> ('l, unit) prog"
  lo_RUnlock :: "string \<Rightarrow> ('l, unit) prog"

section \<open>Upstream caches\<close>

text \<open>\<open>upstream.Cache\<close>: its priority, whether the last health check succeeded, and what it answers.\<close>

record upstream =
  uc_priority :: "64 word"
  uc_healthy :: bool
  uc_HasNarInfo :: "string \<Rightarrow> bool result"
  uc_HasNar :: "nar_url \<Rightarrow> bool result"
  uc_GetNarInfo :: "string \<Rightarrow> narinfo result"
  uc_GetNar :: "nar_url \<Rightarrow> reader result"

section \<open>The cache\<close>

text \<open>A goroutine that was started: a migration, or the download of a NAR with the URL that is preferred, the upstream and the narinfo that are known.\<close>

datatype background_job =
    MigrateNarInfoJob string narinfo
  | MigrateNarToChunksJob nar_url
  | PullNarJob nar_url "nar_url option" "upstream option" "narinfo option"

record ('s, 'c, 'l) cache_state =
  cst_db :: database
  cst_store :: 's
  cst_chunks :: 'c
  cst_locks :: 'l
  cst_upstreamJobs :: "string list"
  cst_background :: "background_job list"

record ('s, 'c, 'l) cache_conf =
  cc_narStore :: "'s nar_store"
  cc_narInfoStore :: "('s, narinfo) narinfo_store"
  cc_chunkStore :: "'c chunk_store option"
  cc_cdcEnabled :: bool
  cc_cdcLazyChunking :: bool
  cc_cdcDeleteDelay :: nat
  cc_chunkLib :: chunk_lib
  cc_downloadLocker :: "'l locker"
  cc_cacheLocker :: "'l rw_locker"
  cc_hostName :: string
  cc_shouldSignNarinfo :: bool
  cc_recordAgeIgnoreTouch :: nat
  cc_maxSize :: nat
  cc_nix :: nix_lib

definition isCDCEnabled :: "('s, 'c, 'l) cache_conf \<Rightarrow> bool" where
  "isCDCEnabled c \<longleftrightarrow> cc_cdcEnabled c \<and> cc_chunkStore c \<noteq> None"

definition narInfoJobKey :: "string \<Rightarrow> string" where "narInfoJobKey h = ''download:narinfo:'' @ h"
definition narJobKey :: "string \<Rightarrow> string" where "narJobKey h = ''download:nar:'' @ h"
definition narInfoLockKey :: "string \<Rightarrow> string" where "narInfoLockKey h = ''narinfo:'' @ h"
definition migrationLockKey :: "string \<Rightarrow> string" where "migrationLockKey h = ''migration:'' @ h"

text \<open>Calls on a part of the state.\<close>

definition in_db :: "(database, 'a) prog \<Rightarrow> (('s, 'c, 'l) cache_state, 'a) prog" where
  "in_db m s = (case m (cst_db s) of (r, d) \<Rightarrow> (r, s\<lparr>cst_db := d\<rparr>))"

definition in_store :: "('s, 'a) prog \<Rightarrow> (('s, 'c, 'l) cache_state, 'a) prog" where
  "in_store m s = (case m (cst_store s) of (r, d) \<Rightarrow> (r, s\<lparr>cst_store := d\<rparr>))"

definition in_chunks :: "('c, 'a) prog \<Rightarrow> (('s, 'c, 'l) cache_state, 'a) prog" where
  "in_chunks m s = (case m (cst_chunks s) of (r, d) \<Rightarrow> (r, s\<lparr>cst_chunks := d\<rparr>))"

definition in_locks :: "('l, 'a) prog \<Rightarrow> (('s, 'c, 'l) cache_state, 'a) prog" where
  "in_locks m s = (case m (cst_locks s) of (r, d) \<Rightarrow> (r, s\<lparr>cst_locks := d\<rparr>))"

definition spawn :: "background_job \<Rightarrow> (('s, 'c, 'l) cache_state, unit) prog" where
  "spawn j = modifyE (\<lambda>s. s\<lparr>cst_background := cst_background s @ [j]\<rparr>)"

definition hasUpstreamJob :: "string \<Rightarrow> (('s, 'c, 'l) cache_state, bool) prog" where
  "hasUpstreamJob h = getsE (\<lambda>s. narJobKey h \<in> set (cst_upstreamJobs s))"

text \<open>An error of \<open>TryLock\<close> counts as no download.\<close>

definition isRemoteDownloadInProgress :: "('s, 'c, 'l) cache_conf \<Rightarrow> string \<Rightarrow> (('s, 'c, 'l) cache_state, bool) prog" where
  "isRemoteDownloadInProgress c h =
     bindE (attemptE (in_locks (lo_TryLock (cc_downloadLocker c) (narJobKey h)))) (\<lambda>r.
       case r of
         Inl _ \<Rightarrow> returnE False
       | Inr False \<Rightarrow> returnE True
       | Inr True \<Rightarrow> thenE (ignoreE (in_locks (lo_Unlock (cc_downloadLocker c) (narJobKey h)))) (returnE False))"

section \<open>Transactions\<close>

text \<open>
  Rolling back restores the tables; the clock and the schedule go on. The transaction is rolled back when the function or the commit fails.
\<close>

definition rollback :: "database \<Rightarrow> database \<Rightarrow> database" where
  "rollback old d = old\<lparr>db_faults := db_faults d, db_now := db_now d\<rparr>"

definition db_ping :: "(database, unit) prog" where
  "db_ping = db_call (returnE ())"

definition all_or_nothing :: "(('s, 'c, 'l) cache_state, 'a) prog \<Rightarrow> (('s, 'c, 'l) cache_state, 'a) prog" where
  "all_or_nothing m s =
     (case m s of
        (Inl e, t) \<Rightarrow> (Inl e, t\<lparr>cst_db := rollback (cst_db s) (cst_db t)\<rparr>)
      | (Inr x, t) \<Rightarrow> (Inr x, t))"

definition executeTransaction :: "(('s, 'c, 'l) cache_state, 'a) prog \<Rightarrow> (('s, 'c, 'l) cache_state, 'a) prog" where
  "executeTransaction fn =
     thenE (in_db db_ping) (all_or_nothing (bindE fn (\<lambda>x. thenE (in_db db_ping) (returnE x))))"

text \<open>
  Up to five attempts; only a deadlock is retried. The wait between two attempts takes an entry of the schedule, an error there is that of a context that is done.
\<close>

fun attempts :: "nat \<Rightarrow> (('s, 'c, 'l) cache_state, 'a) prog \<Rightarrow> (('s, 'c, 'l) cache_state, 'a) prog" where
  "attempts 0 fn = raiseE ErrDeadlock"
| "attempts (Suc k) fn =
     bindE (attemptE (executeTransaction fn)) (\<lambda>r.
       case r of
         Inr x \<Rightarrow> returnE x
       | Inl e \<Rightarrow>
           if \<not> IsDeadlockError e \<or> k = 0 then raiseE e
           else thenE (in_db db_ping) (attempts k fn))"

definition maxAttempts :: nat where "maxAttempts = 5"

definition withTransaction :: "(('s, 'c, 'l) cache_state, 'a) prog \<Rightarrow> (('s, 'c, 'l) cache_state, 'a) prog" where
  "withTransaction fn = attempts maxAttempts fn"

section \<open>Locked sections\<close>

definition withReadLock ::
  "('s, 'c, 'l) cache_conf \<Rightarrow> string \<Rightarrow> (('s, 'c, 'l) cache_state, 'a) prog \<Rightarrow> (('s, 'c, 'l) cache_state, 'a) prog" where
  "withReadLock c key fn =
     thenE (in_locks (lo_RLock (cc_cacheLocker c) key)) (finallyE fn (in_locks (lo_RUnlock (cc_cacheLocker c) key)))"

definition withWriteLock ::
  "('s, 'c, 'l) cache_conf \<Rightarrow> string \<Rightarrow> (('s, 'c, 'l) cache_state, 'a) prog \<Rightarrow> (('s, 'c, 'l) cache_state, 'a) prog" where
  "withWriteLock c key fn =
     thenE (in_locks (lo_Lock (cc_cacheLocker c) key)) (finallyE fn (in_locks (lo_Unlock (cc_cacheLocker c) key)))"

text \<open>Whether the lock was acquired; the function runs only then.\<close>

definition withTryLock ::
  "('s, 'c, 'l) cache_conf \<Rightarrow> string \<Rightarrow> (('s, 'c, 'l) cache_state, unit) prog \<Rightarrow> (('s, 'c, 'l) cache_state, bool) prog" where
  "withTryLock c key fn =
     bindE (in_locks (lo_TryLock (cc_cacheLocker c) key)) (\<lambda>acquired.
       if \<not> acquired then returnE False
       else finallyE (thenE fn (returnE True)) (in_locks (lo_Unlock (cc_cacheLocker c) key)))"

section \<open>The invariant\<close>

text \<open>The database is intact, the chunk hashes satisfy \<open>ok\<close>, and the stores and lockers satisfy invariants of their own.\<close>

definition cache_inv ::
  "(string \<Rightarrow> bool) \<Rightarrow> ('s \<Rightarrow> bool) \<Rightarrow> ('c \<Rightarrow> bool) \<Rightarrow> ('l \<Rightarrow> bool) \<Rightarrow> ('s, 'c, 'l) cache_state \<Rightarrow> bool" where
  "cache_inv ok I K L s \<longleftrightarrow> db_wf ok (cst_db s) \<and> I (cst_store s) \<and> K (cst_chunks s) \<and> L (cst_locks s)"

named_theorems cache_keeps "operations of the cache that keep its invariant"

lemma keeps_in_db [cache_keeps]: "keeps (db_wf ok) m \<Longrightarrow> keeps (cache_inv ok I K L) (in_db m)"
  by (auto simp: keeps_def in_db_def cache_inv_def split: prod.splits)

lemma keeps_in_store: "keeps I m \<Longrightarrow> keeps (cache_inv ok I K L) (in_store m)"
  by (auto simp: keeps_def in_store_def cache_inv_def split: prod.splits)

lemma keeps_in_chunks: "keeps K m \<Longrightarrow> keeps (cache_inv ok I K L) (in_chunks m)"
  by (auto simp: keeps_def in_chunks_def cache_inv_def split: prod.splits)

lemma keeps_in_locks: "keeps L m \<Longrightarrow> keeps (cache_inv ok I K L) (in_locks m)"
  by (auto simp: keeps_def in_locks_def cache_inv_def split: prod.splits)

lemma keeps_spawn [cache_keeps]: "keeps (cache_inv ok I K L) (spawn j)"
  unfolding spawn_def by (rule keeps_modifyE) (simp add: cache_inv_def)

lemma keeps_hasUpstreamJob [cache_keeps]: "keeps P (hasUpstreamJob h)"
  unfolding hasUpstreamJob_def by (rule keeps_getsE)

lemma keeps_db_ping [db_keeps]: "keeps (db_wf ok) db_ping"
  unfolding db_ping_def by (rule keeps_db_call) (simp add: returnE_def)

lemma wf_rollback: "db_wf ok old \<Longrightarrow> db_wf ok (rollback old d)"
  by (simp add: rollback_def db_wf_def fk_wf_def links_wf_def)

lemma keeps_all_or_nothing:
  assumes "keeps (cache_inv ok I K L) m"
  shows "keeps (cache_inv ok I K L) (all_or_nothing m)"
proof (rule keepsI)
  fix s assume s: "cache_inv ok I K L s"
  then have "cache_inv ok I K L (snd (m s))" using assms by (rule keepsD [rotated])
  then show "cache_inv ok I K L (snd (all_or_nothing m s))"
    using s by (auto simp: all_or_nothing_def cache_inv_def wf_rollback split: prod.splits sum.splits)
qed

lemma keeps_executeTransaction:
  "keeps (cache_inv ok I K L) fn \<Longrightarrow> keeps (cache_inv ok I K L) (executeTransaction fn)"
  unfolding executeTransaction_def by (intro keeps_intros keeps_all_or_nothing cache_keeps db_keeps)

lemma keeps_attempts:
  "keeps (cache_inv ok I K L) fn \<Longrightarrow> keeps (cache_inv ok I K L) (attempts k fn)"
  by (induction k) (auto intro!: keeps_intros cache_keeps db_keeps keeps_executeTransaction)

lemma keeps_withTransaction [cache_keeps]:
  "keeps (cache_inv ok I K L) fn \<Longrightarrow> keeps (cache_inv ok I K L) (withTransaction fn)"
  unfolding withTransaction_def by (rule keeps_attempts)

section \<open>Atomicity\<close>

definition tables :: "database \<Rightarrow> database" where
  "tables d = d\<lparr>db_faults := [], db_now := 0\<rparr>"

lemma tables_rollback [simp]: "tables (rollback old d) = tables old"
  by (simp add: tables_def rollback_def)

lemma db_ping_tables: "db_ping d = (r, d') \<Longrightarrow> tables d' = tables d"
  by (auto simp: db_ping_def db_call_def returnE_def tables_def split: list.splits option.splits)

lemma ping_tables: "in_db db_ping s = (r, t) \<Longrightarrow> tables (cst_db t) = tables (cst_db s)"
  by (auto simp: in_db_def split: prod.splits dest: db_ping_tables)

lemma all_or_nothing_Inr [simp]: "all_or_nothing m s = (Inr x, t) \<longleftrightarrow> m s = (Inr x, t)"
  by (auto simp: all_or_nothing_def split: prod.splits sum.splits)

lemma all_or_nothing_Inl: "all_or_nothing m s = (Inl e, t) \<Longrightarrow> tables (cst_db t) = tables (cst_db s)"
  by (auto simp: all_or_nothing_def split: prod.splits sum.splits)

lemma executeTransaction_error:
  "executeTransaction fn s = (Inl e, t) \<Longrightarrow> tables (cst_db t) = tables (cst_db s)"
  unfolding executeTransaction_def thenE_def [of "in_db db_ping" "all_or_nothing m" for m] bindE_Inl
  by (metis ping_tables all_or_nothing_Inl)

lemma executeTransaction_ok:
  assumes "executeTransaction fn s = (Inr x, t)"
  obtains u v where "tables (cst_db u) = tables (cst_db s)" "fn u = (Inr x, v)" "tables (cst_db t) = tables (cst_db v)"
proof -
  from assms obtain u v w where "in_db db_ping s = (Inr (), u)" "fn u = (Inr x, v)" "in_db db_ping v = (Inr (), t)"
    by (auto simp: executeTransaction_def thenE_def bindE_Inr returnE_def)
  with ping_tables that show ?thesis by metis
qed

lemma attempts_error: "attempts k fn s = (Inl e, t) \<Longrightarrow> tables (cst_db t) = tables (cst_db s)"
proof (induction k arbitrary: s)
  case 0 then show ?case by (simp add: raiseE_def)
next
  case (Suc k)
  obtain r u where u: "executeTransaction fn s = (r, u)" by fastforce
  with Suc.prems obtain e' where r: "r = Inl e'"
    by (cases r) (auto simp: bindE_def attemptE_def returnE_def)
  have su: "tables (cst_db u) = tables (cst_db s)" using executeTransaction_error u r by blast
  show ?case
  proof (cases "\<not> IsDeadlockError e' \<or> k = 0")
    case True
    then show ?thesis using Suc.prems u r su by (auto simp: bindE_def attemptE_def raiseE_def)
  next
    case False
    then have "thenE (in_db db_ping) (attempts k fn) u = (Inl e, t)"
      using Suc.prems u r by (simp add: bindE_def attemptE_def)
    then show ?thesis
      unfolding thenE_def bindE_Inl using su ping_tables Suc.IH by metis
  qed
qed

lemma attempts_ok:
  "attempts k fn s = (Inr x, t) \<Longrightarrow>
   \<exists>u v. tables (cst_db u) = tables (cst_db s) \<and> fn u = (Inr x, v) \<and> tables (cst_db t) = tables (cst_db v)"
proof (induction k arbitrary: s)
  case 0 then show ?case by (simp add: raiseE_def)
next
  case (Suc k)
  obtain r u where u: "executeTransaction fn s = (r, u)" by fastforce
  show ?case
  proof (cases r)
    case (Inr y)
    then have "executeTransaction fn s = (Inr x, t)"
      using Suc.prems u by (auto simp: bindE_def attemptE_def returnE_def)
    then show ?thesis by (rule executeTransaction_ok) blast
  next
    case (Inl e')
    have su: "tables (cst_db u) = tables (cst_db s)" using executeTransaction_error u Inl by blast
    have "thenE (in_db db_ping) (attempts k fn) u = (Inr x, t)"
      using Suc.prems u Inl by (auto simp: bindE_def attemptE_def raiseE_def split: if_splits)
    then show ?thesis unfolding thenE_Inr using su ping_tables Suc.IH by metis
  qed
qed

text \<open>Without failures a query is its effect and a transaction is its function.\<close>

lemma db_call_calm [simp]: "db_faults d = [] \<Longrightarrow> db_call m d = m d"
  by (simp add: db_call_def)

lemma ping_calm [simp]: "db_faults (cst_db s) = [] \<Longrightarrow> in_db db_ping s = (Inr (), s)"
  by (simp add: in_db_def db_ping_def returnE_def)

lemma attempts_one:
  "executeTransaction fn s = (r, t) \<Longrightarrow> r \<noteq> Inl ErrDeadlock \<Longrightarrow> attempts (Suc k) fn s = (r, t)"
  by (auto simp: bindE_def attemptE_def returnE_def raiseE_def IsDeadlockError_def split: sum.split)

lemma withTransaction_one:
  "executeTransaction fn s = (r, t) \<Longrightarrow> r \<noteq> Inl ErrDeadlock \<Longrightarrow> withTransaction fn s = (r, t)"
  unfolding withTransaction_def maxAttempts_def eval_nat_numeral by (rule attempts_one)

lemma withTransaction_calm:
  assumes "db_faults (cst_db s) = []" "fn s = (Inr x, t)" "db_faults (cst_db t) = []"
  shows "withTransaction fn s = (Inr x, t)"
  using assms
  by (intro withTransaction_one) (auto simp: executeTransaction_def thenE_def bindE_def all_or_nothing_def returnE_def)

lemma withTransaction_calm_error:
  assumes "db_faults (cst_db s) = []" "fn s = (Inl e, t)" "e \<noteq> ErrDeadlock"
  shows "withTransaction fn s = (Inl e, t\<lparr>cst_db := rollback (cst_db s) (cst_db t)\<rparr>)"
  using assms
  by (intro withTransaction_one) (auto simp: executeTransaction_def thenE_def bindE_def all_or_nothing_def returnE_def)

text \<open>A schedule in which the next \<open>k\<close> transactions meet a deadlock when they begin, each wait ending in time.\<close>

definition with_faults :: "err option list \<Rightarrow> ('s, 'c, 'l) cache_state \<Rightarrow> ('s, 'c, 'l) cache_state" where
  "with_faults fs s = s\<lparr>cst_db := (cst_db s)\<lparr>db_faults := fs\<rparr>\<rparr>"

definition deadlocks :: "nat \<Rightarrow> err option list" where
  "deadlocks k = concat (replicate k [Some ErrDeadlock, None])"

lemma executeTransaction_deadlock:
  "executeTransaction fn (with_faults (Some e # fs) s) = (Inl e, with_faults fs s)"
  by (simp add: executeTransaction_def thenE_def bindE_def in_db_def db_ping_def db_call_def with_faults_def)

lemma attempts_deadlocks:
  "attempts (Suc (k + n)) fn (with_faults (deadlocks k @ fs) s) = attempts (Suc n) fn (with_faults fs s)"
proof (induction k)
  case (Suc k)
  have "in_db db_ping (with_faults (None # g) s) = (Inr (), with_faults g s)" for g
    by (simp add: in_db_def db_ping_def db_call_def with_faults_def returnE_def)
  then show ?case
    using Suc.IH
    by (simp add: deadlocks_def bindE_def attemptE_def executeTransaction_deadlock IsDeadlockError_def thenE_def
        del: attempts.simps(2) add: attempts.simps(2) [of "Suc (k + n)"])
qed (simp add: deadlocks_def)

section \<open>Properties\<close>

text \<open>C4. Transactions are atomic, whatever queries fail and however often the function is retried: on an error every table is as it was, and on a
  success the tables are those that one complete run of the function left, started on the original tables.\<close>

theorem withTransaction_atomic:
  "case withTransaction fn s of
     (Inl e, t) \<Rightarrow> tables (cst_db t) = tables (cst_db s)
   | (Inr x, t) \<Rightarrow> \<exists>u v. tables (cst_db u) = tables (cst_db s) \<and> fn u = (Inr x, v) \<and> tables (cst_db t) = tables (cst_db v)"
proof (cases "withTransaction fn s")
  case (Pair r t)
  then show ?thesis
    unfolding withTransaction_def using attempts_error attempts_ok by (cases r) auto
qed

text \<open>Up to four deadlocks in a row are absorbed: the result is that of the attempt after them. A fifth one is reported.\<close>

theorem withTransaction_retries:
  assumes "k \<le> 4" "executeTransaction fn (with_faults fs s) = (r, t)" "r \<noteq> Inl ErrDeadlock"
  shows "withTransaction fn (with_faults (deadlocks k @ fs) s) = (r, t) \<and>
    withTransaction fn (with_faults (deadlocks 5 @ fs) s) = (Inl ErrDeadlock, with_faults (None # fs) s)"
proof
  have "maxAttempts = Suc (k + (4 - k))" using assms(1) by (simp add: maxAttempts_def)
  then show "withTransaction fn (with_faults (deadlocks k @ fs) s) = (r, t)"
    using attempts_one [OF assms(2,3)] attempts_deadlocks [of k "4 - k" fn fs s]
    by (simp add: withTransaction_def del: attempts.simps)
  have five: "deadlocks 5 @ fs = deadlocks 4 @ Some ErrDeadlock # None # fs"
    by (simp add: deadlocks_def eval_nat_numeral)
  have "attempts (Suc 0) fn (with_faults (Some ErrDeadlock # g) s) = (Inl ErrDeadlock, with_faults g s)" for g
    by (simp add: bindE_def attemptE_def executeTransaction_deadlock raiseE_def)
  moreover have "maxAttempts = Suc (4 + 0)" by (simp add: maxAttempts_def)
  ultimately show "withTransaction fn (with_faults (deadlocks 5 @ fs) s) = (Inl ErrDeadlock, with_faults (None # fs) s)"
    unfolding withTransaction_def five
    using attempts_deadlocks [of 4 0 fn "Some ErrDeadlock # None # fs" s] by (simp del: attempts.simps)
qed

section \<open>Example\<close>

definition idle_cache :: "database \<Rightarrow> 's \<Rightarrow> 'c \<Rightarrow> 'l \<Rightarrow> ('s, 'c, 'l) cache_state" where
  "idle_cache d s k l = \<lparr>cst_db = d, cst_store = s, cst_chunks = k, cst_locks = l, cst_upstreamJobs = [], cst_background = []\<rparr>"

theorem withTransaction_retries_witness:
  "let s = idle_cache empty_db () () () in
   withTransaction (in_db (CreatePinnedClosure ''a'')) (with_faults (deadlocks 4) s) =
     (Inr ''a'', s\<lparr>cst_db := empty_db\<lparr>db_pinned := [''a'']\<rparr>\<rparr>)"
proof -
  let ?s = "idle_cache empty_db () () ()"
  have "executeTransaction (in_db (CreatePinnedClosure ''a'')) (with_faults [] ?s) =
    (Inr ''a'', ?s\<lparr>cst_db := empty_db\<lparr>db_pinned := [''a'']\<rparr>\<rparr>)"
    by (simp add: executeTransaction_def thenE_def bindE_def all_or_nothing_def returnE_def in_db_def db_ping_def
        CreatePinnedClosure_def with_faults_def idle_cache_def empty_db_def)
  from withTransaction_retries [OF _ this, of 4] show ?thesis by simp
qed

end
