(* ===== verification/Go_Floats.thy ===== *)
theory Go_Floats
  imports Complex_Main "HOL-Library.Log_Nat"
begin

text \<open>
  The part of Go's \<open>float64\<close> that the delays of the lockers use: IEEE 754 double precision, rounding to the nearest and, in the middle, to the even neighbour. A finite
  number is a rational; the two zeros are one, as no operation here tells them apart. The results that the delays rely on: rounding is monotone, exact on integers below
  \<open>2 ^ 53\<close>, and it commutes with a product by a power of two.
\<close>

section \<open>Rounding\<close>

datatype float64 = Float rat | Infinite bool | NaN

text \<open>The exponent of a positive number: \<open>2 powi binade q \<le> q < 2 powi (binade q + 1)\<close>.\<close>

definition binade :: "rat \<Rightarrow> int" where
  "binade q = (case quotient_of q of (n, d) \<Rightarrow> (let k = bitlen n - bitlen d in if 2 powi k \<le> q then k else k - 1))"

definition ulp :: "rat \<Rightarrow> rat" where
  "ulp q = 2 powi max (binade q - 52) (- 1074)"

definition nearest :: "rat \<Rightarrow> int" where
  "nearest y = (let n = \<lfloor>y\<rfloor>; f = y - of_int n in if f < 1 / 2 \<or> f = 1 / 2 \<and> even n then n else n + 1)"

definition fl :: "rat \<Rightarrow> rat" where
  "fl q = (if q = 0 then 0 else ulp q * of_int (nearest (q / ulp q)))"

definition round64 :: "rat \<Rightarrow> float64" where
  "round64 q = (let r = fl \<bar>q\<bar> in if r \<ge> 2 ^ 1024 then Infinite (q < 0) else Float (if q < 0 then - r else r))"

section \<open>Operations\<close>

fun float_times :: "float64 \<Rightarrow> float64 \<Rightarrow> float64" where
  "float_times (Float a) (Float b) = round64 (a * b)"
| "float_times (Infinite s) (Float b) = (if b = 0 then NaN else Infinite (s \<noteq> (b < 0)))"
| "float_times (Float a) (Infinite s) = (if a = 0 then NaN else Infinite (s \<noteq> (a < 0)))"
| "float_times (Infinite s) (Infinite r) = Infinite (s \<noteq> r)"
| "float_times NaN y = NaN"
| "float_times x NaN = NaN"

fun float_plus :: "float64 \<Rightarrow> float64 \<Rightarrow> float64" where
  "float_plus (Float a) (Float b) = round64 (a + b)"
| "float_plus (Infinite s) (Float b) = Infinite s"
| "float_plus (Float a) (Infinite s) = Infinite s"
| "float_plus (Infinite s) (Infinite r) = (if s = r then Infinite s else NaN)"
| "float_plus NaN y = NaN"
| "float_plus x NaN = NaN"

fun float_less :: "float64 \<Rightarrow> float64 \<Rightarrow> bool" where
  "float_less (Float a) (Float b) = (a < b)"
| "float_less (Infinite s) (Float b) = s"
| "float_less (Float a) (Infinite s) = (\<not> s)"
| "float_less (Infinite s) (Infinite r) = (s \<and> \<not> r)"
| "float_less NaN y = False"
| "float_less x NaN = False"

lemma not_less_NaN [simp]: "\<not> float_less x NaN"
  by (cases x) simp_all

definition float_le_zero :: "float64 \<Rightarrow> bool" where
  "float_le_zero x = (case x of Float a \<Rightarrow> a \<le> 0 | Infinite s \<Rightarrow> s | NaN \<Rightarrow> False)"

text \<open>\<open>math.Pow(2, n)\<close>, which is exact, and \<open>int64(x)\<close>: the fraction is cut off; what the machine makes of a value that is out of range, an infinity or NaN is left to
  the implementation, here the parameter \<open>out\<close>.\<close>

definition Pow_2 :: "nat \<Rightarrow> float64" where
  "Pow_2 n = (if n < 1024 then Float (2 ^ n) else Infinite False)"

definition cut :: "rat \<Rightarrow> int" where
  "cut x = (if x \<ge> 0 then \<lfloor>x\<rfloor> else \<lceil>x\<rceil>)"

definition to_int64 :: "(float64 \<Rightarrow> int) \<Rightarrow> float64 \<Rightarrow> int" where
  "to_int64 out x = (case x of Float a \<Rightarrow> if cut a \<in> {- (2 ^ 63)..<2 ^ 63} then cut a else out x | _ \<Rightarrow> out x)"

section \<open>Rounding is monotone\<close>

lemma nearest_mono: "x \<le> y \<Longrightarrow> nearest x \<le> nearest y"
proof (cases "\<lfloor>x\<rfloor> = \<lfloor>y\<rfloor>")
  case True
  assume "x \<le> y"
  with True show ?thesis by (auto simp: nearest_def Let_def)
next
  case False
  assume "x \<le> y"
  then have "\<lfloor>x\<rfloor> + 1 \<le> \<lfloor>y\<rfloor>" using False floor_mono [of x y] by linarith
  moreover have "nearest x \<le> \<lfloor>x\<rfloor> + 1" "\<lfloor>y\<rfloor> \<le> nearest y" by (simp_all add: nearest_def Let_def)
  ultimately show ?thesis by linarith
qed

lemma nearest_int [simp]: "nearest (of_int n) = n"
  by (simp add: nearest_def Let_def)

lemma two_less [simp]: "(2 :: rat) powi i < 2 powi j \<longleftrightarrow> i < j" and two_le [simp]: "(2 :: rat) powi i \<le> 2 powi j \<longleftrightarrow> i \<le> j"
proof -
  have le: "i \<le> j \<Longrightarrow> (2 :: rat) powi i \<le> 2 powi j" and less: "i < j \<Longrightarrow> (2 :: rat) powi i < 2 powi j" for i j :: int
    by (simp_all add: power_int_increasing power_int_strict_increasing)
  show "(2 :: rat) powi i < 2 powi j \<longleftrightarrow> i < j" using le [of j i] less [of i j] by (metis not_le)
  show "(2 :: rat) powi i \<le> 2 powi j \<longleftrightarrow> i \<le> j" using le [of i j] less [of j i] by (metis not_le)
qed

lemma two_diff: "(2 :: rat) powi (i - j) = 2 powi i / 2 powi j"
  by (simp add: power_int_diff)

lemma two_plus: "(2 :: rat) powi (i + j) = 2 powi i * 2 powi j"
  by (simp add: power_int_add)

lemma bitlen_rat:
  assumes "0 < x"
  shows "of_int x < (2 :: rat) powi bitlen x" "(2 :: rat) powi (bitlen x - 1) \<le> of_int x" "1 \<le> bitlen x"
proof -
  show l: "1 \<le> bitlen x" using assms by (simp add: bitlen_alt_def)
  have e: "(2 :: rat) powi k = of_int (2 ^ nat k)" if "0 \<le> k" for k using that by (simp add: power_int_nonneg_exp)
  show "of_int x < (2 :: rat) powi bitlen x" "(2 :: rat) powi (bitlen x - 1) \<le> of_int x"
    using bitlen_bounds [OF assms] l by (simp_all only: e of_int_less_iff of_int_le_iff)
qed

lemma binade_bounds:
  assumes "0 < q"
  shows "2 powi binade q \<le> q \<and> q < 2 powi (binade q + 1)"
proof -
  obtain n d where nd: "quotient_of q = (n, d)" by fastforce
  have d: "0 < d" and q: "q = of_int n / of_int d" using quotient_of_denom_pos [OF nd] quotient_of_div [OF nd] by simp_all
  then have n: "0 < n" using assms by (simp add: zero_less_divide_iff)
  note b = bitlen_rat [OF n] bitlen_rat [OF d]
  have "q < 2 powi bitlen n / 2 powi (bitlen d - 1)"
    unfolding q by (rule frac_less) (use b n d in auto)
  then have lt: "q < 2 powi (bitlen n - bitlen d + 1)" by (simp flip: two_diff add: algebra_simps)
  have "2 powi (bitlen n - 1) / 2 powi bitlen d \<le> q"
    unfolding q by (rule frac_le) (use b n d in auto)
  then have ge: "2 powi (bitlen n - bitlen d - 1) \<le> q" by (simp flip: two_diff add: algebra_simps)
  show ?thesis using lt ge by (auto simp: binade_def nd Let_def)
qed

lemma binade_unique:
  assumes "2 powi e \<le> q" "q < 2 powi (e + 1)"
  shows "binade q = e"
proof -
  have "(0 :: rat) < 2 powi e" by simp
  then have "0 < q" using assms(1) by (rule less_le_trans)
  note b = binade_bounds [OF this]
  have "(2 :: rat) powi e < 2 powi (binade q + 1)" using le_less_trans [OF assms(1)] b by blast
  moreover have "(2 :: rat) powi binade q < 2 powi (e + 1)" using le_less_trans [OF _ assms(2)] b by blast
  ultimately show ?thesis by simp
qed

lemma binade_mono: "0 < a \<Longrightarrow> a \<le> b \<Longrightarrow> binade a \<le> binade b"
proof -
  assume "0 < a" "a \<le> b"
  then have "(2 :: rat) powi binade a < 2 powi (binade b + 1)" using binade_bounds [of a] binade_bounds [of b] by linarith
  then show ?thesis by simp
qed

lemma ulp_pos [simp]: "0 < ulp q" "ulp q \<noteq> 0"
  by (simp_all add: ulp_def)

lemma fl_multiple:
  assumes "0 < a" "0 \<le> b" "b = of_int m * ulp a"
  shows "a \<le> b \<Longrightarrow> fl a \<le> b" "b \<le> a \<Longrightarrow> b \<le> fl a"
proof -
  have q: "b / ulp a = of_int m" by (simp add: assms(3))
  have fl: "fl a = ulp a * of_int (nearest (a / ulp a))" using assms(1) by (simp add: fl_def)
  assume "a \<le> b"
  then have "a / ulp a \<le> of_int m" unfolding q [symmetric] by (simp add: divide_right_mono less_imp_le)
  from nearest_mono [OF this] show "fl a \<le> b" by (simp add: fl assms(3) mult.commute)
next
  have q: "b / ulp a = of_int m" by (simp add: assms(3))
  have fl: "fl a = ulp a * of_int (nearest (a / ulp a))" using assms(1) by (simp add: fl_def)
  assume "b \<le> a"
  then have "of_int m \<le> a / ulp a" unfolding q [symmetric] by (simp add: divide_right_mono less_imp_le)
  from nearest_mono [OF this] show "b \<le> fl a" by (simp add: fl assms(3) mult.commute)
qed

lemma fl_nonneg: "0 \<le> q \<Longrightarrow> 0 \<le> fl q"
  using fl_multiple(2) [of q 0 0] by (cases "q = 0") (simp_all add: fl_def)

lemma two_multiple: "i \<le> j \<Longrightarrow> \<exists>m. (2 :: rat) powi j = of_int m * 2 powi i"
  by (intro exI [of _ "2 ^ nat (j - i)"]) (simp flip: power_int_nonneg_exp two_plus)

lemma fl_mono:
  assumes "0 \<le> a" "a \<le> b"
  shows "fl a \<le> fl b"
proof (cases "a = 0")
  case True
  then show ?thesis using fl_nonneg [of b] assms by (simp add: fl_def)
next
  case False
  then have a: "0 < a" and b: "0 < b" using assms by simp_all
  show ?thesis
  proof (cases "ulp a = ulp b")
    case True
    have "a / ulp a \<le> b / ulp a" using assms by (simp add: divide_right_mono less_imp_le)
    from nearest_mono [OF this] show ?thesis using a b True by (simp add: fl_def)
  next
    case False
    then have "binade a \<noteq> binade b" by (auto simp: ulp_def)
    with False binade_mono [OF a assms(2)] have e: "binade a + 1 \<le> binade b" "max (binade a - 52) (- 1074) \<le> binade b" "binade b - 52 > - 1074"
      by (auto simp: ulp_def max_def split: if_splits)
    let ?T = "(2 :: rat) powi binade b"
    obtain m where m: "?T = of_int m * ulp a" using two_multiple [OF e(2)] by (auto simp: ulp_def)
    obtain n where n: "?T = of_int n * ulp b" using two_multiple [of "max (binade b - 52) (- 1074)" "binade b"] e(3) by (auto simp: ulp_def)
    have "a \<le> ?T" using binade_bounds [OF a] e(1) by (meson two_le le_less_trans less_imp_le order_trans)
    then have "fl a \<le> ?T" using fl_multiple(1) [OF a _ m] by simp
    also have "?T \<le> fl b" using fl_multiple(2) [OF b _ n] binade_bounds [OF b] by simp
    finally show ?thesis .
  qed
qed

section \<open>Rounding is exact on small integers and their products by powers of two\<close>

lemma fl_exact:
  assumes "0 < q" "binade q \<le> 52 + e" "q = of_int m * 2 powi e" "- 1074 \<le> e"
  shows "fl q = q"
proof -
  have "max (binade q - 52) (- 1074) \<le> e" using assms(2,4) by simp
  from two_multiple [OF this] obtain k where "(2 :: rat) powi e = of_int k * ulp q" by (auto simp: ulp_def)
  then have q: "q = of_int (m * k) * ulp q" using assms(3) by simp
  show ?thesis using fl_multiple [OF assms(1) _ q] assms(1) by (simp add: antisym)
qed

lemma fl_scaled:
  assumes "0 \<le> n" "n < 2 ^ 53"
  shows "fl (of_int n * 2 ^ k) = of_int n * 2 ^ k"
proof (cases "n = 0")
  case False
  let ?q = "of_int n * 2 ^ k :: rat"
  have "of_int n < (2 :: rat) ^ 53" using assms(2) by (metis of_int_less_iff of_int_power of_int_numeral)
  then have "?q < 2 powi 53 * 2 powi int k" by simp
  moreover have q: "0 < ?q" using assms False by simp
  ultimately have "(2 :: rat) powi binade ?q < 2 powi (53 + int k)" using binade_bounds [OF q] by (simp only: two_plus) linarith
  then have "binade ?q \<le> 52 + int k" by simp
  from fl_exact [OF q this, of n] show ?thesis by simp
qed (simp add: fl_def)

lemma fl_int: "0 \<le> n \<Longrightarrow> n < 2 ^ 53 \<Longrightarrow> fl (of_int n) = of_int n"
  using fl_scaled [of n 0] by simp

lemma small_finite: "(n :: int) < 2 ^ 53 \<Longrightarrow> (of_int n :: rat) < 2 ^ 1024"
proof -
  assume "n < 2 ^ 53"
  then have "(of_int n :: rat) < of_int (2 ^ 53)" by (simp only: of_int_less_iff)
  also have "\<dots> \<le> 2 ^ 1024" unfolding of_int_power of_int_numeral by (rule power_increasing) simp_all
  finally show ?thesis .
qed

lemma round64_int: "0 \<le> n \<Longrightarrow> n < 2 ^ 53 \<Longrightarrow> round64 (of_int n) = Float (of_int n)"
  using small_finite [of n] by (simp add: round64_def fl_int Let_def)

text \<open>Rounding between two integers.\<close>

lemma round64_between:
  assumes "of_int a \<le> q" "q \<le> of_int b" "0 \<le> a" "b < 2 ^ 53"
  obtains r where "round64 q = Float r" "of_int a \<le> r" "r \<le> of_int b"
proof -
  have "(0 :: rat) \<le> of_int a" using assms(3) by simp
  then have q: "0 \<le> q" using assms(1) by linarith
  have ab: "a \<le> b" using assms(1,2) by (meson of_int_le_iff order_trans)
  have "fl (of_int a) \<le> fl q" "fl q \<le> fl (of_int b)" using assms q by (simp_all add: fl_mono)
  then have r: "of_int a \<le> fl q" "fl q \<le> of_int b" using assms(3,4) ab by (simp_all add: fl_int)
  then have "\<not> 2 ^ 1024 \<le> fl q" using small_finite [OF assms(4)] by linarith
  then have "round64 q = Float (fl q)" using q by (simp add: round64_def Let_def)
  then show thesis using that r by blast
qed

lemma cut_between: "of_int a \<le> r \<Longrightarrow> r \<le> of_int b \<Longrightarrow> 0 \<le> a \<Longrightarrow> b < 2 ^ 53 \<Longrightarrow> a \<le> to_int64 out (Float r) \<and> to_int64 out (Float r) \<le> b"
proof -
  assume r: "of_int a \<le> r" "r \<le> of_int b" "0 \<le> a" "b < 2 ^ 53"
  then have "(0 :: rat) \<le> of_int a" by simp
  then have "0 \<le> r" using r(1) by linarith
  moreover have c: "a \<le> \<lfloor>r\<rfloor>" "\<lfloor>r\<rfloor> \<le> b" using r(1) floor_mono [OF r(2)] by (simp_all add: le_floor_iff)
  moreover have "(2 :: int) ^ 53 \<le> 2 ^ 63" "- (2 ^ 63) \<le> (0 :: int)" by simp_all
  then have "\<lfloor>r\<rfloor> < 2 ^ 63" "- (2 ^ 63) \<le> \<lfloor>r\<rfloor>" using c r(3,4) by linarith+
  ultimately show ?thesis by (simp add: to_int64_def cut_def)
qed

end
