(* ===== verification/Redis_Lock.thy ===== *)
theory Redis_Lock
  imports Circuit_Breaker Cache_State Go_Floats
begin

text \<open>
  What the two lockers of package \<open>pkg/lock/redis\<close> share: the delays of \<open>pkg/lock/config.go\<close> and \<open>pkg/lock/backoff.go\<close>, the clock, the state, and the ways in which
  the circuit breaker leads to the local lock. Redis, the clock and the random source are one \<^emph>\<open>world\<close>, which other clients change between any two commands. Metrics and
  logging are not modelled.
\<close>

section \<open>Backing off\<close>

text \<open>Durations are in nanoseconds, values of \<open>int64\<close>; \<open>out\<close> is what the machine makes of a \<open>float64\<close> that is none.\<close>

record retry_config =
  ry_MaxAttempts :: int
  ry_InitialDelay :: int
  ry_MaxDelay :: int
  ry_Jitter :: bool
  ry_JitterFactor :: float64

definition DefaultJitterFactor :: float64 where "DefaultJitterFactor = Float (1 / 2)"

definition GetJitterFactor :: "retry_config \<Rightarrow> float64" where
  "GetJitterFactor c = (if float_le_zero (ry_JitterFactor c) then DefaultJitterFactor else ry_JitterFactor c)"

definition capped_delay :: "retry_config \<Rightarrow> nat \<Rightarrow> float64" where
  "capped_delay c n =
     (let delay = float_times (round64 (of_int (ry_InitialDelay c))) (Pow_2 n);
          most = round64 (of_int (ry_MaxDelay c)) in
      if float_less most delay then most else delay)"

text \<open>The random number \<open>x\<close> is a \<open>float64\<close> in \<open>[0, 1)\<close>.\<close>

definition jittered :: "(float64 \<Rightarrow> int) \<Rightarrow> retry_config \<Rightarrow> rat \<Rightarrow> float64 \<Rightarrow> int" where
  "jittered out c x delay =
     to_int64 out (if ry_Jitter c then float_plus delay (float_times (float_times (Float x) delay) (GetJitterFactor c)) else delay)"

definition CalculateBackoff :: "(float64 \<Rightarrow> int) \<Rightarrow> retry_config \<Rightarrow> nat \<Rightarrow> rat \<Rightarrow> int" where
  "CalculateBackoff out c attempt x = (if attempt = 0 then 0 else jittered out c x (capped_delay c (attempt - 1)))"

section \<open>Clock and state\<close>

text \<open>The clock in nanoseconds, a wait that ends early with the error of a context that is done, a random number in \<open>[0, 1)\<close>, and the machine's conversion
  of a \<open>float64\<close> that is out of the range of \<open>int64\<close>.\<close>

record 'w lock_clock =
  rc_now :: "'w \<Rightarrow> int"
  rc_wait :: "int \<Rightarrow> ('w, unit) prog"
  rc_float :: "'w \<Rightarrow> rat \<times> 'w"
  rc_out :: "float64 \<Rightarrow> int"

record lock_conf =
  rw_keyPrefix :: string
  rw_retryConfig :: retry_config
  rw_allowDegradedMode :: bool

record ('w, 'l) lock_state =
  rs_world :: 'w
  rs_breaker :: circuit_breaker
  rs_local :: 'l

definition in_world :: "('w, 'a) prog \<Rightarrow> (('w, 'l, 'z) lock_state_scheme, 'a) prog" where
  "in_world m s = (case m (rs_world s) of (r, w) \<Rightarrow> (r, s\<lparr>rs_world := w\<rparr>))"

definition in_local :: "('l, 'a) prog \<Rightarrow> (('w, 'l, 'z) lock_state_scheme, 'a) prog" where
  "in_local m s = (case m (rs_local s) of (r, l) \<Rightarrow> (r, s\<lparr>rs_local := l\<rparr>))"

definition draw :: "('w \<Rightarrow> 'a \<times> 'w) \<Rightarrow> (('w, 'l, 'z) lock_state_scheme, 'a) prog" where
  "draw f s = (case f (rs_world s) of (x, w) \<Rightarrow> (Inr x, s\<lparr>rs_world := w\<rparr>))"

definition clock :: "('w, 'd) lock_clock_scheme \<Rightarrow> (('w, 'l, 'z) lock_state_scheme, int) prog" where
  "clock rc = getsE (\<lambda>s. rc_now rc (rs_world s))"

definition isConnectionError :: "err \<Rightarrow> bool" where
  "isConnectionError e \<longleftrightarrow> e = ErrConnection"

definition allow_request :: "('w, 'd) lock_clock_scheme \<Rightarrow> (('w, 'l, 'z) lock_state_scheme, bool) prog" where
  "allow_request rc s = (case AllowRequest (rc_now rc (rs_world s)) (rs_breaker s) of (b, cb) \<Rightarrow> (Inr b, s\<lparr>rs_breaker := cb\<rparr>))"

definition record_failure :: "('w, 'd) lock_clock_scheme \<Rightarrow> (('w, 'l, 'z) lock_state_scheme, unit) prog" where
  "record_failure rc = modifyE (\<lambda>s. s\<lparr>rs_breaker := RecordFailure (rc_now rc (rs_world s)) (rs_breaker s)\<rparr>)"

definition record_success :: "(('w, 'l, 'z) lock_state_scheme, unit) prog" where
  "record_success = modifyE (\<lambda>s. s\<lparr>rs_breaker := RecordSuccess (rs_breaker s)\<rparr>)"

text \<open>The three ways in which the circuit breaker leads to the local lock: before an operation that takes a lock, before one that gives it back, and after an error of a command.\<close>

definition guarded ::
  "'c lock_conf_scheme \<Rightarrow> ('w, 'd) lock_clock_scheme \<Rightarrow> ('l, 'a) prog \<Rightarrow> (('w, 'l, 'z) lock_state_scheme, 'a) prog \<Rightarrow> (('w, 'l, 'z) lock_state_scheme, 'a) prog" where
  "guarded c rc fallback m =
     bindE (allow_request rc) (\<lambda>b. if b then m else if rw_allowDegradedMode c then in_local fallback else raiseE ErrCircuitBreakerOpen)"

definition unless_degraded ::
  "'c lock_conf_scheme \<Rightarrow> ('w, 'd) lock_clock_scheme \<Rightarrow> ('l, 'a) prog \<Rightarrow> (('w, 'l, 'z) lock_state_scheme, 'a) prog \<Rightarrow> (('w, 'l, 'z) lock_state_scheme, 'a) prog" where
  "unless_degraded c rc fallback m =
     bindE (allow_request rc) (\<lambda>b. if \<not> b \<and> rw_allowDegradedMode c then in_local fallback else m)"

definition after_error ::
  "'c lock_conf_scheme \<Rightarrow> ('w, 'd) lock_clock_scheme \<Rightarrow> err \<Rightarrow> ('l, 'a) prog \<Rightarrow> (('w, 'l, 'z) lock_state_scheme, 'a) prog \<Rightarrow> (('w, 'l, 'z) lock_state_scheme, 'a) prog" where
  "after_error c rc e fallback m =
     (if isConnectionError e then thenE (record_failure rc) (unless_degraded c rc fallback m) else m)"

end
