(* ===== verification/Redis_RWLock.thy ===== *)
theory Redis_RWLock
  imports Redis_Lock
begin

text \<open>
  Package \<open>pkg/lock/redis\<close>, \<open>rwlocker.go\<close>: the read-write lock that instances of the program share through a Redis server. A write lock is a key
  that holds the token of its owner; a read lock is an entry in a hash with the time at which it runs out.
\<close>

section \<open>Redis\<close>

text \<open>The end of a read lock is kept as text in the format RFC 3339, that is in seconds; any other text is not a time.\<close>

datatype stamp = Stamp int | No_stamp string

text \<open>
  The commands that the locker sends, those of its scripts, \<open>time.Sleep\<close>, and 16 random bytes in hexadecimal.
\<close>

record 'w redis_client = "'w lock_clock" +
  rc_SetNX :: "string \<Rightarrow> string \<Rightarrow> int \<Rightarrow> ('w, bool) prog"
  rc_Exists :: "string \<Rightarrow> ('w, bool) prog"
  rc_HGetAll :: "string \<Rightarrow> ('w, (string \<times> stamp) list) prog"
  rc_HSet :: "string \<Rightarrow> string \<Rightarrow> stamp \<Rightarrow> ('w, unit) prog"
  rc_HDel :: "string \<Rightarrow> string \<Rightarrow> ('w, unit) prog"
  rc_Eval :: "('w, int) prog \<Rightarrow> ('w, int) prog"
  rc_get :: "string \<Rightarrow> ('w, string option) prog"
  rc_del :: "string \<Rightarrow> ('w, int) prog"
  rc_pexpire :: "string \<Rightarrow> int \<Rightarrow> ('w, int) prog"
  rc_sleep :: "int \<Rightarrow> 'w \<Rightarrow> 'w"
  rc_token :: "'w \<Rightarrow> string \<times> 'w"

definition unlockScript :: "'w redis_client \<Rightarrow> string \<Rightarrow> string \<Rightarrow> ('w, int) prog" where
  "unlockScript rc k token = bindE (rc_get rc k) (\<lambda>v. if v = Some token then rc_del rc k else returnE 0)"

definition extendScript :: "'w redis_client \<Rightarrow> string \<Rightarrow> string \<Rightarrow> int \<Rightarrow> ('w, int) prog" where
  "extendScript rc k token ms = bindE (rc_get rc k) (\<lambda>v. if v = Some token then rc_pexpire rc k ms else returnE 0)"

text \<open>\<open>time.Time.Unix\<close>.\<close>

definition unix :: "int \<Rightarrow> int" where
  "unix t = t div 1000000000"

section \<open>The locker\<close>

record 'l rw_conf = lock_conf +
  rw_fallback :: "'l rw_locker"

record ('w, 'l) rw_state = "('w, 'l) lock_state" +
  rs_tokens :: "string \<rightharpoonup> string \<times> int"
  rs_readerID :: string

text \<open>The delays of this locker start at twice the initial delay.\<close>

definition calculateBackoff :: "(float64 \<Rightarrow> int) \<Rightarrow> retry_config \<Rightarrow> nat \<Rightarrow> rat \<Rightarrow> int" where
  "calculateBackoff out c attempt x = jittered out c x (capped_delay c attempt)"

section \<open>Keys and owners\<close>

definition writer_key :: "'l rw_conf \<Rightarrow> string \<Rightarrow> string" where
  "writer_key c key = rw_keyPrefix c @ ''{'' @ key @ ''}:writer''"

definition readers_key :: "'l rw_conf \<Rightarrow> string \<Rightarrow> string" where
  "readers_key c key = rw_keyPrefix c @ ''{'' @ key @ ''}:readers''"

definition store_token :: "string \<Rightarrow> string \<Rightarrow> int \<Rightarrow> (('w, 'l) rw_state, unit) prog" where
  "store_token key token ttl = modifyE (\<lambda>s. s\<lparr>rs_tokens := (rs_tokens s)(key \<mapsto> (token, ttl))\<rparr>)"

definition delete_token :: "string \<Rightarrow> (('w, 'l) rw_state, unit) prog" where
  "delete_token key = modifyE (\<lambda>s. s\<lparr>rs_tokens := (rs_tokens s)(key := None)\<rparr>)"

definition getOrCreateReaderID :: "'w redis_client \<Rightarrow> (('w, 'l) rw_state, string) prog" where
  "getOrCreateReaderID rc =
     bindE (getsE rs_readerID) (\<lambda>i.
       if i = [] then bindE (draw (rc_token rc)) (\<lambda>t. thenE (modifyE (\<lambda>s. s\<lparr>rs_readerID := t\<rparr>)) (returnE t)) else returnE i)"

section \<open>Write locks\<close>

text \<open>The readers that are still active; the others are removed, and an error of that is ignored.\<close>

primrec active_readers :: "'w redis_client \<Rightarrow> string \<Rightarrow> int \<Rightarrow> (string \<times> stamp) list \<Rightarrow> (('w, 'l) rw_state, nat) prog" where
  "active_readers rc rk now [] = returnE 0"
| "active_readers rc rk now (r # rs) =
     (if (case snd r of Stamp t \<Rightarrow> t > now | No_stamp _ \<Rightarrow> False)
      then bindE (active_readers rc rk now rs) (\<lambda>n. returnE (Suc n))
      else thenE (ignoreE (in_world (rc_HDel rc rk (fst r)))) (active_readers rc rk now rs))"

definition clean_up :: "'w redis_client \<Rightarrow> string \<Rightarrow> string \<Rightarrow> (('w, 'l) rw_state, unit) prog" where
  "clean_up rc wk token = ignoreE (in_world (rc_Eval rc (unlockScript rc wk token)))"

text \<open>
  The loop that waits for the readers, with a poll every 10 ms until the deadline. \<open>Again e\<close> leads to the next attempt, \<open>Give_up e\<close> to the end. \<open>Unfinished\<close> is not
  an outcome of the code: it stands for a run that is longer than the given number of polls.
\<close>

datatype readers_wait = Clear | Again err | Give_up err | Unfinished

definition stop_waiting :: "'l rw_conf \<Rightarrow> 'w redis_client \<Rightarrow> string \<Rightarrow> string \<Rightarrow> readers_wait \<Rightarrow> (('w, 'l) rw_state, readers_wait) prog" where
  "stop_waiting c rc key token a = thenE (clean_up rc (writer_key c key) token) (thenE (delete_token key) (returnE a))"

definition poll_again ::
  "'l rw_conf \<Rightarrow> 'w redis_client \<Rightarrow> string \<Rightarrow> string \<Rightarrow> int \<Rightarrow> (('w, 'l) rw_state, readers_wait) prog \<Rightarrow> (('w, 'l) rw_state, readers_wait) prog" where
  "poll_again c rc key token deadline k =
     bindE (clock rc) (\<lambda>now.
     if now > deadline then stop_waiting c rc key token (Again ErrReadersTimeout)
     else
       bindE (attemptE (in_world (rc_wait rc 10000000))) (\<lambda>w.
         case w of Inl e \<Rightarrow> stop_waiting c rc key token (Give_up e) | Inr _ \<Rightarrow> k))"

primrec await_readers ::
  "'l rw_conf \<Rightarrow> 'w redis_client \<Rightarrow> string \<Rightarrow> string \<Rightarrow> int \<Rightarrow> nat \<Rightarrow> (('w, 'l) rw_state, readers_wait) prog" where
  "await_readers c rc key token deadline 0 = returnE Unfinished"
| "await_readers c rc key token deadline (Suc n) =
     bindE (attemptE (in_world (rc_HGetAll rc (readers_key c key)))) (\<lambda>r.
       case r of
         Inl e \<Rightarrow> stop_waiting c rc key token (Again e)
       | Inr readers \<Rightarrow>
           bindE (clock rc) (\<lambda>now.
           bindE (active_readers rc (readers_key c key) (unix now) readers) (\<lambda>activeReaders.
           if activeReaders = 0 then thenE record_success (returnE Clear)
           else poll_again c rc key token deadline (await_readers c rc key token deadline n))))"

text \<open>The number of polls that fit into a time to live.\<close>

definition poll_limit :: "int \<Rightarrow> nat" where
  "poll_limit ttl = nat (ttl div 10000000) + 3"

primrec lock_attempts ::
  "'l rw_conf \<Rightarrow> 'w redis_client \<Rightarrow> string \<Rightarrow> int \<Rightarrow> nat \<Rightarrow> nat \<Rightarrow> err \<Rightarrow> (('w, 'l) rw_state, unit) prog" where
  "lock_attempts c rc key ttl 0 attempt lastErr = raiseE lastErr"
| "lock_attempts c rc key ttl (Suc n) attempt lastErr =
     thenE (whenE (attempt > 0)
              (bindE (draw (rc_float rc)) (\<lambda>x. in_world (rc_wait rc (calculateBackoff (rc_out rc) (rw_retryConfig c) attempt x)))))
     (bindE (draw (rc_token rc)) (\<lambda>token.
      bindE (attemptE (in_world (rc_SetNX rc (writer_key c key) token ttl))) (\<lambda>r.
        case r of
          Inl e \<Rightarrow> after_error c rc e (lo_Lock (rw_fallback c) key) (lock_attempts c rc key ttl n (Suc attempt) e)
        | Inr success \<Rightarrow>
            if \<not> success then lock_attempts c rc key ttl n (Suc attempt) ErrWriteLockHeld
            else
              thenE (store_token key token ttl)
              (bindE (clock rc) (\<lambda>now.
               bindE (await_readers c rc key token (now + ttl) (poll_limit ttl)) (\<lambda>a.
                 case a of
                   Clear \<Rightarrow> returnE ()
                 | Again e \<Rightarrow> lock_attempts c rc key ttl n (Suc attempt) e
                 | Give_up e \<Rightarrow> raiseE e
                 | Unfinished \<Rightarrow> raiseE ErrPanic))))))"

text \<open>With no attempt at all the error has no cause.\<close>

definition redis_Lock :: "'l rw_conf \<Rightarrow> 'w redis_client \<Rightarrow> string \<Rightarrow> int \<Rightarrow> (('w, 'l) rw_state, unit) prog" where
  "redis_Lock c rc key ttl =
     guarded c rc (lo_Lock (rw_fallback c) key)
       (lock_attempts c rc key ttl (nat (ry_MaxAttempts (rw_retryConfig c))) 0 ErrRedis)"

text \<open>The local locks have nothing to extend.\<close>

definition redis_Extend :: "'l rw_conf \<Rightarrow> 'w redis_client \<Rightarrow> string \<Rightarrow> (('w, 'l) rw_state, unit) prog" where
  "redis_Extend c rc key =
     unless_degraded c rc (returnE ())
       (bindE (getsE (\<lambda>s. rs_tokens s key)) (\<lambda>lt.
          case lt of
            None \<Rightarrow> returnE ()
          | Some (token, ttl) \<Rightarrow>
              bindE (in_world (rc_Eval rc (extendScript rc (writer_key c key) token (ttl div 1000000)))) (\<lambda>n.
                if n = 0 then raiseE ErrExtendLockNotFound else returnE ())))"

definition redis_Unlock :: "'l rw_conf \<Rightarrow> 'w redis_client \<Rightarrow> string \<Rightarrow> (('w, 'l) rw_state, unit) prog" where
  "redis_Unlock c rc key =
     unless_degraded c rc (lo_Unlock (rw_fallback c) key)
       (bindE (getsE (\<lambda>s. rs_tokens s key)) (\<lambda>lt.
        thenE (delete_token key)
         (case lt of
            None \<Rightarrow> returnE ()
          | Some (token, ttl) \<Rightarrow>
              bindE (in_world (rc_Eval rc (unlockScript rc (writer_key c key) token))) (\<lambda>_. returnE ()))))"

definition redis_TryLock :: "'l rw_conf \<Rightarrow> 'w redis_client \<Rightarrow> string \<Rightarrow> int \<Rightarrow> (('w, 'l) rw_state, bool) prog" where
  "redis_TryLock c rc key ttl =
     guarded c rc (lo_TryLock (rw_fallback c) key)
       (bindE (draw (rc_token rc)) (\<lambda>token.
        bindE (attemptE (in_world (rc_SetNX rc (writer_key c key) token ttl))) (\<lambda>r.
          case r of
            Inl e \<Rightarrow> after_error c rc e (lo_TryLock (rw_fallback c) key) (raiseE e)
          | Inr success \<Rightarrow>
              if \<not> success then returnE False
              else
                bindE (attemptE (in_world (rc_HGetAll rc (readers_key c key)))) (\<lambda>r2.
                  case r2 of
                    Inl e \<Rightarrow> thenE (clean_up rc (writer_key c key) token) (raiseE e)
                  | Inr readers \<Rightarrow>
                      bindE (clock rc) (\<lambda>now.
                      bindE (active_readers rc (readers_key c key) (unix now) readers) (\<lambda>activeReaders.
                      if activeReaders > 0 then thenE (clean_up rc (writer_key c key) token) (returnE False)
                      else thenE (store_token key token ttl) (thenE record_success (returnE True))))))))"

section \<open>Read locks\<close>

text \<open>The loop that waits for the writer; \<open>None\<close> stands for a run that is longer than the given number of polls.\<close>

primrec await_writer ::
  "'l rw_conf \<Rightarrow> 'w redis_client \<Rightarrow> string \<Rightarrow> int \<Rightarrow> nat \<Rightarrow> (('w, 'l) rw_state, unit option) prog \<Rightarrow> (('w, 'l) rw_state, unit option) prog" where
  "await_writer c rc key deadline 0 k = returnE None"
| "await_writer c rc key deadline (Suc n) k =
     bindE (attemptE (in_world (rc_Exists rc (writer_key c key)))) (\<lambda>r.
       case r of
         Inl e \<Rightarrow> after_error c rc e (bindE (lo_RLock (rw_fallback c) key) (\<lambda>_. returnE (Some ()))) (raiseE e)
       | Inr present \<Rightarrow>
           if \<not> present then k
           else
             bindE (clock rc) (\<lambda>now.
             if now > deadline then raiseE ErrWriteLockTimeout
             else thenE (modifyE (\<lambda>s. s\<lparr>rs_world := rc_sleep rc 10000000 (rs_world s)\<rparr>)) (await_writer c rc key deadline n k)))"

definition register_reader :: "'l rw_conf \<Rightarrow> 'w redis_client \<Rightarrow> string \<Rightarrow> string \<Rightarrow> int \<Rightarrow> (('w, 'l) rw_state, unit option) prog" where
  "register_reader c rc key readerID ttl =
     bindE (clock rc) (\<lambda>now.
     thenE (in_world (rc_HSet rc (readers_key c key) readerID (Stamp (unix (now + ttl)))))
    (thenE record_success (returnE (Some ()))))"

definition redis_RLock :: "'l rw_conf \<Rightarrow> 'w redis_client \<Rightarrow> string \<Rightarrow> int \<Rightarrow> (('w, 'l) rw_state, unit) prog" where
  "redis_RLock c rc key ttl =
     guarded c rc (lo_RLock (rw_fallback c) key)
       (bindE (getOrCreateReaderID rc) (\<lambda>readerID.
        bindE (clock rc) (\<lambda>now.
        bindE (await_writer c rc key (now + ttl) (poll_limit ttl) (register_reader c rc key readerID ttl)) (\<lambda>r.
          case r of Some _ \<Rightarrow> returnE () | None \<Rightarrow> raiseE ErrPanic))))"

definition redis_RUnlock :: "'l rw_conf \<Rightarrow> 'w redis_client \<Rightarrow> string \<Rightarrow> (('w, 'l) rw_state, unit) prog" where
  "redis_RUnlock c rc key =
     unless_degraded c rc (lo_RUnlock (rw_fallback c) key)
       (bindE (getOrCreateReaderID rc) (\<lambda>readerID. in_world (rc_HDel rc (readers_key c key) readerID)))"

section \<open>Construction\<close>

text \<open>The prefix of the keys has its default only when the server answered.\<close>

definition NewRWLocker ::
  "string list \<Rightarrow> string \<Rightarrow> retry_config \<Rightarrow> bool \<Rightarrow> 'l rw_locker \<Rightarrow> 'w redis_client \<Rightarrow> ('w, unit) prog \<Rightarrow> 'l \<Rightarrow> ('w, 'l rw_conf \<times> ('w, 'l) rw_state) prog" where
  "NewRWLocker addrs pre retryCfg allowDegradedMode fallback rc ping l =
     (if addrs = [] then raiseE ErrNoRedisAddrs
      else
        bindE (attemptE ping) (\<lambda>r.
        bindE (getsE id) (\<lambda>w.
          let make = (\<lambda>p cb. (\<lparr>rw_keyPrefix = p, rw_retryConfig = retryCfg, rw_allowDegradedMode = allowDegradedMode, rw_fallback = fallback\<rparr>,
                \<lparr>rs_world = w, rs_breaker = cb, rs_local = l, rs_tokens = Map.empty, rs_readerID = []\<rparr>));
              cb = cb_New 5 60000000000 in
          case r of
            Inl e \<Rightarrow> if allowDegradedMode then returnE (make pre (ForceOpen (rc_now rc w) cb)) else raiseE e
          | Inr _ \<Rightarrow> returnE (make (if pre = [] then ''ncps:lock:'' else pre) cb))))"

end
