(* ===== verification/Redis_RWLock_Laws.thy ===== *)
theory Redis_RWLock_Laws
  imports Redis_RWLock
begin

text \<open>
  The documented behaviour of the commands of Redis, and what the lock makes of it while others change the store between any two commands: a lock of another client is neither
  taken nor taken away, and the waiting loops end.
\<close>

section \<open>The server\<close>

record redis_store =
  st_val :: "string \<rightharpoonup> string"
  st_hash :: "string \<Rightarrow> string \<rightharpoonup> stamp"

text \<open>
  A command runs at one moment; before and after it others change the store, and keys run out. It answers what it found, or it fails, and then nobody knows whether it ran.
  Time does not go back.
\<close>

definition performs ::
  "('w \<Rightarrow> redis_store) \<Rightarrow> ('w \<Rightarrow> int) \<Rightarrow> (redis_store \<Rightarrow> redis_store \<Rightarrow> bool) \<Rightarrow> (redis_store \<Rightarrow> 'a \<Rightarrow> bool) \<Rightarrow> (redis_store \<Rightarrow> redis_store) \<Rightarrow> ('w, 'a) prog \<Rightarrow> bool" where
  "performs store now others answers effect m \<longleftrightarrow>
     (\<forall>w r w'. m w = (r, w') \<longrightarrow> now w \<le> now w' \<and>
        (\<exists>a b. others (store w) a \<and> others b (store w') \<and>
           (case r of Inr x \<Rightarrow> answers a x \<and> b = effect a | Inl _ \<Rightarrow> b = a \<or> b = effect a)))"

locale redis_server =
  fixes rc :: "'w redis_client" and store :: "'w \<Rightarrow> redis_store" and others :: "redis_store \<Rightarrow> redis_store \<Rightarrow> bool"
  assumes setnx: "performs store (rc_now rc) others (\<lambda>a x. x = (st_val a k = None))
      (\<lambda>a. if st_val a k = None then a\<lparr>st_val := (st_val a)(k \<mapsto> v)\<rparr> else a) (rc_SetNX rc k v ttl)"
    and exists: "performs store (rc_now rc) others (\<lambda>a x. x = (st_val a k \<noteq> None)) (\<lambda>a. a) (rc_Exists rc k)"
    and hgetall: "performs store (rc_now rc) others (\<lambda>a x. distinct (map fst x) \<and> map_of x = st_hash a k) (\<lambda>a. a) (rc_HGetAll rc k)"
    and hset: "performs store (rc_now rc) others (\<lambda>a x. True) (\<lambda>a. a\<lparr>st_hash := (st_hash a)(k := (st_hash a k)(f \<mapsto> t))\<rparr>) (rc_HSet rc k f t)"
    and hdel: "performs store (rc_now rc) others (\<lambda>a x. True) (\<lambda>a. a\<lparr>st_hash := (st_hash a)(k := (st_hash a k)(f := None))\<rparr>) (rc_HDel rc k f)"
    and get: "rc_get rc k u = (Inr (st_val (store u) k), u)"
    and del: "\<exists>n u'. rc_del rc k u = (Inr n, u') \<and> store u' = (store u)\<lparr>st_val := (st_val (store u))(k := None)\<rparr> \<and> rc_now rc u \<le> rc_now rc u'"
    and pexpire: "\<exists>n u'. rc_pexpire rc k ms u = (Inr n, u') \<and> store u' = store u \<and> rc_now rc u \<le> rc_now rc u'"
    and eval: "rc_Eval rc p w = (r, w') \<Longrightarrow> \<exists>u q u'. p u = (q, u') \<and> rc_now rc w \<le> rc_now rc u \<and> others (store w) (store u) \<and>
      (r = q \<and> others (store u') (store w') \<and> rc_now rc u' \<le> rc_now rc w' \<or>
       isl r \<and> (others (store u) (store w') \<and> rc_now rc u \<le> rc_now rc w' \<or> others (store u') (store w') \<and> rc_now rc u' \<le> rc_now rc w'))"
    and wait: "rc_wait rc d w = (ended, w') \<Longrightarrow> others (store w) (store w') \<and> rc_now rc w \<le> rc_now rc w' \<and> (ended = Inr () \<longrightarrow> rc_now rc w + d \<le> rc_now rc w')"
    and sleep: "others (store w) (store (rc_sleep rc d w)) \<and> rc_now rc w \<le> rc_now rc (rc_sleep rc d w) \<and> rc_now rc w + d \<le> rc_now rc (rc_sleep rc d w)"
    and token: "others (store w) (store (snd (rc_token rc w))) \<and> rc_now rc w \<le> rc_now rc (snd (rc_token rc w))"
    and float: "others (store w) (store (snd (rc_float rc w))) \<and> rc_now rc w \<le> rc_now rc (snd (rc_float rc w))"

section \<open>Operations as a whole\<close>

datatype rw_op = Op_Lock string int | Op_TryLock string int | Op_Unlock string | Op_Extend string | Op_RLock string int | Op_RUnlock string

fun rw_run :: "'l rw_conf \<Rightarrow> 'w redis_client \<Rightarrow> rw_op \<Rightarrow> (('w, 'l) rw_state, unit) prog" where
  "rw_run c rc (Op_Lock key ttl) = redis_Lock c rc key ttl"
| "rw_run c rc (Op_TryLock key ttl) = bindE (redis_TryLock c rc key ttl) (\<lambda>_. returnE ())"
| "rw_run c rc (Op_Unlock key) = redis_Unlock c rc key"
| "rw_run c rc (Op_Extend key) = redis_Extend c rc key"
| "rw_run c rc (Op_RLock key ttl) = redis_RLock c rc key ttl"
| "rw_run c rc (Op_RUnlock key) = redis_RUnlock c rc key"

lemmas rw_ops = redis_Lock_def redis_TryLock_def redis_Unlock_def redis_Extend_def redis_RLock_def redis_RUnlock_def
lemmas rw_paths = guarded_def unless_degraded_def after_error_def

named_theorems rw_keeps "steps of the locker that keep an invariant of the store"

text \<open>Steps that leave the world and the tokens alone.\<close>

definition local_inv :: "(('w, 'l) rw_state \<Rightarrow> bool) \<Rightarrow> bool" where
  "local_inv P \<longleftrightarrow> (\<forall>s cb l i. P s \<longrightarrow> P (s\<lparr>rs_breaker := cb\<rparr>) \<and> P (s\<lparr>rs_local := l\<rparr>) \<and> P (s\<lparr>rs_readerID := i\<rparr>))"

lemma keeps_local_steps:
  assumes "local_inv P"
  shows "keeps P (allow_request rc)" "keeps P (record_failure rc)" "keeps P record_success" "keeps P (in_local m)" "keeps P (clock rc)"
  using assms
  by (auto simp: local_inv_def keeps_def allow_request_def record_failure_def record_success_def in_local_def clock_def modifyE_def getsE_def split: prod.split)

lemma keeps_paths:
  assumes "local_inv P" "keeps P m"
  shows "keeps P (guarded c rc f m)" "keeps P (unless_degraded c rc f m)" "keeps P (after_error c rc e f m)"
  unfolding rw_paths by (intro keeps_intros keeps_local_steps assms)+

lemma triple_paths:
  assumes "\<not> rw_allowDegradedMode c" "local_inv P" "triple P m Q (\<lambda>_ _. True)"
  shows "triple P (guarded c rc f m) Q (\<lambda>_ _. True)" "triple P (after_error c rc e f m) Q (\<lambda>_ _. True)"
proof -
  note pre = keeps_local_steps(1,2) [where rc = rc, OF assms(2), THEN triple_pre]
  have ask: "triple P (bindE (allow_request rc) (\<lambda>b. if b \<or> \<not> q then m else raiseE ErrCircuitBreakerOpen)) Q (\<lambda>_ _. True)" for q
    by (rule triple_bindE [OF pre(1)]) (use assms(3) in \<open>auto intro: triple_raiseE\<close>)
  show "triple P (guarded c rc f m) Q (\<lambda>_ _. True)" using ask [of True] assms(1) by (simp add: guarded_def)
  show "triple P (after_error c rc e f m) Q (\<lambda>_ _. True)"
    using triple_thenE [OF pre(2) ask [of False]] assms(1,3) by (simp add: after_error_def unless_degraded_def)
qed

lemma triple_never: "triple P m (\<lambda>x _. x \<noteq> y) E \<Longrightarrow> P s \<Longrightarrow> fst (m s) \<noteq> Inr y"
  by (cases "m s") (auto simp: triple_def)

section \<open>Locks of others\<close>

text \<open>Another client has the write lock \<open>k\<close> with the token \<open>v\<close>: this locker does not know the token and will not draw it.\<close>

definition foreign_writer :: "('w \<Rightarrow> redis_store) \<Rightarrow> string \<Rightarrow> string \<Rightarrow> ('w, 'l) rw_state \<Rightarrow> bool" where
  "foreign_writer store k v s \<longleftrightarrow> st_val (store (rs_world s)) k = Some v \<and> (\<forall>key t. rs_tokens s key = Some t \<longrightarrow> fst t \<noteq> v)"

definition keeps_writing :: "(redis_store \<Rightarrow> redis_store \<Rightarrow> bool) \<Rightarrow> string \<Rightarrow> string \<Rightarrow> bool" where
  "keeps_writing others k v \<longleftrightarrow> (\<forall>a b. others a b \<longrightarrow> st_val a k = Some v \<longrightarrow> st_val b k = Some v)"

text \<open>Another client reads until the second \<open>e\<close>, as the reader \<open>i\<close> of the hash \<open>rk\<close>, or that time has passed; it is at least second \<open>n\<close>.\<close>

definition foreign_reader :: "('w \<Rightarrow> redis_store) \<Rightarrow> ('w \<Rightarrow> int) \<Rightarrow> string \<Rightarrow> string \<Rightarrow> int \<Rightarrow> int \<Rightarrow> ('w, 'l) rw_state \<Rightarrow> bool" where
  "foreign_reader store now rk i e n s \<longleftrightarrow>
     (st_hash (store (rs_world s)) rk i = Some (Stamp e) \<or> e \<le> unix (now (rs_world s))) \<and> n \<le> unix (now (rs_world s))"

definition reader_around :: "('w \<Rightarrow> redis_store) \<Rightarrow> ('w \<Rightarrow> int) \<Rightarrow> string \<Rightarrow> string \<Rightarrow> int \<Rightarrow> ('w, 'l) rw_state \<Rightarrow> bool" where
  "reader_around store now rk i e s \<longleftrightarrow> (\<exists>n. foreign_reader store now rk i e n s)"

text \<open>The answer of the server with a reader around, and the time at which it is read.\<close>

definition saw :: "string \<Rightarrow> int \<Rightarrow> (string \<times> stamp) list \<Rightarrow> int \<Rightarrow> bool" where
  "saw i e l x \<longleftrightarrow> distinct (map fst l) \<and> (map_of l i = Some (Stamp e) \<or> e \<le> x)"

definition keeps_reading :: "(redis_store \<Rightarrow> redis_store \<Rightarrow> bool) \<Rightarrow> string \<Rightarrow> string \<Rightarrow> int \<Rightarrow> bool" where
  "keeps_reading others rk i e \<longleftrightarrow> (\<forall>a b. others a b \<longrightarrow> st_hash a rk i = Some (Stamp e) \<longrightarrow> st_hash b rk i = Some (Stamp e))"

lemma local_inv_foreign_reader: "local_inv (foreign_reader store now rk i e n)"
  by (simp add: local_inv_def foreign_reader_def)

lemma local_inv_reader_around: "local_inv (reader_around store now rk i e)"
  by (simp add: local_inv_def reader_around_def foreign_reader_def)

lemma local_inv_foreign_writer: "local_inv (foreign_writer store k v)"
  by (simp add: local_inv_def foreign_writer_def)

lemma performsD:
  "performs store now others answers effect m \<Longrightarrow> m w = (r, w') \<Longrightarrow>
   \<exists>a b. others (store w) a \<and> others b (store w') \<and> (case r of Inr x \<Rightarrow> answers a x \<and> b = effect a | Inl _ \<Rightarrow> b = a \<or> b = effect a)"
  unfolding performs_def by blast

lemma triple_ex: "(\<And>n. triple (P n) m Q E) \<Longrightarrow> triple (\<lambda>s. \<exists>n. P n s) m Q E"
  by (rule tripleI) (blast dest: triple_Inr triple_Inl)+

lemma triple_in_world:
  assumes "triple W m Q E"
  shows "triple (\<lambda>s. W (rs_world s) \<and> R (rs_tokens s)) (in_world m) (\<lambda>x s. Q x (rs_world s) \<and> R (rs_tokens s)) (\<lambda>e s. E e (rs_world s) \<and> R (rs_tokens s))"
  using assms by (fastforce simp: triple_def in_world_def split: prod.splits sum.splits)

lemma keeps_in_world:
  assumes "keeps W m" "\<And>s. P s \<Longrightarrow> W (rs_world s)" "\<And>s w. P s \<Longrightarrow> W w \<Longrightarrow> P (s\<lparr>rs_world := w\<rparr>)"
  shows "keeps P (in_world m)"
  using assms by (auto simp: keeps_def in_world_def split: prod.split) (metis snd_conv)

lemma keeps_draw:
  assumes "\<And>w. W w \<Longrightarrow> W (snd (f w))" "\<And>s. P s \<Longrightarrow> W (rs_world s)" "\<And>s w. P s \<Longrightarrow> W w \<Longrightarrow> P (s\<lparr>rs_world := w\<rparr>)"
  shows "keeps P (draw f)"
  using assms by (auto simp: keeps_def draw_def split: prod.split) (metis snd_conv)

lemma poll_limit_enough: "\<exists>n. poll_limit ttl = Suc n \<and> ttl < 10000000 * int n"
proof -
  let ?n = "nat (ttl div 10000000) + 2"
  have "ttl = 10000000 * (ttl div 10000000) + ttl mod 10000000" by simp
  also have "\<dots> < 10000000 * (ttl div 10000000) + 10000000" by simp
  also have "\<dots> \<le> 10000000 * int (nat (ttl div 10000000)) + 10000000" by simp
  finally have "poll_limit ttl = Suc ?n \<and> ttl < 10000000 * int ?n" by (simp add: poll_limit_def)
  then show ?thesis by blast
qed

context redis_server
begin

lemma performs_triple:
  assumes "\<And>a b. others a b \<Longrightarrow> V a \<Longrightarrow> V b" "performs store (rc_now rc) others answers effect m" "\<And>a. V a \<Longrightarrow> V (effect a)"
  shows "triple (\<lambda>w. V (store w)) m (\<lambda>x w. V (store w) \<and> (\<exists>a. V a \<and> answers a x)) (\<lambda>_ w. V (store w))"
proof (rule tripleI)
  fix w x w'
  assume "V (store w)" "m w = (Inr x, w')"
  moreover from this(2) obtain a b where "others (store w) a" "others b (store w')" "answers a x" "b = effect a"
    using performsD [OF assms(2)] by fastforce
  ultimately show "V (store w') \<and> (\<exists>a. V a \<and> answers a x)" using assms(1,3) by blast
next
  fix w e w'
  assume "V (store w)" "m w = (Inl e, w')"
  moreover from this(2) obtain a b where "others (store w) a" "others b (store w')" "b = a \<or> b = effect a"
    using performsD [OF assms(2)] by fastforce
  ultimately show "V (store w')" using assms(1,3) by blast
qed

lemma performs_keeps:
  assumes "\<And>a b. others a b \<Longrightarrow> V a \<Longrightarrow> V b" "performs store (rc_now rc) others answers effect m" "\<And>a. V a \<Longrightarrow> V (effect a)"
  shows "keeps (\<lambda>w. V (store w)) m"
proof -
  have "triple (\<lambda>w. V (store w)) m (\<lambda>x w. V (store w) \<and> (\<exists>a. V a \<and> answers a x)) (\<lambda>_ w. V (store w))"
    by (rule performs_triple) (use assms in blast)+
  then show ?thesis by (rule keeps_triple) auto
qed

lemma performs_attempt:
  assumes "\<And>a b. others a b \<Longrightarrow> V a \<Longrightarrow> V b" "performs store (rc_now rc) others answers effect m" "\<And>a. V a \<Longrightarrow> V (effect a)"
    and "P = (\<lambda>s. V (store (rs_world s)) \<and> R (rs_tokens s))" "\<And>a x. V a \<Longrightarrow> answers a x \<Longrightarrow> B x"
  shows "triple P (attemptE (in_world m)) (\<lambda>r s. P s \<and> (\<forall>x. r = Inr x \<longrightarrow> B x)) (\<lambda>_ _. True)"
proof -
  have "triple (\<lambda>w. V (store w)) m (\<lambda>x w. V (store w) \<and> (\<exists>a. V a \<and> answers a x)) (\<lambda>_ w. V (store w))"
    by (rule performs_triple) (use assms(1-3) in blast)+
  from triple_attemptE [OF triple_in_world [OF this, of R]] show ?thesis
    by (rule triple_weaken) (auto simp: assms(4) intro: assms(5) split: sum.splits)
qed

lemma eval_keeps:
  assumes "\<And>a b. others a b \<Longrightarrow> V a \<Longrightarrow> V b" "keeps (\<lambda>w. V (store w)) p"
  shows "keeps (\<lambda>w. V (store w)) (rc_Eval rc p)"
proof (rule keepsI)
  fix w
  assume V: "V (store w)"
  obtain r w' where run: "rc_Eval rc p w = (r, w')" by fastforce
  obtain u q u' where "p u = (q, u')" "others (store w) (store u)" "others (store u') (store w') \<or> others (store u) (store w')"
    using eval [OF run] by blast
  then show "V (store (snd (rc_Eval rc p w)))" using V assms by (auto simp: run keeps_def) (metis snd_conv)+
qed

lemma scripts_keep_writer:
  assumes "token \<noteq> v"
  shows "keeps (\<lambda>w. st_val (store w) k = Some v) (unlockScript rc k' token)" "keeps (\<lambda>w. st_val (store w) k = Some v) (extendScript rc k' token ms)"
proof -
  have "st_val (store (snd (rc_del rc k' u))) k = Some v" if "st_val (store u) k = Some v" "k' \<noteq> k" for u
    using del [of k' u] that by auto
  then show "keeps (\<lambda>w. st_val (store w) k = Some v) (unlockScript rc k' token)"
    using assms by (cases "k' = k") (auto simp: keeps_def unlockScript_def bindE_def get returnE_def)
  have "st_val (store (snd (rc_pexpire rc k' ms u))) k = Some v" if "st_val (store u) k = Some v" for u
    using pexpire [of k' ms u] that by auto
  then show "keeps (\<lambda>w. st_val (store w) k = Some v) (extendScript rc k' token ms)"
    by (auto simp: keeps_def extendScript_def bindE_def get returnE_def)
qed

lemma keeps_foreign_writer_steps:
  fixes P :: "('w, 'l) rw_state \<Rightarrow> bool"
  assumes stable: "keeps_writing others k v" and P: "P = foreign_writer store k v"
  shows "keeps P (in_world (rc_SetNX rc k' t ttl))" "keeps P (in_world (rc_Exists rc k'))" "keeps P (in_world (rc_HGetAll rc k'))" "keeps P (in_world (rc_HSet rc k' f st))"
    "keeps P (in_world (rc_HDel rc k' f))" "keeps P (in_world (rc_wait rc d))" "keeps P (draw (rc_token rc))" "keeps P (draw (rc_float rc))"
    "keeps P (modifyE (\<lambda>s. s\<lparr>rs_world := rc_sleep rc d (rs_world s)\<rparr>))"
    "token \<noteq> v \<Longrightarrow> keeps P (in_world (rc_Eval rc (unlockScript rc k' token)))" "token \<noteq> v \<Longrightarrow> keeps P (in_world (rc_Eval rc (extendScript rc k' token ms)))"
    "token \<noteq> v \<Longrightarrow> keeps P (store_token key token ttl)" "keeps P (delete_token key)"
proof -
  let ?W = "\<lambda>w. st_val (store w) k = Some v"
  have st: "st_val b k = Some v" if "others a b" "st_val a k = Some v" for a b using stable that by (simp add: keeps_writing_def)
  have w: "keeps P (in_world m)" if "keeps ?W m" for m :: "('w, 'a) prog" by (rule keeps_in_world [OF that]) (simp_all add: P foreign_writer_def)
  have d: "keeps P (draw f)" if "\<And>w. others (store w) (store (snd (f w)))" for f :: "'w \<Rightarrow> 'a \<times> 'w"
    by (rule keeps_draw [where W = ?W]) (use that st in \<open>auto simp: P foreign_writer_def\<close>)
  show "keeps P (in_world (rc_SetNX rc k' t ttl))" by (rule w, rule performs_keeps [OF st setnx]) auto
  show "keeps P (in_world (rc_Exists rc k'))" by (rule w, rule performs_keeps [OF st exists]) auto
  show "keeps P (in_world (rc_HGetAll rc k'))" by (rule w, rule performs_keeps [OF st hgetall]) auto
  show "keeps P (in_world (rc_HSet rc k' f st))" by (rule w, rule performs_keeps [OF st hset]) auto
  show "keeps P (in_world (rc_HDel rc k' f))" by (rule w, rule performs_keeps [OF st hdel]) auto
  have "others (store u) (store (snd (rc_wait rc d u)))" for u using wait [of d u "fst (rc_wait rc d u)" "snd (rc_wait rc d u)"] by simp
  then show "keeps P (in_world (rc_wait rc d))" by (intro w keepsI) (rule st)
  show "keeps P (draw (rc_token rc))" "keeps P (draw (rc_float rc))" using d token float by blast+
  show "keeps P (modifyE (\<lambda>s. s\<lparr>rs_world := rc_sleep rc d (rs_world s)\<rparr>))"
    by (rule keeps_modifyE) (use st sleep in \<open>auto simp: P foreign_writer_def\<close>)
  show "token \<noteq> v \<Longrightarrow> keeps P (in_world (rc_Eval rc (unlockScript rc k' token)))" "token \<noteq> v \<Longrightarrow> keeps P (in_world (rc_Eval rc (extendScript rc k' token ms)))"
    by (rule w, rule eval_keeps [OF st scripts_keep_writer(1)], assumption+, rule w, rule eval_keeps [OF st scripts_keep_writer(2)], assumption+)
  show "token \<noteq> v \<Longrightarrow> keeps P (store_token key token ttl)" "keeps P (delete_token key)"
    by (auto simp: P store_token_def delete_token_def foreign_writer_def intro!: keeps_modifyE)
qed

lemma keeps_token:
  assumes stable: "keeps_writing others k v" and fresh: "\<And>w. fst (rc_token rc w) \<noteq> v" and f: "\<And>token. token \<noteq> v \<Longrightarrow> keeps (foreign_writer store k v) (f token)"
  shows "keeps (foreign_writer store k v) (bindE (draw (rc_token rc)) f)"
  by (rule keeps_bindE_results [OF keeps_foreign_writer_steps(7) [OF stable refl]])
    (use fresh in \<open>auto simp: draw_def split: prod.splits intro!: f\<close>, metis fst_conv)

lemma keeps_known_token:
  assumes "\<And>lt. (case lt of Some (token, ttl) \<Rightarrow> token \<noteq> v | None \<Rightarrow> True) \<Longrightarrow> keeps (foreign_writer store k v) (f lt)"
  shows "keeps (foreign_writer store k v) (bindE (getsE (\<lambda>s. rs_tokens s key)) f)"
  by (rule keeps_bindE_results [OF keeps_getsE]) (auto simp: getsE_def foreign_writer_def intro!: assms split: option.split)

lemma never_steals:
  fixes c :: "'l rw_conf"
  assumes stable: "keeps_writing others k v" and fresh: "\<And>w. fst (rc_token rc w) \<noteq> v"
  shows "keeps (foreign_writer store k v) (rw_run c rc op)"
proof -
  let ?P = "foreign_writer store k v :: ('w, 'l) rw_state \<Rightarrow> bool"
  note steps = keeps_foreign_writer_steps [OF stable refl, where 'l = 'l] keeps_local_steps [OF local_inv_foreign_writer] keeps_paths [OF local_inv_foreign_writer]
  have active: "keeps ?P (active_readers rc rk now rs)" for rk now rs by (induction rs) (auto intro!: keeps_intros steps)
  have clean: "keeps ?P (clean_up rc wk token)" if "token \<noteq> v" for wk token unfolding clean_up_def by (intro keeps_intros steps that)
  have readers: "keeps ?P (await_readers c rc key token deadline n)" if "token \<noteq> v" for key token deadline n
    by (induction n) (auto simp: stop_waiting_def poll_again_def intro!: keeps_intros steps active clean that split: sum.split)
  have attempts: "keeps ?P (lock_attempts c rc key ttl n i e)" for key ttl n i e
    by (induction n arbitrary: i e) (auto intro!: keeps_intros steps keeps_token [OF stable fresh] readers split: sum.split readers_wait.split)
  have ident: "keeps ?P (getOrCreateReaderID rc)"
    unfolding getOrCreateReaderID_def by (intro keeps_intros steps keeps_modifyE) (simp add: foreign_writer_def)
  have reg: "keeps ?P (register_reader c rc key i ttl)" for key i ttl unfolding register_reader_def by (intro keeps_intros steps)
  have writer: "keeps ?P (await_writer c rc key deadline n (register_reader c rc key' i ttl))" for key deadline n key' i ttl
    by (induction n) (auto intro!: keeps_intros steps reg split: sum.split)
  have "keeps ?P (redis_Unlock c rc key)" for key
    unfolding redis_Unlock_def
    by (rule steps, rule keeps_known_token) (auto intro!: keeps_thenE keeps_bindE keeps_returnE steps split: option.splits)
  moreover have "keeps ?P (redis_Extend c rc key)" for key
    unfolding redis_Extend_def
    by (rule steps, rule keeps_known_token) (auto intro!: keeps_bindE keeps_returnE keeps_if keeps_raiseE steps split: option.splits)
  moreover have "keeps ?P (redis_TryLock c rc key ttl)" "keeps ?P (redis_Lock c rc key ttl)" "keeps ?P (redis_RLock c rc key ttl)" "keeps ?P (redis_RUnlock c rc key)" for key ttl
    by (auto simp: rw_ops intro!: keeps_intros steps keeps_token [OF stable fresh] active clean attempts ident writer split: sum.split option.split)
  ultimately show ?thesis by (cases op) (auto intro!: keeps_intros)
qed

text \<open>While another client writes, nobody else gets the lock. Without the degraded mode there is no other way to one.\<close>

lemma writer_excludes:
  fixes c :: "'l rw_conf"
  assumes stable: "keeps_writing others (writer_key c key) v" and fresh: "\<And>w. fst (rc_token rc w) \<noteq> v" and c: "\<not> rw_allowDegradedMode c"
    and s: "foreign_writer store (writer_key c key) v s"
  shows "fst (redis_Lock c rc key ttl s) \<noteq> Inr ()" "fst (redis_TryLock c rc key ttl s) \<noteq> Inr True" "fst (redis_RLock c rc key ttl s) \<noteq> Inr ()"
proof -
  let ?k = "writer_key c key"
  let ?P = "foreign_writer store ?k v :: ('w, 'l) rw_state \<Rightarrow> bool"
  note steps = keeps_foreign_writer_steps [OF stable refl, where 'l = 'l] keeps_local_steps [OF local_inv_foreign_writer]
  note pre = steps [THEN triple_pre]
  have st: "st_val b ?k = Some v" if "others a b" "st_val a ?k = Some v" for a b using stable that by (simp add: keeps_writing_def)
  have P: "?P = (\<lambda>s. st_val (store (rs_world s)) ?k = Some v \<and> (\<forall>key t. rs_tokens s key = Some t \<longrightarrow> fst t \<noteq> v))"
    by (simp add: foreign_writer_def fun_eq_iff)
  note attempt = performs_attempt [where V = "\<lambda>a. st_val a ?k = Some v" and R = "\<lambda>m. \<forall>key t. m key = Some t \<longrightarrow> fst t \<noteq> v", OF _ _ _ P]
  have setnx': "triple ?P (attemptE (in_world (rc_SetNX rc ?k t ttl))) (\<lambda>r s. ?P s \<and> (\<forall>x. r = Inr x \<longrightarrow> \<not> x)) (\<lambda>_ _. True)" for t
    by (rule attempt [OF _ setnx]) (use st in auto)
  have exists': "triple ?P (attemptE (in_world (rc_Exists rc ?k))) (\<lambda>r s. ?P s \<and> (\<forall>x. r = Inr x \<longrightarrow> x)) (\<lambda>_ _. True)"
    by (rule attempt [OF _ exists]) (use st in auto)
  have attempts: "triple ?P (lock_attempts c rc key ttl n i e) (\<lambda>_ _. False) (\<lambda>_ _. True)" for n i e
  proof (induction n arbitrary: i e)
    case (Suc n)
    show ?case unfolding lock_attempts.simps
    proof (rule triple_thenE [where R = ?P])
      show "triple ?P (whenE (0 < i) (bindE (draw (rc_float rc)) (\<lambda>x. in_world (rc_wait rc (calculateBackoff (rc_out rc) (rw_retryConfig c) i x))))) (\<lambda>_. ?P) (\<lambda>_ _. True)"
        by (intro triple_pre keeps_intros steps)
    next
      show "triple ?P (bindE (draw (rc_token rc)) (\<lambda>token. bindE (attemptE (in_world (rc_SetNX rc ?k token ttl))) (\<lambda>r. case r of
          Inl e \<Rightarrow> after_error c rc e (lo_Lock (rw_fallback c) key) (lock_attempts c rc key ttl n (Suc i) e)
        | Inr success \<Rightarrow> if \<not> success then lock_attempts c rc key ttl n (Suc i) ErrWriteLockHeld
            else thenE (store_token key token ttl) (bindE (clock rc) (\<lambda>now. bindE (await_readers c rc key token (now + ttl) (poll_limit ttl)) (\<lambda>a. case a of
                   Clear \<Rightarrow> returnE () | Again e \<Rightarrow> lock_attempts c rc key ttl n (Suc i) e | Give_up e \<Rightarrow> raiseE e | Unfinished \<Rightarrow> raiseE ErrPanic)))))) (\<lambda>_ _. False) (\<lambda>_ _. True)"
        by (rule triple_bindE [OF pre(7)], rule triple_bindE [OF setnx'], rule triple_assume)
          (auto intro!: triple_paths(2) [OF c local_inv_foreign_writer] Suc.IH split: sum.split)
    qed
  qed (simp add: triple_def raiseE_def)
  have "triple ?P (redis_Lock c rc key ttl) (\<lambda>x _. x \<noteq> ()) (\<lambda>_ _. True)"
    unfolding redis_Lock_def by (rule triple_paths(1) [OF c local_inv_foreign_writer], rule triple_weaken [OF attempts]) auto
  with s show "fst (redis_Lock c rc key ttl s) \<noteq> Inr ()" by (rule triple_never [rotated])
  have "triple ?P (redis_TryLock c rc key ttl) (\<lambda>x _. x \<noteq> True) (\<lambda>_ _. True)"
    unfolding redis_TryLock_def
    by (rule triple_paths(1) [OF c local_inv_foreign_writer], rule triple_bindE [OF pre(7)], rule triple_bindE [OF setnx'], rule triple_assume)
      (auto intro!: triple_paths(2) [OF c local_inv_foreign_writer] triple_raiseE triple_returnE split: sum.split)
  with s show "fst (redis_TryLock c rc key ttl s) \<noteq> Inr True" by (rule triple_never [rotated])
  have "triple ?P (await_writer c rc key deadline n m) (\<lambda>x _. x = None) (\<lambda>_ _. True)" for deadline n m
  proof (induction n)
    case (Suc n)
    have poll: "triple ?P (if now > deadline then raiseE ErrWriteLockTimeout
        else thenE (modifyE (\<lambda>s. s\<lparr>rs_world := rc_sleep rc 10000000 (rs_world s)\<rparr>)) (await_writer c rc key deadline n m)) (\<lambda>x _. x = None) (\<lambda>_ _. True)" for now
      using triple_thenE [OF pre(9) Suc.IH] by (simp add: triple_raiseE)
    have refuse: "triple ?P (after_error c rc e f (raiseE e)) (\<lambda>x _. x = None) (\<lambda>_ _. True)" for e and f :: "('l, unit option) prog"
      by (rule triple_paths(2) [OF c local_inv_foreign_writer]) (rule triple_raiseE, simp)
    show ?case
      unfolding await_writer.simps
      by (rule triple_bindE [OF exists'], rule triple_assume) (auto simp: refuse triple_bindE [OF pre(18) poll] split: sum.split)
  qed (auto intro: triple_returnE)
  then have waits: "triple ?P (bindE (await_writer c rc key deadline n m) (\<lambda>r. case r of Some _ \<Rightarrow> returnE () | None \<Rightarrow> raiseE ErrPanic)) (\<lambda>x _. x \<noteq> ()) (\<lambda>_ _. True)" for deadline n m
    by (rule triple_bindE) (auto simp: triple_def raiseE_def returnE_def split: option.split)
  have ident: "keeps ?P (getOrCreateReaderID rc)"
    unfolding getOrCreateReaderID_def by (intro keeps_intros steps keeps_modifyE) (simp add: foreign_writer_def)
  have "triple ?P (redis_RLock c rc key ttl) (\<lambda>x _. x \<noteq> ()) (\<lambda>_ _. True)"
    unfolding redis_RLock_def
    by (rule triple_paths(1) [OF c local_inv_foreign_writer], rule triple_bindE [OF triple_pre [OF ident]], rule triple_bindE [OF pre(18)], rule waits)
  with s show "fst (redis_RLock c rc key ttl s) \<noteq> Inr ()" by (rule triple_never [rotated])
qed

text \<open>A reader \<open>i\<close> is registered until the second \<open>e\<close>, or that time has passed.\<close>

lemma unix_mono: "a \<le> b \<Longrightarrow> unix a \<le> unix b"
  by (simp add: unix_def zdiv_mono1)

lemma performs_lease:
  assumes stable: "\<And>a b. others a b \<Longrightarrow> V a \<Longrightarrow> V b" and runs: "performs store (rc_now rc) others answers effect m" and V: "\<And>a. V a \<Longrightarrow> V (effect a)"
  shows "triple (\<lambda>w. (V (store w) \<or> e \<le> unix (rc_now rc w)) \<and> n \<le> unix (rc_now rc w)) m
    (\<lambda>x w. (V (store w) \<or> e \<le> unix (rc_now rc w)) \<and> n \<le> unix (rc_now rc w) \<and> (\<exists>a. answers a x \<and> (V a \<or> e \<le> unix (rc_now rc w))))
    (\<lambda>_ w. (V (store w) \<or> e \<le> unix (rc_now rc w)) \<and> n \<le> unix (rc_now rc w))"
proof (rule tripleI)
  fix w x w'
  assume w: "(V (store w) \<or> e \<le> unix (rc_now rc w)) \<and> n \<le> unix (rc_now rc w)" and run: "m w = (Inr x, w')"
  obtain a b where ab: "others (store w) a" "others b (store w')" "answers a x" "b = effect a" using performsD [OF runs run] by auto
  have "unix (rc_now rc w) \<le> unix (rc_now rc w')" using runs run by (auto simp: performs_def intro: unix_mono)
  then show "(V (store w') \<or> e \<le> unix (rc_now rc w')) \<and> n \<le> unix (rc_now rc w') \<and> (\<exists>a. answers a x \<and> (V a \<or> e \<le> unix (rc_now rc w')))"
    using w ab V stable by (meson order_trans)
next
  fix w q w'
  assume w: "(V (store w) \<or> e \<le> unix (rc_now rc w)) \<and> n \<le> unix (rc_now rc w)" and run: "m w = (Inl q, w')"
  obtain a b where ab: "others (store w) a" "others b (store w')" "b = a \<or> b = effect a" using performsD [OF runs run] by auto
  have "unix (rc_now rc w) \<le> unix (rc_now rc w')" using runs run by (auto simp: performs_def intro: unix_mono)
  then show "(V (store w') \<or> e \<le> unix (rc_now rc w')) \<and> n \<le> unix (rc_now rc w')" using w ab V stable by (meson order_trans)
qed

lemma performs_reader:
  fixes P :: "int \<Rightarrow> ('w, 'l) rw_state \<Rightarrow> bool"
  assumes stable: "keeps_reading others rk i e" and P: "P = foreign_reader store (rc_now rc) rk i e" and runs: "performs store (rc_now rc) others answers effect m"
    and V: "\<And>a. st_hash a rk i = Some (Stamp e) \<Longrightarrow> st_hash (effect a) rk i = Some (Stamp e)"
  shows "triple (P n) (in_world m) (\<lambda>x s. P n s \<and> (\<exists>a. answers a x \<and> (st_hash a rk i = Some (Stamp e) \<or> e \<le> unix (rc_now rc (rs_world s))))) (\<lambda>_. P n)"
    "keeps (P n) (in_world m)"
proof -
  have st: "st_hash b rk i = Some (Stamp e)" if "others a b" "st_hash a rk i = Some (Stamp e)" for a b using stable that by (simp add: keeps_reading_def)
  have "triple (\<lambda>w. (st_hash (store w) rk i = Some (Stamp e) \<or> e \<le> unix (rc_now rc w)) \<and> n \<le> unix (rc_now rc w)) m
    (\<lambda>x w. (st_hash (store w) rk i = Some (Stamp e) \<or> e \<le> unix (rc_now rc w)) \<and> n \<le> unix (rc_now rc w) \<and>
      (\<exists>a. answers a x \<and> (st_hash a rk i = Some (Stamp e) \<or> e \<le> unix (rc_now rc w))))
    (\<lambda>_ w. (st_hash (store w) rk i = Some (Stamp e) \<or> e \<le> unix (rc_now rc w)) \<and> n \<le> unix (rc_now rc w))"
    by (rule performs_lease [where V = "\<lambda>a. st_hash a rk i = Some (Stamp e)", OF _ runs]) (use st V in blast)+
  from triple_in_world [OF this, where R = "\<lambda>_. True"]
  show *: "triple (P n) (in_world m) (\<lambda>x s. P n s \<and> (\<exists>a. answers a x \<and> (st_hash a rk i = Some (Stamp e) \<or> e \<le> unix (rc_now rc (rs_world s))))) (\<lambda>_. P n)"
    by (rule triple_weaken) (auto simp: P foreign_reader_def)
  show "keeps (P n) (in_world m)" by (rule keeps_triple [OF *]) auto
qed

lemma keeps_foreign_reader_steps:
  fixes P :: "int \<Rightarrow> ('w, 'l) rw_state \<Rightarrow> bool"
  assumes stable: "keeps_reading others rk i e" and P: "P = foreign_reader store (rc_now rc) rk i e"
  shows "keeps (P n) (in_world (rc_SetNX rc k' t ttl))" "keeps (P n) (in_world (rc_HGetAll rc k'))" "f = i \<longrightarrow> e \<le> n \<Longrightarrow> keeps (P n) (in_world (rc_HDel rc k' f))"
    "keeps (P n) (in_world (rc_wait rc d))" "keeps (P n) (draw (rc_token rc))" "keeps (P n) (draw (rc_float rc))"
    "keeps (P n) (clean_up rc k' token)" "keeps (P n) (store_token key token ttl)" "keeps (P n) (delete_token key)"
proof -
  let ?W = "\<lambda>w. (st_hash (store w) rk i = Some (Stamp e) \<or> e \<le> unix (rc_now rc w)) \<and> n \<le> unix (rc_now rc w)"
  have st: "?W w'" if "others (store w) (store w')" "rc_now rc w \<le> rc_now rc w'" "?W w" for w w'
    using stable that unix_mono [OF that(2)] by (auto simp: keeps_reading_def)
  have w: "keeps (P n) (in_world m)" if "keeps ?W m" for m :: "('w, 'a) prog" by (rule keeps_in_world [OF that]) (simp_all add: P foreign_reader_def)
  have d: "keeps (P n) (draw f)" if "\<And>w. others (store w) (store (snd (f w))) \<and> rc_now rc w \<le> rc_now rc (snd (f w))" for f :: "'w \<Rightarrow> 'a \<times> 'w"
    by (rule keeps_draw [where W = ?W]) (use that st in \<open>blast, auto simp: P foreign_reader_def\<close>)
  show "keeps (P n) (in_world (rc_SetNX rc k' t ttl))" by (rule performs_reader(2) [OF stable P setnx]) simp
  show "keeps (P n) (in_world (rc_HGetAll rc k'))" by (rule performs_reader(2) [OF stable P hgetall]) simp
  show "keeps (P n) (in_world (rc_HDel rc k' f))" if "f = i \<longrightarrow> e \<le> n"
  proof (cases "f = i")
    case True
    have "triple (\<lambda>w. n \<le> unix (rc_now rc w)) (rc_HDel rc k' f) (\<lambda>_ w. n \<le> unix (rc_now rc w)) (\<lambda>_ w. n \<le> unix (rc_now rc w))"
      using performs_lease [where V = "\<lambda>_. True" and n = n and e = n, OF _ hdel, of k' f] by (rule triple_weaken) auto
    then have "keeps (\<lambda>w. n \<le> unix (rc_now rc w)) (rc_HDel rc k' f)" by (rule keeps_triple) auto
    then show ?thesis using True that by (intro w) (force simp: keeps_def)
  next
    case False
    then show ?thesis by (intro performs_reader(2) [OF stable P hdel]) auto
  qed
  have "others (store u) (store (snd (rc_wait rc d u))) \<and> rc_now rc u \<le> rc_now rc (snd (rc_wait rc d u))" for u
    using wait [of d u "fst (rc_wait rc d u)" "snd (rc_wait rc d u)"] by simp
  then show "keeps (P n) (in_world (rc_wait rc d))" by (intro w keepsI) (use st in blast)
  show "keeps (P n) (draw (rc_token rc))" "keeps (P n) (draw (rc_float rc))" using d token float by blast+
  have script: "?W u'" if "unlockScript rc k' token u = (q, u')" "?W u" for u q u'
  proof -
    have "st_hash (store u') = st_hash (store u) \<and> rc_now rc u \<le> rc_now rc u'"
      using that(1) del [of k' u] by (auto simp: unlockScript_def bindE_def get returnE_def split: if_splits)
    then show ?thesis using that(2) unix_mono [of "rc_now rc u" "rc_now rc u'"] by auto
  qed
  have "keeps ?W (rc_Eval rc (unlockScript rc k' token))"
  proof (rule keepsI)
    fix w0
    assume W: "?W w0"
    obtain r w1 where run: "rc_Eval rc (unlockScript rc k' token) w0 = (r, w1)" by fastforce
    obtain u q u' where u: "unlockScript rc k' token u = (q, u')" "rc_now rc w0 \<le> rc_now rc u" "others (store w0) (store u)"
      and out: "others (store u') (store w1) \<and> rc_now rc u' \<le> rc_now rc w1 \<or> others (store u) (store w1) \<and> rc_now rc u \<le> rc_now rc w1"
      using eval [OF run] by blast
    have "?W u" by (rule st [OF u(3,2) W])
    moreover from script [OF u(1) this] have "?W u'" .
    ultimately show "?W (snd (rc_Eval rc (unlockScript rc k' token) w0))" using out st by (metis run snd_conv)
  qed
  then show "keeps (P n) (clean_up rc k' token)" unfolding clean_up_def by (intro keeps_ignoreE w)
  show "keeps (P n) (store_token key token ttl)" "keeps (P n) (delete_token key)"
    by (auto simp: P store_token_def delete_token_def foreign_reader_def intro!: keeps_modifyE)
qed

lemma active_readers_lease:
  fixes P :: "int \<Rightarrow> ('w, 'l) rw_state \<Rightarrow> bool"
  assumes stable: "keeps_reading others rk i e" and P: "P = foreign_reader store (rc_now rc) rk i e" and rs: "e \<le> n \<or> (\<forall>t. (i, t) \<in> set rs \<longrightarrow> t = Stamp e)"
  shows "triple (P n) (active_readers rc k' n rs) (\<lambda>m s. P n s \<and> ((i, Stamp e) \<in> set rs \<and> m = 0 \<longrightarrow> e \<le> n)) (\<lambda>_ _. True)"
  using rs
proof (induction rs)
  case (Cons r rs)
  let ?Q = "\<lambda>xs m s. P n s \<and> ((i, Stamp e) \<in> set xs \<and> m = 0 \<longrightarrow> e \<le> n)"
  have IH: "triple (P n) (active_readers rc k' n rs) (?Q rs) (\<lambda>_ _. True)" using Cons by auto
  show ?case
  proof (cases "case snd r of Stamp t \<Rightarrow> t > n | No_stamp _ \<Rightarrow> False")
    case True
    have "triple (P n) (bindE (active_readers rc k' n rs) (\<lambda>m. returnE (Suc m))) (?Q (r # rs)) (\<lambda>_ _. True)"
      by (rule triple_bindE [OF IH], rule triple_returnE) auto
    with True show ?thesis by simp
  next
    case False
    have old: "fst r = i \<longrightarrow> e \<le> n"
    proof
      assume "fst r = i"
      then have "e \<le> n \<or> snd r = Stamp e" using Cons.prems by (metis list.set_intros(1) prod.collapse)
      with False show "e \<le> n" by auto
    qed
    have "keeps (P n) (ignoreE (in_world (rc_HDel rc k' (fst r))))" by (intro keeps_ignoreE keeps_foreign_reader_steps(3) [OF stable P old])
    from triple_thenE [OF triple_pre [OF this] IH]
    have "triple (P n) (thenE (ignoreE (in_world (rc_HDel rc k' (fst r)))) (active_readers rc k' n rs)) (?Q (r # rs)) (\<lambda>_ _. True)"
      by (rule triple_weaken) (use old in auto)
    with False show ?thesis by simp
  qed
qed (auto intro: triple_returnE)

lemma keeps_around:
  fixes P :: "('w, 'l) rw_state \<Rightarrow> bool"
  assumes stable: "keeps_reading others rk i e" and P: "P = reader_around store (rc_now rc) rk i e"
  shows "keeps P (in_world (rc_SetNX rc k t ttl))" "keeps P (in_world (rc_HGetAll rc k))" "keeps P (in_world (rc_wait rc d))" "keeps P (draw (rc_token rc))"
    "keeps P (draw (rc_float rc))" "keeps P (clean_up rc k t)" "keeps P (store_token key t ttl)" "keeps P (delete_token key)" "keeps P (clock rc)"
proof -
  have ex: "keeps P m" if "\<And>n. keeps (foreign_reader store (rc_now rc) rk i e n) m" for m :: "(('w, 'l) rw_state, 'x) prog"
    using that unfolding P reader_around_def keeps_def by blast
  show "keeps P (in_world (rc_SetNX rc k t ttl))" "keeps P (in_world (rc_HGetAll rc k))" "keeps P (in_world (rc_wait rc d))" "keeps P (draw (rc_token rc))"
    "keeps P (draw (rc_float rc))" "keeps P (clean_up rc k t)" "keeps P (store_token key t ttl)" "keeps P (delete_token key)" "keeps P (clock rc)"
    by (rule ex, rule keeps_foreign_reader_steps [OF stable refl] keeps_local_steps [OF local_inv_foreign_reader])+
qed

text \<open>The wait for the readers with a reader around: it ends well only when the time of the reader has passed.\<close>

lemma stop_waiting_around:
  assumes "keeps_reading others rk i e" "P = reader_around store (rc_now rc) rk i e" "a \<noteq> Clear"
  shows "triple P (stop_waiting c rc key token a) (\<lambda>a s. P s \<and> (a = Clear \<longrightarrow> e \<le> unix (rc_now rc (rs_world s)))) (\<lambda>_ _. True)"
  unfolding stop_waiting_def
  by (rule triple_thenE [OF triple_pre], rule keeps_around [OF assms(1,2)], rule triple_thenE [OF triple_pre], rule keeps_around [OF assms(1,2)], rule triple_returnE)
    (simp add: assms(3))

lemma poll_again_around:
  assumes r: "keeps_reading others rk i e" "P = reader_around store (rc_now rc) rk i e"
    and k: "triple P k (\<lambda>a s. P s \<and> (a = Clear \<longrightarrow> e \<le> unix (rc_now rc (rs_world s)))) (\<lambda>_ _. True)"
  shows "triple P (poll_again c rc key token deadline k) (\<lambda>a s. P s \<and> (a = Clear \<longrightarrow> e \<le> unix (rc_now rc (rs_world s)))) (\<lambda>_ _. True)"
proof -
  note pre = keeps_around [OF r, THEN triple_pre] keeps_around(3) [OF r, THEN keeps_attemptE, THEN triple_pre]
  have "triple P (bindE (attemptE (in_world (rc_wait rc d))) (\<lambda>w. case w of Inl e \<Rightarrow> stop_waiting c rc key token (Give_up e) | Inr _ \<Rightarrow> k))
      (\<lambda>a s. P s \<and> (a = Clear \<longrightarrow> e \<le> unix (rc_now rc (rs_world s)))) (\<lambda>_ _. True)" for d
  proof (rule triple_bindE [OF pre(10)])
    fix w :: "unit result"
    show "triple P (case w of Inl e \<Rightarrow> stop_waiting c rc key token (Give_up e) | Inr _ \<Rightarrow> k) (\<lambda>a s. P s \<and> (a = Clear \<longrightarrow> e \<le> unix (rc_now rc (rs_world s)))) (\<lambda>_ _. True)"
      using stop_waiting_around [OF r] k by (cases w) simp_all
  qed
  then show ?thesis unfolding poll_again_def by (intro triple_bindE [OF pre(9)]) (simp add: stop_waiting_around [OF r])
qed

lemma active_readers_around:
  fixes l :: "(string \<times> stamp) list"
  assumes "keeps_reading others rk i e" "distinct (map fst l)" "map_of l i = Some (Stamp e) \<or> e \<le> x"
  shows "triple (foreign_reader store (rc_now rc) rk i e x) (active_readers rc rk x l) (\<lambda>m s. foreign_reader store (rc_now rc) rk i e x s \<and> (m = 0 \<longrightarrow> e \<le> x)) (\<lambda>_ _. True)"
proof -
  have "e \<le> x \<or> (\<forall>t. (i, t) \<in> set l \<longrightarrow> t = Stamp e)" using assms(2,3) by auto (metis map_of_is_SomeI option.inject)
  from active_readers_lease [OF assms(1) refl this] show ?thesis by (rule triple_weaken) (use assms(3) in \<open>auto dest: map_of_SomeD\<close>)
qed

lemma readers_seen:
  fixes P :: "('w, 'l) rw_state \<Rightarrow> bool"
  assumes r: "keeps_reading others rk i e" "P = reader_around store (rc_now rc) rk i e"
  shows "triple P (attemptE (in_world (rc_HGetAll rc rk))) (\<lambda>a s. P s \<and> (\<forall>l. a = Inr l \<longrightarrow> saw i e l (unix (rc_now rc (rs_world s))))) (\<lambda>_ _. True)"
proof -
  have "triple (foreign_reader store (rc_now rc) rk i e n) (attemptE (in_world (rc_HGetAll rc rk)))
      (\<lambda>a s. P s \<and> (\<forall>l. a = Inr l \<longrightarrow> saw i e l (unix (rc_now rc (rs_world s))))) (\<lambda>_ _. True)" for n
    by (rule triple_weaken [OF triple_attemptE [OF performs_reader(1) [OF r(1) refl hgetall, of n rk]]])
      (auto simp: r(2) reader_around_def saw_def simp del: map_of_eq_Some_iff split: sum.splits)
  then show ?thesis unfolding r(2) reader_around_def by (rule triple_ex)
qed

lemma readers_counted:
  assumes r: "keeps_reading others rk i e" "P = reader_around store (rc_now rc) rk i e"
    and "\<And>x n. triple (\<lambda>s. foreign_reader store (rc_now rc) rk i e x s \<and> (n = 0 \<longrightarrow> e \<le> x)) (f n) Q (\<lambda>_ _. True)"
  shows "triple (\<lambda>s. P s \<and> saw i e l (unix (rc_now rc (rs_world s)))) (bindE (clock rc) (\<lambda>now. bindE (active_readers rc rk (unix now) l) f)) Q (\<lambda>_ _. True)"
proof -
  have "triple (\<lambda>s. P s \<and> saw i e l (unix (rc_now rc (rs_world s)))) (clock rc) (\<lambda>now s. foreign_reader store (rc_now rc) rk i e (unix now) s \<and> saw i e l (unix now)) (\<lambda>_ _. True)"
    by (auto simp: triple_def clock_def getsE_def r(2) reader_around_def foreign_reader_def)
  moreover have "triple (\<lambda>s. foreign_reader store (rc_now rc) rk i e x s \<and> saw i e l x) (active_readers rc rk x l)
      (\<lambda>m s. foreign_reader store (rc_now rc) rk i e x s \<and> (m = 0 \<longrightarrow> e \<le> x)) (\<lambda>_ _. True)" for x
    by (rule triple_assume) (use active_readers_around [OF r(1)] in \<open>auto simp: saw_def simp del: map_of_eq_Some_iff\<close>)
  ultimately show ?thesis using assms(3) by (blast intro: triple_bindE)
qed

lemma await_readers_around:
  fixes P :: "('w, 'l) rw_state \<Rightarrow> bool"
  assumes r: "keeps_reading others (readers_key c key) i e" "P = reader_around store (rc_now rc) (readers_key c key) i e"
  shows "triple P (await_readers c rc key token deadline m) (\<lambda>a s. P s \<and> (a = Clear \<longrightarrow> e \<le> unix (rc_now rc (rs_world s)))) (\<lambda>_ _. True)"
proof (induction m)
  case (Suc m)
  let ?L = "foreign_reader store (rc_now rc) (readers_key c key) i e :: int \<Rightarrow> ('w, 'l) rw_state \<Rightarrow> bool"
  let ?Q = "\<lambda>a s. P s \<and> (a = Clear \<longrightarrow> e \<le> unix (rc_now rc (rs_world s)))" and ?k = "poll_again c rc key token deadline (await_readers c rc key token deadline m)"
  have decide: "triple (\<lambda>s. ?L x s \<and> (n = 0 \<longrightarrow> e \<le> x)) (if n = 0 then thenE record_success (returnE Clear) else ?k) ?Q (\<lambda>_ _. True)" for x and n :: nat
  proof (cases "n = 0")
    case True
    then show ?thesis by (auto simp: r(2) reader_around_def triple_def thenE_def bindE_def record_success_def modifyE_def returnE_def foreign_reader_def)
  next
    case False
    have "triple (?L x) ?k ?Q (\<lambda>_ _. True)" by (rule triple_weaken [OF poll_again_around [OF r Suc.IH]]) (auto simp: r(2) reader_around_def)
    with False show ?thesis by simp
  qed
  show ?case unfolding await_readers.simps
  proof (rule triple_bindE [OF readers_seen [OF r]])
    fix a :: "(string \<times> stamp) list result"
    show "triple (\<lambda>s. P s \<and> (\<forall>l. a = Inr l \<longrightarrow> saw i e l (unix (rc_now rc (rs_world s))))) (case a of Inl e \<Rightarrow> stop_waiting c rc key token (Again e)
      | Inr readers \<Rightarrow> bindE (clock rc) (\<lambda>now. bindE (active_readers rc (readers_key c key) (unix now) readers) (\<lambda>n.
          if n = 0 then thenE record_success (returnE Clear) else ?k))) ?Q (\<lambda>_ _. True)"
      using stop_waiting_around [OF r] readers_counted [OF r decide] by (cases a) simp_all
  qed
qed (simp add: triple_returnE)

lemma lock_attempts_around:
  fixes P :: "('w, 'l) rw_state \<Rightarrow> bool"
  assumes r: "keeps_reading others (readers_key c key) i e" "P = reader_around store (rc_now rc) (readers_key c key) i e" and c: "\<not> rw_allowDegradedMode c"
  shows "triple P (lock_attempts c rc key ttl n j q) (\<lambda>_ s. e \<le> unix (rc_now rc (rs_world s))) (\<lambda>_ _. True)"
proof (induction n arbitrary: j q)
  case (Suc n)
  let ?Q = "\<lambda>_ s. e \<le> unix (rc_now rc (rs_world s))"
  note pre = keeps_around [OF r, THEN triple_pre] keeps_around(1) [OF r, THEN keeps_attemptE, THEN triple_pre]
  have waited: "triple P (bindE (await_readers c rc key token deadline m) (\<lambda>a. case a of Clear \<Rightarrow> returnE () | Again e \<Rightarrow> lock_attempts c rc key ttl n (Suc j) e
      | Give_up e \<Rightarrow> raiseE e | Unfinished \<Rightarrow> raiseE ErrPanic)) ?Q (\<lambda>_ _. True)" for token deadline m
  proof (rule triple_bindE [OF await_readers_around [OF r]])
    fix a
    show "triple (\<lambda>s. P s \<and> (a = Clear \<longrightarrow> e \<le> unix (rc_now rc (rs_world s)))) (case a of Clear \<Rightarrow> returnE () | Again e \<Rightarrow> lock_attempts c rc key ttl n (Suc j) e
      | Give_up e \<Rightarrow> raiseE e | Unfinished \<Rightarrow> raiseE ErrPanic) ?Q (\<lambda>_ _. True)"
      using Suc.IH by (cases a) (auto intro: triple_returnE triple_raiseE)
  qed
  have taken: "triple P (thenE (store_token key token ttl) (bindE (clock rc) (\<lambda>now. bindE (await_readers c rc key token (now + ttl) (poll_limit ttl)) (\<lambda>a. case a of
      Clear \<Rightarrow> returnE () | Again e \<Rightarrow> lock_attempts c rc key ttl n (Suc j) e | Give_up e \<Rightarrow> raiseE e | Unfinished \<Rightarrow> raiseE ErrPanic)))) ?Q (\<lambda>_ _. True)" for token
    by (rule triple_thenE [OF pre(7)], rule triple_bindE [OF pre(9)], rule waited)
  have failed: "triple P (after_error c rc q f (lock_attempts c rc key ttl n (Suc j) q)) ?Q (\<lambda>_ _. True)" for q f
    using triple_paths(2) [OF c local_inv_reader_around] Suc.IH unfolding r(2) by blast
  have "keeps P (whenE (0 < j) (bindE (draw (rc_float rc)) (\<lambda>x. in_world (rc_wait rc (calculateBackoff (rc_out rc) (rw_retryConfig c) j x)))))"
    by (intro keeps_intros keeps_around [OF r])
  then show ?case
    unfolding lock_attempts.simps
    by (rule triple_thenE [OF triple_pre], intro triple_bindE [OF pre(4)] triple_bindE [OF pre(10)]) (simp add: taken failed Suc.IH split: sum.split)
qed (simp add: triple_raiseE)

lemma TryLock_around:
  assumes r: "keeps_reading others (readers_key c key) i e" "P = reader_around store (rc_now rc) (readers_key c key) i e" and c: "\<not> rw_allowDegradedMode c"
  shows "triple P (redis_TryLock c rc key ttl) (\<lambda>x s. x \<longrightarrow> e \<le> unix (rc_now rc (rs_world s))) (\<lambda>_ _. True)"
proof -
  let ?Q = "\<lambda>x s. x \<longrightarrow> e \<le> unix (rc_now rc (rs_world s))"
  note pre = keeps_around [OF r, THEN triple_pre] keeps_around(1) [OF r, THEN keeps_attemptE, THEN triple_pre]
  have decide: "triple (\<lambda>s. foreign_reader store (rc_now rc) (readers_key c key) i e x s \<and> (n = 0 \<longrightarrow> e \<le> x))
      (if n > 0 then thenE (clean_up rc (writer_key c key) token) (returnE False) else thenE (store_token key token ttl) (thenE record_success (returnE True))) ?Q (\<lambda>_ _. True)"
    for x token and n :: nat
    by (auto simp: triple_def thenE_def bindE_def store_token_def record_success_def modifyE_def returnE_def foreign_reader_def split: prod.splits sum.splits)
  have answered: "triple (\<lambda>s. P s \<and> (\<forall>l. a = Inr l \<longrightarrow> saw i e l (unix (rc_now rc (rs_world s))))) (case a of Inl e \<Rightarrow> thenE (clean_up rc (writer_key c key) token) (raiseE e)
      | Inr readers \<Rightarrow> bindE (clock rc) (\<lambda>now. bindE (active_readers rc (readers_key c key) (unix now) readers) (\<lambda>n.
          if n > 0 then thenE (clean_up rc (writer_key c key) token) (returnE False) else thenE (store_token key token ttl) (thenE record_success (returnE True))))) ?Q (\<lambda>_ _. True)" for a token
  proof (cases a)
    case (Inl q)
    then show ?thesis using triple_thenE [OF pre(6), of "raiseE q" ?Q] by (simp add: triple_raiseE)
  next
    case (Inr l)
    then show ?thesis by simp (rule readers_counted [OF r decide])
  qed
  have failed: "triple P (after_error c rc q f (raiseE q)) ?Q (\<lambda>_ _. True)" for q f
    unfolding r(2) by (rule triple_paths(2) [OF c local_inv_reader_around], rule triple_raiseE) simp
  have "triple P (bindE (draw (rc_token rc)) (\<lambda>token. bindE (attemptE (in_world (rc_SetNX rc (writer_key c key) token ttl))) (\<lambda>r. case r of
      Inl e \<Rightarrow> after_error c rc e (lo_TryLock (rw_fallback c) key) (raiseE e)
    | Inr success \<Rightarrow> if \<not> success then returnE False
        else bindE (attemptE (in_world (rc_HGetAll rc (readers_key c key)))) (\<lambda>a. case a of Inl e \<Rightarrow> thenE (clean_up rc (writer_key c key) token) (raiseE e)
          | Inr readers \<Rightarrow> bindE (clock rc) (\<lambda>now. bindE (active_readers rc (readers_key c key) (unix now) readers) (\<lambda>n.
              if n > 0 then thenE (clean_up rc (writer_key c key) token) (returnE False) else thenE (store_token key token ttl) (thenE record_success (returnE True)))))))) ?Q (\<lambda>_ _. True)"
    by (intro triple_bindE [OF pre(4)] triple_bindE [OF pre(10)]) (simp add: failed triple_bindE [OF readers_seen [OF r] answered] triple_returnE split: sum.split)
  then show ?thesis unfolding redis_TryLock_def using triple_paths(1) [OF c local_inv_reader_around] unfolding r(2) by blast
qed

lemma reader_excludes:
  fixes s :: "('w, 'l) rw_state"
  assumes r: "keeps_reading others (readers_key c key) i e" and c: "\<not> rw_allowDegradedMode c" and s: "st_hash (store (rs_world s)) (readers_key c key) i = Some (Stamp e)"
  shows "redis_Lock c rc key ttl s = (Inr (), t) \<Longrightarrow> e \<le> unix (rc_now rc (rs_world t))"
    "redis_TryLock c rc key ttl s = (Inr True, t) \<Longrightarrow> e \<le> unix (rc_now rc (rs_world t))"
proof -
  let ?P = "reader_around store (rc_now rc) (readers_key c key) i e :: ('w, 'l) rw_state \<Rightarrow> bool"
  have s: "?P s" using s by (auto simp: reader_around_def foreign_reader_def)
  have "triple ?P (redis_Lock c rc key ttl) (\<lambda>_ s. e \<le> unix (rc_now rc (rs_world s))) (\<lambda>_ _. True)"
    unfolding redis_Lock_def by (rule triple_paths(1) [OF c local_inv_reader_around lock_attempts_around [OF r refl c]])
  with s show "redis_Lock c rc key ttl s = (Inr (), t) \<Longrightarrow> e \<le> unix (rc_now rc (rs_world t))" by (auto dest: triple_Inr)
  show "redis_TryLock c rc key ttl s = (Inr True, t) \<Longrightarrow> e \<le> unix (rc_now rc (rs_world t))"
    using triple_Inr [OF TryLock_around [OF r refl c] s] by blast
qed

text \<open>The waiting loops end: every poll takes at least 10 ms.\<close>

lemma keeps_later:
  fixes P :: "('w, 'l) rw_state \<Rightarrow> bool"
  assumes P: "P = (\<lambda>s. t \<le> rc_now rc (rs_world s))"
  shows "performs store (rc_now rc) others answers effect m \<Longrightarrow> keeps P (in_world m)" "keeps P (active_readers rc rk n rs)" "keeps P (clock rc)"
    "keeps P (allow_request rc)" "keeps P (record_failure rc)" "keeps P (in_local l)"
proof -
  show world: "keeps P (in_world m)" if "performs store (rc_now rc) others answers effect m" for answers effect and m :: "('w, 'x) prog"
    by (rule keeps_in_world [where W = "\<lambda>w. t \<le> rc_now rc w"]) (use that in \<open>auto simp: keeps_def performs_def P\<close>, metis order_trans surjective_pairing)
  show "keeps P (active_readers rc rk n rs)" by (induction rs) (auto intro!: keeps_intros world [OF hdel])
  have "local_inv P" by (simp add: local_inv_def P)
  then show "keeps P (clock rc)" "keeps P (allow_request rc)" "keeps P (record_failure rc)" "keeps P (in_local l)" by (rule keeps_local_steps)+
qed

lemma stop_waiting_ends: "a \<noteq> Unfinished \<Longrightarrow> triple P (stop_waiting c rc key token a) (\<lambda>a _. a \<noteq> Unfinished) (\<lambda>_ _. True)"
  by (auto simp: stop_waiting_def triple_def thenE_def bindE_def returnE_def split: prod.split sum.split)

lemma poll_again_ends:
  assumes "P = (\<lambda>t s. t \<le> rc_now rc (rs_world s))" and k: "t \<le> deadline \<Longrightarrow> triple (P (t + 10000000)) k (\<lambda>a _. a \<noteq> Unfinished) (\<lambda>_ _. True)"
  shows "triple (P t) (poll_again c rc key token deadline k) (\<lambda>a _. a \<noteq> Unfinished) (\<lambda>_ _. True)"
proof -
  have clock: "triple (P t) (clock rc) (\<lambda>now s. P t s \<and> t \<le> now) (\<lambda>_ _. True)" by (auto simp: triple_def clock_def getsE_def assms(1))
  have waited: "triple (P t) (attemptE (in_world (rc_wait rc 10000000))) (\<lambda>r s. P (if isl r then t else t + 10000000) s) (\<lambda>_ _. True)"
  proof (rule tripleI)
    fix s r s'
    assume "P t s" "attemptE (in_world (rc_wait rc 10000000)) s = (Inr r, s')"
    moreover obtain q w where "rc_wait rc 10000000 (rs_world s) = (q, w)" by fastforce
    ultimately show "P (if isl r then t else t + 10000000) s'" using wait [of 10000000 "rs_world s" q w]
      by (cases r) (auto simp: attemptE_def in_world_def assms(1))
  qed simp
  have "triple (P (if isl r then t else t + 10000000)) (case r of Inl e \<Rightarrow> stop_waiting c rc key token (Give_up e) | Inr _ \<Rightarrow> k) (\<lambda>a _. a \<noteq> Unfinished) (\<lambda>_ _. True)"
    if "t \<le> deadline" for r :: "unit result"
    using k [OF that] by (cases r) (auto intro: stop_waiting_ends)
  then have polled: "triple (P t) (bindE (attemptE (in_world (rc_wait rc 10000000))) (\<lambda>r. case r of Inl e \<Rightarrow> stop_waiting c rc key token (Give_up e) | Inr _ \<Rightarrow> k))
      (\<lambda>a _. a \<noteq> Unfinished) (\<lambda>_ _. True)" if "t \<le> deadline"
    using that by (intro triple_bindE [OF waited])
  show ?thesis
    unfolding poll_again_def by (rule triple_bindE [OF clock], rule triple_assume) (use polled in \<open>auto intro: stop_waiting_ends\<close>)
qed

lemma await_readers_step:
  assumes k: "t \<le> deadline \<Longrightarrow> triple (\<lambda>s. t + 10000000 \<le> rc_now rc (rs_world s)) (await_readers c rc key token deadline n) (\<lambda>a _. a \<noteq> Unfinished) (\<lambda>_ _. True)"
  shows "triple (\<lambda>s. t \<le> rc_now rc (rs_world s)) (await_readers c rc key token deadline (Suc n)) (\<lambda>a _. a \<noteq> Unfinished) (\<lambda>_ _. True)"
proof -
  let ?P = "\<lambda>t s. t \<le> rc_now rc (rs_world s)"
  have polled: "triple (?P t) (poll_again c rc key token deadline (await_readers c rc key token deadline n)) (\<lambda>a _. a \<noteq> Unfinished) (\<lambda>_ _. True)"
    by (rule poll_again_ends [OF refl]) (rule k)
  have decide: "triple (?P t) (if m = 0 then thenE record_success (returnE Clear) else poll_again c rc key token deadline (await_readers c rc key token deadline n))
      (\<lambda>a _. a \<noteq> Unfinished) (\<lambda>_ _. True)" for m :: nat
    using polled by (auto simp: triple_def thenE_def bindE_def record_success_def modifyE_def returnE_def)
  have "triple (?P t) (bindE (clock rc) (\<lambda>now. bindE (active_readers rc (readers_key c key) (unix now) readers) (\<lambda>m.
      if m = 0 then thenE record_success (returnE Clear) else poll_again c rc key token deadline (await_readers c rc key token deadline n)))) (\<lambda>a _. a \<noteq> Unfinished) (\<lambda>_ _. True)"
    for readers
    by (intro triple_bindE [OF triple_pre [OF keeps_later(3) [OF refl]]] triple_bindE [OF triple_pre [OF keeps_later(2) [OF refl]]] decide)
  then show ?thesis
    unfolding await_readers.simps
    by (intro triple_bindE [OF triple_pre [OF keeps_attemptE [OF keeps_later(1) [OF refl hgetall]]]]) (auto intro: stop_waiting_ends split: sum.split)
qed

lemma await_readers_ends:
  "deadline < t + 10000000 * int n \<Longrightarrow> triple (\<lambda>s. t \<le> rc_now rc (rs_world s)) (await_readers c rc key token deadline (Suc n)) (\<lambda>a _. a \<noteq> Unfinished) (\<lambda>_ _. True)"
proof (induction n arbitrary: t)
  case 0
  then show ?case by (intro await_readers_step) simp
next
  case (Suc n)
  then show ?case by (intro await_readers_step Suc.IH) (simp add: algebra_simps)
qed

lemma readers_wait_ends:
  assumes "await_readers c rc key token (rc_now rc (rs_world s) + ttl) (poll_limit ttl) s = (Inr a, t)"
  shows "a \<noteq> Unfinished"
proof -
  obtain n where n: "poll_limit ttl = Suc n" "ttl < 10000000 * int n" using poll_limit_enough by blast
  then have "triple (\<lambda>u. rc_now rc (rs_world s) \<le> rc_now rc (rs_world u)) (await_readers c rc key token (rc_now rc (rs_world s) + ttl) (Suc n)) (\<lambda>a _. a \<noteq> Unfinished) (\<lambda>_ _. True)"
    by (intro await_readers_ends) simp
  from triple_Inr [OF this, of s] show ?thesis using assms by (simp add: n(1) del: await_readers.simps)
qed

lemma register_reader_ends: "triple P (register_reader c rc key i ttl) (\<lambda>r _. r \<noteq> None) (\<lambda>_ _. True)"
  by (auto simp: register_reader_def triple_def thenE_def bindE_def returnE_def split: prod.split sum.split)

lemma await_writer_step:
  fixes m :: "(('w, 'l) rw_state, unit option) prog"
  assumes k: "t \<le> deadline \<Longrightarrow> triple (\<lambda>s. t + 10000000 \<le> rc_now rc (rs_world s)) (await_writer c rc key deadline n m) (\<lambda>r _. r \<noteq> None) (\<lambda>_ _. True)"
    and m: "\<And>P. triple P m (\<lambda>r _. r \<noteq> None) (\<lambda>_ _. True)"
  shows "triple (\<lambda>s. t \<le> rc_now rc (rs_world s)) (await_writer c rc key deadline (Suc n) m) (\<lambda>r _. r \<noteq> None) (\<lambda>_ _. True)"
proof -
  let ?P = "\<lambda>t (s :: ('w, 'l) rw_state). t \<le> rc_now rc (rs_world s)" and ?Q = "\<lambda>r _. r \<noteq> None"
  have clock: "triple (?P t) (clock rc) (\<lambda>now s. ?P t s \<and> t \<le> now) (\<lambda>_ _. True)" by (auto simp: triple_def clock_def getsE_def)
  have slept: "triple (?P t) (modifyE (\<lambda>s. s\<lparr>rs_world := rc_sleep rc 10000000 (rs_world s)\<rparr>)) (\<lambda>_. ?P (t + 10000000)) (\<lambda>_ _. True)"
  proof -
    have "t \<le> rc_now rc w \<Longrightarrow> t + 10000000 \<le> rc_now rc (rc_sleep rc 10000000 w)" for w using sleep [of w 10000000] by simp
    then show ?thesis by (auto simp: triple_def modifyE_def)
  qed
  have polled: "triple (\<lambda>s. ?P t s \<and> t \<le> now) (if now > deadline then raiseE ErrWriteLockTimeout
      else thenE (modifyE (\<lambda>s. s\<lparr>rs_world := rc_sleep rc 10000000 (rs_world s)\<rparr>)) (await_writer c rc key deadline n m)) ?Q (\<lambda>_ _. True)" for now
    using k by (intro triple_assume) (cases "deadline < now", simp_all only: if_True if_False, auto intro!: triple_raiseE triple_thenE [OF slept])
  have failed: "triple (?P t) (after_error c rc e (bindE (lo_RLock (rw_fallback c) key) (\<lambda>_. returnE (Some ()))) (raiseE e)) ?Q (\<lambda>_ _. True)" for e
    by (auto simp: rw_paths triple_def thenE_def bindE_def raiseE_def returnE_def in_local_def split: prod.splits sum.splits)
  show ?thesis
    unfolding await_writer.simps
  proof (rule triple_bindE [OF triple_pre [OF keeps_attemptE [OF keeps_later(1) [OF refl exists]]]])
    fix r
    show "triple (?P t) (case r of Inl e \<Rightarrow> after_error c rc e (bindE (lo_RLock (rw_fallback c) key) (\<lambda>_. returnE (Some ()))) (raiseE e)
      | Inr present \<Rightarrow> if \<not> present then m else bindE (clock rc) (\<lambda>now. if now > deadline then raiseE ErrWriteLockTimeout
          else thenE (modifyE (\<lambda>s. s\<lparr>rs_world := rc_sleep rc 10000000 (rs_world s)\<rparr>)) (await_writer c rc key deadline n m))) ?Q (\<lambda>_ _. True)"
      using failed m triple_bindE [OF clock polled] by (cases r) (simp_all only: sum.case split: if_split, blast)
  qed
qed

lemma await_writer_ends:
  assumes "\<And>P. triple P m (\<lambda>r _. r \<noteq> None) (\<lambda>_ _. True)" "deadline < t + 10000000 * int n"
  shows "triple (\<lambda>s. t \<le> rc_now rc (rs_world s)) (await_writer c rc key deadline (Suc n) m) (\<lambda>r _. r \<noteq> None) (\<lambda>_ _. True)"
  using assms(2)
proof (induction n arbitrary: t)
  case 0
  then show ?case by (intro await_writer_step assms(1)) simp
next
  case (Suc n)
  then show ?case by (intro await_writer_step assms(1) Suc.IH) (simp add: algebra_simps)
qed

lemma writer_wait_ends:
  assumes "await_writer c rc key (rc_now rc (rs_world s) + ttl) (poll_limit ttl) (register_reader c rc key i ttl') s = (Inr a, t)"
  shows "a \<noteq> None"
proof -
  obtain n where n: "poll_limit ttl = Suc n" "ttl < 10000000 * int n" using poll_limit_enough by blast
  then have "triple (\<lambda>u. rc_now rc (rs_world s) \<le> rc_now rc (rs_world u))
      (await_writer c rc key (rc_now rc (rs_world s) + ttl) (Suc n) (register_reader c rc key i ttl')) (\<lambda>r _. r \<noteq> None) (\<lambda>_ _. True)"
    by (intro await_writer_ends register_reader_ends) simp
  from triple_Inr [OF this, of s] show ?thesis using assms by (simp add: n(1) del: await_writer.simps)
qed

end

end
