(* ===== verification/Redis_RWLock_Props.thy ===== *)
theory Redis_RWLock_Props
  imports Redis_RWLock_Laws "HOL-Library.AList"
begin

text \<open>
  What the lock over Redis guarantees: locks of others hold, a lock that is free can be taken and given back, an open circuit breaker keeps the server out, the waiting
  loops end; and where it falls short: a reader can slip in beside a writer, and the readers of one instance share their entry. An example server shows that the laws
  can hold.
\<close>

section \<open>One client alone\<close>

text \<open>Every command is answered.\<close>

definition answering :: "'w redis_client \<Rightarrow> bool" where
  "answering rc \<longleftrightarrow>
     (\<forall>k v t w. \<exists>b u. rc_SetNX rc k v t w = (Inr b, u)) \<and> (\<forall>k w. \<exists>b u. rc_Exists rc k w = (Inr b, u)) \<and> (\<forall>k w. \<exists>l u. rc_HGetAll rc k w = (Inr l, u)) \<and>
     (\<forall>k f t w. \<exists>u. rc_HSet rc k f t w = (Inr (), u)) \<and> (\<forall>k f w. \<exists>u. rc_HDel rc k f w = (Inr (), u)) \<and>
     (\<forall>p w. (\<forall>u. \<exists>n u'. p u = (Inr n, u')) \<longrightarrow> (\<exists>n u'. rc_Eval rc p w = (Inr n, u')))"

lemma allow_closed: "cb_openedAt (rs_breaker s) = None \<Longrightarrow> allow_request rc s = (Inr True, s)"
  by (simp add: allow_request_def AllowRequest_def)

locale redis_alone = redis_server rc store "(=)" for rc :: "'w redis_client" and store +
  assumes answers: "answering rc"
begin

lemma alone:
  assumes "performs store (rc_now rc) (=) ans effect m" "m w = (Inr x, u)"
  shows "ans (store w) x \<and> store u = effect (store w) \<and> rc_now rc w \<le> rc_now rc u"
  using assms by (auto simp: performs_def dest!: spec [of _ w])

lemma answered:
  "\<exists>b u. rc_SetNX rc k v ttl w = (Inr b, u)" "\<exists>b u. rc_Exists rc k w = (Inr b, u)" "\<exists>l u. rc_HGetAll rc k w = (Inr l, u)"
  "\<exists>u. rc_HSet rc k f t w = (Inr (), u)" "\<exists>u. rc_HDel rc k f w = (Inr (), u)"
  "(\<And>u. \<exists>n u'. q u = (Inr n, u')) \<Longrightarrow> \<exists>n u'. rc_Eval rc q w = (Inr n, u')"
  using answers by (simp_all add: answering_def)

lemma setnx_alone: "\<exists>u. rc_SetNX rc k v ttl w = (Inr (st_val (store w) k = None), u) \<and>
    store u = (if st_val (store w) k = None then (store w)\<lparr>st_val := (st_val (store w))(k \<mapsto> v)\<rparr> else store w) \<and> rc_now rc w \<le> rc_now rc u"
proof -
  obtain b u where run: "rc_SetNX rc k v ttl w = (Inr b, u)" using answered(1) by blast
  with alone [OF setnx run] show ?thesis by simp
qed

lemma hgetall_alone: "\<exists>l u. rc_HGetAll rc k w = (Inr l, u) \<and> distinct (map fst l) \<and> map_of l = st_hash (store w) k \<and> store u = store w \<and> rc_now rc w \<le> rc_now rc u"
proof -
  obtain l u where run: "rc_HGetAll rc k w = (Inr l, u)" using answered(3) by blast
  with alone [OF hgetall run] show ?thesis by simp
qed

lemma exists_alone: "\<exists>u. rc_Exists rc k w = (Inr (st_val (store w) k \<noteq> None), u) \<and> store u = store w"
proof -
  obtain b u where run: "rc_Exists rc k w = (Inr b, u)" using answered(2) by blast
  with alone [OF exists run] show ?thesis by simp
qed

lemma hset_alone: "\<exists>u. rc_HSet rc k f t w = (Inr (), u) \<and> store u = (store w)\<lparr>st_hash := (st_hash (store w))(k := (st_hash (store w) k)(f \<mapsto> t))\<rparr>"
proof -
  obtain u where run: "rc_HSet rc k f t w = (Inr (), u)" using answered(4) by blast
  with alone [OF hset run] show ?thesis by simp
qed

lemma hdel_alone: "\<exists>u. rc_HDel rc k f w = (Inr (), u) \<and> store u = (store w)\<lparr>st_hash := (st_hash (store w))(k := (st_hash (store w) k)(f := None))\<rparr>"
proof -
  obtain u where run: "rc_HDel rc k f w = (Inr (), u)" using answered(5) by blast
  with alone [OF hdel run] show ?thesis by simp
qed

lemma unlock_alone: "\<exists>n u. rc_Eval rc (unlockScript rc k tok) w = (Inr n, u) \<and> (st_val (store w) k = Some tok \<longrightarrow> st_val (store u) k = None)"
proof -
  have script: "\<exists>n v. unlockScript rc k tok u = (Inr n, v) \<and> (st_val (store u) k = Some tok \<longrightarrow> st_val (store v) k = None)" for u
  proof -
    obtain n v where "rc_del rc k u = (Inr n, v)" "store v = (store u)\<lparr>st_val := (st_val (store u))(k := None)\<rparr>" using del [of k u] by blast
    then show ?thesis by (simp add: unlockScript_def bindE_def get returnE_def)
  qed
  then obtain n u where run: "rc_Eval rc (unlockScript rc k tok) w = (Inr n, u)" using answered(6) [of "unlockScript rc k tok" w] by blast
  obtain v q v' where v: "unlockScript rc k tok v = (q, v')" "store v = store w" "store u = store v'" using eval [OF run] by (auto simp del: split_paired_Ex)
  have "st_val (store v) k = Some tok \<longrightarrow> st_val (store v') k = None" using script [of v] v(1) by simp
  with run v(2,3) show ?thesis by simp
qed

lemma none_active:
  assumes "\<And>i t. (i, Stamp t) \<in> set l \<Longrightarrow> t \<le> n"
  shows "\<exists>u. active_readers rc k n l s = (Inr 0, s\<lparr>rs_world := u\<rparr>) \<and> st_val (store u) = st_val (store (rs_world s))"
  using assms
proof (induction l arbitrary: s)
  case (Cons r l)
  obtain u where u: "rc_HDel rc k (fst r) (rs_world s) = (Inr (), u)" "st_val (store u) = st_val (store (rs_world s))"
    using hdel_alone [of k "fst r" "rs_world s"] by auto
  obtain v where "active_readers rc k n l (s\<lparr>rs_world := u\<rparr>) = (Inr 0, s\<lparr>rs_world := v\<rparr>)" "st_val (store v) = st_val (store u)"
    using Cons.IH [of "s\<lparr>rs_world := u\<rparr>"] Cons.prems by auto
  moreover have "\<not> (case snd r of Stamp t \<Rightarrow> t > n | No_stamp _ \<Rightarrow> False)" using Cons.prems [of "fst r"] by (cases "snd r"; cases r) fastforce+
  ultimately have "active_readers rc k n (r # l) s = (Inr 0, s\<lparr>rs_world := v\<rparr>)" "st_val (store v) = st_val (store (rs_world s))"
    using u by (simp_all add: thenE_def bindE_def ignoreE_def attemptE_def in_world_def returnE_def)
  then show ?case by blast
next
  case Nil
  have "active_readers rc k n [] s = (Inr 0, s\<lparr>rs_world := rs_world s\<rparr>)" by (simp add: returnE_def)
  then show ?case by blast
qed

lemma Lock_alone:
  fixes s :: "('w, 'l) rw_state"
  assumes "cb_openedAt (rs_breaker s) = None" "0 < ry_MaxAttempts (rw_retryConfig c)" "st_val (store (rs_world s)) (writer_key c key) = None"
    and old: "\<And>i t. st_hash (store (rs_world s)) (readers_key c key) i = Some (Stamp t) \<Longrightarrow> t \<le> unix (rc_now rc (rs_world s))"
  obtains tok u cb where "redis_Lock c rc key ttl s = (Inr (), s\<lparr>rs_world := u, rs_tokens := (rs_tokens s)(key \<mapsto> (tok, ttl)), rs_breaker := cb\<rparr>)"
    "st_val (store u) (writer_key c key) = Some tok" "cb_openedAt cb = None"
proof -
  let ?wk = "writer_key c key" and ?rk = "readers_key c key"
  obtain n where n: "nat (ry_MaxAttempts (rw_retryConfig c)) = Suc n" using assms(2) by (metis gr0_implies_Suc zero_less_nat_eq)
  obtain m where m: "poll_limit ttl = Suc m" by (simp add: poll_limit_def)
  obtain tok w1 where 1: "rc_token rc (rs_world s) = (tok, w1)" by fastforce
  have w1: "store w1 = store (rs_world s)" "rc_now rc (rs_world s) \<le> rc_now rc w1" using token [of "rs_world s"] 1 by simp_all
  obtain w2 where 2: "rc_SetNX rc ?wk tok ttl w1 = (Inr True, w2)" "store w2 = (store w1)\<lparr>st_val := (st_val (store w1))(?wk \<mapsto> tok)\<rparr>" "rc_now rc w1 \<le> rc_now rc w2"
    using setnx_alone [of ?wk tok ttl w1] assms(3) w1(1) by auto
  let ?s2 = "s\<lparr>rs_world := w2, rs_tokens := (rs_tokens s)(key \<mapsto> (tok, ttl))\<rparr>"
  obtain l w3 where 3: "rc_HGetAll rc ?rk w2 = (Inr l, w3)" "distinct (map fst l)" "map_of l = st_hash (store w2) ?rk" "store w3 = store w2" "rc_now rc w2 \<le> rc_now rc w3"
    using hgetall_alone [of ?rk w2] by blast
  have "t \<le> unix (rc_now rc w3)" if "(i, Stamp t) \<in> set l" for i t
  proof -
    have "map_of l i = Some (Stamp t)" using that 3(2) by simp
    then have "t \<le> unix (rc_now rc (rs_world s))" using old [of i t] by (simp add: 3(3) 2(2) w1(1))
    also have "\<dots> \<le> unix (rc_now rc w3)" using w1(2) 2(3) 3(5) by (intro unix_mono) simp
    finally show ?thesis .
  qed
  then obtain u where 4: "active_readers rc ?rk (unix (rc_now rc w3)) l (?s2\<lparr>rs_world := w3\<rparr>) = (Inr 0, ?s2\<lparr>rs_world := u\<rparr>)" "st_val (store u) = st_val (store w3)"
    using none_active [of l "unix (rc_now rc w3)" ?rk "?s2\<lparr>rs_world := w3\<rparr>"] by auto
  have "await_readers c rc key tok (rc_now rc w2 + ttl) (poll_limit ttl) ?s2 = (Inr Clear, ?s2\<lparr>rs_world := u, rs_breaker := RecordSuccess (rs_breaker s)\<rparr>)"
    using 3(1) 4(1) by (simp add: m bindE_def attemptE_def in_world_def clock_def getsE_def thenE_def record_success_def modifyE_def returnE_def)
  then have "redis_Lock c rc key ttl s = (Inr (), s\<lparr>rs_world := u, rs_tokens := (rs_tokens s)(key \<mapsto> (tok, ttl)), rs_breaker := RecordSuccess (rs_breaker s)\<rparr>)"
    using 1 2(1) n
    by (simp add: redis_Lock_def guarded_def bindE_def allow_closed [OF assms(1)] thenE_def whenE_def returnE_def draw_def attemptE_def in_world_def store_token_def modifyE_def clock_def getsE_def)
  then show thesis using that 4(2) 3(4) 2(2) by (simp add: RecordSuccess_def)
qed

lemma Unlock_alone:
  fixes s :: "('w, 'l) rw_state"
  assumes "cb_openedAt (rs_breaker s) = None" "rs_tokens s key = Some (tok, ttl)" "st_val (store (rs_world s)) (writer_key c key) = Some tok"
  shows "\<exists>t. redis_Unlock c rc key s = (Inr (), t) \<and> st_val (store (rs_world t)) (writer_key c key) = None \<and> rs_tokens t key = None"
proof -
  obtain n u where u: "rc_Eval rc (unlockScript rc (writer_key c key) tok) (rs_world s) = (Inr n, u)" "st_val (store u) (writer_key c key) = None"
    using unlock_alone [of "writer_key c key" tok "rs_world s"] assms(3) by auto
  have "redis_Unlock c rc key s = (Inr (), s\<lparr>rs_tokens := (rs_tokens s)(key := None), rs_world := u\<rparr>)"
    using u(1) assms(2)
    by (simp add: redis_Unlock_def unless_degraded_def bindE_def allow_closed [OF assms(1)] getsE_def thenE_def delete_token_def modifyE_def in_world_def returnE_def)
  then show ?thesis using u(2) by simp
qed

text \<open>A reader of this client, while nobody writes.\<close>

lemma RLock_alone:
  fixes s :: "('w, 'l) rw_state"
  assumes "cb_openedAt (rs_breaker s) = None" "st_val (store (rs_world s)) (writer_key c key) = None" "rs_readerID s \<noteq> []"
  obtains u cb where "redis_RLock c rc key ttl s = (Inr (), s\<lparr>rs_world := u, rs_breaker := cb\<rparr>)" "cb_openedAt cb = None"
    "st_val (store u) (writer_key c key) = None" "st_hash (store u) (readers_key c key) (rs_readerID s) \<noteq> None"
proof -
  obtain m where m: "poll_limit ttl = Suc m" by (simp add: poll_limit_def)
  obtain w1 where 1: "rc_Exists rc (writer_key c key) (rs_world s) = (Inr False, w1)" "store w1 = store (rs_world s)"
    using exists_alone [of "writer_key c key" "rs_world s"] assms(2) by auto
  obtain u where u: "rc_HSet rc (readers_key c key) (rs_readerID s) (Stamp (unix (rc_now rc w1 + ttl))) w1 = (Inr (), u)"
    "store u = (store w1)\<lparr>st_hash := (st_hash (store w1))(readers_key c key := (st_hash (store w1) (readers_key c key))(rs_readerID s \<mapsto> Stamp (unix (rc_now rc w1 + ttl))))\<rparr>"
    using hset_alone by blast
  have "redis_RLock c rc key ttl s = (Inr (), s\<lparr>rs_world := u, rs_breaker := RecordSuccess (rs_breaker s)\<rparr>)"
    using 1(1) u(1) assms(3)
    by (simp add: redis_RLock_def guarded_def bindE_def allow_closed [OF assms(1)] getOrCreateReaderID_def getsE_def returnE_def clock_def m attemptE_def in_world_def
        register_reader_def thenE_def record_success_def modifyE_def)
  then show thesis using that 1(2) u(2) assms(2) by (simp add: RecordSuccess_def)
qed

lemma RUnlock_alone:
  fixes s :: "('w, 'l) rw_state"
  assumes "cb_openedAt (rs_breaker s) = None" "rs_readerID s \<noteq> []"
  shows "\<exists>u. redis_RUnlock c rc key s = (Inr (), s\<lparr>rs_world := u\<rparr>) \<and> st_hash (store u) (readers_key c key) (rs_readerID s) = None"
proof -
  obtain u where u: "rc_HDel rc (readers_key c key) (rs_readerID s) (rs_world s) = (Inr (), u)" "st_hash (store u) (readers_key c key) (rs_readerID s) = None"
    using hdel_alone [of "readers_key c key" "rs_readerID s" "rs_world s"] by auto
  have "redis_RUnlock c rc key s = (Inr (), s\<lparr>rs_world := u\<rparr>)"
    using u(1) assms(2) by (simp add: redis_RUnlock_def unless_degraded_def bindE_def allow_closed [OF assms(1)] getOrCreateReaderID_def getsE_def returnE_def in_world_def)
  with u(2) show ?thesis by blast
qed

lemma TryLock_alone:
  fixes s :: "('w, 'l) rw_state"
  assumes "cb_openedAt (rs_breaker s) = None" "st_val (store (rs_world s)) (writer_key c key) = None" "st_hash (store (rs_world s)) (readers_key c key) = Map.empty"
  shows "\<exists>t. redis_TryLock c rc key ttl s = (Inr True, t) \<and> st_val (store (rs_world t)) (writer_key c key) \<noteq> None"
proof -
  obtain tok w1 where 1: "rc_token rc (rs_world s) = (tok, w1)" by fastforce
  have w1: "store w1 = store (rs_world s)" using token [of "rs_world s"] 1 by simp
  obtain w2 where 2: "rc_SetNX rc (writer_key c key) tok ttl w1 = (Inr True, w2)" "store w2 = (store w1)\<lparr>st_val := (st_val (store w1))(writer_key c key \<mapsto> tok)\<rparr>"
    using setnx_alone [of "writer_key c key" tok ttl w1] assms(2) w1 by auto
  obtain w3 where 3: "rc_HGetAll rc (readers_key c key) w2 = (Inr [], w3)" "store w3 = store w2"
    using hgetall_alone [of "readers_key c key" w2] assms(3) w1 2(2) by auto
  show ?thesis
    using 1 2 3
    by (simp add: redis_TryLock_def guarded_def bindE_def allow_closed [OF assms(1)] draw_def attemptE_def in_world_def clock_def getsE_def thenE_def store_token_def
        record_success_def modifyE_def returnE_def)
qed

end

lemma redis_aloneI: "redis_server rc store (=) \<Longrightarrow> answering rc \<Longrightarrow> redis_alone rc store"
  by (simp add: redis_alone_def redis_alone_axioms_def)

section \<open>An example server\<close>

text \<open>
  A server in memory that answers every command. The others have a list of changes that they make, one before each command, as far as \<open>ok\<close> allows them.
\<close>

datatype sim_edit = Edit_val string "string option" | Edit_hash string string "stamp option"

record sim_world =
  sw_vals :: "(string \<times> string) list"
  sw_hashes :: "string \<Rightarrow> (string \<times> stamp) list"
  sw_now :: int
  sw_drawn :: nat
  sw_pending :: "sim_edit list"

definition sim_store :: "sim_world \<Rightarrow> redis_store" where
  "sim_store w = \<lparr>st_val = map_of (sw_vals w), st_hash = (\<lambda>k. map_of (sw_hashes w k))\<rparr>"

definition put_key :: "'k \<Rightarrow> 'v option \<Rightarrow> ('k \<times> 'v) list \<Rightarrow> ('k \<times> 'v) list" where
  "put_key k v l = (case v of None \<Rightarrow> AList.delete k l | Some x \<Rightarrow> AList.update k x l)"

lemma map_of_put_key [simp]: "map_of (put_key k v l) = (map_of l)(k := v)"
  by (auto simp: put_key_def delete_conv update_conv split: option.split)

fun sim_change :: "sim_edit \<Rightarrow> sim_world \<Rightarrow> sim_world" where
  "sim_change (Edit_val k v) w = w\<lparr>sw_vals := put_key k v (sw_vals w)\<rparr>"
| "sim_change (Edit_hash k f t) w = w\<lparr>sw_hashes := (sw_hashes w)(k := put_key f t (sw_hashes w k))\<rparr>"

fun edit_store :: "sim_edit \<Rightarrow> redis_store \<Rightarrow> redis_store" where
  "edit_store (Edit_val k v) a = a\<lparr>st_val := (st_val a)(k := v)\<rparr>"
| "edit_store (Edit_hash k f t) a = a\<lparr>st_hash := (st_hash a)(k := (st_hash a k)(f := t))\<rparr>"

definition sim_others :: "(sim_edit \<Rightarrow> bool) \<Rightarrow> redis_store \<Rightarrow> redis_store \<Rightarrow> bool" where
  "sim_others ok a b \<longleftrightarrow> a = b \<or> (\<exists>e. ok e \<and> b = edit_store e a)"

definition sim_step :: "(sim_edit \<Rightarrow> bool) \<Rightarrow> sim_world \<Rightarrow> sim_world" where
  "sim_step ok w = (case sw_pending w of [] \<Rightarrow> w | e # es \<Rightarrow> (if ok e then sim_change e w else w)\<lparr>sw_pending := es\<rparr>)"

definition sim_command :: "(sim_edit \<Rightarrow> bool) \<Rightarrow> (sim_world \<Rightarrow> 'a) \<Rightarrow> (sim_world \<Rightarrow> sim_world) \<Rightarrow> (sim_world, 'a) prog" where
  "sim_command ok answer effect w = (let v = sim_step ok w in (Inr (answer v), effect v))"

definition sim_redis :: "(sim_edit \<Rightarrow> bool) \<Rightarrow> sim_world redis_client" where
  "sim_redis ok =
     \<lparr>rc_now = sw_now,
      rc_wait = (\<lambda>d w. (Inr (), w\<lparr>sw_now := sw_now w + max 0 d\<rparr>)),
      rc_float = (\<lambda>w. (0, w)), rc_out = (\<lambda>_. - (2 ^ 63)),
      rc_SetNX = (\<lambda>k v ttl. sim_command ok (\<lambda>w. map_of (sw_vals w) k = None) (\<lambda>w. if map_of (sw_vals w) k = None then sim_change (Edit_val k (Some v)) w else w)),
      rc_Exists = (\<lambda>k. sim_command ok (\<lambda>w. map_of (sw_vals w) k \<noteq> None) (\<lambda>w. w)),
      rc_HGetAll = (\<lambda>k. sim_command ok (\<lambda>w. AList.clearjunk (sw_hashes w k)) (\<lambda>w. w)),
      rc_HSet = (\<lambda>k f t. sim_command ok (\<lambda>_. ()) (sim_change (Edit_hash k f (Some t)))),
      rc_HDel = (\<lambda>k f. sim_command ok (\<lambda>_. ()) (sim_change (Edit_hash k f None))),
      rc_Eval = (\<lambda>p w. p (sim_step ok w)),
      rc_get = (\<lambda>k. getsE (\<lambda>w. map_of (sw_vals w) k)),
      rc_del = (\<lambda>k w. (Inr (of_bool (map_of (sw_vals w) k \<noteq> None)), sim_change (Edit_val k None) w)),
      rc_pexpire = (\<lambda>k _. getsE (\<lambda>w. of_bool (map_of (sw_vals w) k \<noteq> None))),
      rc_sleep = (\<lambda>d w. w\<lparr>sw_now := sw_now w + max 0 d\<rparr>),
      rc_token = (\<lambda>w. (CHR ''t'' # replicate (sw_drawn w) CHR ''t'', w\<lparr>sw_drawn := Suc (sw_drawn w)\<rparr>))\<rparr>"

lemma sim_change_store [simp]: "sim_store (sim_change e w) = edit_store e (sim_store w)" "sw_now (sim_change e w) = sw_now w"
  by (cases e; simp add: sim_store_def fun_eq_iff)+

lemma sim_store_simps [simp]:
  "sim_store (w\<lparr>sw_now := t\<rparr>) = sim_store w" "sim_store (w\<lparr>sw_drawn := n\<rparr>) = sim_store w" "sim_store (w\<lparr>sw_pending := p\<rparr>) = sim_store w"
  by (simp_all add: sim_store_def)

lemma sim_step_store: "sim_others ok (sim_store w) (sim_store (sim_step ok w))" "sw_now (sim_step ok w) = sw_now w"
  by (auto simp: sim_step_def sim_others_def split: list.split)

lemma sim_command_performs:
  assumes "\<And>w. answers (sim_store w) (answer w)" "\<And>w. sim_store (g w) = effect (sim_store w)" "\<And>w. sw_now (g w) = sw_now w"
  shows "performs sim_store sw_now (sim_others ok) answers effect (sim_command ok answer g)"
proof -
  have "sim_others ok (sim_store w) (sim_store (sim_step ok w)) \<and> sim_others ok (effect (sim_store (sim_step ok w))) (sim_store (g (sim_step ok w)))" for w
    using sim_step_store(1) [of ok w] by (simp add: assms(2) sim_others_def)
  then show ?thesis using assms by (auto simp: performs_def sim_command_def Let_def sim_step_store(2))
qed

lemma sim_redis_server: "redis_server (sim_redis ok) sim_store (sim_others ok)"
proof
  show "rc_Eval (sim_redis ok) p w = (r, w') \<Longrightarrow> \<exists>u q u'. p u = (q, u') \<and> rc_now (sim_redis ok) w \<le> rc_now (sim_redis ok) u \<and> sim_others ok (sim_store w) (sim_store u) \<and>
      (r = q \<and> sim_others ok (sim_store u') (sim_store w') \<and> rc_now (sim_redis ok) u' \<le> rc_now (sim_redis ok) w' \<or>
       isl r \<and> (sim_others ok (sim_store u) (sim_store w') \<and> rc_now (sim_redis ok) u \<le> rc_now (sim_redis ok) w' \<or>
         sim_others ok (sim_store u') (sim_store w') \<and> rc_now (sim_redis ok) u' \<le> rc_now (sim_redis ok) w'))" for p w r w'
    using sim_step_store [of ok w]
    by (intro exI [of _ "sim_step ok w"] exI [of _ r] exI [of _ w'] conjI disjI1) (simp_all add: sim_redis_def sim_others_def)
qed (auto simp: sim_redis_def sim_store_def getsE_def distinct_clearjunk map_of_clearjunk sim_others_def fun_eq_iff intro!: sim_command_performs)

interpretation sim: redis_server "sim_redis ok" sim_store "sim_others ok" for ok
  by (rule sim_redis_server)

lemma sim_answering: "answering (sim_redis ok)"
  by (auto simp: answering_def sim_redis_def sim_command_def Let_def)

lemma sim_others_never: "sim_others (\<lambda>_. False) = (=)"
  by (simp add: sim_others_def fun_eq_iff)

lemma sim_alone_server: "redis_server (sim_redis (\<lambda>_. False)) sim_store (=)"
  using sim_redis_server [of "\<lambda>_. False"] by (simp add: sim_others_never)

interpretation sim_only: redis_alone "sim_redis (\<lambda>_. False)" sim_store
  by (rule redis_aloneI [OF sim_alone_server sim_answering])

text \<open>A configuration without the degraded mode and with three attempts, and a locker that has read before.\<close>

definition sim_conf :: "unit rw_conf" where
  "sim_conf = \<lparr>rw_keyPrefix = ''p:'', rw_retryConfig = \<lparr>ry_MaxAttempts = 3, ry_InitialDelay = 100000000, ry_MaxDelay = 2000000000, ry_Jitter = False, ry_JitterFactor = Float 0\<rparr>,
     rw_allowDegradedMode = False, rw_fallback = \<lparr>lo_Lock = \<lambda>_. returnE (), lo_TryLock = \<lambda>_. returnE True, lo_Unlock = \<lambda>_. returnE (), lo_RLock = \<lambda>_. returnE (), lo_RUnlock = \<lambda>_. returnE ()\<rparr>\<rparr>"

definition sim_world0 :: "(string \<times> string) list \<Rightarrow> (string \<times> stamp) list \<Rightarrow> sim_world" where
  "sim_world0 vals hash = \<lparr>sw_vals = vals, sw_hashes = (\<lambda>_. hash), sw_now = 0, sw_drawn = 0, sw_pending = []\<rparr>"

definition sim_state :: "circuit_breaker \<Rightarrow> sim_world \<Rightarrow> (sim_world, unit) rw_state" where
  "sim_state cb w = \<lparr>rs_world = w, rs_breaker = cb, rs_local = (), rs_tokens = Map.empty, rs_readerID = ''me''\<rparr>"

lemmas sim_setting = sim_conf_def sim_world0_def sim_state_def sim_store_def writer_key_def readers_key_def

section \<open>Guarantees\<close>

text \<open>C15. A write lock that another client holds survives every sequence of operations of this locker, whatever fails, as long as the tokens differ.\<close>

theorem redis_never_steals:
  fixes s :: "('w, 'l) rw_state"
  assumes "redis_server rc store others" "keeps_writing others k v" "\<And>w. fst (rc_token rc w) \<noteq> v" "foreign_writer store k v s"
  shows "foreign_writer store k v (fold (\<lambda>op s. snd (rw_run c rc op s)) ops s)"
  using assms(4)
proof (induction ops arbitrary: s)
  case (Cons op ops)
  then show ?case using redis_server.never_steals [OF assms(1-3), of c op] by (simp add: keeps_def)
qed simp

definition not_writer :: "string \<Rightarrow> sim_edit \<Rightarrow> bool" where
  "not_writer k e = (case e of Edit_val k' _ \<Rightarrow> k' \<noteq> k | Edit_hash _ _ _ \<Rightarrow> True)"

lemma not_writer_keeps: "keeps_writing (sim_others (not_writer k)) k v"
proof -
  have "st_val (edit_store e a) k = st_val a k" if "not_writer k e" for e a using that by (cases e) (auto simp: not_writer_def)
  then show ?thesis by (auto simp: keeps_writing_def sim_others_def)
qed

lemma sim_token: "fst (rc_token (sim_redis ok) w) \<noteq> ''other''"
  by (simp add: sim_redis_def)

lemma redis_never_steals_witness:
  "foreign_writer sim_store ''p:{a}:writer'' ''other'' (fold (\<lambda>op s. snd (rw_run sim_conf (sim_redis (not_writer ''p:{a}:writer'')) op s)) [Op_Lock ''a'' 50000000, Op_Unlock ''a'']
     (sim_state (cb_New 5 60000000000) (sim_world0 [(''p:{a}:writer'', ''other'')] [])))"
  by (rule redis_never_steals [OF sim_redis_server not_writer_keeps sim_token]) (simp add: foreign_writer_def sim_setting)

text \<open>C16. While another client holds the write lock, neither a write lock nor a read lock is granted, unless the degraded mode puts the local lock in its place.\<close>

theorem redis_writer_excludes:
  assumes "redis_server rc store others" "keeps_writing others (writer_key c key) v" "\<And>w. fst (rc_token rc w) \<noteq> v" "\<not> rw_allowDegradedMode c"
    and "foreign_writer store (writer_key c key) v s"
  shows "fst (redis_Lock c rc key ttl s) \<noteq> Inr () \<and> fst (redis_TryLock c rc key ttl s) \<noteq> Inr True \<and> fst (redis_RLock c rc key ttl s) \<noteq> Inr ()"
  using redis_server.writer_excludes [OF assms] by blast

lemma redis_writer_excludes_witness:
  "let s = sim_state (cb_New 5 60000000000) (sim_world0 [(''p:{a}:writer'', ''other'')] []); rc = sim_redis (not_writer (writer_key sim_conf ''a''))
   in fst (redis_Lock sim_conf rc ''a'' 50000000 s) \<noteq> Inr () \<and> fst (redis_TryLock sim_conf rc ''a'' 50000000 s) \<noteq> Inr True \<and> fst (redis_RLock sim_conf rc ''a'' 50000000 s) \<noteq> Inr ()"
  unfolding Let_def
  by (rule redis_writer_excludes [OF sim_redis_server not_writer_keeps sim_token]) (simp_all add: foreign_writer_def sim_setting)

text \<open>C17. While another client is registered as a reader until the second \<open>e\<close>, a write lock is granted at the earliest when that second has come.\<close>

theorem redis_reader_excludes:
  assumes "redis_server rc store others" "keeps_reading others (readers_key c key) i e" "\<not> rw_allowDegradedMode c"
    and "st_hash (store (rs_world s)) (readers_key c key) i = Some (Stamp e)"
    and "redis_Lock c rc key ttl s = (Inr (), t) \<or> redis_TryLock c rc key ttl s = (Inr True, t)"
  shows "e \<le> unix (rc_now rc (rs_world t))"
  using redis_server.reader_excludes [OF assms(1-4)] assms(5) by blast

definition not_reader :: "string \<Rightarrow> sim_edit \<Rightarrow> bool" where
  "not_reader k e = (case e of Edit_hash k' _ _ \<Rightarrow> k' \<noteq> k | Edit_val _ _ \<Rightarrow> True)"

lemma not_reader_keeps: "keeps_reading (sim_others (not_reader k)) k i e"
proof -
  have "st_hash (edit_store d a) k = st_hash a k" if "not_reader k d" for d a using that by (cases d) (auto simp: not_reader_def)
  then show ?thesis by (auto simp: keeps_reading_def sim_others_def)
qed

text \<open>A reader that runs out at the first second.\<close>

definition sim_at :: "int \<Rightarrow> (sim_world, unit) rw_state" where
  "sim_at t = sim_state (cb_New 5 60000000000) ((sim_world0 [] [(''other'', Stamp 1)])\<lparr>sw_now := t\<rparr>)"

text \<open>The runs below do not back off; evaluation leaves the delays alone.\<close>

declare calculateBackoff_def [code del]

lemma redis_reader_excludes_witness:
  "let r = redis_Lock sim_conf (sim_redis (not_reader (readers_key sim_conf ''a''))) ''a'' 50000000 (sim_at 980000000)
   in fst r = Inr () \<and> 1 \<le> unix (sw_now (rs_world (snd r)))"
proof -
  let ?s = "sim_at 980000000" and ?rc = "sim_redis (not_reader (readers_key sim_conf ''a''))" and ?r = "redis_Lock sim_conf (sim_redis (not_reader (readers_key sim_conf ''a''))) ''a'' 50000000 (sim_at 980000000)"
  have run: "fst ?r = Inr ()" by code_simp
  then have "1 \<le> unix (rc_now ?rc (rs_world (snd ?r)))"
    by (intro redis_reader_excludes [OF sim_redis_server not_reader_keeps, where s = ?s])
      (auto simp: sim_at_def sim_setting prod_eq_iff)
  with run show ?thesis by (simp add: Let_def) (simp add: sim_redis_def)
qed

text \<open>C30. Alone with the server, with no writer and only readers that have run out, a client gets the write lock, and giving it back removes the key.\<close>

theorem redis_lock_roundtrip:
  fixes s :: "('w, 'l) rw_state"
  assumes "redis_server rc store (=)" "answering rc"
    and "cb_openedAt (rs_breaker s) = None" "0 < ry_MaxAttempts (rw_retryConfig c)" "st_val (store (rs_world s)) (writer_key c key) = None"
    and "\<And>i t. st_hash (store (rs_world s)) (readers_key c key) i = Some (Stamp t) \<Longrightarrow> t \<le> unix (rc_now rc (rs_world s))"
  shows "\<exists>t. redis_Lock c rc key ttl s = (Inr (), t) \<and> st_val (store (rs_world t)) (writer_key c key) \<noteq> None \<and>
    (\<exists>u. redis_Unlock c rc key t = (Inr (), u) \<and> st_val (store (rs_world u)) (writer_key c key) = None \<and> rs_tokens u key = None)"
proof -
  obtain tok u cb where lock: "redis_Lock c rc key ttl s = (Inr (), s\<lparr>rs_world := u, rs_tokens := (rs_tokens s)(key \<mapsto> (tok, ttl)), rs_breaker := cb\<rparr>)"
    "st_val (store u) (writer_key c key) = Some tok" "cb_openedAt cb = None"
    by (rule redis_alone.Lock_alone [OF redis_aloneI [OF assms(1,2)] assms(3-6)])
  then show ?thesis
    using redis_alone.Unlock_alone [OF redis_aloneI [OF assms(1,2)], of "s\<lparr>rs_world := u, rs_tokens := (rs_tokens s)(key \<mapsto> (tok, ttl)), rs_breaker := cb\<rparr>" key tok ttl c]
    by simp
qed

lemma redis_lock_roundtrip_witness:
  "\<exists>t. redis_Lock sim_conf (sim_redis (\<lambda>_. False)) ''a'' 50000000 (sim_at 2000000000) = (Inr (), t) \<and> st_val (sim_store (rs_world t)) (writer_key sim_conf ''a'') \<noteq> None \<and>
    (\<exists>u. redis_Unlock sim_conf (sim_redis (\<lambda>_. False)) ''a'' t = (Inr (), u) \<and> st_val (sim_store (rs_world u)) (writer_key sim_conf ''a'') = None \<and> rs_tokens u ''a'' = None)"
  by (rule redis_lock_roundtrip [OF sim_alone_server sim_answering]) (auto simp: sim_at_def sim_setting cb_New_def sim_redis_def unix_def split: if_splits)

text \<open>C31. The waiting loops of \<open>Lock\<close> and \<open>RLock\<close> end within the polls that fit into the time to live, however the others act, since every poll takes at least 10 ms.\<close>

theorem redis_waits_end:
  assumes "redis_server rc store others"
  shows "fst (await_readers c rc key token (rc_now rc (rs_world s) + ttl) (poll_limit ttl) s) \<noteq> Inr Unfinished \<and>
    fst (await_writer c rc key (rc_now rc (rs_world s) + ttl) (poll_limit ttl) (register_reader c rc key i ttl) s) \<noteq> Inr None"
  using redis_server.readers_wait_ends [OF assms, of c key token s ttl] redis_server.writer_wait_ends [OF assms, of c key s ttl i ttl]
  by (metis prod.collapse)

lemma redis_waits_end_witness:
  "fst (await_readers sim_conf (sim_redis (\<lambda>_. True)) ''a'' ''t'' (rc_now (sim_redis (\<lambda>_. True)) (rs_world (sim_at 0)) + 50000000) (poll_limit 50000000) (sim_at 0)) \<noteq> Inr Unfinished"
  using redis_waits_end [OF sim_redis_server, of sim_conf "\<lambda>_. True" "''a''" "''t''" "sim_at 0" 50000000] by blast

text \<open>With the circuit breaker open and no degraded mode every operation that takes a lock fails at once, and the server is not asked.\<close>

theorem redis_open_breaker:
  assumes "State (rc_now rc (rs_world s)) (rs_breaker s) = StateOpen" "\<not> rw_allowDegradedMode c"
  shows "redis_Lock c rc key ttl s = (Inl ErrCircuitBreakerOpen, s) \<and> redis_TryLock c rc key ttl s = (Inl ErrCircuitBreakerOpen, s) \<and>
    redis_RLock c rc key ttl s = (Inl ErrCircuitBreakerOpen, s)"
proof -
  have "allow_request rc s = (Inr False, s)"
    using assms(1) by (auto simp: allow_request_def State_def AllowRequest_def split: option.splits if_splits)
  then show ?thesis using assms(2) by (simp add: rw_ops guarded_def bindE_def raiseE_def)
qed

lemma redis_open_breaker_witness:
  "redis_Lock sim_conf (sim_redis (\<lambda>_. True)) ''a'' 50000000 (sim_state (ForceOpen 0 (cb_New 5 60000000000)) (sim_world0 [] [])) =
     (Inl ErrCircuitBreakerOpen, sim_state (ForceOpen 0 (cb_New 5 60000000000)) (sim_world0 [] []))"
  using redis_open_breaker [of "sim_redis (\<lambda>_. True)" "sim_state (ForceOpen 0 (cb_New 5 60000000000)) (sim_world0 [] [])" sim_conf "''a''" 50000000]
  by (simp add: sim_setting State_def ForceOpen_def cb_New_def sim_redis_def)

section \<open>Shortcomings\<close>

text \<open>The readers of one locker share their entry: after two of them have come and one has gone, none is registered, and a writer gets the lock beside the other one.\<close>

theorem redis_readers_share_entry:
  fixes s :: "('w, 'l) rw_state"
  assumes "redis_server rc store (=)" "answering rc" "cb_openedAt (rs_breaker s) = None" "rs_readerID s \<noteq> []"
    and "st_val (store (rs_world s)) (writer_key c key) = None"
  shows "\<exists>s1 s2 s3. redis_RLock c rc key ttl s = (Inr (), s1) \<and> redis_RLock c rc key ttl s1 = (Inr (), s2) \<and> redis_RUnlock c rc key s2 = (Inr (), s3) \<and>
    st_hash (store (rs_world s2)) (readers_key c key) (rs_readerID s) \<noteq> None \<and> st_hash (store (rs_world s3)) (readers_key c key) (rs_readerID s) = None"
proof -
  note alone = redis_aloneI [OF assms(1,2)]
  obtain u cb where 1: "redis_RLock c rc key ttl s = (Inr (), s\<lparr>rs_world := u, rs_breaker := cb\<rparr>)" "cb_openedAt cb = None" "st_val (store u) (writer_key c key) = None"
    by (rule redis_alone.RLock_alone [OF alone assms(3,5,4)])
  obtain v cb' where 2: "redis_RLock c rc key ttl (s\<lparr>rs_world := u, rs_breaker := cb\<rparr>) = (Inr (), s\<lparr>rs_world := v, rs_breaker := cb'\<rparr>)" "cb_openedAt cb' = None"
    "st_hash (store v) (readers_key c key) (rs_readerID s) \<noteq> None"
    by (rule redis_alone.RLock_alone [OF alone, of "s\<lparr>rs_world := u, rs_breaker := cb\<rparr>" c key ttl]) (use 1(2,3) assms(4) in simp_all)
  then show ?thesis using 1 redis_alone.RUnlock_alone [OF alone, of "s\<lparr>rs_world := v, rs_breaker := cb'\<rparr>" c key] assms(4) by auto
qed

lemma redis_readers_share_entry_witness:
  "\<exists>s1 s2 s3. redis_RLock sim_conf (sim_redis (\<lambda>_. False)) ''a'' 50000000 (sim_at 0) = (Inr (), s1) \<and> redis_RLock sim_conf (sim_redis (\<lambda>_. False)) ''a'' 50000000 s1 = (Inr (), s2) \<and>
     redis_RUnlock sim_conf (sim_redis (\<lambda>_. False)) ''a'' s2 = (Inr (), s3) \<and>
     st_hash (sim_store (rs_world s2)) (readers_key sim_conf ''a'') ''me'' \<noteq> None \<and> st_hash (sim_store (rs_world s3)) (readers_key sim_conf ''a'') ''me'' = None"
  using redis_readers_share_entry [OF sim_alone_server sim_answering, of "sim_at 0" sim_conf "''a''" 50000000] by (simp add: sim_at_def sim_setting cb_New_def)

text \<open>
  Between the moment in which a reader has seen that there is no writer and the one in which it registers itself, another client may take the write lock: then both have
  their lock. \<open>interposed rc g\<close> is the server with the run \<open>g\<close> of the other client before a registration.
\<close>

definition interposed :: "'w redis_client \<Rightarrow> ('w \<Rightarrow> 'w) \<Rightarrow> 'w redis_client" where
  "interposed rc g = rc\<lparr>rc_HSet := (\<lambda>k f t w. rc_HSet rc k f t (g w))\<rparr>"

theorem redis_reader_slips_in:
  fixes s p :: "('w, 'l) rw_state"
  assumes run: "run = (\<lambda>w. redis_TryLock c rc key ttl (p\<lparr>rs_world := w\<rparr>))"
    and "redis_server rc store (=)" "answering rc" "cb_openedAt (rs_breaker s) = None" "cb_openedAt (rs_breaker p) = None" "rs_readerID s \<noteq> []"
    and "st_val (store (rs_world s)) (writer_key c key) = None" "st_hash (store (rs_world s)) (readers_key c key) = Map.empty"
  shows "\<exists>w t. rc_Exists rc (writer_key c key) (rs_world s) = (Inr False, w) \<and> fst (run w) = Inr True \<and>
    redis_RLock c (interposed rc (\<lambda>w. rs_world (snd (run w)))) key ttl s = (Inr (), t) \<and>
    st_val (store (rs_world t)) (writer_key c key) \<noteq> None \<and> st_hash (store (rs_world t)) (readers_key c key) (rs_readerID s) \<noteq> None"
proof -
  note alone = redis_aloneI [OF assms(2,3)]
  obtain m where m: "poll_limit ttl = Suc m" by (simp add: poll_limit_def)
  obtain w where w: "rc_Exists rc (writer_key c key) (rs_world s) = (Inr False, w)" "store w = store (rs_world s)"
    using redis_alone.exists_alone [OF alone, of "writer_key c key" "rs_world s"] assms(7) by auto
  obtain t where t: "run w = (Inr True, t)" "st_val (store (rs_world t)) (writer_key c key) \<noteq> None"
    using redis_alone.TryLock_alone [OF alone, of "p\<lparr>rs_world := w\<rparr>" c key ttl] assms(5,7,8) w(2) by (auto simp: run)
  let ?e = "Stamp (unix (rc_now rc w + ttl))"
  obtain u where u: "rc_HSet rc (readers_key c key) (rs_readerID s) ?e (rs_world t) = (Inr (), u)"
    "store u = (store (rs_world t))\<lparr>st_hash := (st_hash (store (rs_world t)))(readers_key c key := (st_hash (store (rs_world t)) (readers_key c key))(rs_readerID s \<mapsto> ?e))\<rparr>"
    using redis_alone.hset_alone [OF alone] by blast
  have "redis_RLock c (interposed rc (\<lambda>w. rs_world (snd (run w)))) key ttl s = (Inr (), s\<lparr>rs_world := u, rs_breaker := RecordSuccess (rs_breaker s)\<rparr>)"
    using w(1) t(1) u(1) assms(6)
    by (simp add: redis_RLock_def guarded_def bindE_def allow_closed [OF assms(4)] getOrCreateReaderID_def getsE_def returnE_def clock_def m attemptE_def in_world_def
        register_reader_def thenE_def record_success_def modifyE_def interposed_def)
  then show ?thesis using w(1) t u(2) by simp
qed

lemma redis_reader_slips_in_witness:
  "\<exists>w t. rc_Exists (sim_redis (\<lambda>_. False)) (writer_key sim_conf ''a'') (rs_world (sim_state (cb_New 5 60000000000) (sim_world0 [] []))) = (Inr False, w) \<and>
     redis_RLock sim_conf (interposed (sim_redis (\<lambda>_. False)) (\<lambda>w. rs_world (snd (redis_TryLock sim_conf (sim_redis (\<lambda>_. False)) ''a'' 50000000
       (sim_state (cb_New 5 60000000000) (sim_world0 [] [])\<lparr>rs_world := w\<rparr>))))) ''a'' 50000000 (sim_state (cb_New 5 60000000000) (sim_world0 [] [])) = (Inr (), t) \<and>
     st_val (sim_store (rs_world t)) (writer_key sim_conf ''a'') \<noteq> None"
  using redis_reader_slips_in [OF refl sim_alone_server sim_answering, of "sim_state (cb_New 5 60000000000) (sim_world0 [] [])" "sim_state (cb_New 5 60000000000) (sim_world0 [] [])" sim_conf "''a''" 50000000]
  by (auto simp: sim_setting cb_New_def)

text \<open>
  \<open>Lock\<close> waits for the readers as long as its own key lives, and does not look at the key again: here the key runs out, 20 ms after it was set, before the last reader does, and
  the lock is granted without a key.
\<close>

theorem redis_lock_outlives_key:
  "let tick = Edit_val ''x'' None; w = (sim_world0 [] [(''other'', Stamp 1)])\<lparr>sw_now := 980000000, sw_pending := [tick, tick, tick, Edit_val (writer_key sim_conf ''a'') None]\<rparr>;
       r = redis_Lock sim_conf (sim_redis (\<lambda>_. True)) ''a'' 20000000 (sim_state (cb_New 5 60000000000) w)
   in fst r = Inr () \<and> map_of (sw_vals (rs_world (snd r))) (writer_key sim_conf ''a'') = None \<and> sw_now (rs_world (snd r)) = 1000000000"
  by code_simp

end
