(* ===== verification/Redis_Locker.thy ===== *)
theory Redis_Locker
  imports Redis_Lock Local_Lock
begin

text \<open>
  Package \<open>pkg/lock/redis\<close>, \<open>locker.go\<close>: the exclusive lock that instances of the program share through several Redis servers. The algorithm is that of the library redsync, whose
  calls are parameters; the locker adds the attempts, the circuit breaker and the fallback to the local lock. The time at which a lock was taken serves the metrics alone.
\<close>

section \<open>The locker\<close>

text \<open>
  \<open>NewMutex\<close> over the connected servers with \<open>LockContext\<close>, which gives the mutex when it has the lock; \<open>UnlockContext\<close> and \<open>ExtendContext\<close>. \<open>rd_Ping\<close> connects to an address.
\<close>

record ('w, 'm) redsync = "'w lock_clock" +
  rd_Ping :: "string \<Rightarrow> ('w, unit) prog"
  rd_LockContext :: "string list \<Rightarrow> string \<Rightarrow> int \<Rightarrow> ('w, 'm) prog"
  rd_UnlockContext :: "'m \<Rightarrow> ('w, bool) prog"
  rd_ExtendContext :: "'m \<Rightarrow> ('w, bool) prog"

record 'l ex_conf = lock_conf +
  ex_pools :: "string list"
  ex_fallback :: "'l locker"

record ('w, 'l, 'm) ex_state = "('w, 'l) lock_state" +
  ex_mutexes :: "string \<rightharpoonup> 'm"

text \<open>\<open>errors.Is(err, redsync.ErrFailed)\<close> or \<open>isLockAlreadyTakenError(err)\<close>.\<close>

definition isLockAlreadyTakenError :: "err \<Rightarrow> bool" where
  "isLockAlreadyTakenError e \<longleftrightarrow> e = ErrLockFailed \<or> e = ErrLockTaken"

definition hold_mutex :: "string \<Rightarrow> 'm \<Rightarrow> (('w, 'l, 'm) ex_state, unit) prog" where
  "hold_mutex key m = thenE (modifyE (\<lambda>s. s\<lparr>ex_mutexes := (ex_mutexes s)(key \<mapsto> m)\<rparr>)) record_success"

section \<open>Operations\<close>

text \<open>Only a lock that is taken leads to another attempt.\<close>

primrec ex_attempts ::
  "'l ex_conf \<Rightarrow> ('w, 'm) redsync \<Rightarrow> string \<Rightarrow> int \<Rightarrow> nat \<Rightarrow> nat \<Rightarrow> err \<Rightarrow> (('w, 'l, 'm) ex_state, unit) prog" where
  "ex_attempts c rd key ttl 0 attempt lastErr = raiseE lastErr"
| "ex_attempts c rd key ttl (Suc n) attempt lastErr =
     thenE (whenE (attempt > 0)
              (bindE (draw (rc_float rd)) (\<lambda>x. in_world (rc_wait rd (CalculateBackoff (rc_out rd) (rw_retryConfig c) attempt x)))))
     (bindE (attemptE (in_world (rd_LockContext rd (ex_pools c) (rw_keyPrefix c @ key) ttl))) (\<lambda>r.
        case r of
          Inl e \<Rightarrow>
            after_error c rd e (lo_Lock (ex_fallback c) key)
              (if isLockAlreadyTakenError e then ex_attempts c rd key ttl n (Suc attempt) e else raiseE e)
        | Inr m \<Rightarrow> hold_mutex key m))"

definition ex_Lock :: "'l ex_conf \<Rightarrow> ('w, 'm) redsync \<Rightarrow> string \<Rightarrow> int \<Rightarrow> (('w, 'l, 'm) ex_state, unit) prog" where
  "ex_Lock c rd key ttl =
     guarded c rd (lo_Lock (ex_fallback c) key) (ex_attempts c rd key ttl (nat (ry_MaxAttempts (rw_retryConfig c))) 0 ErrRedis)"

text \<open>A failure to give the lock back is only logged: it runs out by itself.\<close>

definition ex_Unlock :: "'l ex_conf \<Rightarrow> ('w, 'm) redsync \<Rightarrow> string \<Rightarrow> (('w, 'l, 'm) ex_state, unit) prog" where
  "ex_Unlock c rd key =
     unless_degraded c rd (lo_Unlock (ex_fallback c) key)
       (bindE (getsE (\<lambda>s. ex_mutexes s key)) (\<lambda>m.
        thenE (modifyE (\<lambda>s. s\<lparr>ex_mutexes := (ex_mutexes s)(key := None)\<rparr>))
         (case m of None \<Rightarrow> returnE () | Some m \<Rightarrow> ignoreE (in_world (rd_UnlockContext rd m)))))"

definition ex_Extend :: "'l ex_conf \<Rightarrow> ('w, 'm) redsync \<Rightarrow> string \<Rightarrow> (('w, 'l, 'm) ex_state, unit) prog" where
  "ex_Extend c rd key =
     unless_degraded c rd (returnE ())
       (bindE (getsE (\<lambda>s. ex_mutexes s key)) (\<lambda>m.
          case m of
            None \<Rightarrow> returnE ()
          | Some m \<Rightarrow> bindE (in_world (rd_ExtendContext rd m)) (\<lambda>ok. if ok then returnE () else raiseE ErrRedis)))"

definition ex_TryLock :: "'l ex_conf \<Rightarrow> ('w, 'm) redsync \<Rightarrow> string \<Rightarrow> int \<Rightarrow> (('w, 'l, 'm) ex_state, bool) prog" where
  "ex_TryLock c rd key ttl =
     guarded c rd (lo_TryLock (ex_fallback c) key)
       (bindE (attemptE (in_world (rd_LockContext rd (ex_pools c) (rw_keyPrefix c @ key) ttl))) (\<lambda>r.
          case r of
            Inl e \<Rightarrow> if isLockAlreadyTakenError e then returnE False else after_error c rd e (lo_TryLock (ex_fallback c) key) (raiseE e)
          | Inr m \<Rightarrow> thenE (hold_mutex key m) (returnE True)))"

section \<open>Construction\<close>

text \<open>The addresses that answer, and the first error of the others.\<close>

primrec connect :: "('w, 'm) redsync \<Rightarrow> string list \<Rightarrow> ('w, string list \<times> err option) prog" where
  "connect rd [] = returnE ([], None)"
| "connect rd (a # as) =
     bindE (attemptE (rd_Ping rd a)) (\<lambda>r.
     bindE (connect rd as) (\<lambda>(pools, firstErr).
       case r of Inl e \<Rightarrow> returnE (pools, Some e) | Inr _ \<Rightarrow> returnE (a # pools, firstErr)))"

definition ex_NewLocker ::
  "string list \<Rightarrow> string \<Rightarrow> retry_config \<Rightarrow> bool \<Rightarrow> 'l locker \<Rightarrow> ('w, 'm) redsync \<Rightarrow> 'l \<Rightarrow> ('w, 'l ex_conf \<times> ('w, 'l, 'm) ex_state) prog" where
  "ex_NewLocker addrs pre retryCfg allowDegradedMode fallback rd l =
     (if addrs = [] then raiseE ErrNoRedisAddrs
      else
        bindE (connect rd addrs) (\<lambda>(pools, firstErr).
        bindE (getsE id) (\<lambda>w.
          let make = (\<lambda>cb.
                (\<lparr>rw_keyPrefix = (if pre = [] then ''ncps:lock:'' else pre), rw_retryConfig = retryCfg, rw_allowDegradedMode = allowDegradedMode, ex_pools = pools, ex_fallback = fallback\<rparr>,
                 \<lparr>rs_world = w, rs_breaker = cb, rs_local = l, ex_mutexes = Map.empty\<rparr>));
              cb = cb_New 5 60000000000 in
          if length pools < length addrs div 2 + 1 then
            if allowDegradedMode then returnE (make (ForceOpen (rc_now rd w) cb))
            else (case firstErr of Some e \<Rightarrow> raiseE e | None \<Rightarrow> raiseE ErrQuorum)
          else returnE (make cb))))"

section \<open>Refreshing\<close>

text \<open>
  \<open>lock.StartRefresher\<close>: its goroutine extends the lock at every tick until it is stopped or the context is done, whether the lock could be extended or not. A ticker
  without an interval panics. Of events that are ready together the scheduler takes any, so that their order is given.
\<close>

datatype refresher_event = Tick | Stopped | Context_done

definition refresh_interval :: "int \<Rightarrow> int" where
  "refresh_interval ttl = ttl * 2 div 3"

primrec refresh :: "('s, unit) prog \<Rightarrow> refresher_event list \<Rightarrow> ('s, unit) prog" where
  "refresh ext [] = returnE ()"
| "refresh ext (e # es) = (if e = Tick then thenE (ignoreE ext) (refresh ext es) else returnE ())"

definition StartRefresher :: "('s, unit) prog \<Rightarrow> int \<Rightarrow> refresher_event list \<Rightarrow> ('s, unit) prog" where
  "StartRefresher ext ttl es = (if refresh_interval ttl \<le> 0 then raiseE ErrPanic else refresh ext es)"

end
