(* ===== verification/Redis_Locker_Props.thy ===== *)
theory Redis_Locker_Props
  imports Redis_Locker
begin

text \<open>
  The delays stay within their bounds, a lock comes from the servers or from the fallback and from nowhere else, a majority of the servers is needed; and where the fallback
  goes wrong: the circuit breaker may lead \<open>Unlock\<close> elsewhere than it has led \<open>Lock\<close>.
\<close>

section \<open>Delays\<close>




text \<open>An initial delay of zero: from the 1025th attempt on it is zero times infinity, no number, and neither the limit nor the jitter changes that.\<close>

theorem backoff_not_a_number:
  assumes "ry_InitialDelay c = 0" "attempt \<ge> 1025"
  shows "CalculateBackoff out c attempt x = out NaN"
proof -
  have "attempt - 1 \<ge> 1024" using assms(2) by simp
  moreover have "round64 0 = Float 0" by (simp add: round64_def fl_def)
  ultimately have "capped_delay c (attempt - 1) = NaN" using assms(1) by (simp add: capped_delay_def Pow_2_def Let_def)
  then show ?thesis using assms(2) by (simp add: CalculateBackoff_def jittered_def to_int64_def)
qed


section \<open>Where a lock comes from\<close>

definition from_servers :: "'l ex_conf \<Rightarrow> ('w, 'm) redsync \<Rightarrow> string \<Rightarrow> int \<Rightarrow> ('w, 'l, 'm) ex_state \<Rightarrow> bool" where
  "from_servers c rd key ttl t \<longleftrightarrow> (\<exists>m w w'. rd_LockContext rd (ex_pools c) (rw_keyPrefix c @ key) ttl w = (Inr m, w') \<and> ex_mutexes t key = Some m)"

lemma any_result: "triple P m (\<lambda>_ _. True) (\<lambda>_ _. True)"
  by (simp add: triple_def split: prod.split sum.split)

text \<open>Without the degraded mode the way around the servers leads nowhere.\<close>

lemma strict_paths:
  assumes "\<not> rw_allowDegradedMode c" "triple (\<lambda>_. True) m Q (\<lambda>_ _. True)"
  shows "triple (\<lambda>_. True) (guarded c rd f m) Q (\<lambda>_ _. True)" "triple (\<lambda>_. True) (after_error c rd e f m) Q (\<lambda>_ _. True)"
  using assms unfolding guarded_def after_error_def unless_degraded_def
  by (auto intro!: triple_bindE [OF any_result] triple_thenE [OF any_result] triple_raiseE)

lemma hold_mutex_servers:
  "triple (\<lambda>_. \<exists>w w'. rd_LockContext rd (ex_pools c) (rw_keyPrefix c @ key) ttl w = (Inr m, w')) (hold_mutex key m) (\<lambda>_. from_servers c rd key ttl) (\<lambda>_ _. True)"
  by (auto simp: triple_def hold_mutex_def thenE_def bindE_def modifyE_def record_success_def from_servers_def)

lemma lock_context:
  "triple (\<lambda>_. True) (attemptE (in_world m)) (\<lambda>r _. \<forall>x. r = Inr x \<longrightarrow> (\<exists>w w'. m w = (Inr x, w'))) (\<lambda>_ _. True)"
  by (auto simp: triple_def attemptE_def in_world_def split: prod.splits)

lemma ex_attempts_servers:
  assumes "\<not> rw_allowDegradedMode c"
  shows "triple (\<lambda>_. True) (ex_attempts c rd key ttl n i e) (\<lambda>_. from_servers c rd key ttl) (\<lambda>_ _. True)"
proof (induction n arbitrary: i e)
  case (Suc n)
  have "triple (\<lambda>_. \<forall>m. r = Inr m \<longrightarrow> (\<exists>w w'. rd_LockContext rd (ex_pools c) (rw_keyPrefix c @ key) ttl w = (Inr m, w')))
      (case r of Inl e \<Rightarrow> after_error c rd e (lo_Lock (ex_fallback c) key) (if isLockAlreadyTakenError e then ex_attempts c rd key ttl n (Suc i) e else raiseE e)
       | Inr m \<Rightarrow> hold_mutex key m) (\<lambda>_. from_servers c rd key ttl) (\<lambda>_ _. True)" for r
  proof (cases r)
    case (Inl e)
    have "triple (\<lambda>_. True) (if isLockAlreadyTakenError e then ex_attempts c rd key ttl n (Suc i) e else raiseE e) (\<lambda>_. from_servers c rd key ttl) (\<lambda>_ _. True)"
      using Suc.IH by (simp add: triple_raiseE)
    from strict_paths(2) [OF assms this] show ?thesis unfolding Inl sum.case by (rule triple_weaken) simp_all
  next
    case (Inr m)
    then show ?thesis using hold_mutex_servers by simp
  qed
  then show ?case
    unfolding ex_attempts.simps by (intro triple_thenE [OF any_result] triple_bindE [OF lock_context])
qed (simp add: triple_raiseE)

text \<open>Without the degraded mode, a lock that was granted is one that the servers gave, and the locker keeps its mutex so as to give it back.\<close>

theorem redis_lock_from_servers:
  assumes "\<not> rw_allowDegradedMode c" "ex_Lock c rd key ttl s = (Inr (), t) \<or> ex_TryLock c rd key ttl s = (Inr True, t)"
  shows "from_servers c rd key ttl t"
proof -
  have lock: "triple (\<lambda>_. True) (ex_Lock c rd key ttl) (\<lambda>_. from_servers c rd key ttl) (\<lambda>_ _. True)"
    unfolding ex_Lock_def by (rule strict_paths [OF assms(1) ex_attempts_servers [OF assms(1)]])
  let ?Q = "\<lambda>x t. x \<longrightarrow> from_servers c rd key ttl t"
  have "triple (\<lambda>_. \<forall>m. r = Inr m \<longrightarrow> (\<exists>w w'. rd_LockContext rd (ex_pools c) (rw_keyPrefix c @ key) ttl w = (Inr m, w')))
      (case r of Inl e \<Rightarrow> if isLockAlreadyTakenError e then returnE False else after_error c rd e (lo_TryLock (ex_fallback c) key) (raiseE e)
       | Inr m \<Rightarrow> thenE (hold_mutex key m) (returnE True)) ?Q (\<lambda>_ _. True)" for r
  proof (cases r)
    case (Inl e)
    have "triple (\<lambda>_. True) (after_error c rd e (lo_TryLock (ex_fallback c) key) (raiseE e)) ?Q (\<lambda>_ _. True)"
      by (rule strict_paths(2) [OF assms(1)]) (simp add: triple_raiseE)
    with Inl show ?thesis by (simp add: triple_returnE)
  next
    case (Inr m)
    have "triple (from_servers c rd key ttl) (returnE True) ?Q (\<lambda>_ _. True)" by (rule triple_returnE) simp
    with Inr show ?thesis using triple_thenE [OF hold_mutex_servers] by simp
  qed
  then have trylock: "triple (\<lambda>_. True) (ex_TryLock c rd key ttl) ?Q (\<lambda>_ _. True)"
    unfolding ex_TryLock_def by (intro strict_paths(1) [OF assms(1)] triple_bindE [OF lock_context])
  from assms(2) show ?thesis using triple_Inr [OF lock, of s "()" t] triple_Inr [OF trylock, of s True t] by auto
qed

section \<open>A majority of the servers\<close>

lemma connect_subset: "connect rd as w = (Inr (pools, e), w') \<Longrightarrow> set pools \<subseteq> set as \<and> length pools \<le> length as"
proof (induction as arbitrary: w pools e w')
  case (Cons a as)
  then show ?case
    by (fastforce simp: bindE_def attemptE_def returnE_def split: prod.splits sum.splits)
qed (simp add: returnE_def)

text \<open>A locker that starts with a closed circuit breaker is connected to a majority of the addresses; without the degraded mode there is no other locker.\<close>

theorem redis_majority:
  assumes "ex_NewLocker addrs pre rc deg f rd l w = (Inr (c, s), w')"
  shows "set (ex_pools c) \<subseteq> set addrs \<and> (length addrs < 2 * length (ex_pools c) \<longleftrightarrow> cb_openedAt (rs_breaker s) = None) \<and>
    (deg \<or> length addrs < 2 * length (ex_pools c))"
proof -
  have "addrs \<noteq> []" using assms by (auto simp: ex_NewLocker_def raiseE_def)
  then obtain pools e w1 where run: "connect rd addrs w = (Inr (pools, e), w1)"
    using assms by (auto simp: ex_NewLocker_def bindE_def split: prod.splits sum.splits)
  have "n < m div 2 + 1 \<longleftrightarrow> \<not> m < 2 * n" for n m :: nat by presburger
  then show ?thesis
    using assms run connect_subset [OF run] \<open>addrs \<noteq> []\<close>
    by (cases "length addrs < 2 * length pools"; cases deg; cases e)
      (auto simp: ex_NewLocker_def bindE_def getsE_def raiseE_def returnE_def Let_def ForceOpen_def cb_New_def)
qed

section \<open>The fallback\<close>

text \<open>The local lock in the place of the fallback; a \<open>Lock\<close> that has to wait is not in question.\<close>

definition local_fallback :: "bool lock_table locker \<Rightarrow> bool" where
  "local_fallback f \<longleftrightarrow> (\<forall>key l l'. Locker_Lock sync_Mutex LWrite key l = Some l' \<longrightarrow> lo_Lock f key l = (Inr (), l')) \<and>
     (\<forall>key. lo_Unlock f key = Locker_Unlock sync_Mutex LWrite key)"

lemma Locker_Lock_again: "Locker_Lock sync_Mutex LWrite key l = Some l' \<Longrightarrow> Locker_Lock sync_Mutex LWrite key l' = None"
  by (auto simp: Locker_Lock_def getLock_def kl_try_def sync_Mutex_def split: option.splits if_splits)

lemma allow_open: "State (rc_now rd (rs_world s)) (rs_breaker s) = StateOpen \<Longrightarrow> allow_request rd s = (Inr False, s)"
  by (auto simp: allow_request_def State_def AllowRequest_def split: option.splits if_splits)

lemma allow_not_open: "State (rc_now rd (rs_world s)) (rs_breaker s) \<noteq> StateOpen \<Longrightarrow> \<exists>cb. allow_request rd s = (Inr True, s\<lparr>rs_breaker := cb\<rparr>)"
  by (auto simp: allow_request_def State_def AllowRequest_def split: option.splits if_splits) (metis lock_state.surjective lock_state.update_convs(2))

text \<open>C35.
  A lock that was taken locally while the circuit breaker was open is never given back when the breaker lets \<open>Unlock\<close> through, a minute later: \<open>Unlock\<close> looks for it among
  the mutexes of the servers and reports success. The next \<open>Lock\<close> of the key that comes to the fallback waits for ever.
\<close>

theorem redis_fallback_lock_leaks:
  assumes "rw_allowDegradedMode c" "local_fallback (ex_fallback c)" "State (rc_now rd (rs_world s)) (rs_breaker s) = StateOpen"
    and "Locker_Lock sync_Mutex LWrite key (rs_local s) = Some l" "ex_mutexes s key = None" "State (rc_now rd w) (rs_breaker s) \<noteq> StateOpen"
  shows "\<exists>t u. ex_Lock c rd key ttl s = (Inr (), t) \<and> ex_Unlock c rd key (t\<lparr>rs_world := w\<rparr>) = (Inr (), u) \<and> Locker_Lock sync_Mutex LWrite key (rs_local u) = None"
proof -
  have lock: "ex_Lock c rd key ttl s = (Inr (), s\<lparr>rs_local := l\<rparr>)"
    using assms(1,2,4) allow_open [OF assms(3)] by (simp add: ex_Lock_def guarded_def bindE_def in_local_def local_fallback_def)
  obtain cb where "allow_request rd (s\<lparr>rs_local := l, rs_world := w\<rparr>) = (Inr True, s\<lparr>rs_local := l, rs_world := w, rs_breaker := cb\<rparr>)"
    using allow_not_open [of rd "s\<lparr>rs_local := l, rs_world := w\<rparr>"] assms(6) by auto
  then have "ex_Unlock c rd key (s\<lparr>rs_local := l, rs_world := w\<rparr>) = (Inr (), s\<lparr>rs_local := l, rs_world := w, rs_breaker := cb, ex_mutexes := (ex_mutexes s)(key := None)\<rparr>)"
    using assms(5) by (simp add: ex_Unlock_def unless_degraded_def bindE_def getsE_def thenE_def modifyE_def returnE_def)
  with lock show ?thesis using Locker_Lock_again [OF assms(4)] by simp
qed

definition sim_redsync :: "(int, unit) redsync" where
  "sim_redsync =
     \<lparr>rc_now = id, rc_wait = (\<lambda>d w. (Inr (), w + max 0 d)), rc_float = (\<lambda>w. (0, w)), rc_out = (\<lambda>_. - (2 ^ 63)), rd_Ping = (\<lambda>_. returnE ()), rd_LockContext = (\<lambda>_ _ _. returnE ()),
      rd_UnlockContext = (\<lambda>_. returnE True), rd_ExtendContext = (\<lambda>_. returnE True)\<rparr>"

definition sim_fallback :: "bool lock_table locker" where
  "sim_fallback =
     \<lparr>lo_Lock = (\<lambda>key l. case Locker_Lock sync_Mutex LWrite key l of Some l \<Rightarrow> (Inr (), l) | None \<Rightarrow> (Inl ErrCanceled, l)),
      lo_TryLock = (\<lambda>key l. case Locker_TryLock sync_Mutex key l of (b, l) \<Rightarrow> (Inr b, l)), lo_Unlock = Locker_Unlock sync_Mutex LWrite\<rparr>"

definition sim_ex_conf :: "bool lock_table ex_conf" where
  "sim_ex_conf = \<lparr>rw_keyPrefix = ''p:'', rw_retryConfig = \<lparr>ry_MaxAttempts = 3, ry_InitialDelay = 100000000, ry_MaxDelay = 2000000000, ry_Jitter = True, ry_JitterFactor = Float 0\<rparr>,
     rw_allowDegradedMode = True, ex_pools = [''a''], ex_fallback = sim_fallback\<rparr>"

lemma redis_fallback_lock_leaks_witness:
  "let s = \<lparr>rs_world = 0, rs_breaker = ForceOpen 0 (cb_New 5 60000000000), rs_local = NewLocker sync_Mutex, ex_mutexes = Map.empty\<rparr>
   in \<exists>t u. ex_Lock sim_ex_conf sim_redsync ''a'' 50000000 s = (Inr (), t) \<and> ex_Unlock sim_ex_conf sim_redsync ''a'' (t\<lparr>rs_world := 60000000000\<rparr>) = (Inr (), u) \<and>
     Locker_Lock sync_Mutex LWrite ''a'' (rs_local u) = None"
  unfolding Let_def
  by (rule redis_fallback_lock_leaks [where l = "the (Locker_Lock sync_Mutex LWrite ''a'' (NewLocker sync_Mutex))"])
    (simp_all add: sim_ex_conf_def sim_fallback_def local_fallback_def State_def ForceOpen_def cb_New_def sim_redsync_def Locker_Lock_def getLock_def NewLocker_def kl_try_def sync_Mutex_def)

text \<open>A lock of the servers is not given back while the circuit breaker is open: the fallback does not know it, and the servers are not asked.\<close>

theorem redis_unlock_misses_servers:
  assumes "rw_allowDegradedMode c" "local_fallback (ex_fallback c)" "State (rc_now rd (rs_world s)) (rs_breaker s) = StateOpen" "lt_lockers (rs_local s) key = None"
  shows "ex_Unlock c rd key s = (Inl ErrUnlockUnknownKey, s)"
  using assms(1,2,4) allow_open [OF assms(3)]
  by (simp add: ex_Unlock_def unless_degraded_def bindE_def in_local_def local_fallback_def Locker_Unlock_def)

section \<open>Refreshing\<close>

text \<open>After the stop the lock is not extended any more; ticks come before the lock runs out, with a third of its time to spare.\<close>

lemma refresh_stops: "refresh ext (es @ Stopped # fs) = refresh ext es"
  by (induction es) simp_all

theorem refresher_stops: "StartRefresher ext ttl (es @ Stopped # fs) = StartRefresher ext ttl es"
  by (simp add: StartRefresher_def refresh_stops)

lemma refresh_in_time: "2 \<le> ttl \<Longrightarrow> 0 < refresh_interval ttl \<and> 3 * refresh_interval ttl \<le> 2 * ttl"
  unfolding refresh_interval_def by presburger

end
