(* ===== verification/File_System.thy ===== *)
theory File_System
  imports Go_Strings "HOL-Library.AList"
begin

text \<open>
  What the local stores use of package \<open>os\<close>: a tree of directories and files, addressed by the list of the components of
  an absolute path. Every call may fail: \<open>fs_faults\<close> is the schedule of failures, one entry per call, so that every
  error path of the stores is a run of the model. A failing write has written the given number of bytes before
  it failed. File modes are left out.
\<close>

type_synonym path = "string list"

datatype fs_node = Dir | File bytes

record file_system =
  fs_nodes :: "(path \<times> fs_node) list"
  fs_faults :: "nat option list"
  fs_rand :: "nat \<Rightarrow> nat"
  fs_seed :: nat

definition lookup :: "file_system \<Rightarrow> path \<Rightarrow> fs_node option" where
  "lookup s p = map_of (fs_nodes s) p"

definition set_node :: "path \<Rightarrow> fs_node \<Rightarrow> file_system \<Rightarrow> file_system" where
  "set_node p n s = s\<lparr>fs_nodes := AList.update p n (fs_nodes s)\<rparr>"

definition del_node :: "path \<Rightarrow> file_system \<Rightarrow> file_system" where
  "del_node p s = s\<lparr>fs_nodes := AList.delete p (fs_nodes s)\<rparr>"

definition is_file :: "fs_node option \<Rightarrow> bool" where
  "is_file n \<longleftrightarrow> (case n of Some (File _) \<Rightarrow> True | _ \<Rightarrow> False)"

text \<open>A proper prefix of the path is a file: the kernel answers \<open>ENOTDIR\<close>.\<close>

definition below_file :: "file_system \<Rightarrow> path \<Rightarrow> bool" where
  "below_file s p \<longleftrightarrow> list_ex (\<lambda>q. q \<noteq> p \<and> is_file (lookup s q)) (prefixes p)"

definition has_child :: "file_system \<Rightarrow> path \<Rightarrow> bool" where
  "has_child s p \<longleftrightarrow> list_ex (\<lambda>(q, _). q \<noteq> [] \<and> butlast q = p) (fs_nodes s)"

text \<open>One system call: the next entry of the schedule decides whether it fails.\<close>

definition os_call :: "(file_system, 'a) prog \<Rightarrow> (file_system, 'a) prog" where
  "os_call m s =
     (case fs_faults s of
        [] \<Rightarrow> m s
      | None # fs \<Rightarrow> m (s\<lparr>fs_faults := fs\<rparr>)
      | Some _ # fs \<Rightarrow> (Inl ErrIO, s\<lparr>fs_faults := fs\<rparr>))"

definition os_Stat :: "path \<Rightarrow> (file_system, fs_node) prog" where
  "os_Stat p = os_call (\<lambda>s.
     (if below_file s p then Inl ErrIO
      else case lookup s p of None \<Rightarrow> Inl ErrNotExist | Some n \<Rightarrow> Inr n, s))"

text \<open>Opening a file and reading it to the end; reading a directory fails.\<close>

definition os_Open :: "path \<Rightarrow> (file_system, bytes) prog" where
  "os_Open p = os_call (\<lambda>s.
     (if below_file s p then Inl ErrIO
      else case lookup s p of None \<Rightarrow> Inl ErrNotExist | Some Dir \<Rightarrow> Inl ErrIO | Some (File b) \<Rightarrow> Inr b, s))"

fun mkdirs :: "path list \<Rightarrow> file_system \<Rightarrow> file_system" where
  "mkdirs [] s = s"
| "mkdirs (p # ps) s = mkdirs ps (if lookup s p = None then set_node p Dir s else s)"

definition os_MkdirAll :: "path \<Rightarrow> (file_system, unit) prog" where
  "os_MkdirAll p = os_call (\<lambda>s.
     if below_file s p \<or> is_file (lookup s p) then (Inl ErrIO, s)
     else (Inr (), mkdirs (prefixes p) s))"

text \<open>\<open>O_CREATE|O_EXCL\<close>.\<close>

definition os_CreateExcl :: "path \<Rightarrow> (file_system, unit) prog" where
  "os_CreateExcl p = os_call (\<lambda>s.
     if below_file s p then (Inl ErrIO, s)
     else if lookup s p \<noteq> None then (Inl ErrExist, s)
     else if lookup s (butlast p) \<noteq> Some Dir then (Inl ErrNotExist, s)
     else (Inr (), set_node p (File []) s))"

text \<open>\<open>O_CREATE|O_TRUNC\<close>, the opening of \<open>os.WriteFile\<close>.\<close>

definition os_CreateTrunc :: "path \<Rightarrow> (file_system, unit) prog" where
  "os_CreateTrunc p = os_call (\<lambda>s.
     if below_file s p \<or> lookup s p = Some Dir then (Inl ErrIO, s)
     else if lookup s (butlast p) \<noteq> Some Dir then (Inl ErrNotExist, s)
     else (Inr (), set_node p (File []) s))"

text \<open>Writing the contents of an open, empty file; nothing is seen of it once the file is unlinked.\<close>

definition put_bytes :: "path \<Rightarrow> bytes \<Rightarrow> file_system \<Rightarrow> file_system" where
  "put_bytes p b s = (if is_file (lookup s p) then set_node p (File b) s else s)"

definition os_Write :: "path \<Rightarrow> bytes \<Rightarrow> (file_system, unit) prog" where
  "os_Write p b s =
     (case fs_faults s of
        [] \<Rightarrow> (Inr (), put_bytes p b s)
      | None # fs \<Rightarrow> (Inr (), put_bytes p b (s\<lparr>fs_faults := fs\<rparr>))
      | Some n # fs \<Rightarrow> (Inl ErrIO, put_bytes p (take n b) (s\<lparr>fs_faults := fs\<rparr>)))"

definition os_Close :: "(file_system, unit) prog" where
  "os_Close = os_call (returnE ())"

definition os_Sync :: "(file_system, unit) prog" where
  "os_Sync = os_call (returnE ())"

text \<open>
  \<open>os.CreateTemp(dir, pre + "*" + suf)\<close>: random names are tried until one is free, 10000 times at
  most. The random numbers are the sequence \<open>fs_rand\<close>.
\<close>

fun temp_name :: "nat \<Rightarrow> path \<Rightarrow> string \<Rightarrow> string \<Rightarrow> file_system \<Rightarrow> path option \<times> file_system" where
  "temp_name 0 d pre suf s = (None, s)"
| "temp_name (Suc k) d pre suf s =
     (let p = d @ [pre @ show_nat (fs_rand s (fs_seed s)) @ suf];
          t = s\<lparr>fs_seed := fs_seed s + 1\<rparr>
      in if lookup s p = None then (Some p, t) else temp_name k d pre suf t)"

definition os_CreateTemp :: "path \<Rightarrow> string \<Rightarrow> string \<Rightarrow> (file_system, path) prog" where
  "os_CreateTemp d pre suf = os_call (\<lambda>s.
     if below_file s d \<or> is_file (lookup s d) then (Inl ErrIO, s)
     else if lookup s d = None then (Inl ErrNotExist, s)
     else (case temp_name 10000 d pre suf s of
             (None, t) \<Rightarrow> (Inl ErrExist, t)
           | (Some p, t) \<Rightarrow> (Inr p, set_node p (File []) t)))"

definition os_Rename :: "path \<Rightarrow> path \<Rightarrow> (file_system, unit) prog" where
  "os_Rename p q = os_call (\<lambda>s.
     case lookup s p of
       Some (File b) \<Rightarrow>
         if below_file s q \<or> lookup s q = Some Dir then (Inl ErrIO, s)
         else if lookup s (butlast q) \<noteq> Some Dir then (Inl ErrNotExist, s)
         else (Inr (), set_node q (File b) (del_node p s))
     | Some Dir \<Rightarrow> (Inl ErrIO, s)
     | None \<Rightarrow> (Inl ErrNotExist, s))"

definition os_Link :: "path \<Rightarrow> path \<Rightarrow> (file_system, unit) prog" where
  "os_Link p q = os_call (\<lambda>s.
     case lookup s p of
       Some (File b) \<Rightarrow>
         if below_file s q then (Inl ErrIO, s)
         else if lookup s q \<noteq> None then (Inl ErrExist, s)
         else if lookup s (butlast q) \<noteq> Some Dir then (Inl ErrNotExist, s)
         else (Inr (), set_node q (File b) s)
     | Some Dir \<Rightarrow> (Inl ErrIO, s)
     | None \<Rightarrow> (Inl ErrNotExist, s))"

text \<open>\<open>os.Remove\<close>: a file, or an empty directory.\<close>

definition os_Remove :: "path \<Rightarrow> (file_system, unit) prog" where
  "os_Remove p = os_call (\<lambda>s.
     if below_file s p then (Inl ErrIO, s)
     else case lookup s p of
       None \<Rightarrow> (Inl ErrNotExist, s)
     | Some (File _) \<Rightarrow> (Inr (), del_node p s)
     | Some Dir \<Rightarrow> if has_child s p then (Inl ErrIO, s) else (Inr (), del_node p s))"

definition os_RemoveAll :: "path \<Rightarrow> (file_system, unit) prog" where
  "os_RemoveAll p = os_call (\<lambda>s.
     (Inr (), s\<lparr>fs_nodes := filter (\<lambda>(q, _). take (length p) q \<noteq> p) (fs_nodes s)\<rparr>))"

definition os_Chmod :: "path \<Rightarrow> (file_system, unit) prog" where
  "os_Chmod p = os_call (\<lambda>s. (if lookup s p = None then Inl ErrNotExist else Inr (), s))"

text \<open>Removing directories one after the other, until one cannot be removed.\<close>

primrec remove_dirs :: "path list \<Rightarrow> (file_system, unit) prog" where
  "remove_dirs [] = returnE ()"
| "remove_dirs (d # ds) =
     bindE (attemptE (os_Remove d)) (\<lambda>r. case r of Inl _ \<Rightarrow> returnE () | Inr _ \<Rightarrow> remove_dirs ds)"

section \<open>Lookup after a change\<close>

text \<open>The bytes of a file.\<close>

definition file_at :: "file_system \<Rightarrow> path \<Rightarrow> bytes option" where
  "file_at fs p = (case lookup fs p of Some (File b) \<Rightarrow> Some b | _ \<Rightarrow> None)"

lemma os_call_calm [simp]: "fs_faults s = [] \<Longrightarrow> os_call m s = m s"
  by (simp add: os_call_def)


lemma lookup_set_node [simp]: "lookup (set_node p n s) q = (if q = p then Some n else lookup s q)"
  by (simp add: lookup_def set_node_def update_conv')

lemma lookup_del_node [simp]: "lookup (del_node p s) q = (if q = p then None else lookup s q)"
  by (simp add: lookup_def del_node_def delete_conv')

lemma lookup_more [simp]:
  "lookup (s\<lparr>fs_faults := fs\<rparr>) q = lookup s q" "lookup (s\<lparr>fs_seed := k\<rparr>) q = lookup s q"
  by (simp_all add: lookup_def)

lemma faults_node [simp]: "fs_faults (set_node p n s) = fs_faults s" "fs_faults (del_node p s) = fs_faults s"
  by (simp_all add: set_node_def del_node_def)

lemma has_child_iff: "has_child s p \<longleftrightarrow> (\<exists>q. lookup s q \<noteq> None \<and> q \<noteq> [] \<and> butlast q = p)"
  by (auto simp: has_child_def lookup_def list_ex_iff map_of_eq_None_iff image_iff split: prod.splits)

lemma lookup_mkdirs: "lookup (mkdirs ps s) q = (if q \<in> set ps \<and> lookup s q = None then Some Dir else lookup s q)"
  by (induction ps s rule: mkdirs.induct) auto

lemma faults_mkdirs [simp]: "fs_faults (mkdirs ps s) = fs_faults s"
  by (induction ps s rule: mkdirs.induct) auto

lemma temp_name_state: "temp_name k d pre suf s = (r, t) \<Longrightarrow> fs_nodes t = fs_nodes s \<and> fs_faults t = fs_faults s"
  by (induction k d pre suf s rule: temp_name.induct) (auto simp: Let_def split: if_splits)

lemma temp_name_fresh:
  "temp_name k d pre suf s = (Some p, t) \<Longrightarrow>
   lookup s p = None \<and> (\<exists>n. p = d @ [pre @ show_nat n @ suf])"
  by (induction k d pre suf s rule: temp_name.induct) (auto simp: Let_def split: if_splits)

section \<open>Well-formed trees\<close>

text \<open>
  A client fixes where its files are: \<open>leaf p\<close>. In a well-formed tree the parent of every
  node is a directory, and the files are exactly the nodes at leaves.
\<close>

definition leaf_ok :: "(path \<Rightarrow> bool) \<Rightarrow> bool" where
  "leaf_ok leaf \<longleftrightarrow> (\<forall>p q. leaf p \<longrightarrow> strict_prefix q p \<longrightarrow> \<not> leaf q)"

definition fs_wf :: "(path \<Rightarrow> bool) \<Rightarrow> file_system \<Rightarrow> bool" where
  "fs_wf leaf s \<longleftrightarrow>
     (\<forall>p n. lookup s p = Some n \<longrightarrow>
        (p \<noteq> [] \<longrightarrow> lookup s (butlast p) = Some Dir) \<and> (leaf p \<longleftrightarrow> n \<noteq> Dir))"

lemma is_file_iff: "is_file n \<longleftrightarrow> (\<exists>b. n = Some (File b))"
  by (auto simp: is_file_def split: option.splits fs_node.splits)

lemma fs_wf_parent: "fs_wf leaf s \<Longrightarrow> lookup s p = Some n \<Longrightarrow> p \<noteq> [] \<Longrightarrow> lookup s (butlast p) = Some Dir"
  by (auto simp: fs_wf_def)

lemma fs_wf_file: "fs_wf leaf s \<Longrightarrow> lookup s p = Some n \<Longrightarrow> leaf p \<longleftrightarrow> (\<exists>b. n = File b)"
  by (cases n) (auto simp: fs_wf_def)

lemma fs_wf_more [simp]:
  "fs_wf leaf (s\<lparr>fs_faults := fs\<rparr>) = fs_wf leaf s" "fs_wf leaf (s\<lparr>fs_seed := k\<rparr>) = fs_wf leaf s"
  by (simp_all add: fs_wf_def)

lemma below_file_iff: "below_file s p \<longleftrightarrow> (\<exists>q b. strict_prefix q p \<and> lookup s q = Some (File b))"
  by (auto simp: below_file_def list_ex_iff is_file_iff strict_prefix_def)

lemma below_file_wf: "leaf_ok leaf \<Longrightarrow> fs_wf leaf s \<Longrightarrow> leaf p \<Longrightarrow> \<not> below_file s p"
  unfolding below_file_iff leaf_ok_def using fs_wf_file by blast

lemma below_file_dir:
  "fs_wf leaf s \<Longrightarrow> (\<And>q. prefix q p \<Longrightarrow> \<not> leaf q) \<Longrightarrow> \<not> below_file s p \<and> \<not> is_file (lookup s p)"
  unfolding below_file_iff is_file_iff strict_prefix_def using fs_wf_file by blast

lemma butlast_inj: "xs \<noteq> [] \<Longrightarrow> butlast xs \<noteq> xs"
  by (metis append_butlast_last_id append_self_conv list.distinct(1))

lemma fs_wf_set_file:
  "leaf_ok leaf \<Longrightarrow> fs_wf leaf s \<Longrightarrow> leaf p \<Longrightarrow> lookup s (butlast p) = Some Dir \<or> lookup s p \<noteq> None \<Longrightarrow> p \<noteq> [] \<Longrightarrow>
   fs_wf leaf (set_node p (File b) s)"
  unfolding fs_wf_def leaf_ok_def
  by (auto simp: butlast_inj dest: fs_wf_parent) (metis fs_node.distinct(1) option.inject)+

lemma fs_wf_del:
  "fs_wf leaf s \<Longrightarrow> \<not> has_child s p \<Longrightarrow> fs_wf leaf (del_node p s)"
  unfolding fs_wf_def has_child_iff by (auto, metis option.distinct(1))

lemma fs_wf_file_childless: "fs_wf leaf s \<Longrightarrow> lookup s p = Some (File b) \<Longrightarrow> \<not> has_child s p"
  by (auto simp: has_child_iff fs_wf_def)

lemma fs_wf_mkdirs:
  assumes "fs_wf leaf s" and "\<And>q. prefix q p \<Longrightarrow> \<not> leaf q"
  shows "fs_wf leaf (mkdirs (prefixes p) s)" and "prefix q p \<Longrightarrow> lookup (mkdirs (prefixes p) s) q = Some Dir"
proof -
  let ?t = "mkdirs (prefixes p) s"
  show dirs: "lookup ?t q = Some Dir" if "prefix q p" for q
    using that assms(2) [OF that] fs_wf_file [OF assms(1), of q]
    by (cases "lookup s q"; cases "the (lookup s q)") (auto simp: lookup_mkdirs)
  show "fs_wf leaf ?t"
    unfolding fs_wf_def
  proof (intro allI impI)
    fix q n assume n: "lookup ?t q = Some n"
    show "(q \<noteq> [] \<longrightarrow> lookup ?t (butlast q) = Some Dir) \<and> (leaf q \<longleftrightarrow> n \<noteq> Dir)"
    proof (cases "lookup s q")
      case None
      with n have q: "prefix q p" "n = Dir" by (auto simp: lookup_mkdirs split: if_splits)
      then have "prefix (butlast q) p" using prefix_order.trans [OF prefixeq_butlast] by blast
      with q dirs assms(2) show ?thesis by simp
    next
      case (Some m)
      with n have "m = n" by (simp add: lookup_mkdirs)
      moreover have "q \<noteq> [] \<Longrightarrow> lookup s (butlast q) = Some Dir" using fs_wf_parent [OF assms(1) Some] .
      ultimately show ?thesis
        using Some assms(1) by (simp add: lookup_mkdirs fs_wf_def)
    qed
  qed
qed

section \<open>What the calls keep\<close>

text \<open>The tree is well formed, has the directories \<open>D\<close> and, away from the paths in \<open>A\<close>, its files are
  those of \<open>f\<close>.\<close>

definition fs_inv :: "(path \<Rightarrow> bool) \<Rightarrow> path set \<Rightarrow> path set \<Rightarrow> (path \<Rightarrow> fs_node option) \<Rightarrow> file_system \<Rightarrow> bool" where
  "fs_inv leaf A D f s \<longleftrightarrow> fs_wf leaf s \<and> (\<forall>q. leaf q \<longrightarrow> q \<notin> A \<longrightarrow> lookup s q = f q) \<and>
     (\<forall>d \<in> D. lookup s d = Some Dir)"

lemma fs_inv_more [simp]:
  "fs_inv leaf A D f (s\<lparr>fs_faults := fs\<rparr>) = fs_inv leaf A D f s"
  "fs_inv leaf A D f (s\<lparr>fs_seed := k\<rparr>) = fs_inv leaf A D f s"
  by (simp_all add: fs_inv_def)

lemma fs_inv_leaf_dir: "fs_inv leaf A D f s \<Longrightarrow> leaf q \<Longrightarrow> q \<notin> D"
  by (auto simp: fs_inv_def fs_wf_def)

lemma keeps_os_call:
  assumes "\<And>s. fs_inv leaf A D f s \<Longrightarrow> fs_inv leaf A D f (snd (m s))"
  shows "keeps (fs_inv leaf A D f) (os_call m)"
proof (rule keepsI)
  fix s assume "fs_inv leaf A D f s"
  with assms [of s] assms [of "s\<lparr>fs_faults := tl (fs_faults s)\<rparr>"]
  show "fs_inv leaf A D f (snd (os_call m s))" by (auto simp: os_call_def split: list.split option.split)
qed

named_theorems fs_keeps "calls of package os that keep a tree well formed"

lemma keeps_Stat [fs_keeps]: "keeps (fs_inv leaf A D f) (os_Stat p)"
  unfolding os_Stat_def by (rule keeps_os_call) simp

lemma keeps_Open [fs_keeps]: "keeps (fs_inv leaf A D f) (os_Open p)"
  unfolding os_Open_def by (rule keeps_os_call) simp

lemma keeps_Close [fs_keeps]: "keeps (fs_inv leaf A D f) os_Close"
  unfolding os_Close_def by (rule keeps_os_call) (simp add: returnE_def)

lemma keeps_Chmod [fs_keeps]: "keeps (fs_inv leaf A D f) (os_Chmod p)"
  unfolding os_Chmod_def by (rule keeps_os_call) simp

lemma keeps_MkdirAll [fs_keeps]:
  assumes "\<And>q. prefix q p \<Longrightarrow> \<not> leaf q"
  shows "keeps (fs_inv leaf A D f) (os_MkdirAll p)"
  unfolding os_MkdirAll_def
proof (rule keeps_os_call)
  fix s assume "fs_inv leaf A D f s"
  then show "fs_inv leaf A D f (snd (if below_file s p \<or> is_file (lookup s p) then (Inl ErrIO, s)
      else (Inr (), mkdirs (prefixes p) s)))"
    using fs_wf_mkdirs(1) [of leaf s p] assms by (auto simp: fs_inv_def lookup_mkdirs)
qed

lemma keeps_CreateExcl [fs_keeps]:
  "leaf_ok leaf \<Longrightarrow> leaf p \<Longrightarrow> p \<noteq> [] \<Longrightarrow> p \<in> A \<Longrightarrow> keeps (fs_inv leaf A D f) (os_CreateExcl p)"
  unfolding os_CreateExcl_def by (rule keeps_os_call) (auto simp: fs_inv_def intro: fs_wf_set_file)

lemma keeps_CreateTrunc [fs_keeps]:
  "leaf_ok leaf \<Longrightarrow> leaf p \<Longrightarrow> p \<noteq> [] \<Longrightarrow> p \<in> A \<Longrightarrow> keeps (fs_inv leaf A D f) (os_CreateTrunc p)"
  unfolding os_CreateTrunc_def by (rule keeps_os_call) (auto simp: fs_inv_def intro: fs_wf_set_file)

lemma keeps_put_bytes:
  "leaf_ok leaf \<Longrightarrow> leaf p \<Longrightarrow> p \<noteq> [] \<Longrightarrow> p \<in> A \<Longrightarrow> fs_inv leaf A D f s \<Longrightarrow> fs_inv leaf A D f (put_bytes p b s)"
  by (auto simp: put_bytes_def fs_inv_def is_file_iff intro: fs_wf_set_file)

lemma keeps_Write [fs_keeps]:
  assumes "leaf_ok leaf" "leaf p" "p \<noteq> []" "p \<in> A"
  shows "keeps (fs_inv leaf A D f) (os_Write p b)"
  by (rule keepsI) (auto simp: os_Write_def intro!: keeps_put_bytes assms split: list.split option.split)

lemma keeps_CreateTemp [fs_keeps]:
  assumes "leaf_ok leaf" "\<And>n. leaf (d @ [pre @ show_nat n @ suf])" "\<And>n. d @ [pre @ show_nat n @ suf] \<in> A"
  shows "keeps (fs_inv leaf A D f) (os_CreateTemp d pre suf)"
  unfolding os_CreateTemp_def
proof (rule keeps_os_call)
  fix s assume inv: "fs_inv leaf A D f s"
  obtain r t where t: "temp_name 10000 d pre suf s = (r, t)" by fastforce
  have same: "lookup t q = lookup s q" for q using temp_name_state [OF t] by (simp add: lookup_def)
  then have invt: "fs_inv leaf A D f t" using inv by (simp add: fs_inv_def fs_wf_def)
  have new: "fs_inv leaf A D f (set_node p (File []) t)" if r: "r = Some p" and "\<not> is_file (lookup s d)" "lookup s d \<noteq> None" for p
  proof -
    obtain n where p: "p = d @ [pre @ show_nat n @ suf]" using temp_name_fresh [of 10000 d pre suf s p t] t r by blast
    have "lookup t d = Some Dir"
      using that same by (cases "lookup s d"; cases "the (lookup s d)") (auto simp: is_file_iff)
    then have "fs_wf leaf (set_node p (File []) t)"
      using invt assms(1,2) by (intro fs_wf_set_file) (auto simp: p fs_inv_def)
    with invt assms(3) fs_inv_leaf_dir [OF invt assms(2) [of n]] show ?thesis by (auto simp: fs_inv_def p)
  qed
  show "fs_inv leaf A D f (snd (if below_file s d \<or> is_file (lookup s d) then (Inl ErrIO, s)
     else if lookup s d = None then (Inl ErrNotExist, s)
     else (case temp_name 10000 d pre suf s of
             (None, t) \<Rightarrow> (Inl ErrExist, t)
           | (Some p, t) \<Rightarrow> (Inr p, set_node p (File []) t))))"
    using inv invt new by (simp add: t split: option.split)
qed

lemma fs_inv_del_file:
  "fs_inv leaf A D f s \<Longrightarrow> lookup s p = Some (File b) \<Longrightarrow> p \<in> A \<Longrightarrow> fs_inv leaf A D f (del_node p s)"
  by (auto simp: fs_inv_def intro!: fs_wf_del dest: fs_wf_file_childless)

lemma keeps_Rename [fs_keeps]:
  assumes "leaf_ok leaf" "leaf q" "q \<noteq> []" "p \<in> A" "q \<in> A"
  shows "keeps (fs_inv leaf A D f) (os_Rename p q)"
  unfolding os_Rename_def
proof (rule keeps_os_call)
  fix s assume inv: "fs_inv leaf A D f s"
  have "fs_inv leaf A D f (set_node q (File b) (del_node p s))"
    if p: "lookup s p = Some (File b)" and q: "lookup s (butlast q) = Some Dir" for b
  proof -
    have "butlast q \<noteq> p" using p q by auto
    then have "fs_wf leaf (set_node q (File b) (del_node p s))"
      using fs_inv_del_file [OF inv p assms(4)] assms q
      by (intro fs_wf_set_file) (auto simp: fs_inv_def)
    with inv assms(4,5) p fs_inv_leaf_dir [OF inv assms(2)] show ?thesis by (auto simp: fs_inv_def)
  qed
  with inv show "fs_inv leaf A D f (snd (case lookup s p of
       Some (File b) \<Rightarrow>
         if below_file s q \<or> lookup s q = Some Dir then (Inl ErrIO, s)
         else if lookup s (butlast q) \<noteq> Some Dir then (Inl ErrNotExist, s)
         else (Inr (), set_node q (File b) (del_node p s))
     | Some Dir \<Rightarrow> (Inl ErrIO, s)
     | None \<Rightarrow> (Inl ErrNotExist, s)))"
    by (auto split: option.split fs_node.split)
qed

lemma keeps_Link [fs_keeps]:
  assumes "leaf_ok leaf" "leaf q" "q \<noteq> []" "q \<in> A"
  shows "keeps (fs_inv leaf A D f) (os_Link p q)"
  unfolding os_Link_def
  by (rule keeps_os_call)
    (auto simp: fs_inv_def assms intro!: fs_wf_set_file split: option.split fs_node.split)

lemma keeps_Remove [fs_keeps]:
  assumes "p \<in> A \<or> \<not> leaf p" and "p \<notin> D"
  shows "keeps (fs_inv leaf A D f) (os_Remove p)"
  unfolding os_Remove_def
  by (rule keeps_os_call)
    (use assms in \<open>auto simp: fs_inv_def intro!: fs_wf_del dest: fs_wf_file_childless split: option.split fs_node.split\<close>)

lemma keeps_remove_dirs:
  "(\<And>d. d \<in> set ds \<Longrightarrow> \<not> leaf d \<and> d \<notin> D) \<Longrightarrow> keeps (fs_inv leaf A D f) (remove_dirs ds)"
proof (induction ds)
  case (Cons d ds)
  then have "keeps (fs_inv leaf A D f) (os_Remove d)" by (intro keeps_Remove) auto
  with Cons show ?case by (auto intro!: keeps_intros)
qed (simp add: keeps_returnE)

lemma remove_dirs_ok: "\<exists>t'. remove_dirs ds t = (Inr (), t')"
  by (induction ds arbitrary: t) (auto simp: prog_defs split: prod.splits sum.splits)

lemma remove_dirs_quiet:
  "fs_faults t = [] \<Longrightarrow> fst (remove_dirs ds t) = Inr () \<and> fs_faults (snd (remove_dirs ds t)) = []"
  by (induction ds arbitrary: t)
    (auto simp: prog_defs os_Remove_def split: prod.splits sum.splits option.splits fs_node.splits if_splits)

lemma remove_dirs_gone: "lookup t q = None \<Longrightarrow> lookup (snd (remove_dirs ds t)) q = None"
proof (induction ds arbitrary: t)
  case (Cons d ds)
  have "lookup (snd (os_Remove d t)) q = None"
    using Cons.prems by (auto simp: os_Remove_def os_call_def split: list.split option.split fs_node.split)
  with Cons show ?case by (auto simp: prog_defs split: prod.splits sum.splits)
qed (simp add: returnE_def)

lemma temp_name_first:
  "0 < k \<Longrightarrow> (\<And>a. lookup s (d @ [a]) = None) \<Longrightarrow>
   temp_name k d pre suf s = (Some (d @ [pre @ show_nat (fs_rand s (fs_seed s)) @ suf]), s\<lparr>fs_seed := fs_seed s + 1\<rparr>)"
  by (cases k) (auto simp: Let_def)

lemma faults_more [simp]: "fs_faults (s\<lparr>fs_seed := k\<rparr>) = fs_faults s"
  by simp

lemma triple_Close:
  "(\<And>t fs. P (t\<lparr>fs_faults := fs\<rparr>) = P t) \<Longrightarrow> triple P os_Close (\<lambda>_. P) (\<lambda>_. P)"
  by (auto simp: triple_def os_Close_def os_call_def returnE_def split: list.splits option.splits)


lemma keeps_Sync [fs_keeps]: "keeps (fs_inv leaf A D f) os_Sync"
  unfolding os_Sync_def by (rule keeps_os_call) (simp add: returnE_def)

section \<open>What the calls achieve\<close>

lemma triple_Sync:
  "(\<And>t fs. P (t\<lparr>fs_faults := fs\<rparr>) = P t) \<Longrightarrow> triple P os_Sync (\<lambda>_. P) (\<lambda>_. P)"
  unfolding os_Sync_def os_Close_def [symmetric] by (rule triple_Close)

lemma triple_CreateTemp:
  assumes "leaf_ok leaf" "\<And>n. leaf (d @ [pre @ show_nat n @ suf])" "\<And>n. d @ [pre @ show_nat n @ suf] \<in> A"
  shows "triple (fs_inv leaf A D f) (os_CreateTemp d pre suf)
     (\<lambda>p t. fs_inv leaf A D f t \<and> (\<exists>n. p = d @ [pre @ show_nat n @ suf]) \<and> lookup t p = Some (File []))
     (\<lambda>_. fs_inv leaf A D f)"
proof -
  have k: "keeps (fs_inv leaf A D f) (os_CreateTemp d pre suf)"
    using assms by (rule keeps_CreateTemp)
  show ?thesis
  proof
    fix t p t' assume t: "fs_inv leaf A D f t" and run: "os_CreateTemp d pre suf t = (Inr p, t')"
    have "fs_inv leaf A D f t'" using keepsD [OF k t] run by simp
    moreover have "(\<exists>n. p = d @ [pre @ show_nat n @ suf]) \<and> lookup t' p = Some (File [])"
      using run temp_name_fresh
      by (fastforce simp: os_CreateTemp_def os_call_def split: if_splits list.splits option.splits prod.splits)
    ultimately show "fs_inv leaf A D f t' \<and> (\<exists>n. p = d @ [pre @ show_nat n @ suf]) \<and> lookup t' p = Some (File [])"
      by blast
  next
    fix t e t' assume "fs_inv leaf A D f t" "os_CreateTemp d pre suf t = (Inl e, t')"
    with keepsD [OF k, of t] show "fs_inv leaf A D f t'" by simp
  qed
qed

lemma triple_Write:
  assumes "leaf_ok leaf" "leaf p" "p \<noteq> []" "p \<in> A"
  shows "triple (\<lambda>t. fs_inv leaf A D f t \<and> lookup t p = Some (File [])) (os_Write p b)
    (\<lambda>_ t. fs_inv leaf A D f t \<and> lookup t p = Some (File b)) (\<lambda>_. fs_inv leaf A D f)"
  using keepsD [OF keeps_Write [OF assms, of D f b]]
  by (force simp: triple_def os_Write_def put_bytes_def is_file_def split: list.splits option.splits)

lemma triple_Rename:
  assumes "leaf_ok leaf" "leaf q" "q \<noteq> []" and "p \<in> A" "q \<notin> A"
  shows "triple (\<lambda>t. fs_inv leaf A D f t \<and> lookup t p = Some (File b)) (os_Rename p q)
    (\<lambda>_. fs_inv leaf A D (f(q \<mapsto> File b))) (\<lambda>_. fs_inv leaf A D f)"
proof
  have k: "keeps (fs_inv leaf (insert q A) D f) (os_Rename p q)"
    using assms by (intro keeps_Rename) auto
  fix t x t' assume t: "fs_inv leaf A D f t \<and> lookup t p = Some (File b)"
    and run: "os_Rename p q t = (Inr x, t')"
  have "fs_inv leaf (insert q A) D f t" using t by (auto simp: fs_inv_def)
  then have "fs_inv leaf (insert q A) D f t'" using keepsD [OF k] run by fastforce
  moreover have "lookup t' q = Some (File b)"
    using run t by (auto simp: os_Rename_def os_call_def split: list.splits option.splits if_splits)
  ultimately show "fs_inv leaf A D (f(q \<mapsto> File b)) t'"
    using assms(5) by (auto simp: fs_inv_def)
next
  fix t e t' assume "fs_inv leaf A D f t \<and> lookup t p = Some (File b)" "os_Rename p q t = (Inl e, t')"
  then show "fs_inv leaf A D f t'"
    by (auto simp: os_Rename_def os_call_def split: list.splits option.splits if_splits)
qed

text \<open>A link is refused, with \<open>ErrExist\<close>, exactly when the target is taken.\<close>

lemma triple_Link:
  assumes "leaf_ok leaf" "leaf q" "q \<noteq> []" and "q \<notin> A"
  shows "triple (\<lambda>t. fs_inv leaf A D f t \<and> lookup t p = Some (File b)) (os_Link p q)
    (\<lambda>_ t. fs_inv leaf A D (f(q \<mapsto> File b)) t \<and> f q = None)
    (\<lambda>e t. fs_inv leaf A D f t \<and> (e = ErrExist \<longrightarrow> f q \<noteq> None))"
proof
  have k: "keeps (fs_inv leaf (insert q A) D f) (os_Link p q)"
    using assms by (intro keeps_Link) auto
  fix t x t' assume t: "fs_inv leaf A D f t \<and> lookup t p = Some (File b)"
    and run: "os_Link p q t = (Inr x, t')"
  have "fs_inv leaf (insert q A) D f t" using t by (auto simp: fs_inv_def)
  then have "fs_inv leaf (insert q A) D f t'" using keepsD [OF k] run by fastforce
  moreover have "lookup t' q = Some (File b)" "lookup t q = None"
    using run t by (auto simp: os_Link_def os_call_def split: list.splits option.splits if_splits)
  ultimately show "fs_inv leaf A D (f(q \<mapsto> File b)) t' \<and> f q = None"
    using assms(2,4) t by (auto simp: fs_inv_def)
next
  fix t e t' assume t: "fs_inv leaf A D f t \<and> lookup t p = Some (File b)" and run: "os_Link p q t = (Inl e, t')"
  have "lookup t q = f q" using t assms(2,4) by (simp add: fs_inv_def)
  with t run show "fs_inv leaf A D f t' \<and> (e = ErrExist \<longrightarrow> f q \<noteq> None)"
    by (auto simp: os_Link_def os_call_def split: list.splits option.splits if_splits)
qed

end
