(* ===== verification/Local_Store.thy ===== *)
theory Local_Store
  imports Storage File_System
begin

text \<open>
  Package \<open>pkg/storage/local\<close>: narinfos, NARs and the secret key as files below one directory. A store is the
  path of that directory, as the list of its components; joining a path made of plain
  components is appending them. Tracing is left out. A narinfo is a value of a type the store does not look into: \<open>String\<close> and
  \<open>Parse\<close> of the go-nix library are the two fields of a \<open>narinfo_codec\<close>.
\<close>

section \<open>Paths of the store\<close>

definition configPath :: "path \<Rightarrow> path" where "configPath s = s @ [''config'']"
definition secretKeyPath :: "path \<Rightarrow> path" where "secretKeyPath s = configPath s @ [''cache.key'']"
definition storePath :: "path \<Rightarrow> path" where "storePath s = s @ [''store'']"
definition storeNarInfoPath :: "path \<Rightarrow> path" where "storeNarInfoPath s = storePath s @ [''narinfo'']"
definition storeNarPath :: "path \<Rightarrow> path" where "storeNarPath s = storePath s @ [''nar'']"
definition storeTMPPath :: "path \<Rightarrow> path" where "storeTMPPath s = storePath s @ [''tmp'']"

definition components :: "string \<Rightarrow> path" where
  "components p = split_on (CHR ''/'') p"

definition narinfo_path :: "path \<Rightarrow> string \<Rightarrow> path result" where
  "narinfo_path s h = rbind (narinfo_FilePath h) (\<lambda>p. Inr (storeNarInfoPath s @ components p))"

definition nar_path :: "path \<Rightarrow> nar_url \<Rightarrow> path result" where
  "nar_path s u =
     rbind (Normalize u) (\<lambda>v. rbind (ToFilePath v) (\<lambda>p. Inr (storeNarPath s @ components p)))"

section \<open>Operations\<close>

definition not_found :: "err \<Rightarrow> err" where
  "not_found e = (if e = ErrNotExist then ErrNotFound else e)"

definition HasNarInfo :: "path \<Rightarrow> string \<Rightarrow> (file_system, bool) prog" where
  "HasNarInfo s hash =
     (case narinfo_path s hash of
        Inl _ \<Rightarrow> returnE False
      | Inr p \<Rightarrow> bindE (attemptE (os_Stat p)) (\<lambda>r. returnE (\<not> isl r)))"

definition GetNarInfo_local :: "'ni narinfo_codec \<Rightarrow> path \<Rightarrow> string \<Rightarrow> (file_system, 'ni) prog" where
  "GetNarInfo_local nc s hash =
     bindE (liftE (narinfo_path s hash)) (\<lambda>p.
     bindE (map_err not_found (os_Open p)) (\<lambda>b.
     liftE (nc_Parse nc b)))"

definition PutNarInfo_local :: "'ni narinfo_codec \<Rightarrow> path \<Rightarrow> string \<Rightarrow> 'ni \<Rightarrow> (file_system, unit) prog" where
  "PutNarInfo_local nc s hash ni =
     bindE (liftE (narinfo_path s hash)) (\<lambda>p.
     thenE (os_MkdirAll (storeNarInfoPath s))
     (thenE (os_MkdirAll (butlast p))
     (thenE (map_err (\<lambda>e. if e = ErrExist then ErrAlreadyExists else e) (os_CreateExcl p))
     (finallyE (os_Write p (nc_String nc ni)) os_Close))))"

text \<open>The directories a clean-up visits: from the parent of the file up to and including \<open>categoryDir\<close>.\<close>

definition parents_within :: "path \<Rightarrow> path \<Rightarrow> path list" where
  "parents_within categoryDir filePath = rev (filter (prefix categoryDir) (prefixes (butlast filePath)))"

definition removeEmptyParentDirs :: "path \<Rightarrow> path \<Rightarrow> (file_system, unit) prog" where
  "removeEmptyParentDirs filePath categoryDir = remove_dirs (parents_within categoryDir filePath)"

definition DeleteNarInfo_local :: "path \<Rightarrow> string \<Rightarrow> (file_system, unit) prog" where
  "DeleteNarInfo_local s hash =
     bindE (liftE (narinfo_path s hash)) (\<lambda>p.
     thenE (map_err not_found (os_Remove p))
     (removeEmptyParentDirs p (storeNarInfoPath s)))"

definition HasNar_local :: "path \<Rightarrow> nar_url \<Rightarrow> (file_system, bool) prog" where
  "HasNar_local s u =
     (case nar_path s u of
        Inl _ \<Rightarrow> returnE False
      | Inr p \<Rightarrow> bindE (attemptE (os_Stat p)) (\<lambda>r. returnE (\<not> isl r)))"

definition GetNar_local :: "path \<Rightarrow> nar_url \<Rightarrow> (file_system, nat \<times> bytes) prog" where
  "GetNar_local s u =
     bindE (liftE (nar_path s u)) (\<lambda>p.
     bindE (map_err not_found (os_Stat p)) (\<lambda>info.
     bindE (os_Open p) (\<lambda>b.
     returnE (case info of File c \<Rightarrow> length c | Dir \<Rightarrow> 0, b))))"

text \<open>\<open>io.Copy\<close> into an open file.\<close>

definition io_Copy :: "path \<Rightarrow> reader \<Rightarrow> (file_system, nat) prog" where
  "io_Copy p body =
     thenE (os_Write p (rd_data body))
     (case rd_err body of None \<Rightarrow> returnE (length (rd_data body)) | Some e \<Rightarrow> raiseE e)"

definition PutNar_local :: "path \<Rightarrow> nar_url \<Rightarrow> reader \<Rightarrow> (file_system, nat) prog" where
  "PutNar_local s u body =
     bindE (liftE (nar_path s u)) (\<lambda>p.
     bindE (attemptE (os_Stat p)) (\<lambda>st.
     if \<not> isl st then raiseE ErrAlreadyExists
     else
       thenE (os_MkdirAll (butlast p))
       (bindE (os_CreateTemp (storeTMPPath s) (url_Hash u @ ''-'')
                (''.nar'' @ (if url_Compression u \<noteq> [] then ''.'' @ url_Compression u else []))) (\<lambda>f.
        bindE (attemptE (io_Copy f body)) (\<lambda>r.
        case r of
          Inl e \<Rightarrow> thenE (ignoreE os_Close) (thenE (ignoreE (os_Remove f)) (raiseE e))
        | Inr written \<Rightarrow>
            thenE os_Close
            (thenE (os_Rename f p)
            (thenE (os_Chmod p) (returnE written))))))))"

definition DeleteNar_local :: "path \<Rightarrow> nar_url \<Rightarrow> (file_system, unit) prog" where
  "DeleteNar_local s u =
     bindE (liftE (nar_path s u)) (\<lambda>p.
     thenE (map_err not_found (os_Remove p))
     (removeEmptyParentDirs p (storeNarPath s)))"

text \<open>
  The files a walk visits, in lexical order (\<open>filepath.Walk\<close> and \<open>WalkDir\<close>), read when the walk starts. The walk of
  narinfos takes the files with the extension \<open>.narinfo\<close>, the walk of NARs the names that parse as NAR URLs.
\<close>

definition walk_files :: "path \<Rightarrow> file_system \<Rightarrow> path list" where
  "walk_files root fs =
     sort (map fst (filter (\<lambda>(p, n). prefix root p \<and> n \<noteq> Dir) (fs_nodes fs)))"

definition WalkNarInfos_local :: "path \<Rightarrow> (string \<Rightarrow> (file_system, unit) prog) \<Rightarrow> (file_system, unit) prog" where
  "WalkNarInfos_local s fn =
     bindE (attemptE (os_Stat (storeNarInfoPath s))) (\<lambda>r.
     if r = Inl ErrNotExist then returnE ()
     else bindE (getsE (walk_files (storeNarInfoPath s))) (\<lambda>ps.
       forE (filter (suffix ''.narinfo'') (map last ps)) (\<lambda>f. fn (trim_suffix f ''.narinfo''))))"

definition WalkNars_local :: "path \<Rightarrow> (nar_url \<Rightarrow> (file_system, unit) prog) \<Rightarrow> (file_system, unit) prog" where
  "WalkNars_local s fn =
     bindE (attemptE (os_Stat (storeNarPath s))) (\<lambda>r.
     if r = Inl ErrNotExist then returnE ()
     else bindE (getsE (walk_files (storeNarPath s))) (\<lambda>ps.
       forE ps (\<lambda>p. case ParseURL (last p) of Inl _ \<Rightarrow> returnE () | Inr u \<Rightarrow> fn u)))"

definition HasNarinfoDir :: "path \<Rightarrow> (file_system, bool) prog" where
  "HasNarinfoDir s =
     bindE (attemptE (os_Stat (storeNarInfoPath s))) (\<lambda>r.
       case r of Inl e \<Rightarrow> if e = ErrNotExist then returnE False else raiseE e | Inr _ \<Rightarrow> returnE True)"

text \<open>The secret key; \<open>load\<close> is \<open>signature.LoadSecretKey\<close> and a key is printed to its text.\<close>

definition GetSecretKey_local :: "(string \<Rightarrow> 'k result) \<Rightarrow> path \<Rightarrow> (file_system, 'k) prog" where
  "GetSecretKey_local load s =
     bindE (attemptE (os_Stat (secretKeyPath s))) (\<lambda>r.
     if r = Inl ErrNotExist then raiseE ErrNotFound
     else bindE (os_Open (secretKeyPath s)) (\<lambda>b. liftE (load b)))"

definition PutSecretKey_local :: "path \<Rightarrow> string \<Rightarrow> (file_system, unit) prog" where
  "PutSecretKey_local s sk =
     thenE (os_MkdirAll (configPath s))
     (bindE (attemptE (os_Stat (secretKeyPath s))) (\<lambda>r.
      if \<not> isl r then raiseE ErrAlreadyExists
      else thenE (os_CreateTrunc (secretKeyPath s)) (os_Write (secretKeyPath s) sk)))"

definition DeleteSecretKey_local :: "path \<Rightarrow> (file_system, unit) prog" where
  "DeleteSecretKey_local s =
     bindE (attemptE (os_Stat (secretKeyPath s))) (\<lambda>r.
     if r = Inl ErrNotExist then raiseE ErrNotFound
     else thenE (os_Remove (secretKeyPath s)) (removeEmptyParentDirs (secretKeyPath s) (configPath s)))"

text \<open>Opening a store. A status error other than "does not exist" leaves \<open>info\<close> nil, and \<open>info.IsDir()\<close> panics.\<close>

definition isWritable :: "path \<Rightarrow> (file_system, bool) prog" where
  "isWritable p =
     bindE (attemptE (os_CreateTemp p ''write_test'' [])) (\<lambda>r.
       case r of
         Inl _ \<Rightarrow> returnE False
       | Inr f \<Rightarrow> thenE (ignoreE os_Close) (thenE (ignoreE (os_Remove f)) (returnE True)))"

definition validatePath :: "string \<Rightarrow> (file_system, path) prog" where
  "validatePath path =
     (let p = clean_comps True [] (split_on (CHR ''/'') path) in
      if \<not> prefix ''/'' path then raiseE ErrPathMustBeAbsolute
      else bindE (attemptE (os_Stat p)) (\<lambda>r.
        case r of
          Inl e \<Rightarrow> if e = ErrNotExist then raiseE ErrPathMustExist else raiseE ErrPanic
        | Inr (File _) \<Rightarrow> raiseE ErrPathMustBeADirectory
        | Inr Dir \<Rightarrow> bindE (isWritable p) (\<lambda>w. if w then returnE p else raiseE ErrPathMustBeWritable)))"

definition EnsureDirWritable :: "path \<Rightarrow> (file_system, unit) prog" where
  "EnsureDirWritable d =
     bindE (os_CreateTemp d ''boot_test'' []) (\<lambda>f. finallyE os_Close (os_Remove f))"

definition setupDirs :: "path \<Rightarrow> (file_system, unit) prog" where
  "setupDirs s =
     thenE (os_RemoveAll (storeTMPPath s))
     (thenE (forE [storePath s, storeNarPath s, storeTMPPath s] os_MkdirAll)
     (EnsureDirWritable (storeTMPPath s)))"

definition New_local :: "string \<Rightarrow> (file_system, path) prog" where
  "New_local path = bindE (validatePath path) (\<lambda>s. thenE (setupDirs s) (returnE s))"

section \<open>Where the files are\<close>

definition store_leaf :: "path \<Rightarrow> path \<Rightarrow> bool" where
  "store_leaf s p \<longleftrightarrow>
     (\<exists>a b c. p = storeNarPath s @ [a, b, c] \<or> p = storeNarInfoPath s @ [a, b, c]) \<or>
     (\<exists>a. p = storeTMPPath s @ [a]) \<or> p = secretKeyPath s"

lemmas store_paths = configPath_def secretKeyPath_def storePath_def storeNarInfoPath_def storeNarPath_def
  storeTMPPath_def

lemma store_leaf_ok: "leaf_ok (store_leaf s)"
  unfolding leaf_ok_def
proof (intro allI impI notI)
  fix p q assume p: "store_leaf s p" and pre: "strict_prefix q p" and q: "store_leaf s q"
  then obtain r where "p = q @ r" "r \<noteq> []" by (auto simp: strict_prefix_def prefix_def)
  with p q show False by (auto simp: store_leaf_def store_paths)
qed

lemma ToFilePath_components:
  assumes "nar_hash_ok (url_Hash u)" and "ToFilePath u = Inr p"
  shows "\<exists>a b c. components p = [a, b, c]"
proof -
  let ?h = "url_Hash u"
  obtain e where e: "ToFileExtension (url_Compression u) = Inr e"
    using assms(2) by (auto simp: ToFilePath_def rbind_Inr)
  let ?f = "?h @ ''.nar'' @ (if e \<noteq> [] then ''.'' @ e else [])"
  have h: "CHR ''/'' \<notin> set ?h" using nar_hash_ok_chars [OF assms(1)] by fastforce
  have f: "CHR ''/'' \<notin> set ?f" using h ToFileExtension_plain [OF e] by simp
  have t: "CHR ''/'' \<notin> set (take n ?h)" for n using h by (meson in_set_takeD)
  have "p = take 1 ?h @ CHR ''/'' # take 2 ?h @ CHR ''/'' # ?f"
    using ToFilePath_plain [OF assms(1) e] assms(2) by simp
  then have "components p = [take 1 ?h, take 2 ?h, ?f]"
    using f t by (simp add: components_def split_on_append split_on_plain)
  then show ?thesis by blast
qed

lemma nar_path_form:
  assumes "nar_path s u = Inr p"
  shows "\<exists>a b c. p = storeNarPath s @ [a, b, c]"
proof -
  obtain v q where v: "Normalize u = Inr v" "ToFilePath v = Inr q" "p = storeNarPath s @ components q"
    using assms by (auto simp: nar_path_def rbind_Inr)
  have "nar_hash_ok (url_Hash v)"
    using v(1) by (auto simp: Normalize_def nar_hash_ok_def mk_nar_url_def split: option.splits if_splits)
  with v show ?thesis using ToFilePath_components by blast
qed

lemma narinfo_path_form:
  assumes "narinfo_path s h = Inr p"
  shows "\<exists>a b c. p = storeNarInfoPath s @ [a, b, c]"
proof -
  let ?f = "h @ ''.narinfo''"
  obtain q where ok: "narinfo_hash_ok h" and q: "FilePathWithSharding ?f = Inr q" "p = storeNarInfoPath s @ components q"
    using assms
    by (auto simp: narinfo_path_def narinfo_FilePath_def narinfo_ValidateHash_def rbind_Inr split: if_splits)
  have c: "x \<noteq> CHR ''/'' \<and> x \<noteq> CHR ''.''" if "x \<in> set h" for x
    using narinfo_hash_no_sep [OF ok that] by auto
  obtain a r where h: "h = a # r" using ok by (cases h) (auto simp: narinfo_hash_ok_def)
  have sl: "CHR ''/'' \<notin> set ?f" "hd ?f \<noteq> CHR ''.''" "3 \<le> length ?f" using c by (auto simp: h)
  then have "q = take 1 ?f @ CHR ''/'' # take 2 ?f @ CHR ''/'' # ?f"
    using FilePathWithSharding_plain [of ?f] q(1) by simp
  moreover have "CHR ''/'' \<notin> set (take n ?f)" for n using sl(1) by (meson in_set_takeD)
  ultimately have "components q = [take 1 ?f, take 2 ?f, ?f]"
    using sl(1) by (simp add: components_def split_on_append split_on_plain del: take_append append_take_drop_id)
  with q show ?thesis by blast
qed

section \<open>The state of a store\<close>

text \<open>The NARs a store holds, by path.\<close>

definition is_nar_path :: "path \<Rightarrow> path \<Rightarrow> bool" where
  "is_nar_path s p \<longleftrightarrow> prefix (storeNarPath s) p \<and> length p = length s + 5"

definition nars :: "path \<Rightarrow> file_system \<Rightarrow> path \<Rightarrow> bytes option" where
  "nars s fs p = (if is_nar_path s p then file_at fs p else None)"

text \<open>A tree that only has the store's own files, and the directory for temporary files \<open>setupDirs\<close> makes.\<close>

definition tmp_paths :: "path \<Rightarrow> path set" where
  "tmp_paths s = {storeTMPPath s @ [a] |a. True}"

abbreviation store_holds :: "path \<Rightarrow> path set \<Rightarrow> (path \<Rightarrow> fs_node option) \<Rightarrow> file_system \<Rightarrow> bool" where
  "store_holds s A f \<equiv> fs_inv (store_leaf s) A {storeTMPPath s} f"

definition store_wf :: "path \<Rightarrow> file_system \<Rightarrow> bool" where
  "store_wf s fs \<longleftrightarrow> store_holds s UNIV Map.empty fs"

text \<open>No call is going to fail and no temporary file is left over.\<close>

definition store_calm :: "path \<Rightarrow> file_system \<Rightarrow> bool" where
  "store_calm s fs \<longleftrightarrow> fs_faults fs = [] \<and> (\<forall>p \<in> tmp_paths s. lookup fs p = None)"

lemma store_wf_iff: "store_wf s fs \<longleftrightarrow> fs_wf (store_leaf s) fs \<and> lookup fs (storeTMPPath s) = Some Dir"
  by (simp add: store_wf_def fs_inv_def)

lemma store_holds_self: "store_wf s fs \<Longrightarrow> store_holds s A (lookup fs) fs"
  by (simp add: store_wf_def fs_inv_def)

lemma store_holds_wf: "store_holds s A f fs \<Longrightarrow> store_wf s fs"
  by (simp add: store_wf_def fs_inv_def)

lemma nar_path_is: "nar_path s u = Inr p \<Longrightarrow> is_nar_path s p \<and> store_leaf s p \<and> p \<noteq> [] \<and> p \<notin> tmp_paths s"
  using nar_path_form [of s u p]
  by (auto simp: is_nar_path_def store_leaf_def tmp_paths_def store_paths)

lemma is_nar_path_leaf: "is_nar_path s p \<Longrightarrow> store_leaf s p \<and> p \<notin> tmp_paths s"
proof -
  assume "is_nar_path s p"
  then obtain r where r: "p = storeNarPath s @ r" "length r = 3"
    by (auto simp: is_nar_path_def prefix_def store_paths)
  then obtain a b c where "r = [a, b, c]" by (auto simp: length_Suc_conv numeral_3_eq_3)
  with r show ?thesis by (auto simp: store_leaf_def tmp_paths_def store_paths)
qed

lemma nars_agree: "store_holds s A f fs \<Longrightarrow> A \<subseteq> tmp_paths s \<Longrightarrow> is_nar_path s p \<Longrightarrow> lookup fs p = f p"
  using is_nar_path_leaf [of s p] by (auto simp: fs_inv_def)

lemma parent_not_leaf:
  assumes "store_leaf s p" and "prefix q (butlast p)"
  shows "\<not> store_leaf s q"
proof -
  have "p \<noteq> []" using assms(1) by (auto simp: store_leaf_def store_paths)
  then have "strict_prefix (butlast p) p"
    by (metis append_butlast_last_id butlast_inj prefixeq_butlast strict_prefix_def)
  with assms(2) have "strict_prefix q p" by (rule prefix_order.le_less_trans)
  with assms(1) store_leaf_ok show ?thesis by (auto simp: leaf_ok_def)
qed

lemma parents_within_ok:
  assumes "nar_path s u = Inr p" and "d \<in> set (parents_within (storeNarPath s) p)"
  shows "\<not> store_leaf s d \<and> d \<noteq> storeTMPPath s"
  using assms nar_path_is [OF assms(1)] parent_not_leaf [of s p d]
  by (auto simp: parents_within_def) (auto simp: store_paths prefix_def)

text \<open>What PutNar and DeleteNar keep, whatever fails.\<close>

lemma tmp_leaf: "store_leaf s (storeTMPPath s @ [a])" "storeTMPPath s @ [a] \<in> tmp_paths s"
  by (auto simp: store_leaf_def tmp_paths_def)

lemma triple_store_temp:
  "triple (store_holds s (tmp_paths s) f) (os_CreateTemp (storeTMPPath s) pre suf)
     (\<lambda>p t. (store_holds s (tmp_paths s) f t \<and> lookup t p = Some (File [])) \<and> p \<in> tmp_paths s)
     (\<lambda>_. store_holds s (tmp_paths s) f)"
  by (rule triple_weaken [OF triple_CreateTemp [OF store_leaf_ok tmp_leaf]]) (auto simp: tmp_leaf)

lemma triple_io_Copy:
  assumes "f \<in> tmp_paths s"
  shows "triple (\<lambda>t. store_holds s (tmp_paths s) g t \<and> lookup t f = Some (File [])) (io_Copy f r)
    (\<lambda>n t. store_holds s (tmp_paths s) g t \<and> lookup t f = Some (File (rd_data r)) \<and> rd_err r = None \<and> n = length (rd_data r))
    (\<lambda>_. store_holds s (tmp_paths s) g)"
proof -
  have f: "store_leaf s f" "f \<noteq> []" using assms by (auto simp: tmp_paths_def tmp_leaf)
  show ?thesis
    unfolding io_Copy_def
    by (rule triple_thenE [OF triple_Write [OF store_leaf_ok f assms]])
      (auto simp: triple_def returnE_def raiseE_def split: option.split)
qed

text \<open>Whatever fails, PutNar leaves the NARs as they were or adds the whole body.\<close>

lemma PutNar_local_triple:
  assumes p: "nar_path s u = Inr p"
  shows "triple (store_holds s (tmp_paths s) g) (PutNar_local s u r)
    (\<lambda>n t. store_holds s (tmp_paths s) (g(p \<mapsto> File (rd_data r))) t \<and> rd_err r = None)
    (\<lambda>_ t. store_holds s (tmp_paths s) g t \<or>
      store_holds s (tmp_paths s) (g(p \<mapsto> File (rd_data r))) t \<and> rd_err r = None)"
    (is "triple ?I _ ?Q ?E")
proof -
  note pp = nar_path_is [OF p]
  let ?J = "store_holds s (tmp_paths s) (g(p \<mapsto> File (rd_data r)))"
  have stat: "triple ?I (attemptE (os_Stat p)) (\<lambda>_. ?I) ?E"
    by (rule triple_weaken [OF triple_keeps [OF keeps_attemptE [OF keeps_Stat]]]) auto
  have mkdir: "triple ?I (os_MkdirAll (butlast p)) (\<lambda>_. ?I) ?E"
    by (rule triple_weaken [OF triple_keeps [OF keeps_MkdirAll]]) (use pp parent_not_leaf in auto)
  have clean: "triple ?I (thenE (ignoreE os_Close) (thenE (ignoreE (os_Remove f)) (raiseE e))) Q ?E"
    if "f \<in> tmp_paths s" for f e and Q :: "nat \<Rightarrow> file_system \<Rightarrow> bool"
  proof -
    have "keeps ?I (thenE (ignoreE os_Close) (ignoreE (os_Remove f)))"
      using that by (intro keeps_intros keeps_Close keeps_Remove) (auto simp: tmp_paths_def)
    then show ?thesis
      by (auto simp: triple_def keeps_def prog_defs split: prod.splits sum.splits)
  qed
  have finish: "triple (\<lambda>t. ?I t \<and> lookup t f = Some (File (rd_data r)))
      (thenE os_Close (thenE (os_Rename f p) (thenE (os_Chmod p) (returnE n)))) ?Q ?E"
    if "f \<in> tmp_paths s" and "rd_err r = None" for f n
  proof (intro triple_thenE)
    show "triple (\<lambda>t. ?I t \<and> lookup t f = Some (File (rd_data r))) os_Close
        (\<lambda>_ t. ?I t \<and> lookup t f = Some (File (rd_data r))) ?E"
      by (rule triple_weaken [OF triple_Close [where P = "\<lambda>t. ?I t \<and> lookup t f = Some (File (rd_data r))"]]) auto
    show "triple (\<lambda>t. ?I t \<and> lookup t f = Some (File (rd_data r))) (os_Rename f p) (\<lambda>_. ?J) ?E"
      by (rule triple_weaken [OF triple_Rename [OF store_leaf_ok _ _ that(1)]]) (use pp in auto)
    show "triple ?J (os_Chmod p) (\<lambda>_. ?J) ?E"
      by (rule triple_weaken [OF triple_keeps [OF keeps_Chmod]]) (use that in auto)
    show "triple ?J (returnE n) ?Q ?E" by (rule triple_returnE) (use that in simp)
  qed
  have copy: "triple (\<lambda>t. ?I t \<and> lookup t f = Some (File []))
      (bindE (attemptE (io_Copy f r)) (\<lambda>c. case c of
          Inl e \<Rightarrow> thenE (ignoreE os_Close) (thenE (ignoreE (os_Remove f)) (raiseE e))
        | Inr written \<Rightarrow> thenE os_Close (thenE (os_Rename f p) (thenE (os_Chmod p) (returnE written))))) ?Q ?E"
    if f: "f \<in> tmp_paths s" for f
  proof (rule triple_bindE [OF triple_attemptE [OF triple_io_Copy [OF f]]])
    fix c :: "nat result"
    show "triple (case c of Inl e \<Rightarrow> ?I
        | Inr n \<Rightarrow> \<lambda>t. ?I t \<and> lookup t f = Some (File (rd_data r)) \<and> rd_err r = None \<and> n = length (rd_data r))
      (case c of
          Inl e \<Rightarrow> thenE (ignoreE os_Close) (thenE (ignoreE (os_Remove f)) (raiseE e))
        | Inr written \<Rightarrow> thenE os_Close (thenE (os_Rename f p) (thenE (os_Chmod p) (returnE written)))) ?Q ?E"
    proof (cases c)
      case (Inl e)
      then show ?thesis using clean [OF f, where Q = ?Q] by simp
    next
      case (Inr n)
      have "triple (\<lambda>t. (?I t \<and> lookup t f = Some (File (rd_data r))) \<and> rd_err r = None)
          (thenE os_Close (thenE (os_Rename f p) (thenE (os_Chmod p) (returnE n)))) ?Q ?E"
        by (rule triple_assume) (rule finish [OF f])
      then show ?thesis unfolding Inr sum.case by (rule triple_weaken) auto
    qed
  qed
  have put: "triple ?I
      (thenE (os_MkdirAll (butlast p))
       (bindE (os_CreateTemp (storeTMPPath s) pre suf) (\<lambda>f.
        bindE (attemptE (io_Copy f r)) (\<lambda>c. case c of
          Inl e \<Rightarrow> thenE (ignoreE os_Close) (thenE (ignoreE (os_Remove f)) (raiseE e))
        | Inr written \<Rightarrow> thenE os_Close (thenE (os_Rename f p) (thenE (os_Chmod p) (returnE written))))))) ?Q ?E"
    for pre suf
  proof (rule triple_thenE [OF mkdir], rule triple_bindE)
    show "triple ?I (os_CreateTemp (storeTMPPath s) pre suf)
        (\<lambda>f t. (?I t \<and> lookup t f = Some (File [])) \<and> f \<in> tmp_paths s) ?E"
      by (rule triple_weaken [OF triple_store_temp]) auto
  qed (rule triple_assume, rule copy)
  show ?thesis
    unfolding PutNar_local_def p bindE_liftE
    by (rule triple_bindE [OF stat]) (use put in \<open>auto intro: triple_raiseE\<close>)
qed

lemma DeleteNar_local_triple:
  assumes p: "nar_path s u = Inr p"
  shows "triple (store_holds s A g) (DeleteNar_local s u)
    (\<lambda>_. store_holds s A (g(p := None))) (\<lambda>_. store_holds s A g)"
proof -
  note pp = nar_path_is [OF p]
  have rm: "triple (store_holds s A g) (map_err not_found (os_Remove p))
      (\<lambda>_. store_holds s A (g(p := None))) (\<lambda>_. store_holds s A g)"
  proof -
    have k: "keeps (store_holds s (insert p A) g) (os_Remove p)"
      using pp by (intro keeps_Remove) (auto simp: is_nar_path_def store_paths)
    have gone: "lookup t' p = None" if "os_Remove p t = (Inr x, t')" for t x t'
      using that by (auto simp: os_Remove_def os_call_def split: list.splits option.splits fs_node.splits if_splits)
    have same: "lookup t' = lookup t" if "os_Remove p t = (Inl e, t')" for t e t'
      using that by (auto simp: fun_eq_iff os_Remove_def os_call_def split: list.splits option.splits fs_node.splits if_splits)
    show ?thesis
    proof
      fix t x t' assume t: "store_holds s A g t" and run: "map_err not_found (os_Remove p) t = (Inr x, t')"
      then have r: "os_Remove p t = (Inr x, t')" by (simp add: map_err_Inr)
      have "store_holds s (insert p A) g t" using t by (auto simp: fs_inv_def)
      then have "store_holds s (insert p A) g t'" using keepsD [OF k] r by fastforce
      with gone [OF r] show "store_holds s A (g(p := None)) t'" by (auto simp: fs_inv_def)
    next
      fix t e t' assume t: "store_holds s A g t" and run: "map_err not_found (os_Remove p) t = (Inl e, t')"
      then obtain e' where "os_Remove p t = (Inl e', t')" by (auto simp: map_err_Inl)
      from same [OF this] t show "store_holds s A g t'" by (auto simp: fs_inv_def fs_wf_def)
    qed
  qed
  have clean: "triple (store_holds s A h) (removeEmptyParentDirs p (storeNarPath s)) (\<lambda>_. store_holds s A h) (\<lambda>_ _. False)" for h
  proof -
    have "keeps (store_holds s A h) (removeEmptyParentDirs p (storeNarPath s))"
      unfolding removeEmptyParentDirs_def using parents_within_ok [OF p] by (intro keeps_remove_dirs) auto
    then show ?thesis
    proof (intro tripleI)
      fix t e t' assume "removeEmptyParentDirs p (storeNarPath s) t = (Inl e, t')"
      then show False using remove_dirs_ok [of "parents_within (storeNarPath s) p" t] by (simp add: removeEmptyParentDirs_def)
    qed (auto dest: keepsD)
  qed
  show ?thesis
    unfolding DeleteNar_local_def p bindE_liftE
    by (rule triple_thenE [OF rm]) (rule triple_weaken [OF clean], auto)
qed

section \<open>Runs without failures\<close>

lemma leaf_node:
  assumes "store_wf s fs" and "store_leaf s p"
  shows "\<not> below_file fs p" and "lookup fs p = None \<or> (\<exists>b. lookup fs p = Some (File b))"
  using assms below_file_wf [OF store_leaf_ok, of s fs p] fs_wf_file [of "store_leaf s" fs p]
  by (auto simp: store_wf_iff) (metis option.exhaust)

lemma nars_lookup: "is_nar_path s p \<Longrightarrow> nars s fs p = (case lookup fs p of Some (File b) \<Rightarrow> Some b | _ \<Rightarrow> None)"
  by (simp add: nars_def file_at_def)

lemma GetNar_calm:
  assumes "store_wf s fs" "fs_faults fs = []" "nar_path s u = Inr p"
  shows "GetNar_local s u fs =
    (case nars s fs p of None \<Rightarrow> Inl ErrNotFound | Some b \<Rightarrow> Inr (length b, b), fs)"
  using assms leaf_node [OF assms(1), of p] nar_path_is [OF assms(3)]
  by (auto simp: GetNar_local_def nars_lookup os_Stat_def os_Open_def map_err_def not_found_def bindE_def returnE_def)

lemma HasNar_calm:
  assumes "store_wf s fs" "fs_faults fs = []" "nar_path s u = Inr p"
  shows "HasNar_local s u fs = (Inr (nars s fs p \<noteq> None), fs)"
  using assms leaf_node [OF assms(1), of p] nar_path_is [OF assms(3)]
  by (auto simp: HasNar_local_def nars_lookup os_Stat_def bindE_def returnE_def attemptE_def)

lemma PutNar_calm_exists:
  assumes "store_wf s fs" "fs_faults fs = []" "nar_path s u = Inr p" "nars s fs p \<noteq> None"
  shows "PutNar_local s u r fs = (Inl ErrAlreadyExists, fs)"
  using assms leaf_node [OF assms(1), of p] nar_path_is [OF assms(3)]
  by (auto simp: PutNar_local_def nars_lookup os_Stat_def bindE_def raiseE_def attemptE_def)

lemma PutNar_calm:
  assumes wf: "store_wf s fs" and calm: "store_calm s fs" and p: "nar_path s u = Inr p" and new: "nars s fs p = None"
  shows "\<exists>t. PutNar_local s u r fs =
    (case rd_err r of None \<Rightarrow> Inr (length (rd_data r)) | Some e \<Rightarrow> Inl e, t) \<and> store_calm s t"
proof -
  note pp = nar_path_is [OF p]
  have nf [simp]: "fs_faults fs = []" using calm by (simp add: store_calm_def)
  have np: "lookup fs p = None" "\<not> below_file fs p"
    using leaf_node [OF wf, of p] pp new by (auto simp: nars_lookup)
  define t1 where "t1 = mkdirs (prefixes (butlast p)) fs"
  have dirs: "\<And>q. prefix q (butlast p) \<Longrightarrow> \<not> store_leaf s q" using pp parent_not_leaf by blast
  have fwf: "fs_wf (store_leaf s) fs" using wf by (simp add: store_wf_iff)
  have mk: "os_MkdirAll (butlast p) fs = (Inr (), t1)"
    using below_file_dir [OF fwf dirs] by (simp add: os_MkdirAll_def t1_def)
  have wf1: "store_wf s t1" and par: "lookup t1 (butlast p) = Some Dir"
    using fs_wf_mkdirs [OF fwf dirs] wf by (auto simp: t1_def store_wf_iff lookup_mkdirs)
  have n1 [simp]: "fs_faults t1 = []" by (simp add: t1_def)
  have tmp1: "lookup t1 (storeTMPPath s @ [a]) = None" "lookup t1 (storeTMPPath s) = Some Dir" for a
  proof -
    have "\<not> prefix (storeTMPPath s @ [a]) (butlast p)" using dirs tmp_leaf(1) [of s a] by blast
    then show "lookup t1 (storeTMPPath s @ [a]) = None"
      using calm by (simp add: t1_def lookup_mkdirs store_calm_def tmp_paths_def)
    show "lookup t1 (storeTMPPath s) = Some Dir" using wf1 by (simp add: store_wf_iff)
  qed
  have p1: "lookup t1 p = None" "\<not> below_file t1 p"
  proof -
    have "\<not> prefix p (butlast p)" using pp dirs by blast
    then show "lookup t1 p = None" using np by (simp add: t1_def lookup_mkdirs)
    show "\<not> below_file t1 p" using leaf_node [OF wf1] pp by blast
  qed
  define suf where "suf = ''.nar'' @ (if url_Compression u \<noteq> [] then ''.'' @ url_Compression u else [])"
  define f where "f = storeTMPPath s @ [(url_Hash u @ ''-'') @ show_nat (fs_rand t1 (fs_seed t1)) @ suf]"
  define t2 where "t2 = set_node f (File []) (t1\<lparr>fs_seed := fs_seed t1 + 1\<rparr>)"
  have tmp: "os_CreateTemp (storeTMPPath s) (url_Hash u @ ''-'') suf t1 = (Inr f, t2)"
  proof -
    have "\<not> below_file t1 (storeTMPPath s)"
      using below_file_wf [OF store_leaf_ok, of s t1 "storeTMPPath s @ [[]]"] wf1 tmp_leaf(1) [of s "[]"]
      by (auto simp: store_wf_iff below_file_iff strict_prefix_def)
    then show ?thesis
      using temp_name_first [of 10000 t1 "storeTMPPath s" "url_Hash u @ ''-''" suf] tmp1
      by (simp add: os_CreateTemp_def is_file_def t2_def f_def)
  qed
  define t3 where "t3 = set_node f (File (rd_data r)) t2"
  have wr: "os_Write f (rd_data r) t2 = (Inr (), t3)"
    by (simp add: os_Write_def t2_def t3_def put_bytes_def is_file_def)
  have "lookup t1 f = None" by (simp add: f_def tmp1)
  then have fp: "f \<noteq> p" "f \<noteq> butlast p" using pp par by (auto simp: f_def tmp_paths_def)
  have calm3: "store_calm s (del_node f t3)" "store_calm s (set_node p n (del_node f t3))" for n
    using tmp1 pp by (auto simp: store_calm_def t3_def t2_def tmp_paths_def)
  have b3: "\<not> below_file t3 q" if "store_leaf s q" for q
  proof -
    have "fs_wf (store_leaf s) t3"
      unfolding t3_def t2_def using wf1 tmp1
      by (intro fs_wf_set_file store_leaf_ok) (auto simp: store_wf_iff f_def tmp_leaf)
    then show ?thesis using below_file_wf [OF store_leaf_ok _ that] by blast
  qed
  have stat: "os_Stat p fs = (Inl ErrNotExist, fs)" using np by (simp add: os_Stat_def)
  have n3 [simp]: "fs_faults t3 = []" by (simp add: t3_def t2_def)
  have ren: "os_Rename f p t3 = (Inr (), set_node p (File (rd_data r)) (del_node f t3))"
    using fp p1 par b3 [of p] pp by (simp add: os_Rename_def t3_def t2_def)
  have rm: "os_Remove f t3 = (Inr (), del_node f t3)"
    using b3 [of f] tmp_leaf(1) by (simp add: os_Remove_def t3_def t2_def f_def)
  show ?thesis
    unfolding PutNar_local_def p bindE_liftE suf_def [symmetric]
    using mk tmp wr stat ren rm calm3
    by (cases "rd_err r") (simp_all add: bindE_def thenE_def attemptE_def io_Copy_def returnE_def raiseE_def ignoreE_def
        os_Close_def os_Chmod_def)
qed

lemma DeleteNar_calm:
  assumes wf: "store_wf s fs" and calm: "store_calm s fs" and p: "nar_path s u = Inr p"
  shows "fst (DeleteNar_local s u fs) = (if nars s fs p = None then Inl ErrNotFound else Inr ()) \<and>
    store_calm s (snd (DeleteNar_local s u fs))"
proof -
  note pp = nar_path_is [OF p]
  have nf: "fs_faults fs = []" using calm by (simp add: store_calm_def)
  show ?thesis
  proof (cases "nars s fs p")
    case None
    then have "os_Remove p fs = (Inl ErrNotExist, fs)"
      using leaf_node [OF wf, of p] pp nf by (auto simp: os_Remove_def nars_lookup)
    with None calm show ?thesis
      by (simp add: DeleteNar_local_def p thenE_def bindE_def map_err_def not_found_def)
  next
    case (Some b)
    then have "os_Remove p fs = (Inr (), del_node p fs)"
      using leaf_node [OF wf, of p] pp nf by (auto simp: os_Remove_def nars_lookup split: option.splits)
    moreover have "fs_faults (del_node p fs) = []" "\<forall>q \<in> tmp_paths s. lookup (del_node p fs) q = None"
      using calm by (auto simp: store_calm_def)
    ultimately show ?thesis
      using Some remove_dirs_quiet [of "del_node p fs"] remove_dirs_gone [of "del_node p fs"]
      by (simp add: DeleteNar_local_def p thenE_def bindE_def map_err_def removeEmptyParentDirs_def store_calm_def)
  qed
qed

section \<open>The local store is a store of NARs\<close>

definition local_nar_store :: "path \<Rightarrow> file_system nar_store" where
  "local_nar_store s =
     \<lparr>ns_HasNar = HasNar_local s, ns_GetNar = GetNar_local s, ns_PutNar = PutNar_local s,
      ns_DeleteNar = DeleteNar_local s\<rparr>"

definition local_narinfo_store :: "'ni narinfo_codec \<Rightarrow> path \<Rightarrow> (file_system, 'ni) narinfo_store" where
  "local_narinfo_store nc s =
     \<lparr>nis_HasNarInfo = HasNarInfo s, nis_GetNarInfo = GetNarInfo_local nc s, nis_PutNarInfo = PutNarInfo_local nc s,
      nis_DeleteNarInfo = DeleteNarInfo_local s\<rparr>"

lemma store_holds_nars:
  "store_holds s (tmp_paths s) (lookup fs) t \<Longrightarrow> nars s t = nars s fs"
  "store_holds s (tmp_paths s) ((lookup fs)(p \<mapsto> File b)) t \<Longrightarrow> is_nar_path s p \<Longrightarrow> nars s t = (nars s fs)(p \<mapsto> b)"
  "store_holds s (tmp_paths s) ((lookup fs)(p := None)) t \<Longrightarrow> nars s t = (nars s fs)(p := None)"
proof -
  have *: "nars s t q = (if is_nar_path s q then (case f q of Some (File b) \<Rightarrow> Some b | _ \<Rightarrow> None) else None)"
    if "store_holds s (tmp_paths s) f t" for f q
    using nars_agree [OF that, of q] by (simp add: nars_def file_at_def)
  show "store_holds s (tmp_paths s) (lookup fs) t \<Longrightarrow> nars s t = nars s fs"
    by (rule ext, simp add: *) (simp add: nars_def file_at_def)
  show "store_holds s (tmp_paths s) ((lookup fs)(p \<mapsto> File b)) t \<Longrightarrow> is_nar_path s p \<Longrightarrow>
      nars s t = (nars s fs)(p \<mapsto> b)"
    by (rule ext, simp add: *) (simp add: nars_def file_at_def)
  show "store_holds s (tmp_paths s) ((lookup fs)(p := None)) t \<Longrightarrow> nars s t = (nars s fs)(p := None)"
    by (rule ext, simp add: *) (simp add: nars_def file_at_def)
qed

lemma PutNar_atomic:
  assumes wf: "store_wf s fs" and p: "nar_path s u = Inr p"
  shows "store_wf s (snd (PutNar_local s u r fs))" and
    "nars s (snd (PutNar_local s u r fs)) = nars s fs \<and> isl (fst (PutNar_local s u r fs)) \<or>
     nars s (snd (PutNar_local s u r fs)) = (nars s fs)(p \<mapsto> rd_data r) \<and> rd_err r = None"
proof -
  obtain x t where run: "PutNar_local s u r fs = (x, t)" by fastforce
  have post: "store_holds s (tmp_paths s) (lookup fs) t \<and> isl x \<or>
      store_holds s (tmp_paths s) ((lookup fs)(p \<mapsto> File (rd_data r))) t \<and> rd_err r = None"
    using PutNar_local_triple [OF p, of "lookup fs" r] store_holds_self [OF wf] run
    by (cases x) (force simp: triple_def)+
  then show "store_wf s (snd (PutNar_local s u r fs))" using store_holds_wf run by auto
  show "nars s (snd (PutNar_local s u r fs)) = nars s fs \<and> isl (fst (PutNar_local s u r fs)) \<or>
     nars s (snd (PutNar_local s u r fs)) = (nars s fs)(p \<mapsto> rd_data r) \<and> rd_err r = None"
    using post nar_path_is [OF p]
    by (auto simp: run dest: store_holds_nars)
qed

lemma DeleteNar_content:
  assumes wf: "store_wf s fs" and p: "nar_path s u = Inr p"
  shows "store_wf s (snd (DeleteNar_local s u fs))" and
    "nars s (snd (DeleteNar_local s u fs)) = nars s fs \<and> isl (fst (DeleteNar_local s u fs)) \<or>
     nars s (snd (DeleteNar_local s u fs)) = (nars s fs)(p := None)"
proof -
  obtain x t where run: "DeleteNar_local s u fs = (x, t)" by fastforce
  have post: "store_holds s (tmp_paths s) (lookup fs) t \<and> isl x \<or>
      store_holds s (tmp_paths s) ((lookup fs)(p := None)) t"
    using DeleteNar_local_triple [OF p, of "tmp_paths s" "lookup fs"] store_holds_self [OF wf] run
    by (cases x) (force simp: triple_def)+
  then show "store_wf s (snd (DeleteNar_local s u fs))" using store_holds_wf run by auto
  show "nars s (snd (DeleteNar_local s u fs)) = nars s fs \<and> isl (fst (DeleteNar_local s u fs)) \<or>
     nars s (snd (DeleteNar_local s u fs)) = (nars s fs)(p := None)"
    using post nar_path_is [OF p]
    by (auto simp: run dest: store_holds_nars)
qed

lemma bad_path_state:
  assumes "nar_path s u = Inl e"
  shows "PutNar_local s u r fs = (Inl e, fs)" "DeleteNar_local s u fs = (Inl e, fs)"
  using assms by (simp_all add: PutNar_local_def DeleteNar_local_def raiseE_def)

interpretation local_nars: nar_store_laws "local_nar_store s" "nar_path s" "nars s" "store_wf s" "store_calm s" for s
proof
  fix fs u r k
  show "store_wf s (snd (ns_PutNar (local_nar_store s) u r fs))" if "store_wf s fs"
    using that PutNar_atomic(1) bad_path_state
    by (cases "nar_path s u") (auto simp: local_nar_store_def)
  show "store_wf s (snd (ns_DeleteNar (local_nar_store s) u fs))" if "store_wf s fs"
    using that DeleteNar_content(1) bad_path_state
    by (cases "nar_path s u") (auto simp: local_nar_store_def)
  show "store_calm s (snd (ns_PutNar (local_nar_store s) u r fs))" if "store_wf s fs" "store_calm s fs"
  proof (cases "nar_path s u")
    case (Inr p)
    then show ?thesis
      using that PutNar_calm [OF that Inr, of r] PutNar_calm_exists [OF that(1) _ Inr, of r]
      by (cases "nars s fs p") (auto simp: local_nar_store_def store_calm_def)
  qed (use that bad_path_state in \<open>simp add: local_nar_store_def\<close>)
  show "store_calm s (snd (ns_DeleteNar (local_nar_store s) u fs))" if "store_wf s fs" "store_calm s fs"
    using that DeleteNar_calm [OF that, of u] bad_path_state [of s u]
    by (cases "nar_path s u") (auto simp: local_nar_store_def)
  assume wf: "store_wf s fs" and k: "nar_path s u = Inr k"
  show "nars s (snd (ns_PutNar (local_nar_store s) u r fs)) = nars s fs \<and> isl (fst (ns_PutNar (local_nar_store s) u r fs)) \<or>
      nars s (snd (ns_PutNar (local_nar_store s) u r fs)) = (nars s fs)(k \<mapsto> rd_data r) \<and> rd_err r = None"
    using PutNar_atomic(2) [OF wf k] by (simp add: local_nar_store_def)
  show "nars s (snd (ns_DeleteNar (local_nar_store s) u fs)) = nars s fs \<and> isl (fst (ns_DeleteNar (local_nar_store s) u fs)) \<or>
      nars s (snd (ns_DeleteNar (local_nar_store s) u fs)) = (nars s fs)(k := None)"
    using DeleteNar_content(2) [OF wf k] by (simp add: local_nar_store_def)
  assume calm: "store_calm s fs"
  then have nf: "fs_faults fs = []" by (simp add: store_calm_def)
  show "ns_GetNar (local_nar_store s) u fs = (case nars s fs k of None \<Rightarrow> Inl ErrNotFound | Some b \<Rightarrow> Inr (length b, b), fs)"
    using GetNar_calm [OF wf nf k] by (simp add: local_nar_store_def)
  show "ns_HasNar (local_nar_store s) u fs = (Inr (nars s fs k \<noteq> None), fs)"
    using HasNar_calm [OF wf nf k] by (simp add: local_nar_store_def)
  show "fst (ns_PutNar (local_nar_store s) u r fs) = Inr (length (rd_data r))" if "rd_err r = None" "nars s fs k = None"
    using PutNar_calm [OF wf calm k that(2), of r] that(1) by (auto simp: local_nar_store_def)
  show "ns_PutNar (local_nar_store s) u r fs = (Inl ErrAlreadyExists, fs)" if "nars s fs k \<noteq> None"
    using PutNar_calm_exists [OF wf nf k that] by (simp add: local_nar_store_def)
  show "fst (ns_DeleteNar (local_nar_store s) u fs) = (if nars s fs k = None then Inl ErrNotFound else Inr ())"
    using DeleteNar_calm [OF wf calm k] by (simp add: local_nar_store_def)
qed

section \<open>Opening a store\<close>

lemma map_of_filter_key: "map_of (filter (\<lambda>(k, _). P k) xs) k = (if P k then map_of xs k else None)"
  by (induction xs) auto

lemma RemoveAll_wf:
  assumes "fs_wf leaf fs" and "os_RemoveAll p fs = (Inr x, t)"
  shows "fs_wf leaf t"
proof -
  have l: "lookup t q = (if take (length p) q \<noteq> p then lookup fs q else None)" for q
    using assms(2)
    by (auto simp: os_RemoveAll_def os_call_def lookup_def map_of_filter_key split: list.splits option.splits)
  have "take (length p) (butlast q) \<noteq> p" if "take (length p) q \<noteq> p" for q
    using that by (metis length_take min.absorb_iff2 min.cobounded2 take_butlast butlast_conv_take take_take linorder_not_le length_butlast take_all_iff)
  with assms(1) l show ?thesis by (auto simp: fs_wf_def split: if_splits)
qed

lemma MkdirAll_dir:
  assumes "fs_inv leaf A D f fs" and "\<And>q. prefix q p \<Longrightarrow> \<not> leaf q" and "os_MkdirAll p fs = (Inr x, t)"
  shows "fs_inv leaf A (insert p D) f t"
proof -
  have "fs_inv leaf A D f t" using keepsD [OF keeps_MkdirAll assms(1)] assms(2,3) by fastforce
  moreover have "lookup t p = Some Dir"
  proof -
    have "\<exists>fs'. lookup fs' = lookup fs \<and> t = mkdirs (prefixes p) fs'"
    proof -
      have "lookup (fs\<lparr>fs_faults := x\<rparr>) = lookup fs" for x by (rule ext) simp
      then show ?thesis
      using assms(3)
      by (auto simp: os_MkdirAll_def os_call_def split: list.splits option.splits if_splits)
    qed
    then obtain fs' where fs': "lookup fs' = lookup fs" "t = mkdirs (prefixes p) fs'" by blast
    have "fs_wf leaf fs'" using assms(1) fs'(1) by (simp add: fs_inv_def fs_wf_def)
    then show ?thesis using fs_wf_mkdirs(2) [of leaf fs' p p] assms(2) fs'(2) by simp
  qed
  ultimately show ?thesis by (simp add: fs_inv_def)
qed

lemma EnsureDirWritable_keeps:
  assumes "\<And>n. store_leaf s (d @ [''boot_test'' @ show_nat n])" "\<And>n. d @ [''boot_test'' @ show_nat n] \<in> A"
  shows "keeps (fs_inv (store_leaf s) A {d} f) (EnsureDirWritable d)"
proof
  fix fs assume I: "fs_inv (store_leaf s) A {d} f fs"
  have k: "keeps (fs_inv (store_leaf s) A {d} f) (os_CreateTemp d ''boot_test'' [])"
    using assms by (intro keeps_CreateTemp store_leaf_ok) simp_all
  obtain x t where run: "os_CreateTemp d ''boot_test'' [] fs = (x, t)" by fastforce
  have It: "fs_inv (store_leaf s) A {d} f t" using keepsD [OF k I] run by simp
  show "fs_inv (store_leaf s) A {d} f (snd (EnsureDirWritable d fs))"
  proof (cases x)
    case (Inr p)
    obtain n where p: "p = d @ [''boot_test'' @ show_nat n]"
      using run Inr temp_name_fresh
      by (fastforce simp: os_CreateTemp_def os_call_def split: if_splits list.splits option.splits prod.splits)
    have "keeps (fs_inv (store_leaf s) A {d} f) (finallyE os_Close (os_Remove p))"
      using assms by (intro keeps_intros keeps_Close keeps_Remove) (auto simp: p)
    then show ?thesis
      using keepsD It run Inr by (fastforce simp: EnsureDirWritable_def bindE_def)
  qed (use It run in \<open>simp add: EnsureDirWritable_def bindE_def\<close>)
qed

text \<open>Opening: \<open>setupDirs\<close> that returns no error leaves a well-formed store, whatever
  temporary files an earlier process left behind.\<close>

theorem setupDirs_wf:
  assumes "fs_wf (store_leaf s) fs" and "setupDirs s fs = (Inr x, t)"
  shows "store_wf s t"
proof -
  obtain x1 t1 x2 t2 x3 t3 x4 t4 where
    1: "os_RemoveAll (storeTMPPath s) fs = (Inr x1, t1)" and 2: "os_MkdirAll (storePath s) t1 = (Inr x2, t2)" and
    3: "os_MkdirAll (storeNarPath s) t2 = (Inr x3, t3)" and 4: "os_MkdirAll (storeTMPPath s) t3 = (Inr x4, t4)" and
    5: "EnsureDirWritable (storeTMPPath s) t4 = (Inr x, t)"
    using assms(2) by (auto simp: setupDirs_def thenE_Inr returnE_def)
  have nl: "\<not> store_leaf s q" if pre: "prefix q d" and d: "d \<in> {storePath s, storeNarPath s, storeTMPPath s}" for q d
  proof
    assume "store_leaf s q"
    moreover obtain r where "d = q @ r" using pre by (auto simp: prefix_def)
    ultimately show False using d by (auto simp: store_leaf_def store_paths)
  qed
  have "fs_inv (store_leaf s) UNIV {} Map.empty t1"
    using RemoveAll_wf [OF assms(1) 1] by (simp add: fs_inv_def)
  then have "fs_inv (store_leaf s) UNIV {storePath s} Map.empty t2" using MkdirAll_dir [OF _ _ 2] nl by fastforce
  then have "fs_inv (store_leaf s) UNIV {storeNarPath s, storePath s} Map.empty t3" using MkdirAll_dir [OF _ _ 3] nl by fastforce
  then have "fs_inv (store_leaf s) UNIV {storeTMPPath s, storeNarPath s, storePath s} Map.empty t4"
    using MkdirAll_dir [OF _ _ 4] nl by fastforce
  then have "fs_inv (store_leaf s) UNIV {storeTMPPath s} Map.empty t4" by (simp add: fs_inv_def)
  with EnsureDirWritable_keeps [of s "storeTMPPath s" UNIV Map.empty] 5 tmp_leaf(1) show ?thesis
    unfolding store_wf_def using keepsD by fastforce
qed

section \<open>Properties of the local store\<close>

text \<open>A NAR that was put is read back with its size and bytes; a NAR with another path is not touched.\<close>

theorem local_put_get:
  assumes "store_wf s fs" "store_calm s fs" "nar_path s u = Inr p" "nar_path s v = Inr q" "nars s fs p = None"
  shows "fst (GetNar_local s v (snd (PutNar_local s u (reader_of b) fs))) =
    (if q = p then Inr (length b, b) else fst (GetNar_local s v fs))"
  using local_nars.get_after_put [OF assms(1-4), of b] assms(5) by (simp add: local_nar_store_def)

text \<open>C5. Whatever calls of the operating system fail, a NAR that is present after any sequence of \<open>PutNar\<close> is complete:
  it was there before, or it is the whole body of one of the puts, whose reader did not fail.\<close>

theorem local_put_complete:
  assumes "store_wf s fs" and "\<forall>(u, r) \<in> set xs. \<exists>k. nar_path s u = Inr k"
    and "nars s (put_all (local_nar_store s) xs fs) p = Some b"
  shows "nars s fs p = Some b \<or>
    (\<exists>u r. (u, r) \<in> set xs \<and> nar_path s u = Inr p \<and> rd_err r = None \<and> b = rd_data r)"
  using assms by (rule local_nars.put_all_complete)

text \<open>C11. The local store refines a map from paths to bytes: without failures of the operating system, any sequence of \<open>PutNar\<close>, \<open>GetNar\<close>,
  \<open>HasNar\<close> and \<open>DeleteNar\<close> returns what the same sequence on the map returns, and the files that are left are those of the map, although the store
  works with temporary files, renames, sharded directories and the removal of empty ones.\<close>

theorem local_store_refines_map:
  assumes "store_wf s fs" "store_calm s fs" "\<forall>x \<in> set xs. \<exists>p. nar_path s (op_url x) = Inr p"
  shows "map_prod id (nars s) (run_ops (local_nar_store s) xs fs) = map_ops (nar_path s) xs (nars s fs)"
  using assms by (rule local_nars.run_ops_refines)

text \<open>Deleting a stored NAR succeeds, after it the NAR is not found, and the other NARs are still there even though
  empty directories are removed.\<close>

theorem local_delete:
  assumes "store_wf s fs" "store_calm s fs" "nar_path s u = Inr p" "nar_path s v = Inr q" "nars s fs p = Some b"
  shows "fst (DeleteNar_local s u fs) = Inr () \<and>
    fst (GetNar_local s v (snd (DeleteNar_local s u fs))) = (if q = p then Inl ErrNotFound else fst (GetNar_local s v fs))"
  using local_nars.get_after_delete [OF assms] by (simp add: local_nar_store_def)

section \<open>Narinfos are written in place\<close>

text \<open>Unlike a NAR, a narinfo is written in place: when the write fails after \<open>n\<close> bytes, \<open>PutNarInfo\<close> reports the failure
  and the first \<open>n\<close> bytes stay behind under the final name, where the next \<open>PutNarInfo\<close> of the same hash finds
  the name taken.
\<close>

theorem PutNarInfo_truncated:
  assumes wf: "store_wf s fs" and p: "narinfo_path s h = Inr p" and new: "lookup fs p = None"
    and faults: "fs_faults fs = [None, None, None, Some n]"
  shows "\<exists>t. PutNarInfo_local nc s h ni fs = (Inl ErrIO, t) \<and>
    file_at t p = Some (take n (nc_String nc ni)) \<and>
    fst (PutNarInfo_local nc s h ni t) = Inl ErrAlreadyExists"
proof -
  have leaf: "store_leaf s p" "p \<noteq> []"
    using narinfo_path_form [OF p] by (auto simp: store_leaf_def store_paths)
  have dirs: "\<not> store_leaf s q" if "prefix q (butlast p)" for q using parent_not_leaf [OF leaf(1) that] .
  have nid: "\<not> store_leaf s q" if "prefix q (storeNarInfoPath s)" for q
    using dirs [of q] that narinfo_path_form [OF p] by (auto simp: butlast_append intro: prefix_order.trans)
  have mk: "os_MkdirAll d fs = (Inr (), mkdirs (prefixes d) (fs\<lparr>fs_faults := tl (fs_faults fs)\<rparr>)) \<and>
      store_wf s (mkdirs (prefixes d) (fs\<lparr>fs_faults := tl (fs_faults fs)\<rparr>))"
    if wf: "store_wf s fs" and d: "\<And>q. prefix q d \<Longrightarrow> \<not> store_leaf s q" and f: "fs_faults fs = [] \<or> hd (fs_faults fs) = None"
    for d fs
  proof -
    have w: "fs_wf (store_leaf s) (fs\<lparr>fs_faults := tl (fs_faults fs)\<rparr>)" using wf by (simp add: store_wf_iff)
    have "os_call m fs = m (fs\<lparr>fs_faults := tl (fs_faults fs)\<rparr>)" for m :: "(file_system, unit) prog"
      using f by (cases fs; cases "fs_faults fs") (auto simp: os_call_def)
    then show ?thesis
      using below_file_dir [OF w d] fs_wf_mkdirs(1) [OF w d] wf
      by (auto simp: os_MkdirAll_def store_wf_iff lookup_mkdirs)
  qed
  define t1 where "t1 = mkdirs (prefixes (storeNarInfoPath s)) (fs\<lparr>fs_faults := [None, None, Some n]\<rparr>)"
  define t2 where "t2 = mkdirs (prefixes (butlast p)) (t1\<lparr>fs_faults := [None, Some n]\<rparr>)"
  have 1: "os_MkdirAll (storeNarInfoPath s) fs = (Inr (), t1)" "store_wf s t1"
    using mk [OF wf nid] faults by (simp_all add: t1_def)
  have 2: "os_MkdirAll (butlast p) t1 = (Inr (), t2)" "store_wf s t2"
    using mk [OF 1(2) dirs] by (simp_all add: t2_def t1_def)
  have np: "\<not> prefix p (butlast p)" using dirs leaf by blast
  have "\<not> prefix p (storeNarInfoPath s)" using nid leaf by blast
  with np new have 3: "lookup t2 p = None" by (simp add: t2_def t1_def lookup_mkdirs)
  have 4: "lookup t2 (butlast p) = Some Dir"
    using fs_wf_mkdirs(2) [of "store_leaf s" "t1\<lparr>fs_faults := [None, Some n]\<rparr>" "butlast p" "butlast p"] dirs 1(2)
    by (simp add: t2_def store_wf_iff)
  define t3 where "t3 = set_node p (File (take n (nc_String nc ni)))
      (set_node p (File []) (t2\<lparr>fs_faults := [Some n]\<rparr>)\<lparr>fs_faults := []\<rparr>)"
  have cr: "os_CreateExcl p t2 = (Inr (), set_node p (File []) (t2\<lparr>fs_faults := [Some n]\<rparr>))"
    using leaf_node(1) [of s "t2\<lparr>fs_faults := [Some n]\<rparr>" p] 2(2) leaf(1) 3 4
    by (auto simp: os_CreateExcl_def os_call_def t2_def store_wf_iff)
  have wr: "os_Write p (nc_String nc ni) (set_node p (File []) (t2\<lparr>fs_faults := [Some n]\<rparr>)) = (Inl ErrIO, t3)"
    by (simp add: os_Write_def put_bytes_def is_file_def t3_def)
  have run: "PutNarInfo_local nc s h ni fs = (Inl ErrIO, t3)"
    by (simp add: PutNarInfo_local_def p thenE_def bindE_def map_err_def finallyE_def 1 2 cr wr)
      (simp add: os_Close_def t3_def returnE_def)
  have wf3: "store_wf s t3"
  proof -
    have "fs_wf (store_leaf s) (t2\<lparr>fs_faults := x\<rparr>)" for x using 2(2) by (simp add: store_wf_iff)
    then have "fs_wf (store_leaf s) t3"
      unfolding t3_def using leaf 4 by (auto intro!: fs_wf_set_file store_leaf_ok)
    moreover have "p \<noteq> storeTMPPath s" using 2(2) 3 by (auto simp: store_wf_iff)
    ultimately show ?thesis using 2(2) by (simp add: store_wf_iff t3_def)
  qed
  define t4 where "t4 = mkdirs (prefixes (storeNarInfoPath s)) (t3\<lparr>fs_faults := []\<rparr>)"
  define t5 where "t5 = mkdirs (prefixes (butlast p)) (t4\<lparr>fs_faults := []\<rparr>)"
  have f3: "fs_faults t3 = []" by (simp add: t3_def)
  have 5: "os_MkdirAll (storeNarInfoPath s) t3 = (Inr (), t4)" "store_wf s t4"
    using mk [OF wf3 nid] f3 by (simp_all add: t4_def)
  have 6: "os_MkdirAll (butlast p) t4 = (Inr (), t5)" "store_wf s t5"
    using mk [OF 5(2) dirs] f3 by (simp_all add: t5_def t4_def)
  have "lookup t5 p \<noteq> None" by (simp add: t5_def t4_def lookup_mkdirs t3_def)
  then have "os_CreateExcl p t5 = (Inl ErrExist, t5)"
    using leaf_node(1) [OF 6(2) leaf(1)] f3 by (simp add: os_CreateExcl_def os_call_def t5_def t4_def)
  then have "fst (PutNarInfo_local nc s h ni t3) = Inl ErrAlreadyExists"
    by (simp add: PutNarInfo_local_def p thenE_def bindE_def map_err_def 5 6)
  with run show ?thesis by (simp add: file_at_def t3_def)
qed

section \<open>Examples\<close>

text \<open>A store at the root of the file system, as \<open>setupDirs\<close> leaves it.\<close>

definition small_store :: "nat option list \<Rightarrow> file_system" where
  "small_store faults =
     \<lparr>fs_nodes = [([], Dir), ([''store''], Dir), ([''store'', ''nar''], Dir), ([''store'', ''tmp''], Dir)],
      fs_faults = faults, fs_rand = (\<lambda>n. n), fs_seed = 0\<rparr>"

definition plain_url :: nar_url where
  "plain_url = mk_nar_url plain_hash ''xz'' []"

definition served_url :: nar_url where
  "served_url = mk_nar_url served_hash ''xz'' []"

definition zstd_url :: nar_url where
  "zstd_url = mk_nar_url plain_hash ''zstd'' []"

definition some_narinfo_hash :: string where
  "some_narinfo_hash = replicate 32 (CHR ''0'')"

lemma small_store_wf: "store_wf [] (small_store faults)"
  by (auto simp: store_wf_iff fs_wf_def small_store_def lookup_def store_leaf_def store_paths split: if_splits)

lemma small_store_calm: "store_calm [] (small_store [])"
  by (auto simp: store_calm_def tmp_paths_def small_store_def lookup_def store_paths)

lemma nar_path_known:
  assumes "nar_hash_ok (url_Hash u)" and "known_compression (url_Compression u)"
  shows "\<exists>p. nar_path s u = Inr p"
proof -
  obtain v where v: "Normalize u = Inr v" "normalized_hash (url_Hash v)" "url_Compression v = url_Compression u"
    using Normalize_spec_aux [OF assms(1)] by blast
  obtain e where "ToFileExtension (url_Compression v) = Inr e"
    using extension_roundtrip assms(2) v(3) by metis
  then show ?thesis
    using v ToFilePath_plain [of v e] by (simp add: nar_path_def nar_hash_ok_def)
qed

lemma example_paths:
  "\<exists>p. nar_path [] plain_url = Inr p" "\<exists>p. nar_path [] served_url = Inr p" "\<exists>p. nar_path [] zstd_url = Inr p"
  by (rule nar_path_known;
      simp add: plain_url_def served_url_def zstd_url_def mk_nar_url_def plain_hash_ok served_hash_ok known_compression_def)+

lemma small_store_empty: "nars [] (small_store fs) p = None"
  by (auto simp: nars_def is_nar_path_def file_at_def small_store_def lookup_def store_paths)

theorem local_put_get_witness:
  "fst (GetNar_local [] served_url (snd (PutNar_local [] served_url (reader_of ''abc'') (small_store [])))) =
   Inr (3, ''abc'')"
proof -
  obtain p where p: "nar_path [] served_url = Inr p" using example_paths(2) by blast
  show ?thesis
    using local_put_get [OF small_store_wf small_store_calm p p small_store_empty, of "''abc''"] by simp
qed

theorem local_put_complete_witness:
  "\<exists>p b. nar_path [] plain_url = Inr p \<and>
     nars [] (put_all (local_nar_store []) [(plain_url, reader_of ''abc'')] (small_store [])) p = Some b \<and> b = ''abc''"
proof -
  obtain p where p: "nar_path [] plain_url = Inr p" using example_paths(1) by blast
  let ?t = "put_all (local_nar_store []) [(plain_url, reader_of ''abc'')] (small_store [])"
  have "fst (GetNar_local [] plain_url ?t) = Inr (3, ''abc'')"
    using local_nars.get_after_put [OF small_store_wf small_store_calm p p, of "''abc''"]
      small_store_empty [of "[]" p] by (simp add: local_nar_store_def)
  moreover have "store_wf [] ?t" using PutNar_atomic(1) [OF small_store_wf p] by (simp add: local_nar_store_def)
  moreover have "fs_faults ?t = []"
    using PutNar_calm [OF small_store_wf small_store_calm p small_store_empty] by (auto simp: local_nar_store_def store_calm_def)
      (metis snd_conv)
  ultimately have b: "nars [] ?t p = Some ''abc''"
    using GetNar_calm [OF _ _ p, of ?t] by (auto split: option.splits)
  have ok: "\<forall>(u, r) \<in> set [(plain_url, reader_of ''abc'')]. \<exists>k. nar_path [] u = Inr k" using p by simp
  from local_put_complete [OF small_store_wf ok b] p b show ?thesis by blast
qed

theorem local_store_refines_map_witness:
  "map_prod id (nars []) (run_ops (local_nar_store []) [Put_op plain_url ''abc'', Has_op served_url, Delete_op plain_url, Get_op plain_url] (small_store [])) =
   map_ops (nar_path []) [Put_op plain_url ''abc'', Has_op served_url, Delete_op plain_url, Get_op plain_url] (nars [] (small_store []))"
  using example_paths by (intro local_store_refines_map small_store_wf small_store_calm) auto

theorem local_delete_witness:
  "fst (DeleteNar_local [] plain_url (snd (PutNar_local [] plain_url (reader_of ''abc'') (small_store [])))) = Inr ()"
proof -
  obtain p where p: "nar_path [] plain_url = Inr p" using example_paths(1) by blast
  let ?t = "snd (PutNar_local [] plain_url (reader_of ''abc'') (small_store []))"
  have wf: "store_wf [] ?t" by (rule PutNar_atomic(1) [OF small_store_wf p])
  obtain t where run: "PutNar_local [] plain_url (reader_of ''abc'') (small_store []) = (Inr 3, t)" "store_calm [] t"
    using PutNar_calm [OF small_store_wf small_store_calm p small_store_empty, of "reader_of ''abc''"]
    by (auto simp: reader_of_def)
  have "nars [] ?t p = Some ''abc''"
    using PutNar_atomic(2) [OF small_store_wf p, of "reader_of ''abc''" "[]"] run by (auto simp: reader_of_def)
  with local_delete [OF wf _ p p] run show ?thesis by simp
qed

theorem setupDirs_wf_witness: "store_wf [] (snd (setupDirs [] (small_store [])))"
proof -
  have "fst (setupDirs [] (small_store [])) = Inr ()" by code_simp
  then obtain t where "setupDirs [] (small_store []) = (Inr (), t)" by (metis prod.collapse)
  with setupDirs_wf [of "[]" "small_store []" "()" t] small_store_wf show ?thesis
    by (simp add: store_wf_iff)
qed

definition text_codec :: "string narinfo_codec" where
  "text_codec = \<lparr>nc_String = (\<lambda>x. x), nc_Parse = Inr\<rparr>"

theorem PutNarInfo_truncated_witness:
  "\<exists>t. PutNarInfo_local text_codec [] some_narinfo_hash ''StorePath: /x'' (small_store [None, None, None, Some 4]) = (Inl ErrIO, t) \<and>
     fst (PutNarInfo_local text_codec [] some_narinfo_hash ''StorePath: /x'' t) = Inl ErrAlreadyExists"
proof -
  have "\<exists>p. narinfo_path [] some_narinfo_hash = Inr p"
    by (simp add: narinfo_path_def narinfo_FilePath_def narinfo_ValidateHash_def narinfo_hash_ok_def some_narinfo_hash_def
        list_all_iff is_nix32_def FilePathWithSharding_def)
  then obtain p where p: "narinfo_path [] some_narinfo_hash = Inr p" by blast
  have "lookup (small_store fs) p = None" for fs
    using narinfo_path_form [OF p] by (auto simp: small_store_def lookup_def store_paths)
  from PutNarInfo_truncated [OF small_store_wf p this, of _ 4 text_codec "''StorePath: /x''"]
  show ?thesis by (auto simp: small_store_def)
qed

end
