(* ===== verification/Cluster_Config.thy ===== *)
theory Cluster_Config
  imports Cache_State Local_Store
begin

text \<open>
  Package \<open>pkg/config\<close>: the settings that the instances of a cluster share in the table \<open>config\<close>, each read and written under a read-write lock of its own; the settings of the
  chunking that must not change (\<open>ValidateOrStoreCDCConfig\<close>, \<open>loadCDCConfigFromDB\<close> of \<open>pkg/ncps/serve.go\<close>), the identifier of the cluster (\<open>getOrSetClusterUUID\<close> there)
  and the key that signs narinfos (\<open>setupSecretKey\<close> of \<open>pkg/cache/cache.go\<close>). Texts of errors and logging are not modelled.
\<close>

section \<open>Settings\<close>

text \<open>The state: the database, that of the locker, and \<open>co_env\<close> for the stores and the sources of random data that some operations use.\<close>

record ('l, 'e) config_state =
  co_db :: database
  co_lock :: 'l
  co_env :: 'e

definition on_db :: "(database, 'a) prog \<Rightarrow> (('l, 'e) config_state, 'a) prog" where
  "on_db m s = (case m (co_db s) of (r, d) \<Rightarrow> (r, s\<lparr>co_db := d\<rparr>))"

definition on_lock :: "('l, 'a) prog \<Rightarrow> (('l, 'e) config_state, 'a) prog" where
  "on_lock m s = (case m (co_lock s) of (r, l) \<Rightarrow> (r, s\<lparr>co_lock := l\<rparr>))"

definition on_env :: "('e, 'a) prog \<Rightarrow> (('l, 'e) config_state, 'a) prog" where
  "on_env m s = (case m (co_env s) of (r, e) \<Rightarrow> (r, s\<lparr>co_env := e\<rparr>))"

definition KeyClusterUUID :: string where "KeyClusterUUID = ''cluster_uuid''"
definition KeySecretKey :: string where "KeySecretKey = ''secret_key''"
definition KeyCDCEnabled :: string where "KeyCDCEnabled = ''cdc_enabled''"
definition KeyCDCMin :: string where "KeyCDCMin = ''cdc_min''"
definition KeyCDCAvg :: string where "KeyCDCAvg = ''cdc_avg''"
definition KeyCDCMax :: string where "KeyCDCMax = ''cdc_max''"

definition getLockKey :: "string \<Rightarrow> string" where
  "getLockKey key = ''config_'' @ key"

definition getConfig :: "'l rw_locker \<Rightarrow> string \<Rightarrow> (('l, 'e) config_state, string) prog" where
  "getConfig rl key =
     thenE (on_lock (lo_RLock rl (getLockKey key)))
       (finallyE (map_err (\<lambda>e. if IsNotFoundError e then ErrConfigNotFound else e) (on_db (GetConfigByKey key)))
                 (on_lock (lo_RUnlock rl (getLockKey key))))"

definition setConfig :: "'l rw_locker \<Rightarrow> string \<Rightarrow> string \<Rightarrow> (('l, 'e) config_state, unit) prog" where
  "setConfig rl key v =
     thenE (on_lock (lo_Lock rl (getLockKey key))) (finallyE (on_db (SetConfig key v)) (on_lock (lo_Unlock rl (getLockKey key))))"

section \<open>The settings of the chunking\<close>

definition storeCDCConfig :: "'l rw_locker \<Rightarrow> 32 word \<Rightarrow> 32 word \<Rightarrow> 32 word \<Rightarrow> (('l, 'e) config_state, unit) prog" where
  "storeCDCConfig rl mn av mx =
     (if mn = 0 \<or> av = 0 \<or> mx = 0 then raiseE ErrCDCInvalidChunkSizes
      else
        thenE (setConfig rl KeyCDCEnabled ''true'')
       (thenE (setConfig rl KeyCDCMin (show_nat (unat mn)))
       (thenE (setConfig rl KeyCDCAvg (show_nat (unat av)))
              (setConfig rl KeyCDCMax (show_nat (unat mx))))))"

definition validateCDCConfig :: "'l rw_locker \<Rightarrow> bool \<Rightarrow> 32 word \<Rightarrow> 32 word \<Rightarrow> 32 word \<Rightarrow> string \<Rightarrow> (('l, 'e) config_state, unit) prog" where
  "validateCDCConfig rl enabled mn av mx storedEnabledStr =
     (if storedEnabledStr = ''true'' \<and> \<not> enabled then raiseE ErrCDCDisabledAfterEnabled
      else
        bindE (getConfig rl KeyCDCMin) (\<lambda>storedMin.
        bindE (getConfig rl KeyCDCAvg) (\<lambda>storedAvg.
        bindE (getConfig rl KeyCDCMax) (\<lambda>storedMax.
        if show_nat (unat mn) \<noteq> storedMin \<or> show_nat (unat av) \<noteq> storedAvg \<or> show_nat (unat mx) \<noteq> storedMax then raiseE ErrCDCConfigMismatch
        else returnE ()))))"

definition ValidateOrStoreCDCConfig :: "'l rw_locker \<Rightarrow> bool \<Rightarrow> 32 word \<Rightarrow> 32 word \<Rightarrow> 32 word \<Rightarrow> (('l, 'e) config_state, unit) prog" where
  "ValidateOrStoreCDCConfig rl enabled mn av mx =
     bindE (attemptE (getConfig rl KeyCDCEnabled)) (\<lambda>r.
       case r of
         Inl e \<Rightarrow>
           if e = ErrConfigNotFound then (if \<not> enabled then returnE () else storeCDCConfig rl mn av mx)
           else raiseE e
       | Inr stored \<Rightarrow> validateCDCConfig rl enabled mn av mx stored)"

text \<open>\<open>strconv.ParseUint(s, 10, 32)\<close>, with 0 in the place of an error.\<close>

definition parseCDCValue :: "string \<Rightarrow> 32 word" where
  "parseCDCValue s = (case parse_uint s of Inl _ \<Rightarrow> 0 | Inr v \<Rightarrow> if unat v < 2 ^ 32 then ucast v else 0)"

text \<open>A value that is not there is the empty text.\<close>

definition optional_setting :: "'l rw_locker \<Rightarrow> string \<Rightarrow> (('l, 'e) config_state, string) prog" where
  "optional_setting rl key =
     bindE (attemptE (getConfig rl key)) (\<lambda>r.
       case r of Inl e \<Rightarrow> if e = ErrConfigNotFound then returnE [] else raiseE e | Inr v \<Rightarrow> returnE v)"

definition loadCDCConfigFromDB :: "'l rw_locker \<Rightarrow> bool \<Rightarrow> bool \<Rightarrow> (('l, 'e) config_state, bool \<times> 32 word \<times> 32 word \<times> 32 word) prog" where
  "loadCDCConfigFromDB rl currentEnabled wasExplicitlySet =
     bindE (attemptE (getConfig rl KeyCDCEnabled)) (\<lambda>r.
       case r of
         Inl e \<Rightarrow> if e = ErrConfigNotFound then returnE (currentEnabled, 0, 0, 0) else raiseE e
       | Inr stored \<Rightarrow>
           if stored \<noteq> ''true'' then returnE (currentEnabled, 0, 0, 0)
           else
             bindE (optional_setting rl KeyCDCMin) (\<lambda>mn.
             bindE (optional_setting rl KeyCDCAvg) (\<lambda>av.
             bindE (optional_setting rl KeyCDCMax) (\<lambda>mx.
               returnE (currentEnabled \<or> \<not> wasExplicitlySet, parseCDCValue mn, parseCDCValue av, parseCDCValue mx)))))"

text \<open>The part of \<open>createCache\<close> that settles the chunking: commands without the flags of the sizes take those of the database.\<close>

definition settle_cdc :: "'l rw_locker \<Rightarrow> bool \<Rightarrow> bool \<Rightarrow> 32 word \<Rightarrow> 32 word \<Rightarrow> 32 word \<Rightarrow> (('l, 'e) config_state, bool \<times> 32 word \<times> 32 word \<times> 32 word) prog" where
  "settle_cdc rl cdcEnabled wasSet cdcMin cdcAvg cdcMax =
     bindE (if cdcMin = 0 \<and> cdcAvg = 0 \<and> cdcMax = 0 then loadCDCConfigFromDB rl cdcEnabled wasSet else returnE (cdcEnabled, cdcMin, cdcAvg, cdcMax))
       (\<lambda>(enabled, mn, av, mx). thenE (ValidateOrStoreCDCConfig rl enabled mn av mx) (returnE (enabled, mn, av, mx)))"

section \<open>The identifier of the cluster\<close>

text \<open>\<open>newUUID\<close> is \<open>uuid.New().String()\<close>.\<close>

definition getOrSetClusterUUID :: "'l rw_locker \<Rightarrow> (('l, 'e) config_state, string) prog \<Rightarrow> (('l, 'e) config_state, string) prog" where
  "getOrSetClusterUUID rl newUUID =
     bindE (attemptE (getConfig rl KeyClusterUUID)) (\<lambda>r.
       case r of
         Inl e \<Rightarrow> if e = ErrConfigNotFound then bindE newUUID (\<lambda>cu. thenE (setConfig rl KeyClusterUUID cu) (returnE cu)) else raiseE e
       | Inr cu \<Rightarrow> returnE cu)"

section \<open>The secret key\<close>

text \<open>What the set-up uses of go-nix, a file, and the deprecated place of the key in the store. While a key is generated, other instances may change the state.\<close>

record ('s, 'e, 'k) key_env =
  ke_Load :: "string \<Rightarrow> 'k result"
  ke_String :: "'k \<Rightarrow> string"
  ke_Generate :: "('s, 'k) prog"
  ke_ReadFile :: "string \<Rightarrow> ('e, string) prog"
  ke_GetSecretKey :: "('e, 'k) prog"
  ke_DeleteSecretKey :: "('e, unit) prog"

definition setupSecretKeyFromFile :: "'l rw_locker \<Rightarrow> (('l, 'e) config_state, 'e, 'k) key_env \<Rightarrow> string \<Rightarrow> (('l, 'e) config_state, 'k) prog" where
  "setupSecretKeyFromFile rl ke file =
     bindE (on_env (ke_ReadFile ke file)) (\<lambda>skc.
     bindE (liftE (ke_Load ke skc)) (\<lambda>k.
     bindE (attemptE (getConfig rl KeySecretKey)) (\<lambda>r.
     thenE (whenE (r \<noteq> Inr (ke_String ke k)) (ignoreE (setConfig rl KeySecretKey (ke_String ke k))))
           (returnE k))))"

definition setupSecretKey :: "'l rw_locker \<Rightarrow> (('l, 'e) config_state, 'e, 'k) key_env \<Rightarrow> string \<Rightarrow> (('l, 'e) config_state, 'k) prog" where
  "setupSecretKey rl ke file =
     (if file \<noteq> [] then setupSecretKeyFromFile rl ke file
      else
        bindE (attemptE (getConfig rl KeySecretKey)) (\<lambda>r.
          case r of
            Inr dbKey \<Rightarrow> liftE (ke_Load ke dbKey)
          | Inl e \<Rightarrow>
              if e \<noteq> ErrConfigNotFound \<and> \<not> IsNotFoundError e then raiseE e
              else
                bindE (attemptE (on_env (ke_GetSecretKey ke))) (\<lambda>r.
                  case r of
                    Inr oldKey \<Rightarrow>
                      thenE (setConfig rl KeySecretKey (ke_String ke oldKey))
                     (thenE (ignoreE (on_env (ke_DeleteSecretKey ke))) (returnE oldKey))
                  | Inl e \<Rightarrow>
                      if e \<noteq> ErrNotFound then raiseE e
                      else
                        bindE (ke_Generate ke) (\<lambda>k.
                        thenE (setConfig rl KeySecretKey (ke_String ke k)) (returnE k)))))"

section \<open>Reading and writing\<close>

abbreviation config_of :: "('l, 'e) config_state \<Rightarrow> string \<rightharpoonup> string" where
  "config_of s \<equiv> map_of (db_config (co_db s))"

abbreviation healthy :: "('l, 'e) config_state \<Rightarrow> bool" where
  "healthy s \<equiv> db_faults (co_db s) = []"

lemma one_row_config: "one_row (map snd (filter (\<lambda>(j, _). j = k) rows)) = (case map_of rows k of None \<Rightarrow> Inl ErrDBNotFound | Some v \<Rightarrow> Inr v)"
  by (induction rows) (auto simp: one_row_def split: option.split)

lemma map_of_upd_row: "map_of (upd_where (\<lambda>(j, _). j = k) (\<lambda>_. (k, v)) rows) x = (if x = k \<and> k \<in> set (map fst rows) then Some v else map_of rows x)"
  by (induction rows) (auto simp: upd_where_def, (metis fst_conv image_eqI)+)

lemma map_of_set_row:
  "map_of (if k \<in> set (map fst rows) then upd_where (\<lambda>(j, _). j = k) (\<lambda>_. (k, v)) rows else rows @ [(k, v)]) = (map_of rows)(k \<mapsto> v)"
proof -
  have "k \<notin> set (map fst rows) \<Longrightarrow> map_of (rows @ [(k, v)]) = (map_of rows)(k \<mapsto> v)"
    by (induction rows) (auto simp: fun_eq_iff)
  then show ?thesis by (simp add: fun_eq_iff map_of_upd_row)
qed

text \<open>A lock that is always granted.\<close>

definition granting :: "'l rw_locker \<Rightarrow> bool" where
  "granting rl \<longleftrightarrow> (\<forall>k l. fst (lo_Lock rl k l) = Inr () \<and> fst (lo_RLock rl k l) = Inr ())"

lemma GetConfigByKey_healthy:
  "db_faults d = [] \<Longrightarrow> GetConfigByKey k d = (case map_of (db_config d) k of None \<Rightarrow> Inl ErrDBNotFound | Some v \<Rightarrow> Inr v, d)"
  by (simp add: GetConfigByKey_def select_one_def db_call_def one_row_config)

lemma SetConfig_healthy:
  assumes "db_faults d = []"
  shows "\<exists>d'. SetConfig k v d = (Inr (), d') \<and> map_of (db_config d') = (map_of (db_config d))(k \<mapsto> v) \<and> db_faults d' = []"
  using assms map_of_set_row [of k "db_config d" v] by (simp add: SetConfig_def exec_def db_call_def)

lemma granting_runs:
  assumes "granting rl"
  shows "\<exists>l'. lo_Lock rl k l = (Inr (), l')" "\<exists>l'. lo_RLock rl k l = (Inr (), l')"
  using assms by (cases "lo_Lock rl k l"; cases "lo_RLock rl k l"; auto simp: granting_def dest!: spec [of _ k] spec [of _ l])+

lemma getConfig_granted:
  assumes "granting rl" "healthy s"
  shows "\<exists>l. getConfig rl k s = (case config_of s k of None \<Rightarrow> Inl ErrConfigNotFound | Some v \<Rightarrow> Inr v, s\<lparr>co_lock := l\<rparr>)"
proof -
  obtain l where l: "lo_RLock rl (getLockKey k) (co_lock s) = (Inr (), l)"
    using granting_runs(2) [OF assms(1)] by blast
  obtain q l' where "lo_RUnlock rl (getLockKey k) l = (q, l')" by fastforce
  then have "getConfig rl k s = (case config_of s k of None \<Rightarrow> Inl ErrConfigNotFound | Some v \<Rightarrow> Inr v, s\<lparr>co_lock := l'\<rparr>)"
    using l GetConfigByKey_healthy [OF assms(2), of k]
    by (cases "config_of s k") (simp_all add: getConfig_def thenE_def bindE_def finallyE_def map_err_def on_lock_def on_db_def IsNotFoundError_def)
  then show ?thesis by blast
qed

lemma setConfig_granted:
  assumes "granting rl" "healthy s"
  shows "\<exists>t. setConfig rl k v s = (Inr (), t) \<and> config_of t = (config_of s)(k \<mapsto> v) \<and> healthy t \<and> co_env t = co_env s"
proof -
  obtain l where l: "lo_Lock rl (getLockKey k) (co_lock s) = (Inr (), l)"
    using granting_runs(1) [OF assms(1)] by blast
  obtain q l' where l': "lo_Unlock rl (getLockKey k) l = (q, l')" by fastforce
  obtain d where d: "SetConfig k v (co_db s) = (Inr (), d)" "map_of (db_config d) = (config_of s)(k \<mapsto> v)" "db_faults d = []"
    using SetConfig_healthy [OF assms(2)] by blast
  have "setConfig rl k v s = (Inr (), s\<lparr>co_db := d, co_lock := l'\<rparr>)"
    using l l' d(1) by (simp add: setConfig_def thenE_def bindE_def finallyE_def on_lock_def on_db_def)
  with d(2,3) show ?thesis by simp
qed

text \<open>Whatever fails, reading changes no setting, and writing changes the one or nothing.\<close>

lemma getConfig_keeps: "co_env (snd (getConfig rl k s)) = co_env s \<and> db_config (co_db (snd (getConfig rl k s))) = db_config (co_db s)"
  by (simp add: getConfig_def thenE_def bindE_def finallyE_def map_err_def on_lock_def on_db_def GetConfigByKey_def select_one_def db_call_def
    split: prod.split sum.split list.split option.split)

lemma setConfig_keeps:
  "co_env (snd (setConfig rl k v s)) = co_env s \<and> (config_of (snd (setConfig rl k v s)) = config_of s \<or> config_of (snd (setConfig rl k v s)) = (config_of s)(k \<mapsto> v))"
  "setConfig rl k v s = (Inr (), t) \<Longrightarrow> config_of t = (config_of s)(k \<mapsto> v)"
proof -
  have db: "map_of (db_config (snd (SetConfig k v d))) = map_of (db_config d) \<or> map_of (db_config (snd (SetConfig k v d))) = (map_of (db_config d))(k \<mapsto> v)"
    "fst (SetConfig k v d) = Inr () \<Longrightarrow> map_of (db_config (snd (SetConfig k v d))) = (map_of (db_config d))(k \<mapsto> v)" for d
    by (auto simp: SetConfig_def exec_def db_call_def map_of_set_row [simplified] split: list.split option.split split del: if_split cong: if_cong)
  obtain r l where l: "lo_Lock rl (getLockKey k) (co_lock s) = (r, l)" by fastforce
  obtain q d where d: "SetConfig k v (co_db s) = (q, d)" by fastforce
  obtain q' l' where l': "lo_Unlock rl (getLockKey k) l = (q', l')" by fastforce
  have run: "setConfig rl k v s = (case r of Inl e \<Rightarrow> (Inl e, s\<lparr>co_lock := l\<rparr>) | Inr _ \<Rightarrow> (q, s\<lparr>co_db := d, co_lock := l'\<rparr>))"
    using l l' d by (cases r) (simp_all add: setConfig_def thenE_def bindE_def finallyE_def on_lock_def on_db_def)
  then show "co_env (snd (setConfig rl k v s)) = co_env s \<and> (config_of (snd (setConfig rl k v s)) = config_of s \<or> config_of (snd (setConfig rl k v s)) = (config_of s)(k \<mapsto> v))"
    using db(1) [of "co_db s"] d by (cases r) auto
  show "setConfig rl k v s = (Inr (), t) \<Longrightarrow> config_of t = (config_of s)(k \<mapsto> v)"
    using run db(2) [of "co_db s"] d by (cases r) auto
qed

end
