(* ===== verification/Cluster_Config_Props.thy ===== *)
theory Cluster_Config_Props
  imports Cluster_Config
begin

text \<open>
  The sizes of the chunks stay what they were when chunking was enabled, in every instance and after every failure; the secret key is never lost on its way into the database; and
  what happens when the four settings of the chunking are stored in part, or two instances start at the same time.
\<close>

section \<open>What is read\<close>

text \<open>Errors of the locker and of the database that are not those of a missing row.\<close>

definition plain_errors :: "'l rw_locker \<Rightarrow> ('l, 'e) config_state \<Rightarrow> bool" where
  "plain_errors rl s \<longleftrightarrow> (\<forall>k l. fst (lo_RLock rl k l) \<noteq> Inl ErrConfigNotFound) \<and> Some ErrDBNotFound \<notin> set (db_faults (co_db s)) \<and> Some ErrConfigNotFound \<notin> set (db_faults (co_db s))"

lemma GetConfigByKey_result:
  "GetConfigByKey k d = (r, d') \<Longrightarrow> db_config d' = db_config d \<and> set (db_faults d') \<subseteq> set (db_faults d) \<and>
     (r = (case map_of (db_config d) k of None \<Rightarrow> Inl ErrDBNotFound | Some v \<Rightarrow> Inr v) \<or> (\<exists>e. r = Inl e \<and> Some e \<in> set (db_faults d)))"
  by (auto simp: GetConfigByKey_def select_one_def db_call_def one_row_config split: list.splits option.splits)

lemma getConfig_reads:
  assumes "getConfig rl k s = (r, t)" "plain_errors rl s"
  shows "plain_errors rl t \<and> config_of t = config_of s \<and> (\<forall>v. r = Inr v \<longrightarrow> config_of s k = Some v) \<and> (r = Inl ErrConfigNotFound \<longrightarrow> config_of s k = None)"
proof -
  obtain q l where l: "lo_RLock rl (getLockKey k) (co_lock s) = (q, l)" by fastforce
  obtain p d where d: "GetConfigByKey k (co_db s) = (p, d)" by fastforce
  obtain q' l' where l': "lo_RUnlock rl (getLockKey k) l = (q', l')" by fastforce
  have "(r, t) = (case q of Inl e \<Rightarrow> (Inl e, s\<lparr>co_lock := l\<rparr>) | Inr _ \<Rightarrow> (map_sum (\<lambda>e. if IsNotFoundError e then ErrConfigNotFound else e) id p, s\<lparr>co_db := d, co_lock := l'\<rparr>))"
    using assms(1) l l' d by (cases q; cases p) (simp_all add: getConfig_def thenE_def bindE_def finallyE_def map_err_def on_lock_def on_db_def)
  moreover have "q \<noteq> Inl ErrConfigNotFound" using assms(2) l by (auto simp: plain_errors_def) (metis fst_conv)
  ultimately show ?thesis
    using assms(2) GetConfigByKey_result [OF d] by (cases q; cases p) (auto simp: plain_errors_def IsNotFoundError_def split: option.splits if_splits)
qed

abbreviation (input) settled :: "'l rw_locker \<Rightarrow> (string \<rightharpoonup> string) \<Rightarrow> ('l, 'e) config_state \<Rightarrow> bool" where
  "settled rl C s \<equiv> plain_errors rl s \<and> config_of s = C"

lemma attempt_then:
  assumes "\<And>r. (\<And>v. r = Inr v \<Longrightarrow> C k = Some v) \<Longrightarrow> (r = Inl ErrConfigNotFound \<Longrightarrow> C k = None) \<Longrightarrow> triple (settled rl C) (f r) Q E"
  shows "triple (settled rl C) (bindE (attemptE (getConfig rl k)) f) Q E"
proof (rule triple_bindE)
  show "triple (settled rl C) (attemptE (getConfig rl k)) (\<lambda>r s. settled rl C s \<and> (\<forall>v. r = Inr v \<longrightarrow> C k = Some v) \<and> (r = Inl ErrConfigNotFound \<longrightarrow> C k = None)) E"
  proof (rule tripleI)
    fix s :: "('a, 'b) config_state" and r t
    assume s: "settled rl C s" and "attemptE (getConfig rl k) s = (Inr r, t)"
    then have "getConfig rl k s = (r, t)" by (simp add: attemptE_def split: prod.splits)
    from getConfig_reads [OF this] s show "settled rl C t \<and> (\<forall>v. r = Inr v \<longrightarrow> C k = Some v) \<and> (r = Inl ErrConfigNotFound \<longrightarrow> C k = None)" by auto
  qed (simp add: attemptE_def split: prod.splits)
qed (rule triple_assume, use assms in blast)

lemma read_then:
  assumes "\<And>v. C k = Some v \<Longrightarrow> triple (settled rl C) (f v) Q (\<lambda>_. settled rl C)"
  shows "triple (settled rl C) (bindE (getConfig rl k) f) Q (\<lambda>_. settled rl C)"
proof (rule triple_bindE)
  show "triple (settled rl C) (getConfig rl k) (\<lambda>v s. settled rl C s \<and> C k = Some v) (\<lambda>_. settled rl C)"
    by (rule tripleI) (auto dest!: getConfig_reads)
qed (rule triple_assume, use assms in blast)

section \<open>The settings of the chunking\<close>

definition agrees :: "(string \<rightharpoonup> string) \<Rightarrow> 32 word \<Rightarrow> 32 word \<Rightarrow> 32 word \<Rightarrow> bool" where
  "agrees C mn av mx \<longleftrightarrow> C KeyCDCMin = Some (show_nat (unat mn)) \<and> C KeyCDCAvg = Some (show_nat (unat av)) \<and> C KeyCDCMax = Some (show_nat (unat mx))"

lemma validate_settled:
  "triple (settled rl C) (validateCDCConfig rl enabled mn av mx ''true'') (\<lambda>_ s. settled rl C s \<and> enabled \<and> agrees C mn av mx) (\<lambda>_. settled rl C)"
proof (cases enabled)
  case True
  then show ?thesis
    unfolding validateCDCConfig_def by (auto intro!: read_then triple_returnE triple_raiseE simp: agrees_def)
next
  case False
  then show ?thesis by (auto simp: validateCDCConfig_def intro: triple_raiseE)
qed

lemma optional_settled:
  assumes "\<And>v. triple (settled rl C) (f v) Q (\<lambda>_. settled rl C)"
  shows "triple (settled rl C) (bindE (optional_setting rl k) f) Q (\<lambda>_. settled rl C)"
proof (rule triple_bindE [where R = "\<lambda>_. settled rl C"])
  show "triple (settled rl C) (optional_setting rl k) (\<lambda>_. settled rl C) (\<lambda>_. settled rl C)"
    unfolding optional_setting_def by (rule attempt_then) (auto intro!: triple_returnE triple_raiseE split: sum.split)
qed (rule assms)

lemma load_settled: "triple (settled rl C) (loadCDCConfigFromDB rl e ws) (\<lambda>_. settled rl C) (\<lambda>_. settled rl C)"
  unfolding loadCDCConfigFromDB_def
  by (rule attempt_then) (auto intro!: optional_settled triple_returnE triple_raiseE split: sum.split)

lemma settle_settled:
  assumes "C KeyCDCEnabled = Some ''true''"
  shows "triple (settled rl C) (settle_cdc rl e ws mn av mx) (\<lambda>(enabled, mn, av, mx) s. settled rl C s \<and> enabled \<and> agrees C mn av mx) (\<lambda>_. settled rl C)"
proof -
  have stored: "triple (settled rl C) (ValidateOrStoreCDCConfig rl enabled mn av mx) (\<lambda>_ s. settled rl C s \<and> enabled \<and> agrees C mn av mx) (\<lambda>_. settled rl C)" for enabled mn av mx
    unfolding ValidateOrStoreCDCConfig_def
  proof (rule attempt_then)
    fix r :: "string result"
    assume "\<And>v. r = Inr v \<Longrightarrow> C KeyCDCEnabled = Some v" "r = Inl ErrConfigNotFound \<Longrightarrow> C KeyCDCEnabled = None"
    then show "triple (settled rl C) (case r of Inl e \<Rightarrow> if e = ErrConfigNotFound then (if \<not> enabled then returnE () else storeCDCConfig rl mn av mx) else raiseE e
      | Inr stored \<Rightarrow> validateCDCConfig rl enabled mn av mx stored) (\<lambda>_ s. settled rl C s \<and> enabled \<and> agrees C mn av mx) (\<lambda>_. settled rl C)"
      using assms validate_settled by (cases r) (auto intro: triple_raiseE)
  qed
  have flags: "triple (settled rl C) (if mn = 0 \<and> av = 0 \<and> mx = 0 then loadCDCConfigFromDB rl e ws else returnE (e, mn, av, mx)) (\<lambda>_. settled rl C) (\<lambda>_. settled rl C)"
    by (auto intro: load_settled triple_returnE)
  have step: "triple (settled rl C) (case x of (enabled, mn, av, mx) \<Rightarrow> thenE (ValidateOrStoreCDCConfig rl enabled mn av mx) (returnE (enabled, mn, av, mx)))
      (\<lambda>(enabled, mn, av, mx) s. settled rl C s \<and> enabled \<and> agrees C mn av mx) (\<lambda>_. settled rl C)" for x :: "bool \<times> 32 word \<times> 32 word \<times> 32 word"
    by (cases x) (auto intro!: triple_thenE [OF stored] triple_returnE)
  show ?thesis unfolding settle_cdc_def by (rule triple_bindE [OF flags step])
qed

text \<open>C29. Once chunking was enabled, every later start (with or without the flags, whatever locks and queries fail) leaves the settings alone, and it succeeds only with
  chunking enabled and the sizes that are stored.
\<close>

theorem cdc_settings_kept:
  assumes "plain_errors rl s" "config_of s KeyCDCEnabled = Some ''true''" "settle_cdc rl e ws mn av mx s = (r, t)"
  shows "config_of t = config_of s \<and> (\<forall>enabled mn av mx. r = Inr (enabled, mn, av, mx) \<longrightarrow> enabled \<and> agrees (config_of s) mn av mx)"
proof -
  note settled = settle_settled [where C = "config_of s", OF assms(2), of rl e ws mn av mx]
  show ?thesis
  proof (cases r)
    case (Inl q)
    with triple_Inl [OF settled, of s q t] assms(1,3) show ?thesis by simp
  next
    case (Inr x)
    with triple_Inr [OF settled, of s x t] assms(1,3) show ?thesis by (cases x) simp
  qed
qed

lemma show_nat_inj: "show_nat m = show_nat n \<longleftrightarrow> m = n"
  using digits_val_show by metis

lemma agrees_unique: "agrees C a b c \<Longrightarrow> agrees C a' b' c' \<Longrightarrow> a' = a \<and> b' = b \<and> c' = c"
  by (auto simp: agrees_def show_nat_inj word_unat_eq_iff)

text \<open>A configuration that works without failures.\<close>

definition quiet_locker :: "unit rw_locker" where
  "quiet_locker = \<lparr>lo_Lock = \<lambda>_. returnE (), lo_TryLock = \<lambda>_. returnE True, lo_Unlock = \<lambda>_. returnE (), lo_RLock = \<lambda>_. returnE (), lo_RUnlock = \<lambda>_. returnE ()\<rparr>"

definition config_start :: "(string \<times> string) list \<Rightarrow> (unit, string option) config_state" where
  "config_start rows = \<lparr>co_db = empty_db\<lparr>db_config := rows\<rparr>, co_lock = (), co_env = None\<rparr>"

definition cdc_rows :: "(string \<times> string) list" where
  "cdc_rows = [(KeyCDCEnabled, ''true''), (KeyCDCMin, ''16''), (KeyCDCAvg, ''64''), (KeyCDCMax, ''256'')]"

lemmas config_keys = KeyClusterUUID_def KeySecretKey_def KeyCDCEnabled_def KeyCDCMin_def KeyCDCAvg_def KeyCDCMax_def

lemma granting_quiet: "granting quiet_locker"
  by (simp add: granting_def quiet_locker_def returnE_def)

lemma plain_quiet: "plain_errors quiet_locker (config_start rows)"
  by (simp add: plain_errors_def quiet_locker_def config_start_def empty_db_def returnE_def)

lemma cdc_settings_kept_witness:
  "config_of (snd (settle_cdc quiet_locker True True 16 64 128 (config_start cdc_rows))) = config_of (config_start cdc_rows)"
  using cdc_settings_kept [OF plain_quiet _ surjective_pairing, of cdc_rows True True 16 64 128] by (simp add: config_start_def cdc_rows_def)

section \<open>Without failures\<close>

abbreviation (input) quiet :: "(string \<rightharpoonup> string) \<Rightarrow> 'e \<Rightarrow> ('l, 'e) config_state \<Rightarrow> bool" where
  "quiet C e s \<equiv> healthy s \<and> config_of s = C \<and> co_env s = e"

lemma quiet_attempt:
  assumes "granting rl" "triple (quiet C e) (f (case C k of None \<Rightarrow> Inl ErrConfigNotFound | Some v \<Rightarrow> Inr v)) Q E"
  shows "triple (quiet C e) (bindE (attemptE (getConfig rl k)) f) Q E"
proof (rule triple_bindE)
  let ?r = "case C k of None \<Rightarrow> Inl ErrConfigNotFound | Some v \<Rightarrow> Inr v"
  show "triple (quiet C e) (attemptE (getConfig rl k)) (\<lambda>r s. quiet C e s \<and> r = ?r) E"
  proof (rule tripleI)
    fix s :: "('a, 'b) config_state" and r t
    assume "quiet C e s" "attemptE (getConfig rl k) s = (Inr r, t)"
    moreover from this(1) obtain l where "getConfig rl k s = (?r, s\<lparr>co_lock := l\<rparr>)" using getConfig_granted [OF assms(1), of s k] by auto
    ultimately show "quiet C e t \<and> r = ?r" by (auto simp: attemptE_def)
  qed (simp add: attemptE_def split: prod.splits)
qed (rule triple_assume, use assms in blast)

lemma quiet_read:
  assumes "granting rl" "C k = Some v" "triple (quiet C e) (f v) Q E"
  shows "triple (quiet C e) (bindE (getConfig rl k) f) Q E"
proof (rule triple_bindE)
  show "triple (quiet C e) (getConfig rl k) (\<lambda>x s. quiet C e s \<and> x = v) E"
    by (rule tripleI) (use getConfig_granted [OF assms(1), of _ k] assms(2) in fastforce)+
qed (rule triple_assume, use assms in blast)

lemma quiet_set: "granting rl \<Longrightarrow> triple (quiet C e) (setConfig rl k v) (\<lambda>_. quiet (C(k \<mapsto> v)) e) E"
  by (rule tripleI) (use setConfig_granted [of rl _ k v] in fastforce)+

lemma quiet_write: "granting rl \<Longrightarrow> triple (quiet (C(k \<mapsto> v)) e) m Q E \<Longrightarrow> triple (quiet C e) (thenE (setConfig rl k v) m) Q E"
  by (rule triple_thenE [OF quiet_set])

lemma runs_to: "triple P m (\<lambda>x t. x = y \<and> Q t) (\<lambda>_ _. False) \<Longrightarrow> P s \<Longrightarrow> \<exists>t. m s = (Inr y, t) \<and> Q t"
  by (cases "m s"; cases "fst (m s)") (auto simp: triple_def)

definition with_cdc :: "(string \<rightharpoonup> string) \<Rightarrow> 32 word \<Rightarrow> 32 word \<Rightarrow> 32 word \<Rightarrow> (string \<rightharpoonup> string)" where
  "with_cdc C mn av mx = C(KeyCDCEnabled \<mapsto> ''true'', KeyCDCMin \<mapsto> show_nat (unat mn), KeyCDCAvg \<mapsto> show_nat (unat av), KeyCDCMax \<mapsto> show_nat (unat mx))"

lemma with_cdc [simp]: "with_cdc C mn av mx KeyCDCEnabled = Some ''true''" "agrees (with_cdc C mn av mx) mn av mx"
  by (simp_all add: with_cdc_def agrees_def config_keys)

lemma store_quiet:
  "granting rl \<Longrightarrow> mn \<noteq> 0 \<Longrightarrow> av \<noteq> 0 \<Longrightarrow> mx \<noteq> 0 \<Longrightarrow> triple (quiet C e) (storeCDCConfig rl mn av mx) (\<lambda>_. quiet (with_cdc C mn av mx) e) (\<lambda>_ _. False)"
  unfolding storeCDCConfig_def with_cdc_def by (auto intro!: quiet_write quiet_set)

lemma first_start:
  assumes "granting rl" "C KeyCDCEnabled = None" "mn \<noteq> 0" "av \<noteq> 0" "mx \<noteq> 0"
  shows "triple (quiet C e) (ValidateOrStoreCDCConfig rl True mn av mx) (\<lambda>_. quiet (with_cdc C mn av mx) e) (\<lambda>_ _. False)"
  unfolding ValidateOrStoreCDCConfig_def
  by (rule quiet_attempt [OF assms(1)]) (simp add: assms(2) store_quiet [OF assms(1,3-5)])

lemma validate_quiet:
  assumes "granting rl" "C KeyCDCEnabled = Some ''true''" "agrees C mn av mx"
  shows "triple (quiet C e) (ValidateOrStoreCDCConfig rl True mn av mx) (\<lambda>_. quiet C e) (\<lambda>_ _. False)"
  unfolding ValidateOrStoreCDCConfig_def
  by (rule quiet_attempt [OF assms(1)]) (use assms in \<open>auto simp: validateCDCConfig_def agrees_def intro!: quiet_read [OF assms(1)] triple_returnE\<close>)

lemma parseCDCValue_show: "parseCDCValue (show_nat (unat n)) = n"
proof -
  have n: "unat n < 2 ^ 32" using unsigned_less [of n, where ?'a = nat] by simp
  then have "unat (of_nat (unat n) :: 64 word) = unat n" by (simp add: unsigned_ucast_eq take_bit_nat_eq_self)
  moreover have "ucast (of_nat (unat n) :: 64 word) = n" by (simp add: word_unat_eq_iff unsigned_ucast_eq take_bit_word_beyond_length_eq)
  ultimately show ?thesis using n parse_uint_show [of "unat n"] by (simp add: parseCDCValue_def)
qed

lemma load_quiet:
  assumes "granting rl" "C KeyCDCEnabled = Some ''true''" "agrees C mn av mx"
  shows "triple (quiet C e) (loadCDCConfigFromDB rl b False) (\<lambda>x s. quiet C e s \<and> x = (True, mn, av, mx)) (\<lambda>_ _. False)"
proof -
  have opt: "triple (quiet C e) (bindE (optional_setting rl k) f) Q (\<lambda>_ _. False)" if v: "C k = Some v" and f: "triple (quiet C e) (f v) Q (\<lambda>_ _. False)" for f :: "string \<Rightarrow> (('a, 'b) config_state, bool \<times> 32 word \<times> 32 word \<times> 32 word) prog" and Q k v
  proof (rule triple_bindE)
    show "triple (quiet C e) (optional_setting rl k) (\<lambda>x s. quiet C e s \<and> x = v) (\<lambda>_ _. False)"
      unfolding optional_setting_def by (rule quiet_attempt [OF assms(1)]) (simp add: v triple_returnE)
  qed (rule triple_assume, use f in blast)
  show ?thesis
    unfolding loadCDCConfigFromDB_def
    by (rule quiet_attempt [OF assms(1)]) (use assms(2,3) in \<open>auto simp: agrees_def parseCDCValue_show intro!: opt triple_returnE\<close>)
qed

text \<open>
  The first start with chunking enabled stores the settings, and a later start without any flags finds them.
\<close>

theorem cdc_settings_roundtrip:
  assumes "granting rl" "healthy s" "config_of s KeyCDCEnabled = None" "mn \<noteq> 0" "av \<noteq> 0" "mx \<noteq> 0"
  shows "\<exists>t. settle_cdc rl True ws mn av mx s = (Inr (True, mn, av, mx), t) \<and> (\<forall>e. \<exists>u. settle_cdc rl e False 0 0 0 t = (Inr (True, mn, av, mx), u))"
proof -
  let ?C = "with_cdc (config_of s) mn av mx" and ?q = "co_env s"
  note start = first_start [where C = "config_of s" and e = ?q, OF assms(1,3-6)]
  have first: "settle_cdc rl True ws mn av mx = thenE (ValidateOrStoreCDCConfig rl True mn av mx) (returnE (True, mn, av, mx))"
    using assms(4) by (simp add: settle_cdc_def)
  have "triple (quiet (config_of s) ?q) (settle_cdc rl True ws mn av mx) (\<lambda>x t. x = (True, mn, av, mx) \<and> quiet ?C ?q t) (\<lambda>_ _. False)"
    unfolding first by (rule triple_thenE [OF start], rule triple_returnE) blast
  then obtain t where t: "settle_cdc rl True ws mn av mx s = (Inr (True, mn, av, mx), t)" "quiet ?C ?q t"
    using runs_to [where P = "quiet (config_of s) ?q" and Q = "quiet ?C ?q" and s = s] assms(2) by force
  have "triple (quiet ?C ?q) (settle_cdc rl e False 0 0 0) (\<lambda>x t. x = (True, mn, av, mx) \<and> quiet ?C ?q t) (\<lambda>_ _. False)" for e
    unfolding settle_cdc_def
  proof (rule triple_bindE)
    show "triple (quiet ?C ?q) (if (0 :: 32 word) = 0 \<and> (0 :: 32 word) = 0 \<and> (0 :: 32 word) = 0 then loadCDCConfigFromDB rl e False else returnE (e, 0, 0, 0))
        (\<lambda>x s. quiet ?C ?q s \<and> x = (True, mn, av, mx)) (\<lambda>_ _. False)"
      using load_quiet [OF assms(1), of ?C mn av mx ?q e] by simp
    show "triple (\<lambda>s. quiet ?C ?q s \<and> x = (True, mn, av, mx)) (case x of (enabled, mn, av, mx) \<Rightarrow> thenE (ValidateOrStoreCDCConfig rl enabled mn av mx) (returnE (enabled, mn, av, mx)))
        (\<lambda>x t. x = (True, mn, av, mx) \<and> quiet ?C ?q t) (\<lambda>_ _. False)" for x
      by (rule triple_assume) (simp, rule triple_thenE [OF validate_quiet [OF assms(1)]], simp, simp, rule triple_returnE, simp)
  qed
  then have "\<exists>u. settle_cdc rl e False 0 0 0 t = (Inr (True, mn, av, mx), u)" for e using runs_to [where P = "quiet ?C ?q" and Q = "quiet ?C ?q" and s = t] t(2) by force
  with t(1) show ?thesis by blast
qed

lemma getConfig_step:
  assumes "granting rl" "db_faults (co_db s) = None # fs"
  shows "\<exists>t. getConfig rl k s = (case config_of s k of None \<Rightarrow> Inl ErrConfigNotFound | Some v \<Rightarrow> Inr v, t) \<and> config_of t = config_of s \<and> db_faults (co_db t) = fs"
proof -
  obtain l where l: "lo_RLock rl (getLockKey k) (co_lock s) = (Inr (), l)" using granting_runs [OF assms(1)] by blast
  obtain q l' where "lo_RUnlock rl (getLockKey k) l = (q, l')" by fastforce
  then show ?thesis
    using l assms(2)
    by (cases "config_of s k")
      (simp_all add: getConfig_def thenE_def bindE_def finallyE_def map_err_def on_lock_def on_db_def IsNotFoundError_def GetConfigByKey_def select_one_def db_call_def one_row_config)
qed

lemma setConfig_step:
  assumes "granting rl" "db_faults (co_db s) = None # fs"
  shows "\<exists>t. setConfig rl k v s = (Inr (), t) \<and> config_of t = (config_of s)(k \<mapsto> v) \<and> db_faults (co_db t) = fs"
proof -
  obtain l where l: "lo_Lock rl (getLockKey k) (co_lock s) = (Inr (), l)" using granting_runs [OF assms(1)] by blast
  obtain q l' where "lo_Unlock rl (getLockKey k) l = (q, l')" by fastforce
  then have "\<exists>t. setConfig rl k v s = (Inr (), t) \<and> db_faults (co_db t) = fs"
    using l assms(2) by (simp add: setConfig_def thenE_def bindE_def finallyE_def on_lock_def on_db_def SetConfig_def exec_def db_call_def)
  then show ?thesis using setConfig_keeps(2) by blast
qed

lemma setConfig_fault:
  assumes "granting rl" "db_faults (co_db s) = Some e # fs"
  shows "\<exists>t. setConfig rl k v s = (Inl e, t) \<and> config_of t = config_of s \<and> db_faults (co_db t) = fs"
proof -
  obtain l where l: "lo_Lock rl (getLockKey k) (co_lock s) = (Inr (), l)" using granting_runs [OF assms(1)] by blast
  obtain q l' where "lo_Unlock rl (getLockKey k) l = (q, l')" by fastforce
  then show ?thesis
    using l assms(2) by (simp add: setConfig_def thenE_def bindE_def finallyE_def on_lock_def on_db_def SetConfig_def exec_def db_call_def)
qed

lemma cdc_settings_roundtrip_witness:
  "\<exists>t. settle_cdc quiet_locker True True 16 64 256 (config_start []) = (Inr (True, 16, 64, 256), t) \<and>
     (\<forall>e. \<exists>u. settle_cdc quiet_locker e False 0 0 0 t = (Inr (True, 16, 64, 256), u))"
  by (rule cdc_settings_roundtrip [OF granting_quiet]) (simp_all add: config_start_def empty_db_def)

section \<open>A store that fails half way\<close>

text \<open>
  The four settings are stored one by one. When the second one fails, the first one says that chunking is enabled: from then on no start succeeds, whatever its flags.
\<close>

theorem cdc_settings_half_stored:
  assumes "granting rl" "db_faults (co_db s) = [None, None, Some q]" "config_of s KeyCDCEnabled = None" "config_of s KeyCDCMin = None" "mn \<noteq> 0" "av \<noteq> 0" "mx \<noteq> 0"
  shows "\<exists>t. ValidateOrStoreCDCConfig rl True mn av mx s = (Inl q, t) \<and> healthy t \<and>
    (\<forall>e ws a b c. \<exists>p u. settle_cdc rl e ws a b c t = (Inl p, u) \<and> config_of u = config_of t)"
proof -
  let ?C = "(config_of s)(KeyCDCEnabled \<mapsto> ''true'')"
  obtain s1 where 1: "getConfig rl KeyCDCEnabled s = (Inl ErrConfigNotFound, s1)" "config_of s1 = config_of s" "db_faults (co_db s1) = [None, Some q]"
    using getConfig_step [OF assms(1,2), of KeyCDCEnabled] assms(3) by auto
  obtain s2 where 2: "setConfig rl KeyCDCEnabled ''true'' s1 = (Inr (), s2)" "config_of s2 = ?C" "db_faults (co_db s2) = [Some q]"
    using setConfig_step [OF assms(1) 1(3)] 1(2) by auto
  obtain t where t: "setConfig rl KeyCDCMin (show_nat (unat mn)) s2 = (Inl q, t)" "config_of t = ?C" "healthy t"
    using setConfig_fault [OF assms(1) 2(3)] 2(2) by auto
  have "ValidateOrStoreCDCConfig rl True mn av mx s = (Inl q, t)"
    using 1(1) 2(1) t(1) assms(5-7) by (simp add: ValidateOrStoreCDCConfig_def storeCDCConfig_def thenE_def bindE_def attemptE_def)
  moreover have "\<exists>p u. settle_cdc rl e ws a b c t = (Inl p, u) \<and> config_of u = config_of t" for e ws a b c
  proof -
    have plain: "settled rl ?C t" using assms(1) t(2,3) by (simp add: granting_def plain_errors_def)
    have "?C KeyCDCEnabled = Some ''true''" by simp
    note kept = settle_settled [where C = ?C, OF this, of rl e ws a b c]
    have "\<not> agrees ?C mn av mx" for mn av mx using assms(4) by (simp add: agrees_def config_keys)
    then have "fst (settle_cdc rl e ws a b c t) \<noteq> Inr x" for x
      using triple_Inr [OF kept, of t x "snd (settle_cdc rl e ws a b c t)"] plain by (cases x) (auto simp: prod_eq_iff)
    then obtain p u where u: "settle_cdc rl e ws a b c t = (Inl p, u)" by (metis fst_conv obj_sumE surj_pair)
    from triple_Inl [OF kept, of t p u] plain u t(2) show ?thesis by simp
  qed
  ultimately show ?thesis using t(3) by blast
qed


lemma cdc_settings_half_stored_witness:
  "let s = (config_start [])\<lparr>co_db := empty_db\<lparr>db_faults := [None, None, Some ErrDB]\<rparr>\<rparr>
   in \<exists>t. ValidateOrStoreCDCConfig quiet_locker True 16 64 256 s = (Inl ErrDB, t) \<and> healthy t \<and>
     (\<forall>e ws a b c. \<exists>p u. settle_cdc quiet_locker e ws a b c t = (Inl p, u) \<and> config_of u = config_of t)"
  unfolding Let_def by (rule cdc_settings_half_stored [OF granting_quiet]) (simp_all add: config_start_def empty_db_def)

section \<open>The secret key\<close>

text \<open>C35. Whatever fails, the set-up removes the key from its old place only when the database has it.
\<close>

theorem secret_key_kept:
  fixes ke :: "(('l, 'e) config_state, 'e, 'k) key_env"
  assumes "\<And>e. snd (ke_GetSecretKey ke e) = e" "\<And>s. co_env (snd (ke_Generate ke s)) = co_env s" "setupSecretKey rl ke [] s = (r, t)"
  shows "co_env t = co_env s \<or> (\<exists>k. r = Inr k \<and> fst (ke_GetSecretKey ke (co_env s)) = Inr k \<and> config_of t KeySecretKey = Some (ke_String ke k))"
proof -
  let ?P = "\<lambda>s'. co_env s' = co_env s" and ?Q = "\<lambda>k t. co_env t = co_env s \<or> fst (ke_GetSecretKey ke (co_env s)) = Inr k \<and> config_of t KeySecretKey = Some (ke_String ke k)"
  have db: "triple ?P (attemptE (getConfig rl KeySecretKey)) (\<lambda>_. ?P) (\<lambda>_. ?P)"
    by (intro triple_keeps keeps_attemptE) (simp add: keeps_def getConfig_keeps)
  have set: "triple ?P (setConfig rl KeySecretKey v) (\<lambda>_ s'. ?P s' \<and> config_of s' KeySecretKey = Some v) (\<lambda>_. ?P)" for v
  proof (rule tripleI)
    fix u x u'
    assume "?P u" "setConfig rl KeySecretKey v u = (Inr x, u')"
    then show "?P u' \<and> config_of u' KeySecretKey = Some v"
      using setConfig_keeps(1) [of rl KeySecretKey v u] setConfig_keeps(2) [of rl KeySecretKey v u u'] by simp
  next
    fix u e u'
    assume "?P u" "setConfig rl KeySecretKey v u = (Inl e, u')"
    then show "?P u'" using setConfig_keeps(1) [of rl KeySecretKey v u] by simp
  qed
  have get: "triple ?P (attemptE (on_env (ke_GetSecretKey ke))) (\<lambda>r s'. ?P s' \<and> r = fst (ke_GetSecretKey ke (co_env s))) (\<lambda>_. ?P)"
    using assms(1) [of "co_env s"] by (auto simp: triple_def attemptE_def on_env_def split: prod.split)
  have gen: "triple ?P (ke_Generate ke) (\<lambda>_. ?P) (\<lambda>_. ?P)" using assms(2) by (intro triple_keeps) (simp add: keeps_def)
  have del: "triple (\<lambda>s'. ?P s' \<and> config_of s' KeySecretKey = Some (ke_String ke k)) (ignoreE (on_env (ke_DeleteSecretKey ke))) (\<lambda>_ s'. config_of s' KeySecretKey = Some (ke_String ke k)) (\<lambda>_. ?P)" for k
    by (auto simp: triple_def ignoreE_def bindE_def attemptE_def returnE_def on_env_def split: prod.split)
  have old: "triple ?P (thenE (setConfig rl KeySecretKey (ke_String ke k)) (thenE (ignoreE (on_env (ke_DeleteSecretKey ke))) (returnE k))) ?Q (\<lambda>_. ?P)"
    if "fst (ke_GetSecretKey ke (co_env s)) = Inr k" for k
    by (rule triple_thenE [OF set], rule triple_thenE [OF del], rule triple_returnE) (simp add: that)
  have new: "triple ?P (bindE (ke_Generate ke) (\<lambda>k. thenE (setConfig rl KeySecretKey (ke_String ke k)) (returnE k))) ?Q (\<lambda>_. ?P)"
    by (rule triple_bindE [OF gen], rule triple_thenE [OF set], rule triple_returnE) simp
  let ?deprecated = "\<lambda>r. case r of
      Inr oldKey \<Rightarrow> thenE (setConfig rl KeySecretKey (ke_String ke oldKey)) (thenE (ignoreE (on_env (ke_DeleteSecretKey ke))) (returnE oldKey))
    | Inl e \<Rightarrow> if e \<noteq> ErrNotFound then raiseE e else bindE (ke_Generate ke) (\<lambda>k. thenE (setConfig rl KeySecretKey (ke_String ke k)) (returnE k))"
  have "triple ?P (?deprecated q) ?Q (\<lambda>_. ?P)" if "q = fst (ke_GetSecretKey ke (co_env s))" for q
  proof (cases q)
    case (Inl e)
    show ?thesis unfolding Inl sum.case using new by (cases "e = ErrNotFound") (simp_all add: triple_raiseE)
  next
    case (Inr k)
    show ?thesis unfolding Inr sum.case by (rule old) (use that Inr in simp)
  qed
  then have missing: "triple ?P (bindE (attemptE (on_env (ke_GetSecretKey ke))) ?deprecated) ?Q (\<lambda>_. ?P)"
    by (intro triple_bindE [OF get] triple_assume)
  have "triple ?P (setupSecretKey rl ke []) ?Q (\<lambda>_. ?P)"
    unfolding setupSecretKey_def
  proof (simp only: if_False simp_thms, rule triple_bindE [OF db])
    fix r :: "string result"
    show "triple ?P (case r of Inr dbKey \<Rightarrow> liftE (ke_Load ke dbKey) | Inl e \<Rightarrow> if e \<noteq> ErrConfigNotFound \<and> \<not> IsNotFoundError e then raiseE e
        else bindE (attemptE (on_env (ke_GetSecretKey ke))) ?deprecated) ?Q (\<lambda>_. ?P)"
    proof (cases r)
      case (Inl e)
      show ?thesis unfolding Inl sum.case using missing by (cases "e \<noteq> ErrConfigNotFound \<and> \<not> IsNotFoundError e") (simp_all only: if_True if_False, simp add: triple_raiseE)
    qed (auto intro: triple_liftE)
  qed
  then show ?thesis using assms(3) triple_Inr [of ?P _ ?Q _ s _ t] triple_Inl [of ?P _ ?Q "\<lambda>_. ?P" s _ t] by (cases r) auto
qed

text \<open>The old place is a value that may be there.\<close>

definition demo_keys :: "((unit, string option) config_state, string option, string) key_env" where
  "demo_keys = \<lparr>ke_Load = Inr, ke_String = id, ke_Generate = returnE ''new'', ke_ReadFile = (\<lambda>_. raiseE ErrNotExist),
     ke_GetSecretKey = (\<lambda>e. (case e of None \<Rightarrow> Inl ErrNotFound | Some k \<Rightarrow> Inr k, e)), ke_DeleteSecretKey = modifyE (\<lambda>_. None)\<rparr>"

lemma secret_key_kept_witness:
  "let s = (config_start [])\<lparr>co_env := Some ''old''\<rparr>; t = snd (setupSecretKey quiet_locker demo_keys [] s)
   in co_env t = None \<and> config_of t KeySecretKey = Some ''old''"
proof -
  let ?s = "(config_start [])\<lparr>co_env := Some ''old''\<rparr>"
  let ?r = "setupSecretKey quiet_locker demo_keys [] ?s"
  have gone: "co_env (snd ?r) = None" by code_simp
  with secret_key_kept [where ke = demo_keys and rl = quiet_locker and s = ?s and r = "fst ?r" and t = "snd ?r"] show ?thesis
    by (auto simp: Let_def demo_keys_def returnE_def)
qed

text \<open>
  Two instances that start on an empty database both generate a key: here the second one starts and finishes while the first one generates its own. The second one goes on signing
  with a key that is not the one of the database. \<open>during m k\<close> is the generation of \<open>k\<close> while \<open>m\<close> runs.
\<close>

definition during :: "('s, 'a) prog \<Rightarrow> 'k \<Rightarrow> ('s, 'k) prog" where
  "during m k = thenE (ignoreE m) (returnE k)"

lemma key_generated:
  fixes ke :: "(('l, 'e) config_state, 'e, 'k) key_env"
  assumes "granting rl" "C KeySecretKey = None" "ke_GetSecretKey ke e = (Inl ErrNotFound, e)"
    and gen: "triple (quiet C e) g (\<lambda>x t. quiet C' e t \<and> x = k) (\<lambda>_ _. False)"
  shows "triple (quiet C e) (setupSecretKey rl (ke\<lparr>ke_Generate := g\<rparr>) []) (\<lambda>x t. x = k \<and> quiet (C'(KeySecretKey \<mapsto> ke_String ke k)) e t) (\<lambda>_ _. False)"
proof -
  let ?n = "C'(KeySecretKey \<mapsto> ke_String ke k)"
  have get: "triple (quiet C e) (attemptE (on_env (ke_GetSecretKey ke))) (\<lambda>r s. quiet C e s \<and> r = Inl ErrNotFound) (\<lambda>_ _. False)"
    by (auto simp: triple_def attemptE_def on_env_def assms(3))
  have set: "triple (quiet C' e) (thenE (setConfig rl KeySecretKey (ke_String ke k)) (returnE k)) (\<lambda>x t. x = k \<and> quiet ?n e t) (\<lambda>_ _. False)"
    by (rule quiet_write [OF assms(1)], rule triple_returnE) blast
  have new: "triple (quiet C e) (bindE g (\<lambda>k. thenE (setConfig rl KeySecretKey (ke_String ke k)) (returnE k))) (\<lambda>x t. x = k \<and> quiet ?n e t) (\<lambda>_ _. False)"
    by (rule triple_bindE [OF gen], rule triple_assume) (use set in blast)
  have "triple (quiet C e) (bindE (attemptE (on_env (ke_GetSecretKey ke))) (\<lambda>r. case r of
      Inr oldKey \<Rightarrow> thenE (setConfig rl KeySecretKey (ke_String ke oldKey)) (thenE (ignoreE (on_env (ke_DeleteSecretKey ke))) (returnE oldKey))
    | Inl e \<Rightarrow> if e \<noteq> ErrNotFound then raiseE e else bindE g (\<lambda>k. thenE (setConfig rl KeySecretKey (ke_String ke k)) (returnE k))))
      (\<lambda>x t. x = k \<and> quiet ?n e t) (\<lambda>_ _. False)"
    by (rule triple_bindE [OF get], rule triple_assume) (use new in simp)
  then show ?thesis
    unfolding setupSecretKey_def by (simp only: if_False simp_thms) (rule quiet_attempt [OF assms(1)], simp add: assms(2) cong: sum.case_cong if_cong)
qed

lemma ignore_runs: "triple P m (\<lambda>_. Q) (\<lambda>_ _. False) \<Longrightarrow> triple P (ignoreE m) (\<lambda>_. Q) (\<lambda>_ _. False)"
proof (rule tripleI)
  fix s x t
  assume m: "triple P m (\<lambda>_. Q) (\<lambda>_ _. False)" and run: "P s" "ignoreE m s = (Inr x, t)"
  obtain r u where "m s = (r, u)" by fastforce
  with run m show "Q t" by (cases r) (auto simp: ignoreE_def bindE_def attemptE_def returnE_def dest: triple_Inr triple_Inl)
qed (auto simp: ignoreE_def bindE_def attemptE_def returnE_def split: prod.splits sum.splits)

theorem secret_key_race:
  fixes ke :: "(('l, 'e) config_state, 'e, 'k) key_env"
  assumes "granting rl" "healthy s" "config_of s KeySecretKey = None" "ke_GetSecretKey ke (co_env s) = (Inl ErrNotFound, co_env s)"
  shows "\<exists>t u. setupSecretKey rl (ke\<lparr>ke_Generate := during (setupSecretKey rl (ke\<lparr>ke_Generate := returnE b\<rparr>) []) a\<rparr>) [] s = (Inr a, t) \<and>
    setupSecretKey rl (ke\<lparr>ke_Generate := returnE b\<rparr>) [] s = (Inr b, u) \<and> config_of t KeySecretKey = Some (ke_String ke a)"
proof -
  let ?C = "config_of s" and ?e = "co_env s"
  have "triple (quiet ?C ?e) (returnE b) (\<lambda>x t. quiet ?C ?e t \<and> x = b) (\<lambda>_ _. False)" by (rule triple_returnE) blast
  note second = key_generated [OF assms(1,3,4) this]
  have "triple (quiet ?C ?e) (during (setupSecretKey rl (ke\<lparr>ke_Generate := returnE b\<rparr>) []) a) (\<lambda>x t. quiet (?C(KeySecretKey \<mapsto> ke_String ke b)) ?e t \<and> x = a) (\<lambda>_ _. False)"
    unfolding during_def
    by (rule triple_thenE [OF ignore_runs [where Q = "quiet (?C(KeySecretKey \<mapsto> ke_String ke b)) ?e"]], rule triple_weaken [OF second], simp, blast, simp, rule triple_returnE, simp)
  note first = key_generated [OF assms(1,3,4) this]
  show ?thesis using runs_to [OF first, of s] runs_to [OF second, of s] assms(2) by auto
qed

end
