(* ===== verification/Fsck.thy ===== *)
theory Fsck
  imports Cache_State
begin

text \<open>
  \<open>pkg/ncps/fsck.go\<close>: the command that compares the database with the stores of NARs and chunks, in three phases: it collects suspects, checks each of them again, and repairs
  what is left, with another check before each change. The summary on the terminal, the progress reports and the set-up of the parts are not modelled.

  The state is that of the cache. \<open>db_now\<close> is the clock, in seconds. A walk over a store is the list of what it meets before it ends or fails; the code that runs for each item
  reads the database only. SHA-256 and the parser of hashes are functions of the environment.
\<close>

section \<open>Results\<close>

record fsck_results =
  fr_narinfosWithoutNarFiles :: "narinfo_row list"
  fr_orphanedNarFilesInDB :: "nar_file_row list"
  fr_narFilesMissingInStorage :: "nar_file_row list"
  fr_orphanedNarFilesInStorage :: "nar_url list"
  fr_cdcMode :: bool
  fr_orphanedChunksInDB :: "chunk_row list"
  fr_narFilesWithChunkIssues :: "nar_file_row list"
  fr_narFilesWithSizeMismatch :: "nar_file_row list"
  fr_orphanedChunksInStorage :: "string list"
  fr_verifyContent :: bool
  fr_narFilesWithCorruptChunks :: "nar_file_row list"
  fr_narFilesWithHashMismatch :: "nar_file_row list"

definition no_results :: "bool \<Rightarrow> bool \<Rightarrow> fsck_results" where
  "no_results cdcMode verifyContent =
     \<lparr>fr_narinfosWithoutNarFiles = [], fr_orphanedNarFilesInDB = [], fr_narFilesMissingInStorage = [], fr_orphanedNarFilesInStorage = [], fr_cdcMode = cdcMode,
      fr_orphanedChunksInDB = [], fr_narFilesWithChunkIssues = [], fr_narFilesWithSizeMismatch = [], fr_orphanedChunksInStorage = [], fr_verifyContent = verifyContent,
      fr_narFilesWithCorruptChunks = [], fr_narFilesWithHashMismatch = []\<rparr>"

definition totalIssues :: "fsck_results \<Rightarrow> nat" where
  "totalIssues r =
     length (fr_narinfosWithoutNarFiles r) + length (fr_orphanedNarFilesInDB r) + length (fr_narFilesMissingInStorage r) + length (fr_orphanedNarFilesInStorage r) +
     length (fr_orphanedChunksInDB r) + length (fr_narFilesWithChunkIssues r) + length (fr_narFilesWithSizeMismatch r) + length (fr_orphanedChunksInStorage r) +
     length (fr_narFilesWithCorruptChunks r) + length (fr_narFilesWithHashMismatch r)"

text \<open>A store that cannot be walked has no walk; without chunks there is no chunk store.\<close>

record ('s, 'c) fsck_env =
  fk_narStore :: "'s nar_store"
  fk_WalkNars :: "('s, nar_url list \<times> err option) prog option"
  fk_chunkStore :: "'c chunk_store option"
  fk_WalkChunks :: "('c, string list \<times> err option) prog"
  fk_blake3 :: "bytes \<Rightarrow> string"
  fk_sha256 :: "bytes \<Rightarrow> bytes"
  fk_ParseHash :: "string \<Rightarrow> bytes result"

text \<open>The items for which a check answers yes.\<close>

primrec filterE :: "('x \<Rightarrow> ('s, bool) prog) \<Rightarrow> 'x list \<Rightarrow> ('s, 'x list) prog" where
  "filterE p [] = returnE []"
| "filterE p (x # xs) = bindE (p x) (\<lambda>b. bindE (filterE p xs) (\<lambda>ys. returnE (if b then x # ys else ys)))"

text \<open>A query that must not find a row.\<close>

definition missing_row :: "(database, 'a) prog \<Rightarrow> (('s, 'c, 'l) cache_state, bool) prog" where
  "missing_row m =
     bindE (attemptE (in_db m)) (\<lambda>r.
       case r of Inr _ \<Rightarrow> returnE False | Inl e \<Rightarrow> if IsNotFoundError e then returnE True else raiseE e)"

definition narFileRowToURL :: "nar_file_row \<Rightarrow> nar_url result" where
  "narFileRowToURL nf = rbind (parse_query (nf_query nf)) (\<lambda>q. Inr (mk_nar_url (nf_hash nf) (nf_compression nf) q))"

definition shouldCheckNar :: "int \<Rightarrow> nat \<Rightarrow> nar_file_row \<Rightarrow> bool" where
  "shouldCheckNar verifiedSince now nf \<longleftrightarrow>
     verifiedSince \<le> 0 \<or> (case nf_verified_at nf of None \<Rightarrow> True | Some t \<Rightarrow> int now - int t > verifiedSince)"

section \<open>Checks of one item\<close>

definition narinfo_unlinked :: "narinfo_row \<Rightarrow> (('s, 'c, 'l) cache_state, bool) prog" where
  "narinfo_unlinked ni = missing_row (GetNarFileByNarInfoID (ni_id ni))"

definition nar_file_unlinked :: "nar_file_row \<Rightarrow> (('s, 'c, 'l) cache_state, bool) prog" where
  "nar_file_unlinked nf = missing_row (GetNarInfoURLByNarFileHash (nf_hash nf) (nf_compression nf) (nf_query nf))"

definition nar_file_absent :: "('s, 'c) fsck_env \<Rightarrow> nar_file_row \<Rightarrow> (('s, 'c, 'l) cache_state, bool) prog" where
  "nar_file_absent fk nf =
     bindE (liftE (narFileRowToURL nf)) (\<lambda>u. bindE (in_store (ns_HasNar (fk_narStore fk) u)) (\<lambda>b. returnE (\<not> b)))"

definition nar_unknown :: "nar_url \<Rightarrow> (('s, 'c, 'l) cache_state, bool) prog" where
  "nar_unknown u = missing_row (GetNarFileByHashAndCompressionAndQuery (url_Hash u) (url_Compression u) (values_encode (url_Query u)))"

definition chunk_unknown :: "string \<Rightarrow> (('s, 'c, 'l) cache_state, bool) prog" where
  "chunk_unknown h = missing_row (GetChunkByHash h)"

primrec any_chunk_missing :: "'c chunk_store \<Rightarrow> chunk_row list \<Rightarrow> (('s, 'c, 'l) cache_state, bool) prog" where
  "any_chunk_missing cs [] = returnE False"
| "any_chunk_missing cs (c # chunks) =
     bindE (in_chunks (cs_HasChunk cs (ck_hash c))) (\<lambda>b. if \<not> b then returnE True else any_chunk_missing cs chunks)"

definition isNarFileChunkBroken :: "'c chunk_store \<Rightarrow> nar_file_row \<Rightarrow> (('s, 'c, 'l) cache_state, bool) prog" where
  "isNarFileChunkBroken cs nf =
     bindE (in_db (GetChunksByNarFileID (nf_id nf))) (\<lambda>chunks.
       if int (length chunks) \<noteq> nf_total_chunks nf then returnE True else any_chunk_missing cs chunks)"

primrec any_chunk_corrupt :: "('s, 'c) fsck_env \<Rightarrow> 'c chunk_store \<Rightarrow> chunk_row list \<Rightarrow> (('s, 'c, 'l) cache_state, bool) prog" where
  "any_chunk_corrupt fk cs [] = returnE False"
| "any_chunk_corrupt fk cs (c # chunks) =
     bindE (in_chunks (cs_GetChunk cs (ck_hash c))) (\<lambda>b. if fk_blake3 fk b \<noteq> ck_hash c then returnE True else any_chunk_corrupt fk cs chunks)"

definition isNarFileContentCorrupt :: "('s, 'c) fsck_env \<Rightarrow> 'c chunk_store \<Rightarrow> nar_file_row \<Rightarrow> (('s, 'c, 'l) cache_state, bool) prog" where
  "isNarFileContentCorrupt fk cs nf = bindE (in_db (GetChunksByNarFileID (nf_id nf))) (any_chunk_corrupt fk cs)"

text \<open>Without a narinfo, or without a hash in it, there is nothing to compare with.\<close>

definition isNarFileHashMismatched :: "('s, 'c) fsck_env \<Rightarrow> 'c chunk_store \<Rightarrow> nar_file_row \<Rightarrow> (('s, 'c, 'l) cache_state, bool) prog" where
  "isNarFileHashMismatched fk cs nf =
     bindE (attemptE (in_db (GetNarInfoNarHashByNarFileID (nf_id nf)))) (\<lambda>r.
       case r of
         Inl e \<Rightarrow> if IsNotFoundError e then returnE False else raiseE e
       | Inr narHash \<Rightarrow>
           if narHash = None \<or> narHash = Some [] then returnE False
           else
             bindE (liftE (fk_ParseHash fk (the narHash))) (\<lambda>digest.
             bindE (in_db (GetChunksByNarFileID (nf_id nf))) (\<lambda>chunks.
             bindE (mapE (\<lambda>c. in_chunks (cs_GetChunk cs (ck_hash c))) chunks) (\<lambda>parts.
               returnE (fk_sha256 fk (concat parts) \<noteq> digest)))))"

section \<open>Phase 1: suspects\<close>

definition mark_verified :: "nat \<Rightarrow> (('s, 'c, 'l) cache_state, unit) prog" where
  "mark_verified i = ignoreE (in_db (UpdateNarFileVerifiedAt i))"

definition end_walk :: "err option \<Rightarrow> ('s, unit) prog" where
  "end_walk e = (case e of None \<Rightarrow> returnE () | Some e \<Rightarrow> raiseE e)"

text \<open>The whole NARs without a file; the others are marked as verified.\<close>

primrec collect_missing :: "int \<Rightarrow> nat \<Rightarrow> string list \<Rightarrow> nar_file_row list \<Rightarrow> (('s, 'c, 'l) cache_state, nar_file_row list) prog" where
  "collect_missing since now present [] = returnE []"
| "collect_missing since now present (nf # nfs) =
     (if nf_total_chunks nf > 0 \<or> \<not> shouldCheckNar since now nf then collect_missing since now present nfs
      else
        bindE (liftE (rbind (narFileRowToURL nf) url_String)) (\<lambda>u.
        if u \<notin> set present then bindE (collect_missing since now present nfs) (\<lambda>l. returnE (nf # l))
        else thenE (mark_verified (nf_id nf)) (collect_missing since now present nfs)))"

definition walk_nars :: "('s, 'c) fsck_env \<Rightarrow> (nar_url list \<Rightarrow> (('s, 'c, 'l) cache_state, 'a) prog) \<Rightarrow> (('s, 'c, 'l) cache_state, 'a) prog" where
  "walk_nars fk f =
     (case fk_WalkNars fk of
        None \<Rightarrow> f []
      | Some w \<Rightarrow> bindE (in_store w) (\<lambda>(urls, e). bindE (f urls) (\<lambda>x. thenE (end_walk e) (returnE x))))"

definition eligible_ids :: "int \<Rightarrow> nat \<Rightarrow> nar_file_row list \<Rightarrow> nat list" where
  "eligible_ids since now nfs = map nf_id (filter (\<lambda>nf. nf_total_chunks nf > 0 \<and> shouldCheckNar since now nf) nfs)"

definition collectNarFilesWithChunkIssues :: "('s, 'c) fsck_env \<Rightarrow> int \<Rightarrow> nat \<Rightarrow> nar_file_row list \<Rightarrow> (('s, 'c, 'l) cache_state, nar_file_row list) prog" where
  "collectNarFilesWithChunkIssues fk since now nfs =
     (case fk_chunkStore fk of
        None \<Rightarrow> returnE []
      | Some cs \<Rightarrow> filterE (isNarFileChunkBroken cs) (filter (\<lambda>nf. nf_total_chunks nf > 0 \<and> shouldCheckNar since now nf) nfs))"

definition collectOrphanedChunksInStorage :: "('s, 'c) fsck_env \<Rightarrow> (('s, 'c, 'l) cache_state, string list) prog" where
  "collectOrphanedChunksInStorage fk =
     (case fk_chunkStore fk of
        None \<Rightarrow> returnE []
      | Some _ \<Rightarrow> bindE (in_chunks (fk_WalkChunks fk)) (\<lambda>(hashes, e). bindE (filterE chunk_unknown hashes) (\<lambda>l. thenE (end_walk e) (returnE l))))"

definition collectNarFilesWithCorruptChunks ::
  "('s, 'c) fsck_env \<Rightarrow> int \<Rightarrow> nat \<Rightarrow> nat list \<Rightarrow> nar_file_row list \<Rightarrow> (('s, 'c, 'l) cache_state, nar_file_row list) prog" where
  "collectNarFilesWithCorruptChunks fk since now issues nfs =
     (case fk_chunkStore fk of
        None \<Rightarrow> returnE []
      | Some cs \<Rightarrow> filterE (isNarFileContentCorrupt fk cs) (filter (\<lambda>nf. nf_total_chunks nf > 0 \<and> nf_id nf \<notin> set issues \<and> shouldCheckNar since now nf) nfs))"

definition collectNarFilesWithHashMismatch ::
  "('s, 'c) fsck_env \<Rightarrow> int \<Rightarrow> nat \<Rightarrow> nat list \<Rightarrow> nat list \<Rightarrow> nar_file_row list \<Rightarrow> (('s, 'c, 'l) cache_state, nar_file_row list) prog" where
  "collectNarFilesWithHashMismatch fk since now issues corrupt nfs =
     (case fk_chunkStore fk of
        None \<Rightarrow> returnE []
      | Some cs \<Rightarrow>
          filterE (isNarFileHashMismatched fk cs)
            (filter (\<lambda>nf. nf_total_chunks nf > 0 \<and> nf_id nf \<notin> set issues \<and> nf_id nf \<notin> set corrupt \<and> shouldCheckNar since now nf) nfs))"

text \<open>The checks of the chunks, and those of their content. The map of eligible files is gone through in any order.\<close>

definition collect_content :: "('s, 'c) fsck_env \<Rightarrow> int \<Rightarrow> nat \<Rightarrow> nar_file_row list \<Rightarrow> fsck_results \<Rightarrow> (('s, 'c, 'l) cache_state, fsck_results) prog" where
  "collect_content fk since now nfs res =
     (let issues = map nf_id (fr_narFilesWithChunkIssues res) in
      bindE (collectNarFilesWithCorruptChunks fk since now issues nfs) (\<lambda>corrupt.
      bindE (collectNarFilesWithHashMismatch fk since now issues (map nf_id corrupt) nfs) (\<lambda>mismatch.
        returnE (res\<lparr>fr_narFilesWithCorruptChunks := corrupt, fr_narFilesWithHashMismatch := mismatch\<rparr>))))"

definition collect_chunks :: "('s, 'c) fsck_env \<Rightarrow> int \<Rightarrow> nat \<Rightarrow> nar_file_row list \<Rightarrow> fsck_results \<Rightarrow> (('s, 'c, 'l) cache_state, fsck_results) prog" where
  "collect_chunks fk since now nfs res =
     bindE (in_db GetOrphanedChunks) (\<lambda>orphanedChunks.
     bindE (collectNarFilesWithChunkIssues fk since now nfs) (\<lambda>issues.
     bindE (in_db GetCDCNarFilesWithSizeMismatch) (\<lambda>allMismatch.
       let eligible = eligible_ids since now nfs;
           mismatch = filter (\<lambda>nf. nf_id nf \<in> set eligible) allMismatch in
       thenE (forE (filter (\<lambda>i. i \<notin> set (map nf_id issues) \<and> i \<notin> set (map nf_id mismatch)) eligible) mark_verified)
      (bindE (collectOrphanedChunksInStorage fk) (\<lambda>orphaned.
       let res = res\<lparr>fr_orphanedChunksInDB := orphanedChunks, fr_narFilesWithChunkIssues := issues,
             fr_narFilesWithSizeMismatch := mismatch, fr_orphanedChunksInStorage := orphaned\<rparr> in
       if fr_verifyContent res then collect_content fk since now nfs res else returnE res)))))"

definition collectFsckSuspects :: "('s, 'c) fsck_env \<Rightarrow> bool \<Rightarrow> int \<Rightarrow> bool \<Rightarrow> (('s, 'c, 'l) cache_state, fsck_results) prog" where
  "collectFsckSuspects fk cdcMode since verifyContent =
     bindE (in_db GetNarInfosWithoutNarFiles) (\<lambda>narinfos.
     bindE (in_db GetOrphanedNarFiles) (\<lambda>orphanedNarFiles.
     bindE (in_db GetAllNarFiles) (\<lambda>nfs.
     bindE (getsE (\<lambda>s. db_now (cst_db s))) (\<lambda>now.
     bindE (walk_nars fk (mapE (\<lambda>u. liftE (url_String u)))) (\<lambda>present.
     bindE (collect_missing since now present nfs) (\<lambda>missing.
     bindE (walk_nars fk (filterE nar_unknown)) (\<lambda>orphans.
       let res = (no_results cdcMode verifyContent)\<lparr>fr_narinfosWithoutNarFiles := narinfos, fr_orphanedNarFilesInDB := orphanedNarFiles,
             fr_narFilesMissingInStorage := missing, fr_orphanedNarFilesInStorage := orphans\<rparr> in
       if \<not> cdcMode then returnE res else collect_chunks fk since now nfs res)))))))"

section \<open>Phase 2: the suspects again\<close>

definition reVerify_chunks :: "('s, 'c) fsck_env \<Rightarrow> fsck_results \<Rightarrow> fsck_results \<Rightarrow> (('s, 'c, 'l) cache_state, fsck_results) prog" where
  "reVerify_chunks fk suspects res =
     bindE (in_db GetOrphanedChunks) (\<lambda>recheckedOrphanedChunks.
     let res = res\<lparr>fr_orphanedChunksInDB := filter (\<lambda>c. ck_id c \<in> set (map ck_id recheckedOrphanedChunks)) (fr_orphanedChunksInDB suspects)\<rparr> in
     bindE (case fk_chunkStore fk of
              None \<Rightarrow> returnE res
            | Some cs \<Rightarrow>
                bindE (filterE (isNarFileChunkBroken cs) (fr_narFilesWithChunkIssues suspects)) (\<lambda>issues.
                bindE (in_db GetCDCNarFilesWithSizeMismatch) (\<lambda>recheckMismatch.
                  returnE (res\<lparr>fr_narFilesWithChunkIssues := issues,
                    fr_narFilesWithSizeMismatch := filter (\<lambda>nf. nf_id nf \<in> set (map nf_id recheckMismatch)) (fr_narFilesWithSizeMismatch suspects)\<rparr>)))) (\<lambda>res.
     bindE (filterE chunk_unknown (fr_orphanedChunksInStorage suspects)) (\<lambda>orphaned.
     let res = res\<lparr>fr_orphanedChunksInStorage := orphaned\<rparr> in
     case fk_chunkStore fk of
       None \<Rightarrow> returnE res
     | Some cs \<Rightarrow>
         if \<not> fr_verifyContent suspects then returnE res
         else
           bindE (filterE (isNarFileContentCorrupt fk cs) (fr_narFilesWithCorruptChunks suspects)) (\<lambda>corrupt.
           bindE (filterE (isNarFileHashMismatched fk cs) (fr_narFilesWithHashMismatch suspects)) (\<lambda>mismatch.
             returnE (res\<lparr>fr_narFilesWithCorruptChunks := corrupt, fr_narFilesWithHashMismatch := mismatch\<rparr>))))))"

definition reVerifyFsckSuspects :: "('s, 'c) fsck_env \<Rightarrow> fsck_results \<Rightarrow> (('s, 'c, 'l) cache_state, fsck_results) prog" where
  "reVerifyFsckSuspects fk suspects =
     bindE (filterE narinfo_unlinked (fr_narinfosWithoutNarFiles suspects)) (\<lambda>narinfos.
     bindE (filterE nar_file_unlinked (fr_orphanedNarFilesInDB suspects)) (\<lambda>orphanedNarFiles.
     bindE (filterE (nar_file_absent fk) (fr_narFilesMissingInStorage suspects)) (\<lambda>missing.
     bindE (filterE nar_unknown (fr_orphanedNarFilesInStorage suspects)) (\<lambda>orphans.
       let res = (no_results (fr_cdcMode suspects) (fr_verifyContent suspects))\<lparr>fr_narinfosWithoutNarFiles := narinfos, fr_orphanedNarFilesInDB := orphanedNarFiles,
             fr_narFilesMissingInStorage := missing, fr_orphanedNarFilesInStorage := orphans\<rparr> in
       if \<not> fr_cdcMode suspects then returnE res else reVerify_chunks fk suspects res))))"

section \<open>Phase 3: repair\<close>

text \<open>Each item is checked again before it is deleted; a deletion that fails is only logged.\<close>

definition repair_each :: "('x \<Rightarrow> ('s, bool) prog) \<Rightarrow> ('x \<Rightarrow> ('s, 'a) prog) \<Rightarrow> 'x list \<Rightarrow> ('s, unit) prog" where
  "repair_each check delete xs = forE xs (\<lambda>x. bindE (check x) (\<lambda>b. whenE b (ignoreE (delete x))))"

definition delete_row :: "nar_file_row \<Rightarrow> (('s, 'c, 'l) cache_state, nat) prog" where
  "delete_row nf = in_db (DeleteNarFileByHash (nf_hash nf) (nf_compression nf) (nf_query nf))"

text \<open>The narinfos that have lost their file by the deletions of \<open>m\<close>; those that had none before are left.\<close>

definition sweep_narinfos :: "(('s, 'c, 'l) cache_state, unit) prog \<Rightarrow> (('s, 'c, 'l) cache_state, unit) prog" where
  "sweep_narinfos m =
     bindE (in_db GetNarInfosWithoutNarFiles) (\<lambda>linkless.
     thenE m
     (bindE (in_db GetNarInfosWithoutNarFiles) (\<lambda>newOrphans.
        forE (filter (\<lambda>ni. ni_id ni \<notin> set (map ni_id linkless)) newOrphans) (\<lambda>ni. ignoreE (in_db (DeleteNarInfoByID (ni_id ni)))))))"

definition sweep_chunks :: "'c chunk_store \<Rightarrow> (('s, 'c, 'l) cache_state, unit) prog" where
  "sweep_chunks cs =
     bindE (in_db GetOrphanedChunks) (\<lambda>chunks.
       forE chunks (\<lambda>c. thenE (ignoreE (in_chunks (cs_DeleteChunk cs (ck_hash c)))) (ignoreE (in_db (DeleteChunkByID (ck_id c))))))"

definition repairCDCNarFiles ::
  "'c chunk_store \<Rightarrow> (nar_file_row \<Rightarrow> (('s, 'c, 'l) cache_state, bool) prog) \<Rightarrow> nar_file_row list \<Rightarrow> (('s, 'c, 'l) cache_state, unit) prog" where
  "repairCDCNarFiles cs reVerify nfs = thenE (sweep_narinfos (repair_each reVerify delete_row nfs)) (sweep_chunks cs)"

text \<open>The second query comes after the first one of \<open>sweep_narinfos\<close>.\<close>

definition repairSizeMismatchCDCNarFiles :: "'c chunk_store \<Rightarrow> nar_file_row list \<Rightarrow> (('s, 'c, 'l) cache_state, unit) prog" where
  "repairSizeMismatchCDCNarFiles cs nfs =
     (if nfs = [] then returnE ()
      else
        thenE (sweep_narinfos
                 (bindE (in_db GetCDCNarFilesWithSizeMismatch) (\<lambda>recheckMismatch.
                    forE (filter (\<lambda>nf. nf_id nf \<in> set (map nf_id recheckMismatch)) nfs) (\<lambda>nf. ignoreE (delete_row nf)))))
              (sweep_chunks cs))"

definition repair_chunks :: "('s, 'c) fsck_env \<Rightarrow> 'c chunk_store \<Rightarrow> fsck_results \<Rightarrow> (('s, 'c, 'l) cache_state, unit) prog" where
  "repair_chunks fk cs res =
     bindE (in_db GetOrphanedChunks) (\<lambda>recheckChunks.
     thenE (forE (filter (\<lambda>c. ck_id c \<in> set (map ck_id recheckChunks)) (fr_orphanedChunksInDB res)) (\<lambda>c. ignoreE (in_db (DeleteChunkByID (ck_id c)))))
    (thenE (repairCDCNarFiles cs (isNarFileChunkBroken cs) (fr_narFilesWithChunkIssues res))
    (thenE (repairSizeMismatchCDCNarFiles cs (fr_narFilesWithSizeMismatch res))
    (thenE (whenE (fr_verifyContent res) (repairCDCNarFiles cs (isNarFileContentCorrupt fk cs) (fr_narFilesWithCorruptChunks res)))
    (thenE (whenE (fr_verifyContent res) (repairCDCNarFiles cs (isNarFileHashMismatched fk cs) (fr_narFilesWithHashMismatch res)))
           (repair_each chunk_unknown (\<lambda>h. in_chunks (cs_DeleteChunk cs h)) (fr_orphanedChunksInStorage res)))))))"

definition repairFsckIssues :: "('s, 'c) fsck_env \<Rightarrow> fsck_results \<Rightarrow> (('s, 'c, 'l) cache_state, unit) prog" where
  "repairFsckIssues fk res =
     thenE (repair_each narinfo_unlinked (\<lambda>ni. in_db (DeleteNarInfoByID (ni_id ni))) (fr_narinfosWithoutNarFiles res))
    (thenE (repair_each nar_file_unlinked delete_row (fr_orphanedNarFilesInDB res))
    (thenE (sweep_narinfos (repair_each (nar_file_absent fk) delete_row (fr_narFilesMissingInStorage res)))
    (thenE (repair_each nar_unknown (\<lambda>u. in_store (ns_DeleteNar (fk_narStore fk) u)) (fr_orphanedNarFilesInStorage res))
    (case fk_chunkStore fk of
       Some cs \<Rightarrow> whenE (fr_cdcMode res) (repair_chunks fk cs res)
     | None \<Rightarrow> returnE ()))))"

section \<open>The command\<close>

definition detect_cdc_mode :: "(('s, 'c, 'l) cache_state, bool) prog" where
  "detect_cdc_mode =
     bindE (attemptE (in_db (GetConfigByKey ''cdc_enabled''))) (\<lambda>r.
     if r = Inr ''true'' then returnE True
     else bindE (attemptE (in_db HasAnyChunkedNarFiles)) (\<lambda>r. returnE (r = Inr True)))"

text \<open>\<open>agreed\<close>: the flag \<open>--repair\<close>, or a yes on the terminal. The chunk store is there in the mode with chunks only.\<close>

definition fsck :: "('s, 'c) fsck_env \<Rightarrow> int \<Rightarrow> bool \<Rightarrow> bool \<Rightarrow> bool \<Rightarrow> (('s, 'c, 'l) cache_state, unit) prog" where
  "fsck fk verifiedSince verifyContent dryRun agreed =
     bindE detect_cdc_mode (\<lambda>cdcMode.
     let fk = (if cdcMode then fk else fk\<lparr>fk_chunkStore := None\<rparr>) in
     bindE (collectFsckSuspects fk cdcMode verifiedSince verifyContent) (\<lambda>suspects.
     bindE (reVerifyFsckSuspects fk suspects) (\<lambda>results.
       if totalIssues results = 0 then returnE ()
       else if dryRun \<or> \<not> agreed then raiseE ErrFsckIssuesFound
       else repairFsckIssues fk results)))"

end
