(* ===== verification/Fsck_Laws.thy ===== *)
theory Fsck_Laws
  imports Fsck Local_Store
begin

text \<open>
  What a check or a repair leaves alone. \<open>yields K m Q\<close>: the program \<open>m\<close> keeps \<open>K\<close>, and what it returns satisfies \<open>Q\<close>. \<open>fsck_store\<close> is what \<open>fsck\<close> relies on of a
  store of NARs; it is interpreted on the local store.
\<close>

section \<open>Programs that keep a property and return something\<close>

definition yields :: "('s \<Rightarrow> bool) \<Rightarrow> ('s, 'a) prog \<Rightarrow> ('a \<Rightarrow> bool) \<Rightarrow> bool" where
  "yields K m Q \<longleftrightarrow> (\<forall>s. K s \<longrightarrow> K (snd (m s)) \<and> (\<forall>x. fst (m s) = Inr x \<longrightarrow> Q x))"

lemma yields_keeps: "yields K m Q \<Longrightarrow> keeps K m"
  by (simp add: yields_def keeps_def)

lemma keeps_yields: "keeps K m \<Longrightarrow> yields K m (\<lambda>_. True)"
  by (simp add: yields_def keeps_def)

lemma yields_weaken: "yields K m Q \<Longrightarrow> (\<And>x. Q x \<Longrightarrow> R x) \<Longrightarrow> yields K m R"
  by (simp add: yields_def)

lemma yields_returnE: "Q x \<Longrightarrow> yields K (returnE x) Q"
  by (simp add: yields_def returnE_def)

lemma yields_raiseE: "yields K (raiseE e) Q"
  by (simp add: yields_def raiseE_def)

lemma yields_liftE: "(\<And>x. r = Inr x \<Longrightarrow> Q x) \<Longrightarrow> yields K (liftE r) Q"
  by (simp add: yields_def liftE_def)

lemma yields_bindE:
  assumes "yields K m R" and "\<And>x. R x \<Longrightarrow> yields K (f x) Q"
  shows "yields K (bindE m f) Q"
  unfolding yields_def
proof (intro allI impI)
  fix s assume s: "K s"
  obtain r t where m: "m s = (r, t)" by fastforce
  with assms(1) s have t: "K t" "\<And>x. r = Inr x \<Longrightarrow> R x" by (auto simp: yields_def)
  show "K (snd (bindE m f s)) \<and> (\<forall>x. fst (bindE m f s) = Inr x \<longrightarrow> Q x)"
  proof (cases r)
    case (Inr x)
    then have "yields K (f x) Q" using assms(2) t(2) by blast
    then show ?thesis using Inr t(1) m by (simp add: bindE_def yields_def)
  qed (use m t in \<open>simp add: bindE_def\<close>)
qed

lemma yields_thenE: "keeps K m \<Longrightarrow> yields K k Q \<Longrightarrow> yields K (thenE m k) Q"
  unfolding thenE_def by (rule yields_bindE [OF keeps_yields])

lemma yields_if: "(b \<Longrightarrow> yields K m Q) \<Longrightarrow> (\<not> b \<Longrightarrow> yields K k Q) \<Longrightarrow> yields K (if b then m else k) Q"
  by simp

lemma keeps_bind_yields: "yields K m R \<Longrightarrow> (\<And>x. R x \<Longrightarrow> keeps K (f x)) \<Longrightarrow> keeps K (bindE m f)"
  by (rule yields_keeps [OF yields_bindE [OF _ keeps_yields]])

lemma keeps_forE_set: "(\<And>x. x \<in> set xs \<Longrightarrow> keeps K (f x)) \<Longrightarrow> keeps K (forE xs f)"
  by (induction xs) (auto intro: keeps_intros)

lemma yields_filterE: "(\<And>x. x \<in> set xs \<Longrightarrow> keeps K (p x)) \<Longrightarrow> yields K (filterE p xs) (\<lambda>ys. set ys \<subseteq> set xs)"
proof (induction xs)
  case (Cons x xs)
  have tail: "yields K (filterE p xs) (\<lambda>ys. set ys \<subseteq> set xs)" by (rule Cons.IH) (simp add: Cons.prems)
  have "yields K (bindE (filterE p xs) (\<lambda>ys. returnE (if b then x # ys else ys))) (\<lambda>ys. set ys \<subseteq> set (x # xs))" for b
    by (rule yields_bindE [OF tail]) (cases b; simp add: yields_returnE subset_insertI2)
  then show ?case unfolding filterE.simps by (rule yields_bindE [OF keeps_yields, rotated]) (simp add: Cons.prems)
qed (simp add: yields_returnE)

text \<open>A query that cannot answer that there is no row.\<close>

definition found :: "('s \<Rightarrow> bool) \<Rightarrow> ('s, 'a) prog \<Rightarrow> bool" where
  "found K m \<longleftrightarrow> (\<forall>s. K s \<longrightarrow> K (snd (m s)) \<and> fst (m s) \<noteq> Inl ErrDBNotFound)"

section \<open>Properties of the database and of the store\<close>

definition parts :: "(database \<Rightarrow> bool) \<Rightarrow> ('s \<Rightarrow> bool) \<Rightarrow> ('s, 'c, 'l) cache_state \<Rightarrow> bool" where
  "parts R S s \<longleftrightarrow> R (cst_db s) \<and> S (cst_store s)"

named_theorems fsck_keeps "steps of fsck that keep a property"

lemma yields_in_db: "yields R m Q \<Longrightarrow> yields (parts R S) (in_db m) Q"
  by (auto simp: yields_def in_db_def parts_def split: prod.splits)

lemma keeps_db [fsck_keeps]: "keeps R m \<Longrightarrow> keeps (parts R S) (in_db m)"
  by (rule yields_keeps [OF yields_in_db [OF keeps_yields]])

lemma yields_in_store: "yields S m Q \<Longrightarrow> yields (parts R S) (in_store m) Q"
  by (auto simp: yields_def in_store_def parts_def split: prod.splits)

lemma keeps_store: "keeps S m \<Longrightarrow> keeps (parts R S) (in_store m)"
  by (rule yields_keeps [OF yields_in_store [OF keeps_yields]])

lemma keeps_chunks [fsck_keeps]: "keeps (parts R S) (in_chunks m)"
  by (auto simp: keeps_def in_chunks_def parts_def split: prod.splits)

lemma keeps_missing_row [fsck_keeps]: "keeps R m \<Longrightarrow> keeps (parts R S) (missing_row m)"
  unfolding missing_row_def by (intro keeps_intros fsck_keeps)

lemma found_row:
  assumes "found R m"
  shows "yields (parts R S) (missing_row m) Not"
  unfolding yields_def
proof (intro allI impI)
  fix s assume s: "parts R S s"
  obtain r d where m: "m (cst_db s) = (r, d)" by fastforce
  moreover have "R (cst_db s)" using s by (simp add: parts_def)
  ultimately have "R d" "r \<noteq> Inl ErrDBNotFound" using assms unfolding found_def by fastforce+
  then show "parts R S (snd (missing_row m s)) \<and> (\<forall>x. fst (missing_row m s) = Inr x \<longrightarrow> \<not> x)"
    using m s
    by (cases r) (simp_all add: missing_row_def bindE_def attemptE_def in_db_def returnE_def raiseE_def IsNotFoundError_def parts_def)
qed

text \<open>Each item is checked before it is deleted, so only those matter that pass the check.\<close>

lemma keeps_repair_each:
  assumes "\<And>x. x \<in> set xs \<Longrightarrow> keeps K (check x)"
    and "\<And>x. x \<in> set xs \<Longrightarrow> keeps K (delete x) \<or> yields K (check x) Not"
  shows "keeps K (repair_each check delete xs)"
  unfolding repair_each_def
proof (rule keeps_forE_set)
  fix x assume x: "x \<in> set xs"
  from assms(2) [OF x] show "keeps K (bindE (check x) (\<lambda>b. whenE b (ignoreE (delete x))))"
  proof
    assume "keeps K (delete x)"
    with assms(1) [OF x] show ?thesis by (intro keeps_intros)
  next
    assume "yields K (check x) Not"
    then show ?thesis by (rule keeps_bind_yields) (simp add: whenE_def keeps_returnE)
  qed
qed

section \<open>A whole NAR in the database\<close>

text \<open>The narinfo \<open>i\<close> is linked to the row \<open>j\<close>, which has the key of a whole NAR without a query, and no query fails with the error of a row that is not there.\<close>

definition linked_row :: "(string \<Rightarrow> bool) \<Rightarrow> nat \<Rightarrow> nat \<Rightarrow> string \<Rightarrow> string \<Rightarrow> database \<Rightarrow> bool" where
  "linked_row ok i j h c d \<longleftrightarrow> db_wf ok d \<and> Some ErrDBNotFound \<notin> set (db_faults d) \<and> i \<in> ni_id ` set (db_narinfos d) \<and>
     (\<exists>r \<in> set (db_nar_files d). nf_id r = j \<and> nf_key r = (h, c, []) \<and> nf_total_chunks r = 0) \<and> (i, j) \<in> set (db_narinfo_nar_files d)"

lemma linked_row_faults: "linked_row ok i j h c d \<Longrightarrow> set fs \<subseteq> set (db_faults d) \<Longrightarrow> linked_row ok i j h c (d\<lparr>db_faults := fs\<rparr>)"
  by (auto simp: linked_row_def)

lemma linked_row_call:
  assumes "linked_row ok i j h c d"
  shows "(\<exists>t. linked_row ok i j h c t \<and> db_call m d = m t) \<or> (\<exists>e t. linked_row ok i j h c t \<and> e \<noteq> ErrDBNotFound \<and> db_call m d = (Inl e, t))"
proof (cases "db_faults d")
  case Nil
  then show ?thesis using assms by auto
next
  case (Cons f fs)
  with assms have t: "linked_row ok i j h c (d\<lparr>db_faults := fs\<rparr>)" by (auto intro: linked_row_faults)
  have "f \<noteq> Some ErrDBNotFound" using assms Cons by (auto simp: linked_row_def)
  with t Cons show ?thesis by (cases f) (auto simp: db_call_def)
qed

lemma yields_row_call:
  assumes "\<And>d. linked_row ok i j h c d \<Longrightarrow> linked_row ok i j h c (snd (m d)) \<and> (\<forall>x. fst (m d) = Inr x \<longrightarrow> Q x)"
  shows "yields (linked_row ok i j h c) (db_call m) Q"
  unfolding yields_def
proof (intro allI impI)
  fix d assume d: "linked_row ok i j h c d"
  from linked_row_call [OF d, of m]
  show "linked_row ok i j h c (snd (db_call m d)) \<and> (\<forall>x. fst (db_call m d) = Inr x \<longrightarrow> Q x)" using assms by auto
qed

lemma yields_select: "(\<And>d. linked_row ok i j h c d \<Longrightarrow> Q (f d)) \<Longrightarrow> yields (linked_row ok i j h c) (select f) Q"
  unfolding select_def by (rule yields_row_call) auto

lemma keeps_select_row [fsck_keeps]: "keeps (linked_row ok i j h c) (select f)" "keeps (linked_row ok i j h c) (select_one g)"
  unfolding select_def select_one_def by (rule yields_keeps [OF yields_row_call [where Q = "\<lambda>_. True"]]; simp)+

lemma found_select_one:
  assumes "\<And>d. linked_row ok i j h c d \<Longrightarrow> g d \<noteq> []"
  shows "found (linked_row ok i j h c) (select_one g)"
  unfolding found_def
proof (intro allI impI)
  fix d assume d: "linked_row ok i j h c d"
  have row: "one_row (g t) \<noteq> Inl ErrDBNotFound" if "linked_row ok i j h c t" for t
    using assms [OF that] by (cases "g t") (simp_all add: one_row_def)
  from linked_row_call [OF d, of "\<lambda>s. (one_row (g s), s)"] row
  show "linked_row ok i j h c (snd (select_one g d)) \<and> fst (select_one g d) \<noteq> Inl ErrDBNotFound"
    unfolding select_one_def by (elim disjE exE conjE) simp_all
qed

lemma keeps_row_exec:
  assumes "\<And>d. linked_row ok i j h c d \<Longrightarrow> linked_row ok i j h c (f d)"
  shows "keeps (linked_row ok i j h c) (exec f)" "keeps (linked_row ok i j h c) (execrows n f)"
  unfolding exec_def execrows_def by (rule yields_keeps [OF yields_row_call [where Q = "\<lambda>_. True"]]; simp add: assms)+

lemma keeps_row_queries [fsck_keeps]:
  "keeps (linked_row ok i j h c) GetNarInfosWithoutNarFiles" "keeps (linked_row ok i j h c) GetOrphanedNarFiles" "keeps (linked_row ok i j h c) GetAllNarFiles"
  "keeps (linked_row ok i j h c) GetOrphanedChunks" "keeps (linked_row ok i j h c) GetCDCNarFilesWithSizeMismatch"
  "keeps (linked_row ok i j h c) (GetNarFileByNarInfoID n)" "keeps (linked_row ok i j h c) (GetNarInfoURLByNarFileHash a b q)"
  "keeps (linked_row ok i j h c) (GetNarFileByHashAndCompressionAndQuery a b q)" "keeps (linked_row ok i j h c) (GetChunkByHash a)"
  "keeps (linked_row ok i j h c) (GetChunksByNarFileID n)" "keeps (linked_row ok i j h c) (GetNarInfoNarHashByNarFileID n)"
  "keeps (linked_row ok i j h c) (GetConfigByKey a)" "keeps (linked_row ok i j h c) HasAnyChunkedNarFiles"
  unfolding GetNarInfosWithoutNarFiles_def GetOrphanedNarFiles_def GetAllNarFiles_def GetOrphanedChunks_def GetCDCNarFilesWithSizeMismatch_def
    GetNarFileByNarInfoID_def GetNarInfoURLByNarFileHash_def GetNarFileByHashAndCompressionAndQuery_def GetChunkByHash_def GetChunksByNarFileID_def
    GetNarInfoNarHashByNarFileID_def GetConfigByKey_def HasAnyChunkedNarFiles_def
  by (rule fsck_keeps)+

lemma row_key: "linked_row ok i j h c d \<Longrightarrow> x \<in> set (db_nar_files d) \<Longrightarrow> nf_key x = (h, c, []) \<Longrightarrow> nf_id x = j \<and> nf_total_chunks x = 0"
  unfolding linked_row_def db_wf_def keys_wf_def by (metis distinct_map inj_onD)

lemma not_gone: "linked_row ok i j h c d \<Longrightarrow> \<not> p (h, c, []) \<Longrightarrow> \<not> list_ex (\<lambda>r. p (nf_key r) \<and> nf_id r = j) (db_nar_files d)"
  unfolding linked_row_def db_wf_def keys_wf_def list_ex_iff by (metis distinct_map inj_onD)

lemma row_verified [fsck_keeps]: "keeps (linked_row ok i j h c) (UpdateNarFileVerifiedAt n)"
  unfolding UpdateNarFileVerifiedAt_def upd_nar_file_def
proof (rule keeps_row_exec)
  fix d assume d: "linked_row ok i j h c d"
  let ?t = "d\<lparr>db_nar_files := upd_where (\<lambda>r. nf_id r = n) (\<lambda>r. r\<lparr>nf_verified_at := Some (db_now d)\<rparr>) (db_nar_files d)\<rparr>"
  have "db_wf ok ?t" using d by (intro wf_upd_nar_files) (auto simp: linked_row_def nf_key_def)
  moreover have "\<exists>r \<in> set (db_nar_files ?t). nf_id r = j \<and> nf_key r = (h, c, []) \<and> nf_total_chunks r = 0"
  proof -
    obtain r where "r \<in> set (db_nar_files d)" "nf_id r = j \<and> nf_key r = (h, c, []) \<and> nf_total_chunks r = 0"
      using d by (auto simp: linked_row_def)
    then show ?thesis
      by (intro bexI [of _ "if nf_id r = n then r\<lparr>nf_verified_at := Some (db_now d)\<rparr> else r"]) (auto simp: upd_where_def nf_key_def)
  qed
  ultimately show "linked_row ok i j h c ?t" using d by (simp add: linked_row_def)
qed

lemma row_delete_narinfo: "n \<noteq> i \<Longrightarrow> keeps (linked_row ok i j h c) (DeleteNarInfoByID n)"
  unfolding DeleteNarInfoByID_def
proof (rule keeps_row_exec)
  fix d assume "n \<noteq> i" and d: "linked_row ok i j h c d"
  moreover have "db_wf ok (delete_narinfos (\<lambda>r. ni_id r = n) d)" using d by (auto simp: linked_row_def intro: wf_delete_narinfos)
  ultimately show "linked_row ok i j h c (delete_narinfos (\<lambda>r. ni_id r = n) d)"
    by (auto simp: linked_row_def delete_narinfos_def Let_def list_ex_iff)
qed

lemma row_delete_nar_file:
  assumes "(a, b, q) \<noteq> (h, c, [])"
  shows "keeps (linked_row ok i j h c) (DeleteNarFileByHash a b q)"
  unfolding DeleteNarFileByHash_def
proof (rule keeps_row_exec)
  fix d assume d: "linked_row ok i j h c d"
  have p: "nar_file_key a b q r \<longleftrightarrow> nf_key r = (a, b, q)" for r by (auto simp: nar_file_key_def nf_key_def)
  have "db_wf ok (delete_nar_files (nar_file_key a b q) d)" using d by (auto simp: linked_row_def intro: wf_delete_nar_files)
  moreover have "\<not> list_ex (\<lambda>r. nar_file_key a b q r \<and> nf_id r = j) (db_nar_files d)"
    unfolding p using not_gone [OF d, of "\<lambda>k. k = (a, b, q)"] assms by auto
  ultimately show "linked_row ok i j h c (delete_nar_files (nar_file_key a b q) d)"
    using d assms by (auto simp: linked_row_def delete_nar_files_def Let_def p)
qed

lemma row_delete_chunk [fsck_keeps]: "keeps (linked_row ok i j h c) (DeleteChunkByID n)"
  unfolding DeleteChunkByID_def
proof (rule keeps_row_exec)
  fix d assume d: "linked_row ok i j h c d"
  moreover have "db_wf ok (delete_chunks (\<lambda>r. ck_id r = n) d)" using d by (auto simp: linked_row_def intro: wf_delete_chunks)
  ultimately show "linked_row ok i j h c (delete_chunks (\<lambda>r. ck_id r = n) d)" by (simp add: linked_row_def delete_chunks_def Let_def)
qed

text \<open>What the queries answer about the row.\<close>

lemma row_found:
  "found (linked_row ok i j h c) (GetNarFileByNarInfoID i)" "found (linked_row ok i j h c) (GetNarInfoURLByNarFileHash h c [])"
  "found (linked_row ok i j h c) (GetNarFileByHashAndCompressionAndQuery h c [])"
  unfolding GetNarFileByNarInfoID_def GetNarInfoURLByNarFileHash_def GetNarFileByHashAndCompressionAndQuery_def
  by (rule found_select_one; auto simp: linked_row_def filter_empty_conv nf_key_def nar_file_key_def list_ex_iff)+

lemma row_answers:
  "yields (linked_row ok i j h c) GetNarInfosWithoutNarFiles (\<lambda>l. i \<notin> ni_id ` set l)"
  "yields (linked_row ok i j h c) GetAllNarFiles (\<lambda>l. \<forall>x \<in> set l. nf_total_chunks x > 0 \<longrightarrow> nf_key x \<noteq> (h, c, []))"
  "yields (linked_row ok i j h c) GetCDCNarFilesWithSizeMismatch (\<lambda>l. \<forall>x \<in> set l. nf_key x \<noteq> (h, c, []))"
  unfolding GetNarInfosWithoutNarFiles_def GetAllNarFiles_def GetCDCNarFilesWithSizeMismatch_def
  by (rule yields_select; auto simp: linked_row_def list_ex_iff; fail | rule yields_select; use row_key in fastforce)+

section \<open>The steps of fsck that leave the row alone\<close>

text \<open>Of the NAR files that are going to be repaired none is the row, and the files that are going to be deleted were met by a walk.\<close>

definition file_url :: "nar_url \<Rightarrow> bool" where
  "file_url u \<longleftrightarrow> url_Query u = [] \<and> normalized_hash (url_Hash u) \<and> known_compression (url_Compression u)"

definition spared :: "string \<Rightarrow> string \<Rightarrow> fsck_results \<Rightarrow> bool" where
  "spared h c r \<longleftrightarrow> (\<forall>u \<in> set (fr_orphanedNarFilesInStorage r). file_url u) \<and>
     (\<forall>x \<in> set (fr_narFilesWithChunkIssues r) \<union> set (fr_narFilesWithSizeMismatch r) \<union> set (fr_narFilesWithCorruptChunks r) \<union>
       set (fr_narFilesWithHashMismatch r). nf_key x \<noteq> (h, c, []))"

abbreviation with_row :: "(string \<Rightarrow> bool) \<Rightarrow> nat \<Rightarrow> nat \<Rightarrow> string \<Rightarrow> string \<Rightarrow> ('s \<Rightarrow> bool) \<Rightarrow> ('s, 'c, 'l) cache_state \<Rightarrow> bool" where
  "with_row ok i j h c S \<equiv> parts (linked_row ok i j h c) S"

lemma keeps_checks [fsck_keeps]:
  "keeps (with_row ok i j h c S) (narinfo_unlinked ni)" "keeps (with_row ok i j h c S) (nar_file_unlinked nf)"
  "keeps (with_row ok i j h c S) (nar_unknown u)" "keeps (with_row ok i j h c S) (chunk_unknown x)"
  unfolding narinfo_unlinked_def nar_file_unlinked_def nar_unknown_def chunk_unknown_def by (intro fsck_keeps)+

lemma keeps_any_chunk [fsck_keeps]:
  "keeps (with_row ok i j h c S) (any_chunk_missing cs chunks)" "keeps (with_row ok i j h c S) (any_chunk_corrupt fk cs chunks)"
  by (induction chunks) (auto intro!: keeps_intros fsck_keeps)

lemma keeps_chunk_checks [fsck_keeps]:
  "keeps (with_row ok i j h c S) (isNarFileChunkBroken cs nf)" "keeps (with_row ok i j h c S) (isNarFileContentCorrupt fk cs nf)"
  "keeps (with_row ok i j h c S) (isNarFileHashMismatched fk cs nf)"
  unfolding isNarFileChunkBroken_def isNarFileContentCorrupt_def isNarFileHashMismatched_def by (intro keeps_intros fsck_keeps)+

lemma keeps_mark_verified [fsck_keeps]: "keeps (with_row ok i j h c S) (mark_verified n)"
  unfolding mark_verified_def by (intro keeps_intros fsck_keeps)

lemma keeps_delete_row: "nf_key nf \<noteq> (h, c, []) \<Longrightarrow> keeps (with_row ok i j h c S) (delete_row nf)"
  unfolding delete_row_def by (intro keeps_db row_delete_nar_file) (simp add: nf_key_def)

lemma keeps_collect_missing: "keeps (with_row ok i j h c S) (collect_missing since now present nfs)"
  by (induction nfs) (auto intro!: keeps_intros fsck_keeps)

lemma keeps_end_walk [fsck_keeps]: "keeps K (end_walk e)"
  unfolding end_walk_def by (intro keeps_intros)

lemma keeps_detect [fsck_keeps]: "keeps (with_row ok i j h c S) detect_cdc_mode"
  unfolding detect_cdc_mode_def by (intro keeps_intros fsck_keeps)

text \<open>The narinfo and its row fail the checks before the deletion.\<close>

lemma keeps_repair_narinfos: "keeps (with_row ok i j h c S) (repair_each narinfo_unlinked (\<lambda>ni. in_db (DeleteNarInfoByID (ni_id ni))) xs)"
proof (rule keeps_repair_each [OF keeps_checks(1)])
  fix ni
  show "keeps (with_row ok i j h c S) (in_db (DeleteNarInfoByID (ni_id ni))) \<or> yields (with_row ok i j h c S) (narinfo_unlinked ni) Not"
    by (cases "ni_id ni = i") (auto simp: narinfo_unlinked_def intro: found_row row_found keeps_db row_delete_narinfo)
qed

lemma keeps_repair_unlinked: "keeps (with_row ok i j h c S) (repair_each nar_file_unlinked delete_row xs)"
proof (rule keeps_repair_each [OF keeps_checks(2)])
  fix nf
  show "keeps (with_row ok i j h c S) (delete_row nf) \<or> yields (with_row ok i j h c S) (nar_file_unlinked nf) Not"
  proof (cases "nf_key nf = (h, c, [])")
    case True
    then show ?thesis by (intro disjI2) (auto simp: nar_file_unlinked_def nf_key_def intro: found_row row_found)
  qed (simp add: keeps_delete_row)
qed

lemma keeps_sweep_narinfos:
  assumes "keeps (with_row ok i j h c S) m"
  shows "keeps (with_row ok i j h c S) (sweep_narinfos m)"
  unfolding sweep_narinfos_def
  by (intro keeps_bindE keeps_thenE assms fsck_keeps keeps_bind_yields [OF yields_in_db [OF row_answers(1)]] keeps_forE_set keeps_ignoreE row_delete_narinfo) auto

lemma keeps_sweep_chunks [fsck_keeps]: "keeps (with_row ok i j h c S) (sweep_chunks cs)"
  unfolding sweep_chunks_def by (intro keeps_intros fsck_keeps)

lemma keeps_repairCDC:
  assumes "\<And>nf. keeps (with_row ok i j h c S) (check nf)" and "\<forall>x \<in> set nfs. nf_key x \<noteq> (h, c, [])"
  shows "keeps (with_row ok i j h c S) (repairCDCNarFiles cs check nfs)"
  unfolding repairCDCNarFiles_def
  by (intro keeps_intros keeps_sweep_narinfos keeps_repair_each assms(1) fsck_keeps disjI1 keeps_delete_row) (use assms(2) in blast)

lemma keeps_repairSizeMismatch:
  assumes "\<forall>x \<in> set nfs. nf_key x \<noteq> (h, c, [])"
  shows "keeps (with_row ok i j h c S) (repairSizeMismatchCDCNarFiles cs nfs)"
  unfolding repairSizeMismatchCDCNarFiles_def
  by (intro keeps_if keeps_thenE keeps_returnE keeps_sweep_narinfos keeps_bindE fsck_keeps keeps_forE_set keeps_ignoreE keeps_delete_row) (use assms in auto)

lemma keeps_repair_chunks: "spared h c res \<Longrightarrow> keeps (with_row ok i j h c S) (repair_chunks fk cs res)"
  unfolding repair_chunks_def
  by (intro keeps_bindE keeps_thenE keeps_whenE keeps_forE keeps_ignoreE fsck_keeps keeps_repairCDC keeps_repairSizeMismatch keeps_repair_each disjI1)
    (auto simp: spared_def)

text \<open>The suspects among the chunked NAR files come from rows that have chunks.\<close>

lemma collect_chunks_spared:
  assumes "\<forall>x \<in> set nfs. nf_total_chunks x > 0 \<longrightarrow> nf_key x \<noteq> (h, c, [])" "spared h c res"
  shows "yields (with_row ok i j h c S) (collect_chunks fk since now nfs res) (spared h c)"
proof -
  have f: "yields (with_row ok i j h c S) (filterE p (filter (\<lambda>x. nf_total_chunks x > 0 \<and> P x) nfs)) (\<lambda>l. \<forall>x \<in> set l. nf_key x \<noteq> (h, c, []))"
    if "\<And>x. keeps (with_row ok i j h c S) (p x)" for p P
    by (rule yields_weaken [OF yields_filterE [OF that]]) (use assms(1) in auto)
  have issues: "yields (with_row ok i j h c S) (collectNarFilesWithChunkIssues fk since now nfs) (\<lambda>l. \<forall>x \<in> set l. nf_key x \<noteq> (h, c, []))"
    unfolding collectNarFilesWithChunkIssues_def by (cases "fk_chunkStore fk") (simp_all add: yields_returnE f keeps_chunk_checks)
  have corrupt: "yields (with_row ok i j h c S) (collectNarFilesWithCorruptChunks fk since now ids nfs) (\<lambda>l. \<forall>x \<in> set l. nf_key x \<noteq> (h, c, []))" for ids
    unfolding collectNarFilesWithCorruptChunks_def by (cases "fk_chunkStore fk") (simp_all add: yields_returnE f keeps_chunk_checks)
  have mismatch: "yields (with_row ok i j h c S) (collectNarFilesWithHashMismatch fk since now ids ids' nfs) (\<lambda>l. \<forall>x \<in> set l. nf_key x \<noteq> (h, c, []))" for ids ids'
    unfolding collectNarFilesWithHashMismatch_def by (cases "fk_chunkStore fk") (simp_all add: yields_returnE f keeps_chunk_checks)
  have content: "yields (with_row ok i j h c S) (collect_content fk since now nfs r) (spared h c)" if "spared h c r" for r
    unfolding collect_content_def Let_def
    by (rule yields_bindE [OF corrupt], rule yields_bindE [OF mismatch], rule yields_returnE) (use that in \<open>auto simp: spared_def\<close>)
  have orphaned: "keeps (with_row ok i j h c S) (collectOrphanedChunksInStorage fk)"
    unfolding collectOrphanedChunksInStorage_def by (intro keeps_intros keeps_chunks yields_keeps [OF yields_filterE] keeps_checks keeps_end_walk)
  show ?thesis
    unfolding collect_chunks_def Let_def
    apply (rule yields_bindE [OF keeps_yields], rule keeps_db, rule keeps_row_queries)
    apply (rule yields_bindE [OF issues], rule yields_bindE [OF yields_in_db [OF row_answers(3)]])
    apply (rule yields_thenE, intro keeps_forE keeps_mark_verified)
    apply (rule yields_bindE [OF keeps_yields [OF orphaned]])
    apply (auto intro!: content yields_returnE simp: spared_def)
    using assms(2) by (auto simp: spared_def)
qed

lemma filter_spared:
  assumes "\<And>x. keeps (with_row ok i j h c S) (p x)" "\<forall>x \<in> set xs. P x"
  shows "yields (with_row ok i j h c S) (filterE p xs) (\<lambda>ys. \<forall>y \<in> set ys. P y)"
  by (rule yields_weaken [OF yields_filterE [OF assms(1)]]) (use assms(2) in auto)

lemma reVerify_chunks_spared:
  assumes "spared h c suspects" "spared h c res"
  shows "yields (with_row ok i j h c S) (reVerify_chunks fk suspects res) (spared h c)"
proof -
  let ?K = "with_row ok i j h c S"
  have c: "\<forall>x \<in> set (fr_narFilesWithChunkIssues suspects). nf_key x \<noteq> (h, c, [])" "\<forall>x \<in> set (fr_narFilesWithCorruptChunks suspects). nf_key x \<noteq> (h, c, [])"
    "\<forall>x \<in> set (fr_narFilesWithHashMismatch suspects). nf_key x \<noteq> (h, c, [])" "\<forall>x \<in> set (fr_narFilesWithSizeMismatch suspects). nf_key x \<noteq> (h, c, [])"
    using assms(1) by (auto simp: spared_def)
  have issues: "yields ?K (case fk_chunkStore fk of
              None \<Rightarrow> returnE r
            | Some cs \<Rightarrow>
                bindE (filterE (isNarFileChunkBroken cs) (fr_narFilesWithChunkIssues suspects)) (\<lambda>issues.
                bindE (in_db GetCDCNarFilesWithSizeMismatch) (\<lambda>recheckMismatch.
                  returnE (r\<lparr>fr_narFilesWithChunkIssues := issues,
                    fr_narFilesWithSizeMismatch := filter (\<lambda>nf. nf_id nf \<in> set (map nf_id recheckMismatch)) (fr_narFilesWithSizeMismatch suspects)\<rparr>)))) (spared h c)"
    if "spared h c r" for r
  proof (cases "fk_chunkStore fk")
    case (Some cs)
    show ?thesis
      unfolding Some option.case
      by (rule yields_bindE [OF filter_spared [OF keeps_chunk_checks(1) c(1)]], rule yields_bindE [OF keeps_yields], rule keeps_db, rule keeps_row_queries,
          rule yields_returnE) (use that c(4) in \<open>auto simp: spared_def\<close>)
  qed (use that in \<open>simp add: yields_returnE\<close>)
  have content: "yields ?K (bindE (filterE (isNarFileContentCorrupt fk cs) (fr_narFilesWithCorruptChunks suspects)) (\<lambda>corrupt.
           bindE (filterE (isNarFileHashMismatched fk cs) (fr_narFilesWithHashMismatch suspects)) (\<lambda>mismatch.
             returnE (r\<lparr>fr_narFilesWithCorruptChunks := corrupt, fr_narFilesWithHashMismatch := mismatch\<rparr>)))) (spared h c)" if "spared h c r" for r cs
    by (rule yields_bindE [OF filter_spared [OF keeps_chunk_checks(2) c(2)]], rule yields_bindE [OF filter_spared [OF keeps_chunk_checks(3) c(3)]], rule yields_returnE)
      (use that in \<open>auto simp: spared_def\<close>)
  show ?thesis
    unfolding reVerify_chunks_def Let_def
    by (intro yields_bindE [OF keeps_yields [OF keeps_db]] keeps_row_queries yields_bindE [OF issues] yields_bindE [OF filter_spared [where P = "\<lambda>_. True"]] keeps_checks)
      (use assms(2) in \<open>auto simp: spared_def split: option.split intro!: yields_returnE content\<close>)
qed

section \<open>What fsck relies on of a store of NARs\<close>

text \<open>What a walk meets are files under the name of their URL, which has no query.\<close>

locale fsck_store =
  fixes ops :: "'s nar_store" and walk :: "('s, nar_url list \<times> err option) prog"
    and key :: "nar_url \<Rightarrow> 'k result" and content :: "'s \<Rightarrow> 'k \<Rightarrow> bytes option" and inv :: "'s \<Rightarrow> bool"
  assumes walk_urls: "yields inv walk (\<lambda>(us, e). \<forall>u \<in> set us. file_url u)"
    and walk_content: "inv s \<Longrightarrow> content (snd (walk s)) = content s"
    and has_file: "inv s \<Longrightarrow> key u = Inr k \<Longrightarrow> content s k \<noteq> None \<Longrightarrow> fst (ns_HasNar ops u s) = Inr True"
    and has_inv: "inv s \<Longrightarrow> inv (snd (ns_HasNar ops u s))"
    and has_content: "inv s \<Longrightarrow> content (snd (ns_HasNar ops u s)) = content s"
    and del_inv: "inv s \<Longrightarrow> inv (snd (ns_DeleteNar ops u s))"
    and del_other: "inv s \<Longrightarrow> key u \<noteq> Inr k \<Longrightarrow> content (snd (ns_DeleteNar ops u s)) k = content s k"
    and key_inj: "file_url u \<Longrightarrow> file_url v \<Longrightarrow> key u = Inr k \<Longrightarrow> key v = Inr k \<Longrightarrow>
      url_Hash u = url_Hash v \<and> url_Compression u = url_Compression v"

text \<open>A whole NAR: its narinfo, its row, their link, and its file.\<close>

definition whole_nar ::
  "('s \<Rightarrow> 'k \<Rightarrow> bytes option) \<Rightarrow> ('s \<Rightarrow> bool) \<Rightarrow> (string \<Rightarrow> bool) \<Rightarrow> nat \<Rightarrow> nat \<Rightarrow> string \<Rightarrow> string \<Rightarrow> 'k \<Rightarrow> bytes \<Rightarrow> ('s, 'c, 'l) cache_state \<Rightarrow> bool" where
  "whole_nar content I ok i j h c k b = with_row ok i j h c (\<lambda>t. I t \<and> content t k = Some b)"

context fsck_store begin

lemma walk_keeps: "yields (\<lambda>t. inv t \<and> content t k = Some b) walk (\<lambda>(us, e). \<forall>u \<in> set us. file_url u)"
  using walk_urls walk_content unfolding yields_def by fastforce

lemma keeps_absent [fsck_keeps]:
  "fk_narStore fk = ops \<Longrightarrow> keeps (whole_nar content inv ok i j h c k b) (nar_file_absent fk nf)"
  unfolding whole_nar_def nar_file_absent_def
  by (intro keeps_intros keeps_store) (simp add: keeps_def has_inv has_content)

lemma not_absent:
  assumes "fk_narStore fk = ops" "key (mk_nar_url h c []) = Inr k" "nf_key nf = (h, c, [])"
  shows "yields (whole_nar content inv ok i j h c k b) (nar_file_absent fk nf) Not"
proof -
  have u: "narFileRowToURL nf = Inr (mk_nar_url h c [])" using assms(3) by (simp add: narFileRowToURL_def nf_key_def parse_query_def str_contains_def str_index.simps)
  have "yields (\<lambda>t. inv t \<and> content t k = Some b) (ns_HasNar ops (mk_nar_url h c [])) (\<lambda>x. x)"
    using has_file [OF _ assms(2)] by (auto simp: yields_def has_inv has_content)
  then show ?thesis
    unfolding nar_file_absent_def u whole_nar_def assms(1) bindE_liftE by (intro yields_bindE [OF yields_in_store] yields_returnE) auto
qed

text \<open>The walks, and the two sections of the repair that go by the store.\<close>

lemma walk_nars_yields:
  assumes "fk_WalkNars fk = Some walk" "\<And>us. \<forall>u \<in> set us. file_url u \<Longrightarrow> yields (whole_nar content inv ok i j h c k b) (f us) Q"
  shows "yields (whole_nar content inv ok i j h c k b) (walk_nars fk f) Q"
proof -
  have w: "yields (whole_nar content inv ok i j h c k b) (in_store walk) (\<lambda>(us, e). \<forall>u \<in> set us. file_url u)"
    unfolding whole_nar_def by (rule yields_in_store [OF walk_keeps])
  show ?thesis
    unfolding walk_nars_def assms(1) option.case
  proof (rule yields_bindE [OF w], clarify)
    fix us e assume "\<forall>u \<in> set us. file_url u"
    with assms(2) show "yields (whole_nar content inv ok i j h c k b) (bindE (f us) (\<lambda>x. thenE (end_walk e) (returnE x))) Q"
      by (intro yields_bindE [where m = "f us" and R = Q] yields_thenE yields_returnE keeps_end_walk)
  qed
qed

lemma keeps_repair_absent:
  assumes "fk_narStore fk = ops" "key (mk_nar_url h c []) = Inr k"
  shows "keeps (whole_nar content inv ok i j h c k b) (repair_each (nar_file_absent fk) delete_row xs)"
proof (rule keeps_repair_each [OF keeps_absent [OF assms(1)]])
  fix nf
  show "keeps (whole_nar content inv ok i j h c k b) (delete_row nf) \<or> yields (whole_nar content inv ok i j h c k b) (nar_file_absent fk nf) Not"
  proof (cases "nf_key nf = (h, c, [])")
    case False
    then show ?thesis unfolding whole_nar_def by (intro disjI1 keeps_delete_row)
  next
    case True
    then show ?thesis using assms by (intro disjI2 not_absent)
  qed
qed

lemma keeps_repair_files:
  assumes "key (mk_nar_url h c []) = Inr k" "file_url (mk_nar_url h c [])" "\<forall>u \<in> set us. file_url u"
  shows "keeps (whole_nar content inv ok i j h c k b) (repair_each nar_unknown (\<lambda>u. in_store (ns_DeleteNar ops u)) us)"
proof (rule keeps_repair_each)
  fix u assume u: "u \<in> set us"
  show "keeps (whole_nar content inv ok i j h c k b) (nar_unknown u)" unfolding whole_nar_def by (rule keeps_checks)
  show "keeps (whole_nar content inv ok i j h c k b) (in_store (ns_DeleteNar ops u)) \<or> yields (whole_nar content inv ok i j h c k b) (nar_unknown u) Not"
  proof (cases "key u = Inr k")
    case True
    then have "url_Hash u = h" "url_Compression u = c" "url_Query u = []"
      using key_inj [OF _ assms(2) True assms(1)] assms(3) u by (auto simp: mk_nar_url_def file_url_def)
    then show ?thesis unfolding whole_nar_def nar_unknown_def
      by (intro disjI2) (auto simp: values_encode_def encode_pairs_def intro: found_row row_found)
  next
    case False
    then show ?thesis unfolding whole_nar_def by (intro disjI1 keeps_store) (simp add: keeps_def del_inv del_other)
  qed
qed

text \<open>The three phases.\<close>

lemma collect_spared:
  assumes "fk_WalkNars fk = Some walk"
  shows "yields (whole_nar content inv ok i j h c k b) (collectFsckSuspects fk cdc since verify) (spared h c)"
proof -
  let ?K = "whole_nar content inv ok i j h c k b"
  have db: "yields ?K (in_db m) Q" if "yields (linked_row ok i j h c) m Q" for m and Q :: "'x \<Rightarrow> bool"
    unfolding whole_nar_def using that by (rule yields_in_db)
  have index: "yields ?K (walk_nars fk (mapE (\<lambda>u. liftE (url_String u)))) (\<lambda>_. True)"
    by (rule walk_nars_yields [OF assms]) (intro keeps_yields keeps_intros)
  have missing: "keeps ?K (collect_missing since now present nfs)" for now present nfs
    unfolding whole_nar_def by (rule keeps_collect_missing)
  have files: "yields ?K (walk_nars fk (filterE nar_unknown)) (\<lambda>us. \<forall>u \<in> set us. file_url u)"
    unfolding whole_nar_def by (rule walk_nars_yields [OF assms, unfolded whole_nar_def]) (rule filter_spared [OF keeps_checks(3)])
  have chunks: "yields ?K (collect_chunks fk since now nfs res) (spared h c)"
    if "\<forall>x \<in> set nfs. nf_total_chunks x > 0 \<longrightarrow> nf_key x \<noteq> (h, c, [])" "spared h c res" for now nfs res
    unfolding whole_nar_def using that by (rule collect_chunks_spared)
  show ?thesis
    unfolding collectFsckSuspects_def Let_def
    by (rule yields_bindE [OF db [OF keeps_yields [OF keeps_row_queries(1)]]], rule yields_bindE [OF db [OF keeps_yields [OF keeps_row_queries(2)]]],
        rule yields_bindE [OF db [OF row_answers(2)]], rule yields_bindE [OF keeps_yields [OF keeps_getsE]], rule yields_bindE [OF index],
        rule yields_bindE [OF keeps_yields [OF missing]], rule yields_bindE [OF files])
      (auto intro!: yields_returnE chunks simp: spared_def no_results_def)
qed

lemma reVerify_spared:
  assumes "fk_narStore fk = ops" "spared h c suspects"
  shows "yields (whole_nar content inv ok i j h c k b) (reVerifyFsckSuspects fk suspects) (spared h c)"
proof -
  let ?K = "whole_nar content inv ok i j h c k b"
  have f: "yields ?K (filterE p xs) (\<lambda>_. True)" if "\<And>x. keeps ?K (p x)" for p and xs :: "'x list"
    by (rule yields_weaken [OF yields_filterE [OF that]]) simp
  have links: "keeps ?K (narinfo_unlinked x)" "keeps ?K (nar_file_unlinked y)" for x y unfolding whole_nar_def by (rule keeps_checks)+
  have files: "yields ?K (filterE nar_unknown (fr_orphanedNarFilesInStorage suspects)) (\<lambda>us. \<forall>u \<in> set us. file_url u)"
    unfolding whole_nar_def by (rule filter_spared [OF keeps_checks(3)]) (use assms(2) in \<open>simp add: spared_def\<close>)
  have chunks: "yields ?K (reVerify_chunks fk suspects res) (spared h c)" if "spared h c res" for res
    unfolding whole_nar_def using assms(2) that by (rule reVerify_chunks_spared)
  show ?thesis
    unfolding reVerifyFsckSuspects_def Let_def
    by (rule yields_bindE [OF f [OF links(1)]], rule yields_bindE [OF f [OF links(2)]],
        rule yields_bindE [OF f [OF keeps_absent [OF assms(1)]]], rule yields_bindE [OF files])
      (auto intro!: yields_returnE chunks simp: spared_def no_results_def)
qed

lemma repair_spared:
  assumes "fk_narStore fk = ops" "key (mk_nar_url h c []) = Inr k" "file_url (mk_nar_url h c [])" "spared h c res"
  shows "keeps (whole_nar content inv ok i j h c k b) (repairFsckIssues fk res)"
proof -
  let ?K = "whole_nar content inv ok i j h c k b"
  have "keeps ?K (sweep_narinfos (repair_each (nar_file_absent fk) delete_row (fr_narFilesMissingInStorage res)))"
    using keeps_repair_absent [OF assms(1,2)] unfolding whole_nar_def by (rule keeps_sweep_narinfos)
  moreover have "keeps ?K (repair_each nar_unknown (\<lambda>u. in_store (ns_DeleteNar ops u)) (fr_orphanedNarFilesInStorage res))"
    by (rule keeps_repair_files [OF assms(2,3)]) (use assms(4) in \<open>simp add: spared_def\<close>)
  ultimately show ?thesis
    using keeps_repair_chunks [OF assms(4)] keeps_repair_narinfos keeps_repair_unlinked
    unfolding repairFsckIssues_def assms(1) whole_nar_def by (intro keeps_thenE keeps_option keeps_whenE keeps_returnE) auto
qed

text \<open>Whatever fails in the database, and with any of the flags, \<open>fsck\<close> keeps a whole NAR.\<close>

lemma fsck_keeps_nar:
  assumes "fk_narStore fk = ops" "fk_WalkNars fk = Some walk" "key (mk_nar_url h c []) = Inr k" "file_url (mk_nar_url h c [])"
  shows "keeps (whole_nar content inv ok i j h c k b) (fsck fk since verify dryRun agreed)"
proof -
  let ?K = "whole_nar content inv ok i j h c k b"
  have detect: "keeps ?K detect_cdc_mode" unfolding whole_nar_def by (rule keeps_detect)
  have run: "keeps ?K (bindE (collectFsckSuspects f cdc since verify) (\<lambda>suspects.
     bindE (reVerifyFsckSuspects f suspects) (\<lambda>results.
       if totalIssues results = 0 then returnE ()
       else if dryRun \<or> \<not> agreed then raiseE ErrFsckIssuesFound
       else repairFsckIssues f results)))" if "fk_narStore f = ops" "fk_WalkNars f = Some walk" for f cdc
    by (rule keeps_bind_yields [OF collect_spared [OF that(2)]], rule keeps_bind_yields [OF reVerify_spared [OF that(1)]], assumption)
      (intro keeps_if keeps_returnE keeps_raiseE repair_spared that(1) assms(3,4))
  show ?thesis
    unfolding fsck_def Let_def by (intro keeps_bindE [OF detect] run) (simp_all add: assms(1,2))
qed

end

end
