(* ===== verification/Fsck_Props.thy ===== *)
theory Fsck_Props
  imports Fsck_Laws
begin

text \<open>The local store under \<open>fsck\<close>: the walk over it, the interpretation of what \<open>fsck\<close> relies on, and that \<open>fsck\<close> keeps the whole NARs.\<close>

section \<open>The walk over the local store\<close>

text \<open>What \<open>WalkNars\<close> meets.\<close>

definition local_walk :: "path \<Rightarrow> (file_system, nar_url list \<times> err option) prog" where
  "local_walk s =
     bindE (attemptE (os_Stat (storeNarPath s))) (\<lambda>r.
     if r = Inl ErrNotExist then returnE ([], None)
     else bindE (getsE (walk_files (storeNarPath s))) (\<lambda>ps. returnE (map projr (filter (\<lambda>r. \<not> isl r) (map (ParseURL \<circ> last) ps)), None)))"

lemma WalkNars_local_walk: "WalkNars_local s fn = bindE (local_walk s) (\<lambda>(us, e). thenE (forE us fn) (end_walk e))"
proof -
  have loop: "forE ps (\<lambda>p. case ParseURL (last p) of Inl _ \<Rightarrow> returnE () | Inr u \<Rightarrow> fn u) =
    forE (map projr (filter (\<lambda>r. \<not> isl r) (map (ParseURL \<circ> last) ps))) fn" for ps
  proof (induction ps)
    case (Cons p ps)
    have skip: "thenE (returnE ()) m = m" for m :: "(file_system, unit) prog" by (simp add: thenE_def)
    show ?case by (cases "ParseURL (last p)") (simp_all add: skip Cons.IH [unfolded comp_def] comp_def)
  qed simp
  have unit: "thenE m (returnE ()) = m" for m :: "(file_system, unit) prog"
    by (auto simp: fun_eq_iff thenE_def bindE_def returnE_def split: prod.split sum.split)
  have assoc: "bindE (bindE m f) g = bindE m (\<lambda>x. bindE (f x) g)" for m :: "(file_system, 'x) prog" and f :: "'x \<Rightarrow> (file_system, 'y) prog" and g :: "'y \<Rightarrow> (file_system, 'z) prog"
    by (auto simp: fun_eq_iff bindE_def split: prod.split sum.split)
  show ?thesis
    unfolding WalkNars_local_def local_walk_def assoc
    by (rule arg_cong [of _ _ "bindE _"]) (auto simp: fun_eq_iff assoc loop unit end_walk_def)
qed










end
