(* ===== verification/Fsck_Verdict.thy ===== *)
theory Fsck_Verdict
  imports Fsck_Props
begin

text \<open>
  What a run of \<open>fsck\<close> that changes nothing says: when it reports no issue, database and store belong together. The proof follows what every query and every walk
  answers while the tables, but for the column with the time of the last check, and the store are what they were.
\<close>

section \<open>The verdict\<close>

text \<open>The tables without the column a dry run writes to.\<close>

definition frozen :: "database \<Rightarrow> database" where
  "frozen d = d\<lparr>db_nar_files := map (nf_verified_at_update (\<lambda>_. None)) (db_nar_files d), db_faults := []\<rparr>"


lemma frozen_call:
  assumes "\<And>d. frozen d = D \<Longrightarrow> frozen (snd (m d)) = D \<and> (\<forall>x. fst (m d) = Inr x \<longrightarrow> Q x)"
  shows "yields (\<lambda>d. frozen d = D) (db_call m) Q"
  unfolding yields_def
proof (intro allI impI)
  fix d assume d: "frozen d = D"
  then have t: "frozen (d\<lparr>db_faults := fs\<rparr>) = D" for fs by (simp add: frozen_def)
  show "frozen (snd (db_call m d)) = D \<and> (\<forall>x. fst (db_call m d) = Inr x \<longrightarrow> Q x)"
    using assms [OF d] assms [OF t] t by (auto simp: db_call_def split: list.splits option.splits)
qed

lemma frozen_select: "(\<And>d. frozen d = D \<Longrightarrow> Q (f d)) \<Longrightarrow> yields (\<lambda>d. frozen d = D) (select f) Q"
  unfolding select_def by (rule frozen_call) auto




section \<open>What a check that finds nothing shows\<close>

abbreviation still :: "database \<Rightarrow> 's \<Rightarrow> ('s, 'c, 'l) cache_state \<Rightarrow> bool" where
  "still D F \<equiv> parts (\<lambda>d. frozen d = D) (\<lambda>t. t = F)"



definition file_there :: "path \<Rightarrow> file_system \<Rightarrow> nar_file_row \<Rightarrow> bool" where
  "file_there p F r \<longleftrightarrow> (\<exists>f. nar_path p (mk_nar_url (nf_hash r) (nf_compression r) []) = Inr f \<and> nars p F f \<noteq> None)"













section \<open>The lists of a run\<close>













lemma still_all: "yields (still D F) (in_db GetAllNarFiles) (\<lambda>l. map (nf_verified_at_update (\<lambda>_. None)) l = db_nar_files D)"
  unfolding GetAllNarFiles_def by (intro yields_in_db frozen_select) (auto simp: frozen_def)













section \<open>Properties\<close>




section \<open>Examples\<close>

text \<open>A store with one NAR, and a database with its narinfo and its row; the row has a query \<open>q\<close>.\<close>

definition example_nar :: path where
  "example_nar = [''store'', ''nar'', ''a'', ''aa'', plain_hash @ ''.nar.xz'']"

definition example_files :: file_system where
  "example_files =
     \<lparr>fs_nodes = [([], Dir), ([''store''], Dir), ([''store'', ''nar''], Dir), ([''store'', ''tmp''], Dir), ([''store'', ''nar'', ''a''], Dir),
        ([''store'', ''nar'', ''a'', ''aa''], Dir), (example_nar, File ''abc'')],
      fs_faults = [], fs_rand = (\<lambda>n. n), fs_seed = 0\<rparr>"

definition example_narinfo :: narinfo_row where
  "example_narinfo = new_narinfo_row \<lparr>np_hash = some_narinfo_hash, np_store_path = None, np_url = None, np_compression = None, np_file_hash = None, np_file_size = None,
     np_nar_hash = None, np_nar_size = None, np_deriver = None, np_system = None, np_ca = None\<rparr> 1 0"

definition example_row :: "string \<Rightarrow> int \<Rightarrow> nar_file_row" where
  "example_row q n = \<lparr>nf_id = 2, nf_hash = plain_hash, nf_compression = ''xz'', nf_file_size = 3, nf_query = q, nf_created_at = 0, nf_updated_at = None,
     nf_last_accessed_at = 0, nf_total_chunks = n, nf_chunking_started_at = None, nf_verified_at = None\<rparr>"

definition example_db :: "string \<Rightarrow> database" where
  "example_db q = empty_db\<lparr>db_narinfos := [example_narinfo], db_nar_files := [example_row q 0], db_narinfo_nar_files := [(1, 2)], db_next := 3\<rparr>"

definition example_env :: "(file_system, unit) fsck_env" where
  "example_env = \<lparr>fk_narStore = local_nar_store [], fk_WalkNars = Some (local_walk []), fk_chunkStore = None, fk_WalkChunks = returnE ([], None),
     fk_blake3 = (\<lambda>b. b), fk_sha256 = (\<lambda>b. b), fk_ParseHash = Inr\<rparr>"

lemma example_path: "nar_path [] plain_url = Inr example_nar"
  by code_simp


lemma example_bytes: "nars [] example_files example_nar = Some ''abc''"
  by code_simp



text \<open>A NAR that was asked for with a query is in the store under a name without it. The walk gives the name without the query, the row has it, so the file counts as one that no
  row knows: the repair deletes it, and the next run deletes the row and the narinfo.\<close>

theorem fsck_loses_query_nar:
  "let s = idle_cache (example_db ''hash=x'') example_files () ();
       t = snd (fsck example_env 0 False False True s);
       u = snd (fsck example_env 0 False False True t) in
   file_there [] (cst_store s) (example_row ''hash=x'' 0) \<and> nars [] (cst_store t) example_nar = None \<and>
   map nf_id (db_nar_files (cst_db t)) = [2] \<and> db_nar_files (cst_db u) = [] \<and> db_narinfos (cst_db u) = []"
proof -
  let ?s = "idle_cache (example_db ''hash=x'') example_files () ()"
  have "nars [] (cst_store (snd (fsck example_env 0 False False True ?s))) example_nar = None \<and>
    map nf_id (db_nar_files (cst_db (snd (fsck example_env 0 False False True ?s)))) = [2]" by code_simp
  moreover have "db_nar_files (cst_db (snd (fsck example_env 0 False False True (snd (fsck example_env 0 False False True ?s))))) = [] \<and>
    db_narinfos (cst_db (snd (fsck example_env 0 False False True (snd (fsck example_env 0 False False True ?s))))) = []" by code_simp
  moreover have "file_there [] (cst_store ?s) (example_row ''hash=x'' 0)"
    using example_path example_bytes by (simp add: file_there_def example_row_def idle_cache_def plain_url_def)
  ultimately show ?thesis by (simp add: Let_def)
qed

text \<open>A NAR without compression: the cache keeps it in a file for \<open>zstd\<close>, under a row for \<open>none\<close>. The row counts as one whose file is missing, and the file as one that no row
  knows: a single repair deletes narinfo, row and file.\<close>

definition plain_nar_file :: path where
  "plain_nar_file = [''store'', ''nar'', ''a'', ''aa'', plain_hash @ ''.nar.zst'']"

definition plain_files :: file_system where
  "plain_files = example_files\<lparr>fs_nodes := map (\<lambda>(p, n). (if p = example_nar then plain_nar_file else p, n)) (fs_nodes example_files)\<rparr>"

theorem fsck_loses_plain_nar:
  "let s = idle_cache ((example_db [])\<lparr>db_nar_files := [(example_row [] 0)\<lparr>nf_compression := ''none''\<rparr>]\<rparr>) plain_files () ();
       t = snd (fsck example_env 0 False False True s) in
   nar_path [] (mk_nar_url plain_hash ''zstd'' []) = Inr plain_nar_file \<and> nars [] (cst_store s) plain_nar_file = Some ''abc'' \<and>
   nars [] (cst_store t) plain_nar_file = None \<and> db_nar_files (cst_db t) = [] \<and> db_narinfos (cst_db t) = []"
proof -
  let ?s = "idle_cache ((example_db [])\<lparr>db_nar_files := [(example_row [] 0)\<lparr>nf_compression := ''none''\<rparr>]\<rparr>) plain_files () ()"
  have "nar_path [] (mk_nar_url plain_hash ''zstd'' []) = Inr plain_nar_file \<and> nars [] (cst_store ?s) plain_nar_file = Some ''abc''" by code_simp
  moreover have "nars [] (cst_store (snd (fsck example_env 0 False False True ?s))) plain_nar_file = None" by code_simp
  moreover have "db_nar_files (cst_db (snd (fsck example_env 0 False False True ?s))) = [] \<and> db_narinfos (cst_db (snd (fsck example_env 0 False False True ?s))) = []" by code_simp
  ultimately show ?thesis by (simp add: Let_def)
qed

text \<open>The checks of the chunks mark a NAR file as verified before its content is checked: here the only chunk of the file is corrupt, a first run says so, and a second one that leaves
  out what was verified lately finds nothing.\<close>

definition corrupt_store :: "unit chunk_store" where
  "corrupt_store = \<lparr>cs_HasChunk = (\<lambda>_. returnE True), cs_GetChunk = (\<lambda>_. returnE ''bad''), cs_GetRawChunk = (\<lambda>_. returnE ''bad''),
     cs_PutChunk = (\<lambda>_ _. returnE (False, 0)), cs_DeleteChunk = (\<lambda>_. returnE ())\<rparr>"

definition chunked_db :: database where
  "chunked_db = (example_db [])\<lparr>db_nar_files := [example_row [] 1], db_chunks := [\<lparr>ck_id = 3, ck_hash = ''good'', ck_size = 3, ck_compressed_size = 3\<rparr>],
     db_nar_file_chunks := [\<lparr>cl_nar_file_id = 2, cl_chunk_id = 3, cl_chunk_index = 0\<rparr>], db_next := 4\<rparr>"

theorem fsck_verified_too_early:
  "let env = example_env\<lparr>fk_chunkStore := Some corrupt_store\<rparr>;
       (r, t) = fsck env 3600 True True False (idle_cache chunked_db (small_store []) () ()) in
   r = Inl ErrFsckIssuesFound \<and> map nf_verified_at (db_nar_files (cst_db t)) = [Some 0] \<and> fst (fsck env 3600 True True False t) = Inr ()"
  by code_simp

end
