(* ===== verification/Cache_NarInfo.thy ===== *)
theory Cache_NarInfo
  imports Cache_State
begin

text \<open>
  The narinfo side of \<open>pkg/cache/cache.go\<close>: signing, the records of narinfos and NAR files in the
  database, the lookups in database and store, the purge of a narinfo whose NAR is gone, the migration of narinfos from
  the store to the database, and the repair of file sizes.
\<close>

section \<open>Signing\<close>

definition signNarInfo :: "('s, 'c, 'l) cache_conf \<Rightarrow> narinfo \<Rightarrow> narinfo result" where
  "signNarInfo c n =
     (if \<not> cc_shouldSignNarinfo c then Inr n
      else rbind (nl_Sign (cc_nix c) (nl_Fingerprint (cc_nix c) n)) (\<lambda>sg.
        Inr (n\<lparr>n_Signatures := filter (\<lambda>x. sg_Name x \<noteq> cc_hostName c) (n_Signatures n) @ [sg]\<rparr>)))"

section \<open>Records of NAR files\<close>

text \<open>The columns that identify a NAR file.\<close>

definition nar_file_of :: "nar_url \<Rightarrow> (string \<Rightarrow> string \<Rightarrow> string \<Rightarrow> 'a) \<Rightarrow> 'a" where
  "nar_file_of u f = f (url_Hash u) (url_Compression u) (values_encode (url_Query u))"

definition getNarFileFromDB :: "('s, 'c, 'l) cache_conf \<Rightarrow> nar_url \<Rightarrow> (database, nar_file_row) prog" where
  "getNarFileFromDB c u =
     (let (first, second) = (if isCDCEnabled c then (''none'', url_Compression u) else (url_Compression u, ''none'')) in
      bindE (attemptE (nar_file_of (u\<lparr>url_Compression := first\<rparr>) GetNarFileByHashAndCompressionAndQuery)) (\<lambda>r.
        case r of
          Inr nr \<Rightarrow> returnE nr
        | Inl e \<Rightarrow>
            if IsNotFoundError e \<and> first \<noteq> second
            then nar_file_of (u\<lparr>url_Compression := second\<rparr>) GetNarFileByHashAndCompressionAndQuery
            else raiseE e))"

definition ensureNarFileRecord :: "nar_url \<Rightarrow> nat \<Rightarrow> (('s, 'c, 'l) cache_state, unit) prog" where
  "ensureNarFileRecord u written =
     withTransaction (in_db (
       bindE (nar_file_of u (\<lambda>h cm q. CreateNarFile h cm q written 0)) (\<lambda>nf.
         if nf_file_size nf \<noteq> written then UpdateNarFileFileSize (nf_id nf) written else returnE ())))"

definition narFileSize :: "narinfo \<Rightarrow> 64 word" where
  "narFileSize n = (if n_FileSize n \<noteq> 0 then n_FileSize n else n_NarSize n)"

text \<open>\<open>database/sql\<close> refuses an unsigned argument that does not fit a signed column. The other callers of \<open>CreateNarFile\<close> give it the number of bytes they have read.\<close>

definition createOrUpdateNarFile :: "nar_url \<Rightarrow> 64 word \<Rightarrow> (database, nat) prog" where
  "createOrUpdateNarFile u sz =
     (if sz \<ge> 2 ^ 63 then raiseE ErrDB
      else bindE (nar_file_of u (\<lambda>h cm q. CreateNarFile h cm q (unat sz) 0)) (\<lambda>nf. returnE (nf_id nf)))"

definition not_found_false :: "('s, 'a) prog \<Rightarrow> ('a \<Rightarrow> bool) \<Rightarrow> ('s, bool) prog" where
  "not_found_false m p =
     bindE (attemptE m) (\<lambda>r.
       case r of
         Inr x \<Rightarrow> returnE (p x)
       | Inl e \<Rightarrow> if IsNotFoundError e then returnE False else raiseE e)"

definition HasNarInChunks :: "('s, 'c, 'l) cache_conf \<Rightarrow> nar_url \<Rightarrow> (('s, 'c, 'l) cache_state, bool) prog" where
  "HasNarInChunks c u =
     (if \<not> isCDCEnabled c then returnE False
      else in_db (not_found_false (getNarFileFromDB c u) (\<lambda>nr. nf_total_chunks nr > 0)))"

definition HasNarFileRecord :: "('s, 'c, 'l) cache_conf \<Rightarrow> nar_url \<Rightarrow> (('s, 'c, 'l) cache_state, bool) prog" where
  "HasNarFileRecord c u = in_db (not_found_false (getNarFileFromDB c u) (\<lambda>_. True))"

text \<open>A NAR served without compression is kept as a \<open>.nar.zst\<close> file.\<close>

definition HasNarInStore :: "('s, 'c, 'l) cache_conf \<Rightarrow> nar_url \<Rightarrow> (('s, 'c, 'l) cache_state, bool) prog" where
  "HasNarInStore c u =
     (let has = (\<lambda>v. in_store (ns_HasNar (cc_narStore c) v)) in
      if url_Compression u = ''none''
      then bindE (has (u\<lparr>url_Compression := ''zstd''\<rparr>)) (\<lambda>b. if b then returnE True else has u)
      else has u)"

definition GetNarFileSize :: "('s, 'c, 'l) cache_conf \<Rightarrow> nar_url \<Rightarrow> (('s, 'c, 'l) cache_state, nat) prog" where
  "GetNarFileSize c u =
     bindE (liftE (url_String u)) (\<lambda>_. bindE (in_db (getNarFileFromDB c u)) (\<lambda>nr. returnE (nf_file_size nr)))"

text \<open>The URL under which an upstream serves a NAR, when a narinfo of the database names it.\<close>

definition lookupOriginalNarURL :: "nar_url \<Rightarrow> (('s, 'c, 'l) cache_state, nar_url) prog" where
  "lookupOriginalNarURL u =
     bindE (attemptE (in_db (nar_file_of u GetNarInfoURLByNarFileHash))) (\<lambda>r.
       returnE (case r of
           Inr (Some t) \<Rightarrow> if t \<noteq> [] then (case ParseURL t of Inr v \<Rightarrow> v | Inl _ \<Rightarrow> u) else u
         | _ \<Rightarrow> u))"

section \<open>Storing narinfos\<close>

definition null_if_empty :: "string \<Rightarrow> string option" where
  "null_if_empty s = (if s = [] then None else Some s)"

text \<open>\<open>storeInDatabase\<close> and \<open>storeNarInfoInDatabase\<close> differ in when the file size is \<open>NULL\<close>, the argument \<open>fs\<close>.\<close>

definition createNarInfoParams :: "string \<Rightarrow> int option \<Rightarrow> narinfo \<Rightarrow> narinfo_params" where
  "createNarInfoParams h fs n =
     \<lparr>np_hash = h, np_store_path = null_if_empty (n_StorePath n), np_url = null_if_empty (n_URL n),
      np_compression = null_if_empty (n_Compression n), np_file_hash = n_FileHash n, np_file_size = fs,
      np_nar_hash = n_NarHash n, np_nar_size = Some (sint (n_NarSize n)), np_deriver = null_if_empty (n_Deriver n),
      np_system = null_if_empty (n_System n), np_ca = null_if_empty (n_CA n)\<rparr>"

definition upsert_narinfo :: "narinfo_params \<Rightarrow> (database, narinfo_row) prog" where
  "upsert_narinfo a =
     bindE (attemptE (CreateNarInfo a)) (\<lambda>r.
       case r of
         Inr nir \<Rightarrow> returnE nir
       | Inl e \<Rightarrow> if IsNotFoundError e then GetNarInfoByHash (np_hash a) else raiseE e)"

definition storeInDatabase :: "('s, 'c, 'l) cache_conf \<Rightarrow> string \<Rightarrow> narinfo \<Rightarrow> (('s, 'c, 'l) cache_state, unit) prog" where
  "storeInDatabase c h n =
     withTransaction (in_db (
       bindE (upsert_narinfo (createNarInfoParams h (if n_FileSize n \<noteq> 0 then Some (sint (n_FileSize n)) else None) n)) (\<lambda>nir.
         thenE (AddNarInfoReferences (ni_id nir) (n_References n))
        (thenE (AddNarInfoSignatures (ni_id nir) (map (nl_SigString (cc_nix c)) (n_Signatures n)))
        (bindE (liftE (ParseURL (n_URL n))) (\<lambda>u.
         bindE (liftE (Normalize u)) (\<lambda>v.
         bindE (createOrUpdateNarFile v (narFileSize n)) (\<lambda>nf.
         LinkNarInfoToNarFile (ni_id nir) nf))))))))"

definition unless_duplicate :: "('s, unit) prog \<Rightarrow> ('s, unit) prog" where
  "unless_duplicate m =
     bindE (attemptE m) (\<lambda>r.
       case r of Inr _ \<Rightarrow> returnE () | Inl e \<Rightarrow> if IsDuplicateKeyError e then returnE () else raiseE e)"

text \<open>One transaction, not retried.\<close>

definition storeNarInfoInDatabase :: "nix_lib \<Rightarrow> string \<Rightarrow> narinfo \<Rightarrow> (('s, 'c, 'l) cache_state, unit) prog" where
  "storeNarInfoInDatabase lib h n =
     executeTransaction (in_db (
       bindE (upsert_narinfo (createNarInfoParams h (Some (sint (n_FileSize n))) n)) (\<lambda>nir.
         thenE (unless_duplicate (AddNarInfoReferences (ni_id nir) (n_References n)))
        (thenE (unless_duplicate (AddNarInfoSignatures (ni_id nir) (map (nl_SigString lib) (n_Signatures n))))
        (bindE (liftE (ParseURL (n_URL n))) (\<lambda>u.
         bindE (liftE (Normalize u)) (\<lambda>v.
         bindE (createOrUpdateNarFile v (narFileSize n)) (\<lambda>nf.
         unless_duplicate (LinkNarInfoToNarFile (ni_id nir) nf)))))))))"

section \<open>Reading narinfos back\<close>

definition parseValidHash :: "nix_lib \<Rightarrow> string option \<Rightarrow> string option result" where
  "parseValidHash lib x = (case x of None \<Rightarrow> Inr None | Some h \<Rightarrow> rbind (nl_ParseHash lib h) (\<lambda>v. Inr (Some v)))"

definition string_of :: "string option \<Rightarrow> string" where
  "string_of x = (case x of None \<Rightarrow> [] | Some s \<Rightarrow> s)"

definition uint64_of :: "int option \<Rightarrow> 64 word" where
  "uint64_of x = (case x of None \<Rightarrow> 0 | Some i \<Rightarrow> of_int i)"

primrec parse_signatures :: "nix_lib \<Rightarrow> string list \<Rightarrow> signature list result" where
  "parse_signatures lib [] = Inr []"
| "parse_signatures lib (x # xs) =
     rbind (nl_ParseSignature lib x) (\<lambda>sg. rbind (parse_signatures lib xs) (\<lambda>sgs. Inr (sg # sgs)))"

definition stale :: "('s, 'c, 'l) cache_conf \<Rightarrow> nat \<Rightarrow> nat \<Rightarrow> bool" where
  "stale c now accessed \<longleftrightarrow> now > accessed + cc_recordAgeIgnoreTouch c"

definition populateNarInfoFromDatabase ::
  "('s, 'c, 'l) cache_conf \<Rightarrow> string \<Rightarrow> bool \<Rightarrow> (database, narinfo \<times> nar_url) prog" where
  "populateNarInfoFromDatabase c h touch =
     bindE (map_err (\<lambda>e. if IsNotFoundError e then ErrNotFound else e) (GetNarInfoByHash h)) (\<lambda>nir.
     if ni_url nir = None then raiseE ErrNotFound
     else
       bindE (liftE (parseValidHash (cc_nix c) (ni_file_hash nir))) (\<lambda>fileHash.
       bindE (liftE (parseValidHash (cc_nix c) (ni_nar_hash nir))) (\<lambda>narHash.
       bindE (GetNarInfoReferences (ni_id nir)) (\<lambda>refs.
       bindE (GetNarInfoSignatures (ni_id nir)) (\<lambda>sigs.
       bindE (liftE (parse_signatures (cc_nix c) sigs)) (\<lambda>sgs.
       bindE (liftE (ParseURL (string_of (ni_url nir)))) (\<lambda>u.
       bindE (getsE db_now) (\<lambda>now.
       thenE (if touch \<and> stale c now (ni_last_accessed_at nir) then thenE (TouchNarInfo h) (returnE ()) else returnE ())
         (returnE
            (\<lparr>n_StorePath = string_of (ni_store_path nir), n_URL = string_of (ni_url nir),
              n_Compression = string_of (ni_compression nir), n_FileHash = fileHash,
              n_FileSize = uint64_of (ni_file_size nir), n_NarHash = narHash, n_NarSize = uint64_of (ni_nar_size nir),
              n_References = refs, n_Deriver = string_of (ni_deriver nir), n_System = string_of (ni_system nir),
              n_Signatures = sgs, n_CA = string_of (ni_ca nir)\<rparr>, u))))))))))"

section \<open>Deleting\<close>

definition deleteNarInfoFromStore :: "('s, 'c, 'l) cache_conf \<Rightarrow> string \<Rightarrow> (('s, 'c, 'l) cache_state, unit) prog" where
  "deleteNarInfoFromStore c h =
     bindE (in_store (nis_HasNarInfo (cc_narInfoStore c) h)) (\<lambda>inStorage.
     bindE (attemptE (in_db (GetNarInfoByHash h))) (\<lambda>r.
     case r of
       Inl e \<Rightarrow>
         if \<not> IsNotFoundError e then raiseE e
         else if \<not> inStorage then raiseE ErrNotFound
         else in_store (nis_DeleteNarInfo (cc_narInfoStore c) h)
     | Inr _ \<Rightarrow>
         thenE (in_db (DeleteNarInfoByHash h))
           (whenE inStorage (in_store (nis_DeleteNarInfo (cc_narInfoStore c) h)))))"

definition DeleteNarInfo :: "('s, 'c, 'l) cache_conf \<Rightarrow> string \<Rightarrow> (('s, 'c, 'l) cache_state, unit) prog" where
  "DeleteNarInfo c h = deleteNarInfoFromStore c h"

definition deleteNarFromStore :: "('s, 'c, 'l) cache_conf \<Rightarrow> nar_url \<Rightarrow> (('s, 'c, 'l) cache_state, unit) prog" where
  "deleteNarFromStore c u =
     bindE (HasNarInStore c u) (\<lambda>b.
       if \<not> b then raiseE ErrNotFound
       else thenE (in_db (nar_file_of u DeleteNarFileByHash)) (in_store (ns_DeleteNar (cc_narStore c) u)))"

text \<open>The trace attribute prints the URL, so an unknown compression is a panic.\<close>

definition purgeNarInfo :: "('s, 'c, 'l) cache_conf \<Rightarrow> string \<Rightarrow> nar_url \<Rightarrow> (('s, 'c, 'l) cache_state, unit) prog" where
  "purgeNarInfo c h u =
     bindE (liftE (url_String u)) (\<lambda>_.
     thenE (withTransaction (in_db (
        thenE (DeleteNarInfoByHash h)
          (whenE (url_Hash u \<noteq> []) (thenE (nar_file_of u DeleteNarFileByHash) (returnE ()))))))
    (bindE (in_store (nis_HasNarInfo (cc_narInfoStore c) h)) (\<lambda>b.
     thenE (whenE b (deleteNarInfoFromStore c h))
       (whenE (url_Hash u \<noteq> [])
         (bindE (HasNarInStore c u) (\<lambda>b. whenE b (deleteNarFromStore c u)))))))"

section \<open>Migrating narinfos to the database\<close>

text \<open>\<open>store\<close> is the backend to delete from, if any.\<close>

definition MigrateNarInfo ::
  "nix_lib \<Rightarrow> 'l locker \<Rightarrow> ('s, narinfo) narinfo_store option \<Rightarrow> string \<Rightarrow> narinfo \<Rightarrow> (('s, 'c, 'l) cache_state, unit) prog" where
  "MigrateNarInfo lib locker store h n =
     bindE (in_locks (lo_TryLock locker (migrationLockKey h))) (\<lambda>acquired.
       if \<not> acquired then returnE ()
       else finallyE
         (bindE (attemptE (in_db (GetNarInfoByHash h))) (\<lambda>r.
            if (case r of Inr nir \<Rightarrow> ni_url nir \<noteq> None | Inl _ \<Rightarrow> False) then returnE ()
            else thenE (storeNarInfoInDatabase lib h n)
              (case store of None \<Rightarrow> returnE () | Some st \<Rightarrow> ignoreE (in_store (nis_DeleteNarInfo st h)))))
         (in_locks (lo_Unlock locker (migrationLockKey h))))"

definition MigrateNarInfoToDatabase ::
  "('s, 'c, 'l) cache_conf \<Rightarrow> string \<Rightarrow> narinfo \<Rightarrow> bool \<Rightarrow> (('s, 'c, 'l) cache_state, unit) prog" where
  "MigrateNarInfoToDatabase c h n deleteFromStorage =
     MigrateNarInfo (cc_nix c) (cc_downloadLocker c) (if deleteFromStorage then Some (cc_narInfoStore c) else None) h n"

definition backgroundMigrateNarInfo :: "string \<Rightarrow> narinfo \<Rightarrow> (('s, 'c, 'l) cache_state, unit) prog" where
  "backgroundMigrateNarInfo h n = spawn (MigrateNarInfoJob h n)"

definition BackgroundMigrateNarToChunks :: "nar_url \<Rightarrow> (('s, 'c, 'l) cache_state, unit) prog" where
  "BackgroundMigrateNarToChunks u = spawn (MigrateNarToChunksJob u)"

definition maybeBackgroundMigrateNarToChunks :: "('s, 'c, 'l) cache_conf \<Rightarrow> nar_url \<Rightarrow> (('s, 'c, 'l) cache_state, unit) prog" where
  "maybeBackgroundMigrateNarToChunks c u = whenE (isCDCEnabled c) (BackgroundMigrateNarToChunks u)"

section \<open>Looking narinfos up\<close>

definition getNarInfoFromDatabase :: "('s, 'c, 'l) cache_conf \<Rightarrow> string \<Rightarrow> (('s, 'c, 'l) cache_state, narinfo) prog" where
  "getNarInfoFromDatabase c h =
     bindE (withTransaction (in_db (populateNarInfoFromDatabase c h True))) (\<lambda>(n, u).
     bindE (HasNarInStore c u) (\<lambda>inStore.
     bindE (if inStore then returnE True else HasNarInChunks c u) (\<lambda>hasNar.
     bindE (hasUpstreamJob (url_Hash u)) (\<lambda>locally.
     bindE (if \<not> hasNar \<and> \<not> locally then isRemoteDownloadInProgress c (url_Hash u) else returnE False) (\<lambda>remotely.
     if hasNar \<or> locally \<or> remotely then returnE n
     else
       bindE (if isCDCEnabled c
              then bindE (attemptE (HasNarFileRecord c u)) (\<lambda>r. returnE (case r of Inl _ \<Rightarrow> True | Inr b \<Rightarrow> b))
              else returnE False) (\<lambda>keep.
       if keep then returnE n
       else thenE (purgeNarInfo c h u) (raiseE ErrNarInfoPurged)))))))"

definition zero_url :: nar_url where
  "zero_url = mk_nar_url [] [] []"

definition getNarInfoFromStore :: "('s, 'c, 'l) cache_conf \<Rightarrow> string \<Rightarrow> (('s, 'c, 'l) cache_state, narinfo) prog" where
  "getNarInfoFromStore c h =
     bindE (in_store (nis_GetNarInfo (cc_narInfoStore c) h)) (\<lambda>n.
     case ParseURL (n_URL n) of
       Inl _ \<Rightarrow> thenE (ignoreE (purgeNarInfo c h zero_url)) (raiseE ErrNarInfoPurged)
     | Inr u \<Rightarrow>
         bindE (HasNarInStore c u) (\<lambda>has.
         bindE (hasUpstreamJob (url_Hash u)) (\<lambda>job.
         if \<not> has \<and> \<not> job then thenE (purgeNarInfo c h u) (raiseE ErrNarInfoPurged)
         else
           thenE (withTransaction (
             bindE (attemptE (in_db (GetNarInfoByHash h))) (\<lambda>r.
               case r of
                 Inl e \<Rightarrow> if IsNotFoundError e then backgroundMigrateNarInfo h n else raiseE e
               | Inr nir \<Rightarrow>
                   thenE (whenE (ni_url nir = None) (backgroundMigrateNarInfo h n))
                  (thenE (maybeBackgroundMigrateNarToChunks c u)
                  (bindE (in_db (getsE db_now)) (\<lambda>now.
                     whenE (stale c now (ni_last_accessed_at nir)) (thenE (in_db (TouchNarInfo h)) (returnE ()))))))))
             (returnE n))))"

section \<open>Repairing file sizes\<close>

definition fixNarInfoFileSize :: "string \<Rightarrow> nat \<Rightarrow> (('s, 'c, 'l) cache_state, unit) prog" where
  "fixNarInfoFileSize h sz = withTransaction (in_db (UpdateNarInfoFileSize h (Some (int sz))))"

text \<open>\<open>None\<close> stands for the size \<open>-1\<close>: not known.\<close>

definition getNarActualSize :: "('s, 'c, 'l) cache_conf \<Rightarrow> nar_url \<Rightarrow> (('s, 'c, 'l) cache_state, nat option) prog" where
  "getNarActualSize c u =
     bindE (attemptE (in_db (getNarFileFromDB c u))) (\<lambda>r.
       case r of
         Inr nr \<Rightarrow> returnE (Some (nf_file_size nr))
       | Inl e \<Rightarrow> if IsNotFoundError e then returnE None else raiseE e)"

definition checkAndFixNarInfoNoCompression :: "string \<Rightarrow> narinfo_row \<Rightarrow> (('s, 'c, 'l) cache_state, unit) prog" where
  "checkAndFixNarInfoNoCompression h nir =
     thenE (whenE (ni_file_size nir \<noteq> None \<and> ni_file_size nir \<noteq> Some 0)
              (withTransaction (in_db (UpdateNarInfoFileSize h None))))
       (whenE (ni_file_hash nir \<noteq> None) (withTransaction (in_db (UpdateNarInfoFileHash h None))))"

text \<open>The test for a missing row is against \<open>sql.ErrNoRows\<close>, which the wrapper never returns.\<close>

definition CheckAndFixNarInfo :: "('s, 'c, 'l) cache_conf \<Rightarrow> string \<Rightarrow> (('s, 'c, 'l) cache_state, unit) prog" where
  "CheckAndFixNarInfo c h =
     bindE (attemptE (in_db (GetNarInfoByHash h))) (\<lambda>r.
       case r of
         Inl e \<Rightarrow> if e = ErrNoRows then returnE () else raiseE e
       | Inr nir \<Rightarrow>
           (case ni_url nir of
              None \<Rightarrow> returnE ()
            | Some t \<Rightarrow>
                bindE (liftE (ParseURL t)) (\<lambda>u.
                if url_Compression u = ''none'' then checkAndFixNarInfoNoCompression h nir
                else
                  bindE (HasNarInStore c u) (\<lambda>inStore.
                  bindE (HasNarInChunks c u) (\<lambda>inChunks.
                  if \<not> inStore \<and> \<not> inChunks then returnE ()
                  else
                    bindE (getNarActualSize c u) (\<lambda>sz.
                    case sz of
                      None \<Rightarrow> returnE ()
                    | Some k \<Rightarrow>
                        whenE (int k \<noteq> (case ni_file_size nir of None \<Rightarrow> 0 | Some i \<Rightarrow> i)) (fixNarInfoFileSize h k)))))))"

text \<open>Every narinfo of the URL is tried; the first error, if any, is the result.\<close>

primrec each_error :: "('x \<Rightarrow> ('s, unit) prog) \<Rightarrow> 'x list \<Rightarrow> ('s, unit) prog" where
  "each_error f [] = returnE ()"
| "each_error f (x # xs) =
     bindE (attemptE (f x)) (\<lambda>r.
     bindE (attemptE (each_error f xs)) (\<lambda>q.
       case r of Inl e \<Rightarrow> raiseE e | Inr _ \<Rightarrow> liftE q))"

definition checkAndFixNarInfosForNar :: "('s, 'c, 'l) cache_conf \<Rightarrow> nar_url \<Rightarrow> (('s, 'c, 'l) cache_state, unit) prog" where
  "checkAndFixNarInfosForNar c u =
     bindE (liftE (url_String u)) (\<lambda>t.
     bindE (in_db (GetNarInfoHashesByURL t)) (each_error (CheckAndFixNarInfo c)))"

section \<open>Uploading narinfos\<close>

text \<open>A narinfo whose NAR will be kept without compression loses file size and hash.\<close>

definition normalize_upload :: "('s, 'c, 'l) cache_conf \<Rightarrow> narinfo \<Rightarrow> narinfo result" where
  "normalize_upload c n =
     (if isCDCEnabled c \<or> n_Compression n = ''none'' then
        rbind (if n_Compression n \<noteq> ''none'' \<and> n_Compression n \<noteq> []
               then rbind (ParseURL (n_URL n)) (\<lambda>u.
                 rbind (url_String (u\<lparr>url_Compression := ''none''\<rparr>)) (\<lambda>t.
                   Inr (n\<lparr>n_URL := t, n_Compression := ''none''\<rparr>)))
               else Inr n)
          (\<lambda>m. Inr (m\<lparr>n_FileHash := None, n_FileSize := 0\<rparr>))
      else Inr n)"

definition PutNarInfo ::
  "('s, 'c, 'l) cache_conf \<Rightarrow> (string \<Rightarrow> narinfo result) \<Rightarrow> string \<Rightarrow> string \<Rightarrow> (('s, 'c, 'l) cache_state, unit) prog" where
  "PutNarInfo c Parse h body =
     thenE (withWriteLock c (narInfoLockKey h)
       (bindE (liftE (rbind (Parse body) (\<lambda>n. rbind (normalize_upload c n) (signNarInfo c)))) (\<lambda>n.
        thenE (storeInDatabase c h n)
          (bindE (in_store (nis_HasNarInfo (cc_narInfoStore c) h)) (\<lambda>b.
             whenE b (ignoreE (in_store (nis_DeleteNarInfo (cc_narInfoStore c) h))))))))
      (ignoreE (CheckAndFixNarInfo c h))"

section \<open>What every operation keeps\<close>

text \<open>
  What the cache needs of its environment to keep its own invariant: the operations of the stores and lockers keep theirs.
\<close>

locale cache_env =
  fixes c :: "('s, 'c, 'l) cache_conf" and ok :: "string \<Rightarrow> bool"
    and I :: "'s \<Rightarrow> bool" and K :: "'c \<Rightarrow> bool" and L :: "'l \<Rightarrow> bool"
  assumes nar_ops: "keeps I (ns_HasNar (cc_narStore c) u)" "keeps I (ns_GetNar (cc_narStore c) u)"
      "keeps I (ns_PutNar (cc_narStore c) u r)" "keeps I (ns_DeleteNar (cc_narStore c) u)"
    and narinfo_ops: "keeps I (nis_HasNarInfo (cc_narInfoStore c) h)" "keeps I (nis_GetNarInfo (cc_narInfoStore c) h)"
      "keeps I (nis_DeleteNarInfo (cc_narInfoStore c) h)"
    and chunk_ops: "cc_chunkStore c = Some cs \<Longrightarrow> keeps K (cs_GetChunk cs g)"
      "cc_chunkStore c = Some cs \<Longrightarrow> ok g \<Longrightarrow> keeps K (cs_PutChunk cs g d)"
      "cc_chunkStore c = Some cs \<Longrightarrow> keeps K (cs_GetRawChunk cs g)"
      "cc_chunkStore c = Some cs \<Longrightarrow> ok g \<Longrightarrow> keeps K (cs_DeleteChunk cs g)"
    and download_locker: "keeps L (lo_Lock (cc_downloadLocker c) k)" "keeps L (lo_TryLock (cc_downloadLocker c) k)"
      "keeps L (lo_Unlock (cc_downloadLocker c) k)"
    and cache_locker: "keeps L (lo_Lock (cc_cacheLocker c) k)" "keeps L (lo_TryLock (cc_cacheLocker c) k)"
      "keeps L (lo_Unlock (cc_cacheLocker c) k)" "keeps L (lo_RLock (cc_cacheLocker c) k)" "keeps L (lo_RUnlock (cc_cacheLocker c) k)"
begin

lemmas env_keeps = nar_ops [THEN keeps_in_store] narinfo_ops [THEN keeps_in_store]
  download_locker [THEN keeps_in_locks] cache_locker [THEN keeps_in_locks]

lemma keeps_locked:
  assumes "keeps (cache_inv ok I K L) fn"
  shows "keeps (cache_inv ok I K L) (withReadLock c key fn)" "keeps (cache_inv ok I K L) (withWriteLock c key fn)"
  unfolding withReadLock_def withWriteLock_def by (intro keeps_intros cache_keeps db_keeps env_keeps assms)+

lemma keeps_withTryLock: "keeps (cache_inv ok I K L) fn \<Longrightarrow> keeps (cache_inv ok I K L) (withTryLock c key fn)"
  unfolding withTryLock_def by (intro keeps_intros cache_keeps db_keeps env_keeps)

lemma keeps_isRemote: "keeps (cache_inv ok I K L) (isRemoteDownloadInProgress c h)"
  unfolding isRemoteDownloadInProgress_def
  by (intro keeps_bindE keeps_intros cache_keeps db_keeps env_keeps) (auto intro!: keeps_intros cache_keeps db_keeps env_keeps split: sum.split bool.split)

end

lemma keeps_getNarFileFromDB [db_keeps]: "keeps (db_wf ok) (getNarFileFromDB c u)"
  unfolding getNarFileFromDB_def nar_file_of_def by (intro keeps_intros db_keeps)

lemma keeps_not_found_false [keeps_intros]: "keeps P m \<Longrightarrow> keeps P (not_found_false m p)"
  unfolding not_found_false_def by (intro keeps_intros)

lemma keeps_unless_duplicate [keeps_intros]: "keeps P m \<Longrightarrow> keeps P (unless_duplicate m)"
  unfolding unless_duplicate_def by (intro keeps_intros)

lemma keeps_createOrUpdateNarFile [db_keeps]: "keeps (db_wf ok) (createOrUpdateNarFile u sz)"
  unfolding createOrUpdateNarFile_def nar_file_of_def by (intro keeps_intros db_keeps)

lemma keeps_upsert_narinfo [db_keeps]: "keeps (db_wf ok) (upsert_narinfo a)"
  unfolding upsert_narinfo_def by (intro keeps_intros db_keeps)

lemma keeps_populate [db_keeps]: "keeps (db_wf ok) (populateNarInfoFromDatabase c h touch)"
  unfolding populateNarInfoFromDatabase_def by (intro keeps_intros db_keeps)

lemma keeps_records [cache_keeps]:
  "keeps (cache_inv ok I K L) (ensureNarFileRecord u n)" "keeps (cache_inv ok I K L) (HasNarInChunks c u)"
  "keeps (cache_inv ok I K L) (HasNarFileRecord c u)" "keeps (cache_inv ok I K L) (GetNarFileSize c u)"
  "keeps (cache_inv ok I K L) (lookupOriginalNarURL u)" "keeps (cache_inv ok I K L) (storeInDatabase c h n')"
  "keeps (cache_inv ok I K L) (fixNarInfoFileSize h n)"
  "keeps (cache_inv ok I K L) (getNarActualSize c u)" "keeps (cache_inv ok I K L) (checkAndFixNarInfoNoCompression h nir)"
  unfolding ensureNarFileRecord_def HasNarInChunks_def HasNarFileRecord_def GetNarFileSize_def lookupOriginalNarURL_def
    storeInDatabase_def fixNarInfoFileSize_def getNarActualSize_def checkAndFixNarInfoNoCompression_def nar_file_of_def
  by (intro keeps_intros cache_keeps db_keeps)+

lemma keeps_storeNarInfoInDatabase [cache_keeps]: "keeps (cache_inv ok I K L) (storeNarInfoInDatabase lib h n)"
  unfolding storeNarInfoInDatabase_def by (intro keeps_executeTransaction keeps_intros cache_keeps db_keeps)

lemma keeps_background [cache_keeps]:
  "keeps (cache_inv ok I K L) (backgroundMigrateNarInfo h n)" "keeps (cache_inv ok I K L) (BackgroundMigrateNarToChunks u)"
  "keeps (cache_inv ok I K L) (maybeBackgroundMigrateNarToChunks c u)"
  unfolding backgroundMigrateNarInfo_def BackgroundMigrateNarToChunks_def maybeBackgroundMigrateNarToChunks_def
  by (intro keeps_intros cache_keeps)+

lemma keeps_each_error [keeps_intros]: "(\<And>x. keeps P (f x)) \<Longrightarrow> keeps P (each_error f xs)"
  by (induction xs) (auto intro!: keeps_intros)

context cache_env
begin

lemma keeps_HasNarInStore: "keeps (cache_inv ok I K L) (HasNarInStore c u)"
  unfolding HasNarInStore_def Let_def by (intro keeps_intros cache_keeps db_keeps env_keeps)

lemma keeps_deleteNarInfoFromStore: "keeps (cache_inv ok I K L) (deleteNarInfoFromStore c h)"
  unfolding deleteNarInfoFromStore_def by (intro keeps_intros cache_keeps db_keeps env_keeps)

lemma keeps_deleteNarFromStore: "keeps (cache_inv ok I K L) (deleteNarFromStore c u)"
  unfolding deleteNarFromStore_def nar_file_of_def by (intro keeps_intros cache_keeps db_keeps env_keeps keeps_HasNarInStore)

lemma keeps_purgeNarInfo: "keeps (cache_inv ok I K L) (purgeNarInfo c h u)"
  unfolding purgeNarInfo_def nar_file_of_def
  by (intro keeps_intros cache_keeps db_keeps env_keeps keeps_HasNarInStore keeps_deleteNarInfoFromStore keeps_deleteNarFromStore)

lemma keeps_MigrateNarInfo: "keeps (cache_inv ok I K L) (MigrateNarInfoToDatabase c h n del)"
proof -
  have "keeps (cache_inv ok I K L) (case if del then Some (cc_narInfoStore c) else None of
      None \<Rightarrow> returnE () | Some st \<Rightarrow> ignoreE (in_store (nis_DeleteNarInfo st h)))"
    by (auto intro!: keeps_intros env_keeps)
  then show ?thesis
    unfolding MigrateNarInfoToDatabase_def MigrateNarInfo_def
    by (intro keeps_bindE keeps_if keeps_finallyE keeps_thenE keeps_attemptE keeps_returnE cache_keeps db_keeps env_keeps)
qed

lemma keeps_getNarInfoFromDatabase: "keeps (cache_inv ok I K L) (getNarInfoFromDatabase c h)"
  unfolding getNarInfoFromDatabase_def by (intro keeps_intros cache_keeps db_keeps env_keeps keeps_HasNarInStore keeps_isRemote keeps_purgeNarInfo)

lemma keeps_getNarInfoFromStore: "keeps (cache_inv ok I K L) (getNarInfoFromStore c h)"
  unfolding getNarInfoFromStore_def by (intro keeps_intros cache_keeps db_keeps env_keeps keeps_HasNarInStore keeps_purgeNarInfo)

lemma keeps_CheckAndFixNarInfo: "keeps (cache_inv ok I K L) (CheckAndFixNarInfo c h)"
  unfolding CheckAndFixNarInfo_def by (intro keeps_intros cache_keeps db_keeps env_keeps keeps_HasNarInStore)

lemma keeps_checkAndFixNarInfosForNar: "keeps (cache_inv ok I K L) (checkAndFixNarInfosForNar c u)"
  unfolding checkAndFixNarInfosForNar_def by (intro keeps_intros cache_keeps db_keeps env_keeps keeps_CheckAndFixNarInfo)

lemma keeps_PutNarInfo: "keeps (cache_inv ok I K L) (PutNarInfo c Parse h body)"
  unfolding PutNarInfo_def by (intro keeps_intros cache_keeps db_keeps env_keeps keeps_locked keeps_CheckAndFixNarInfo)

lemmas narinfo_keeps = keeps_HasNarInStore keeps_deleteNarInfoFromStore keeps_deleteNarFromStore keeps_purgeNarInfo
  keeps_MigrateNarInfo keeps_getNarInfoFromDatabase keeps_getNarInfoFromStore keeps_CheckAndFixNarInfo
  keeps_checkAndFixNarInfosForNar keeps_PutNarInfo keeps_isRemote

end

end
