(* ===== verification/Cache_CDC.thy ===== *)
theory Cache_CDC
  imports Cache_NarInfo
begin

text \<open>
  The content-defined chunking of \<open>pkg/cache/cache.go\<close>: cutting a NAR into chunks that are kept once each, recording them in batches, serving the NAR
  from its chunks, and migrating whole NARs.

  \<open>storeNarWithCDCFromReader\<close> waits in a \<open>select\<close> for the next chunk, an error of the chunker, the timer that flushes a batch, and the end
  of the context. Which of them is taken is a schedule, a list of \<open>cdc_event\<close>; when it is used up the next chunk is taken. The chunker closes
  its channel of chunks after an error as well as at the end of the stream, so both the error and the closed channel can be ready.
\<close>

datatype cdc_event = TakeChunk | TakeError | TakeTimer | TakeDone err

definition cdcMaxBatchSize :: nat where "cdcMaxBatchSize = 100"

text \<open>One hour, in seconds.\<close>

definition cdcChunkingLockTTL :: nat where "cdcChunkingLockTTL = 3600"

section \<open>Recording chunks\<close>

text \<open>Whether this call may chunk the NAR; a claim older than the limit is taken over and its chunks are given back.\<close>

definition claim_nar_file :: "nar_url \<Rightarrow> nat \<Rightarrow> (database, nat \<times> chunk_row list) prog" where
  "claim_nar_file u fileSize =
     bindE (nar_file_of u (\<lambda>h cm q. CreateNarFile h cm q fileSize 0)) (\<lambda>nr.
     thenE (whenE (nf_file_size nr \<noteq> fileSize \<and> nf_total_chunks nr = 0) (UpdateNarFileFileSize (nf_id nr) fileSize))
     (if nf_total_chunks nr > 0 then raiseE ErrAlreadyExists
      else bindE (getsE db_now) (\<lambda>now.
        bindE (case nf_chunking_started_at nr of
                 None \<Rightarrow> returnE []
               | Some t \<Rightarrow>
                   if now < t + cdcChunkingLockTTL then raiseE ErrAlreadyExists
                   else bindE (GetChunksByNarFileID (nf_id nr)) (\<lambda>partial.
                     thenE (DeleteNarFileChunksByNarFileID (nf_id nr)) (returnE partial))) (\<lambda>staleLockChunks.
        thenE (SetNarFileChunkingStarted (nf_id nr)) (returnE (nf_id nr, staleLockChunks))))))"

definition findOrCreateNarFileForCDC :: "nar_url \<Rightarrow> nat \<Rightarrow> (('s, 'c, 'l) cache_state, nat \<times> chunk_row list) prog" where
  "findOrCreateNarFileForCDC u fileSize = withTransaction (in_db (claim_nar_file u fileSize))"

definition cleanupStaleLockChunks :: "'c chunk_store \<Rightarrow> chunk_row list \<Rightarrow> (('s, 'c, 'l) cache_state, unit) prog" where
  "cleanupStaleLockChunks cs staleLockChunks =
     (if staleLockChunks = [] then returnE ()
      else bindE (attemptE (in_db GetOrphanedChunks)) (\<lambda>r.
        case r of
          Inl _ \<Rightarrow> returnE ()
        | Inr orphaned \<Rightarrow>
            forE orphaned (\<lambda>oc.
              case map_of (rev (map (\<lambda>ch. (ck_id ch, ck_hash ch)) staleLockChunks)) (ck_id oc) of
                None \<Rightarrow> returnE ()
              | Some hash \<Rightarrow>
                  bindE (attemptE (in_db (DeleteChunkByID (ck_id oc)))) (\<lambda>d.
                    case d of Inl _ \<Rightarrow> returnE () | Inr _ \<Rightarrow> ignoreE (in_chunks (cs_DeleteChunk cs hash))))))"

definition relinkNarInfosToNarFile :: "nar_url \<Rightarrow> nat \<Rightarrow> (database, unit) prog" where
  "relinkNarInfosToNarFile u narFileID = bindE (liftE (url_String u)) (LinkNarInfosByURLToNarFile narFileID)"

definition recordChunkBatch :: "nat \<Rightarrow> nat \<Rightarrow> chunk list \<Rightarrow> (('s, 'c, 'l) cache_state, unit) prog" where
  "recordChunkBatch narFileID startIndex batch =
     (if batch = [] then returnE ()
      else withTransaction (in_db (
        bindE (mapE (\<lambda>ch. bindE (CreateChunk (ch_Hash ch) (ch_Size ch) (ch_CompressedSize ch)) (\<lambda>row. returnE (ck_id row))) batch)
          (\<lambda>ids. LinkNarFileToChunks narFileID ids (map (\<lambda>i. startIndex + i) [0..<length batch])))))"

section \<open>Storing a NAR as chunks\<close>

definition maybeDecompressReader :: "chunk_lib \<Rightarrow> reader \<Rightarrow> string \<Rightarrow> reader" where
  "maybeDecompressReader lib r ct =
     (if ct = ''none'' then r else (case DecompressReader lib r ct of Inr d \<Rightarrow> d | Inl _ \<Rightarrow> r))"

text \<open>The channel of chunks is closed: the last batch, the check of the size, and the transaction that marks the NAR as complete.\<close>

definition finish_chunking :: "nat \<Rightarrow> nat \<Rightarrow> nat \<Rightarrow> nat \<Rightarrow> chunk list \<Rightarrow> (('s, 'c, 'l) cache_state, unit) prog" where
  "finish_chunking narFileID fileSize chunkCount totalSize batch =
     thenE (recordChunkBatch narFileID chunkCount batch)
     (if fileSize > 0 \<and> totalSize \<noteq> fileSize then raiseE ErrUnexpectedEOF
      else withTransaction (in_db (UpdateNarFileTotalChunks narFileID (int (chunkCount + length batch)) totalSize)))"

text \<open>A chunk is put into the store and joins the batch, which is recorded when it is full; the loop goes on with the batch and the count.\<close>

definition take_chunk ::
  "'c chunk_store \<Rightarrow> nat \<Rightarrow> chunk \<Rightarrow> chunk list \<Rightarrow> nat \<Rightarrow> (chunk list \<Rightarrow> nat \<Rightarrow> (('s, 'c, 'l) cache_state, unit) prog)
   \<Rightarrow> (('s, 'c, 'l) cache_state, unit) prog" where
  "take_chunk cs narFileID ch batch chunkCount loop =
     bindE (in_chunks (cs_PutChunk cs (ch_Hash ch) (ch_Data ch))) (\<lambda>(_, compressedSize).
       let batch' = batch @ [ch\<lparr>ch_CompressedSize := compressedSize mod 2 ^ 32\<rparr>] in
       if length batch' \<ge> cdcMaxBatchSize
       then thenE (recordChunkBatch narFileID chunkCount batch') (loop [] (chunkCount + length batch'))
       else loop batch' chunkCount)"

fun chunk_loop ::
  "'c chunk_store \<Rightarrow> nat \<Rightarrow> nat \<Rightarrow> cdc_event list \<Rightarrow> chunk list \<Rightarrow> err option \<Rightarrow> chunk list \<Rightarrow> nat \<Rightarrow> nat
   \<Rightarrow> (('s, 'c, 'l) cache_state, unit) prog" where
  "chunk_loop cs narFileID fileSize (TakeDone e # sched) pending failure batch chunkCount totalSize = raiseE e"
| "chunk_loop cs narFileID fileSize (TakeError # sched) pending failure batch chunkCount totalSize =
     (case (pending, failure) of
        ([], Some e) \<Rightarrow> raiseE e
      | _ \<Rightarrow> chunk_loop cs narFileID fileSize sched pending failure batch chunkCount totalSize)"
| "chunk_loop cs narFileID fileSize (TakeTimer # sched) pending failure batch chunkCount totalSize =
     thenE (recordChunkBatch narFileID chunkCount batch)
       (chunk_loop cs narFileID fileSize sched pending failure [] (chunkCount + length batch) totalSize)"
| "chunk_loop cs narFileID fileSize (TakeChunk # sched) [] failure batch chunkCount totalSize =
     finish_chunking narFileID fileSize chunkCount totalSize batch"
| "chunk_loop cs narFileID fileSize (TakeChunk # sched) (ch # pending) failure batch chunkCount totalSize =
     take_chunk cs narFileID ch batch chunkCount
       (\<lambda>batch' count. chunk_loop cs narFileID fileSize sched pending failure batch' count (totalSize + ch_Size ch))"
| "chunk_loop cs narFileID fileSize [] [] failure batch chunkCount totalSize =
     finish_chunking narFileID fileSize chunkCount totalSize batch"
| "chunk_loop cs narFileID fileSize [] (ch # pending) failure batch chunkCount totalSize =
     take_chunk cs narFileID ch batch chunkCount
       (\<lambda>batch' count. chunk_loop cs narFileID fileSize [] pending failure batch' count (totalSize + ch_Size ch))"

definition run_chunker ::
  "('s, 'c, 'l) cache_conf \<Rightarrow> cdc_event list \<Rightarrow> reader \<Rightarrow> nat \<Rightarrow> string \<Rightarrow> nat \<Rightarrow> chunk_row list \<Rightarrow> (('s, 'c, 'l) cache_state, unit) prog" where
  "run_chunker c sched r fileSize original narFileID staleLockChunks =
     (case (cc_cdcEnabled c, cc_chunkStore c) of
        (True, Some cs) \<Rightarrow>
          thenE (cleanupStaleLockChunks cs staleLockChunks)
          (case CDCChunker_Chunk (cc_chunkLib c) (maybeDecompressReader (cc_chunkLib c) r original) of (chunks, failure) \<Rightarrow>
             chunk_loop cs narFileID fileSize sched chunks failure [] 0 0)
      | _ \<Rightarrow> raiseE ErrCDCDisabled)"

definition storeNarWithCDCFromReader ::
  "('s, 'c, 'l) cache_conf \<Rightarrow> cdc_event list \<Rightarrow> (('s, 'c, 'l) cache_state, unit) prog \<Rightarrow> reader \<Rightarrow> nat \<Rightarrow> nar_url
   \<Rightarrow> (('s, 'c, 'l) cache_state, unit) prog" where
  "storeNarWithCDCFromReader c sched onNarFileReady r fileSize u =
     bindE (liftE (url_String u)) (\<lambda>_.
     bindE (attemptE (findOrCreateNarFileForCDC (u\<lparr>url_Compression := ''none''\<rparr>) fileSize)) (\<lambda>found.
       case found of
         Inl e \<Rightarrow> if e = ErrAlreadyExists then onNarFileReady else raiseE e
       | Inr (narFileID, staleLockChunks) \<Rightarrow>
           bindE (attemptE (thenE onNarFileReady
                    (run_chunker c sched r fileSize (url_Compression u) narFileID staleLockChunks))) (\<lambda>res.
           case res of
             Inl e \<Rightarrow> thenE (ignoreE (in_db (ClearNarFileChunkingStarted narFileID))) (raiseE e)
           | Inr _ \<Rightarrow>
               whenE (url_Compression u \<noteq> ''none'' \<and> \<not> cc_cdcLazyChunking c)
                 (ignoreE (withTransaction (in_db (
                    thenE (nar_file_of u DeleteNarFileByHash) (relinkNarInfosToNarFile u narFileID))))))))"

text \<open>The file a NAR was copied to, as a reader; its size is not that of the NAR, so there is nothing to check.\<close>

definition storeNarWithCDC ::
  "('s, 'c, 'l) cache_conf \<Rightarrow> cdc_event list \<Rightarrow> (('s, 'c, 'l) cache_state, unit) prog \<Rightarrow> reader \<Rightarrow> nar_url
   \<Rightarrow> (('s, 'c, 'l) cache_state, unit) prog" where
  "storeNarWithCDC c sched onNarFileReady file u = storeNarWithCDCFromReader c sched onNarFileReady file 0 u"

section \<open>Serving a NAR from its chunks\<close>

text \<open>
  The context of the request, as a stream sees it: \<open>None\<close> as long as the request lasts; \<open>Some (k, quietly, e)\<close> when it has ended with \<open>e\<close> by the time the stream looks for the
  \<open>(k + 1)\<close>-th time. The prefetching goroutine looks before it fetches a chunk and when it sends one. Before a fetch the error is sent, unless the send loses against the same
  context (\<open>quietly\<close>); a chunk that is not sent any more ends the goroutine without an error. Its channel is closed in every case.
\<close>

type_synonym stream_ctx = "(nat \<times> bool \<times> err) option"

definition ended :: "stream_ctx \<Rightarrow> (bool \<times> err) option" where
  "ended cx = (case cx of Some (0, x) \<Rightarrow> Some x | _ \<Rightarrow> None)"

definition looked :: "stream_ctx \<Rightarrow> stream_ctx" where
  "looked cx = map_option (\<lambda>(k, x). (k - 1, x)) cx"

lemma no_end [simp]: "ended None = None" "looked None = None"
  by (simp_all add: ended_def looked_def)

definition fetch_chunk :: "'c chunk_store \<Rightarrow> bool \<Rightarrow> string \<Rightarrow> (('s, 'c, 'l) cache_state, bytes result) prog" where
  "fetch_chunk cs raw h = attemptE (in_chunks (if raw then cs_GetRawChunk cs h else cs_GetChunk cs h))"

text \<open>What is written to the pipe: the bytes, and the error the pipe is closed with.\<close>

primrec streamChunksWithPrefetch :: "'c chunk_store \<Rightarrow> bool \<Rightarrow> string list \<Rightarrow> stream_ctx \<Rightarrow> (('s, 'c, 'l) cache_state, reader) prog" where
  "streamChunksWithPrefetch cs raw [] cx = returnE (reader_of [])"
| "streamChunksWithPrefetch cs raw (h # hs) cx =
     (case ended cx of
        Some (quietly, e) \<Rightarrow> returnE (if quietly then reader_of [] else \<lparr>rd_data = [], rd_err = Some e\<rparr>)
      | None \<Rightarrow>
          bindE (fetch_chunk cs raw h) (\<lambda>r.
          if ended (looked cx) \<noteq> None then returnE (reader_of [])
          else (case r of
             Inl e \<Rightarrow> returnE \<lparr>rd_data = [], rd_err = Some e\<rparr>
           | Inr b \<Rightarrow> bindE (streamChunksWithPrefetch cs raw hs (looked (looked cx))) (\<lambda>rest. returnE (rest\<lparr>rd_data := b @ rd_data rest\<rparr>)))))"

definition streamCompleteChunks :: "'c chunk_store \<Rightarrow> nat \<Rightarrow> int \<Rightarrow> bool \<Rightarrow> stream_ctx \<Rightarrow> (('s, 'c, 'l) cache_state, reader) prog" where
  "streamCompleteChunks cs narFileID totalChunks raw cx =
     bindE (attemptE (in_db (GetChunksByNarFileID narFileID))) (\<lambda>r.
       case r of
         Inl e \<Rightarrow> returnE \<lparr>rd_data = [], rd_err = Some e\<rparr>
       | Inr rows \<Rightarrow>
           if int (length rows) \<noteq> totalChunks then returnE \<lparr>rd_data = [], rd_err = Some ErrNotFound\<rparr>
           else streamChunksWithPrefetch cs raw (map ck_hash rows) cx)"

text \<open>The record of the NAR, touched when it is old.\<close>

definition init_chunk_stream :: "('s, 'c, 'l) cache_conf \<Rightarrow> nar_url \<Rightarrow> (('s, 'c, 'l) cache_state, nar_file_row) prog" where
  "init_chunk_stream c u =
     withTransaction (in_db (
       bindE (getNarFileFromDB c u) (\<lambda>nr.
       bindE (getsE db_now) (\<lambda>now.
       thenE (if stale c now (nf_last_accessed_at nr) then thenE (nar_file_of u TouchNarFile) (returnE ()) else returnE ())
         (returnE nr)))))"

text \<open>
  While a NAR is still being chunked, the chunks are streamed as they appear. Other goroutines change the state between any two queries of the
  stream: before each query one step of the environment happens. The stream is at one of four queries; \<open>WaitBatch\<close> and \<open>WaitRecord\<close> are
  those of the waiting loop with the number of polls so far. A poll comes every 200 ms and the wait for a chunk ends after 30 s. The stream looks at its context before the first
  query of every round and while it waits for a poll, where the error is sent, and whenever it sends a chunk, where it is not.
\<close>

datatype poll_point = AskBatch | AskRecord | WaitBatch nat | WaitRecord nat

record stream_state =
  ss_point :: poll_point
  ss_chunkIndex :: nat
  ss_totalChunks :: int
  ss_context :: stream_ctx

datatype stream_step = Continue stream_state bytes | Finish bytes "err option"

definition progressivePollBatchSize :: nat where "progressivePollBatchSize = 256"

definition maxPolls :: nat where "maxPolls = 150"

definition stream_done :: "stream_state \<Rightarrow> bool" where
  "stream_done st \<longleftrightarrow> ss_totalChunks st > 0 \<and> int (ss_chunkIndex st) \<ge> ss_totalChunks st"

text \<open>A batch of chunks goes to the pipe, as far as the context lasts; the flag says that it has ended.\<close>

primrec feed_chunks :: "'c chunk_store \<Rightarrow> bool \<Rightarrow> string list \<Rightarrow> stream_ctx \<Rightarrow> (('s, 'c, 'l) cache_state, reader \<times> stream_ctx \<times> bool) prog" where
  "feed_chunks cs raw [] cx = returnE (reader_of [], cx, False)"
| "feed_chunks cs raw (h # hs) cx =
     bindE (fetch_chunk cs raw h) (\<lambda>r.
       if ended cx \<noteq> None then returnE (reader_of [], cx, True)
       else (case r of
          Inl e \<Rightarrow> returnE (\<lparr>rd_data = [], rd_err = Some e\<rparr>, looked cx, False)
        | Inr b \<Rightarrow> bindE (feed_chunks cs raw hs (looked cx)) (\<lambda>(rest, cx', cut). returnE (rest\<lparr>rd_data := b @ rd_data rest\<rparr>, cx', cut))))"

definition feed_batch :: "'c chunk_store \<Rightarrow> bool \<Rightarrow> stream_state \<Rightarrow> chunk_row list \<Rightarrow> (('s, 'c, 'l) cache_state, stream_step) prog" where
  "feed_batch cs raw st batch =
     bindE (feed_chunks cs raw (map ck_hash batch) (ss_context st)) (\<lambda>(out, cx, cut).
       case rd_err out of
         Some e \<Rightarrow> returnE (Finish (rd_data out) (Some e))
       | None \<Rightarrow>
           (let st' = st\<lparr>ss_point := AskBatch, ss_chunkIndex := ss_chunkIndex st + length batch, ss_context := cx\<rparr> in
            returnE (if cut \<or> stream_done st' then Finish (rd_data out) None else Continue st' (rd_data out))))"

definition stream_query ::
  "(database, 'a) prog \<Rightarrow> ('a \<Rightarrow> (('s, 'c, 'l) cache_state, stream_step) prog) \<Rightarrow> (('s, 'c, 'l) cache_state, stream_step) prog" where
  "stream_query q k =
     bindE (attemptE (in_db q)) (\<lambda>r. case r of Inl e \<Rightarrow> returnE (Finish [] (Some e)) | Inr x \<Rightarrow> k x)"

definition looking :: "stream_state \<Rightarrow> (stream_state \<Rightarrow> (('s, 'c, 'l) cache_state, stream_step) prog) \<Rightarrow> (('s, 'c, 'l) cache_state, stream_step) prog" where
  "looking st k =
     (case ended (ss_context st) of
        Some (_, e) \<Rightarrow> returnE (Finish [] (Some e))
      | None \<Rightarrow> k (st\<lparr>ss_context := looked (ss_context st)\<rparr>))"

definition stream_step_at :: "'c chunk_store \<Rightarrow> bool \<Rightarrow> nat \<Rightarrow> stream_state \<Rightarrow> (('s, 'c, 'l) cache_state, stream_step) prog" where
  "stream_step_at cs raw narFileID st =
     (let ask = GetChunksByNarFileIDFromIndex narFileID (ss_chunkIndex st) progressivePollBatchSize in
      case ss_point st of
        AskBatch \<Rightarrow>
          looking st (\<lambda>st. stream_query ask (\<lambda>batch.
            if batch \<noteq> [] then feed_batch cs raw st batch
            else if ss_totalChunks st = 0 then returnE (Continue (st\<lparr>ss_point := AskRecord\<rparr>) [])
            else if stream_done st then returnE (Finish [] None)
            else returnE (Continue (st\<lparr>ss_point := WaitBatch 0\<rparr>) [])))
      | AskRecord \<Rightarrow>
          stream_query (GetNarFileByID narFileID) (\<lambda>nr.
            let st' = st\<lparr>ss_totalChunks := nf_total_chunks nr\<rparr> in
            if nf_total_chunks nr = 0 \<and> nf_chunking_started_at nr = None then returnE (Finish [] (Some ErrNotFound))
            else if stream_done st' then returnE (Finish [] None)
            else returnE (Continue (st'\<lparr>ss_point := WaitBatch 0\<rparr>) []))
      | WaitBatch polls \<Rightarrow>
          looking st (\<lambda>st. stream_query ask (\<lambda>batch.
            if batch \<noteq> [] then feed_batch cs raw st batch
            else returnE (Continue (st\<lparr>ss_point := WaitRecord polls\<rparr>) [])))
      | WaitRecord polls \<Rightarrow>
          stream_query (GetNarFileByID narFileID) (\<lambda>nr.
            if nf_total_chunks nr > 0 then
              (let st' = st\<lparr>ss_totalChunks := nf_total_chunks nr\<rparr> in
               if stream_done st' then returnE (Finish [] None) else returnE (Continue (st'\<lparr>ss_point := AskBatch\<rparr>) []))
            else if nf_chunking_started_at nr = None then returnE (Finish [] (Some ErrNotFound))
            else if polls + 1 \<ge> maxPolls then returnE (Finish [] (Some ErrDeadlineExceeded))
            else returnE (Continue (st\<lparr>ss_point := WaitBatch (polls + 1)\<rparr>) [])))"

text \<open>\<open>None\<close>: the stream is still open after the given steps of the environment.\<close>

primrec run_stream ::
  "'c chunk_store \<Rightarrow> bool \<Rightarrow> nat \<Rightarrow> (('s, 'c, 'l) cache_state \<Rightarrow> ('s, 'c, 'l) cache_state) list \<Rightarrow> stream_state
   \<Rightarrow> (('s, 'c, 'l) cache_state, reader option) prog" where
  "run_stream cs raw narFileID [] st = returnE None"
| "run_stream cs raw narFileID (env # envs) st =
     thenE (modifyE env) (bindE (stream_step_at cs raw narFileID st) (\<lambda>res.
       case res of
         Finish b e \<Rightarrow> returnE (Some \<lparr>rd_data = b, rd_err = e\<rparr>)
       | Continue st' b \<Rightarrow>
           bindE (run_stream cs raw narFileID envs st') (\<lambda>out. returnE (map_option (\<lambda>r. r\<lparr>rd_data := b @ rd_data r\<rparr>) out))))"

definition streamProgressiveChunks ::
  "'c chunk_store \<Rightarrow> bool \<Rightarrow> nat \<Rightarrow> stream_ctx \<Rightarrow> (('s, 'c, 'l) cache_state \<Rightarrow> ('s, 'c, 'l) cache_state) list
   \<Rightarrow> (('s, 'c, 'l) cache_state, reader option) prog" where
  "streamProgressiveChunks cs raw narFileID cx envs =
     run_stream cs raw narFileID envs \<lparr>ss_point = AskBatch, ss_chunkIndex = 0, ss_totalChunks = 0, ss_context = cx\<rparr>"

definition getNarFromChunks ::
  "('s, 'c, 'l) cache_conf \<Rightarrow> stream_ctx \<Rightarrow> (('s, 'c, 'l) cache_state \<Rightarrow> ('s, 'c, 'l) cache_state) list \<Rightarrow> nar_url
   \<Rightarrow> (('s, 'c, 'l) cache_state, nat \<times> reader option) prog" where
  "getNarFromChunks c cx envs u =
     (case (cc_cdcEnabled c, cc_chunkStore c) of
        (True, Some cs) \<Rightarrow>
          bindE (liftE (url_String u)) (\<lambda>_.
          bindE (init_chunk_stream c u) (\<lambda>nr.
          bindE (if nf_total_chunks nr > 0
                 then bindE (streamCompleteChunks cs (nf_id nr) (nf_total_chunks nr) False cx) (\<lambda>out. returnE (Some out))
                 else streamProgressiveChunks cs False (nf_id nr) cx envs) (\<lambda>out.
          returnE (nf_file_size nr, out))))
      | _ \<Rightarrow> raiseE ErrNotFound)"

section \<open>Migrating whole NARs\<close>

definition delete_first :: "('s, 'c, 'l) cache_conf \<Rightarrow> nar_url list \<Rightarrow> (('s, 'c, 'l) cache_state, unit) prog" where
  "delete_first c us =
     foldr (\<lambda>u rest. bindE (attemptE (in_store (ns_DeleteNar (cc_narStore c) u))) (\<lambda>r.
        case r of Inr _ \<Rightarrow> returnE () | Inl _ \<Rightarrow> rest)) us (returnE ())"

definition migrateNarToChunksCleanup :: "('s, 'c, 'l) cache_conf \<Rightarrow> nar_url \<Rightarrow> (('s, 'c, 'l) cache_state, unit) prog" where
  "migrateNarToChunksCleanup c u =
     bindE (liftE (url_String u)) (\<lambda>old.
     bindE (liftE (url_String (mk_nar_url (url_Hash u) ''none'' (url_Query u)))) (\<lambda>new.
     thenE (ignoreE (in_db (UpdateNarInfoCompressionFileSizeHashAndURL ''none'' new None None old)))
     (if cc_cdcLazyChunking c then returnE ()
      else delete_first c (u # (if url_Compression u \<noteq> ''zstd'' then [mk_nar_url (url_Hash u) ''zstd'' (url_Query u)] else [])))))"

text \<open>\<open>copy\<close> is the copy of the NAR to a temporary file, which may fail.\<close>

definition MigrateNarToChunks ::
  "('s, 'c, 'l) cache_conf \<Rightarrow> cdc_event list \<Rightarrow> (bytes \<Rightarrow> reader result) \<Rightarrow> nar_url \<Rightarrow> (('s, 'c, 'l) cache_state, unit) prog" where
  "MigrateNarToChunks c sched copy u =
     (if \<not> isCDCEnabled c then raiseE ErrCDCDisabled
      else
        bindE (in_locks (lo_TryLock (cc_downloadLocker c) (''migration-to-chunks:'' @ url_Hash u))) (\<lambda>acquired.
        if \<not> acquired then raiseE ErrMigrationInProgress
        else finallyE
          (bindE (HasNarInChunks c u) (\<lambda>hasChunks.
             if hasChunks then
               thenE (whenE (url_Compression u \<noteq> ''none'') (migrateNarToChunksCleanup c u)) (raiseE ErrNarAlreadyChunked)
             else
               bindE (in_store (ns_GetNar (cc_narStore c) u)) (\<lambda>(_, b).
               bindE (liftE (copy b)) (\<lambda>file.
               thenE (storeNarWithCDC c sched (returnE ()) file u) (migrateNarToChunksCleanup c u)))))
          (in_locks (lo_Unlock (cc_downloadLocker c) (''migration-to-chunks:'' @ url_Hash u)))))"

section \<open>What every operation keeps\<close>

lemma linked_rows: "(k, row) \<in> set (linked_chunks d j) \<Longrightarrow> row \<in> set (db_chunks d)"
  by (auto simp: linked_chunks_def)

lemma GetChunksByNarFileID_ok:
  "db_wf ok d \<Longrightarrow> GetChunksByNarFileID j d = (Inr rows, d') \<Longrightarrow> list_all (\<lambda>row. ok (ck_hash row)) rows"
  by (auto simp: GetChunksByNarFileID_def select_def db_call_def list_all_iff db_wf_def linked_chunks_def
      split: list.splits option.splits)

lemma db_wf_tables: "tables d = tables e \<Longrightarrow> db_wf ok d = db_wf ok e"
proof -
  assume "tables d = tables e"
  then have "db_wf ok (tables d) = db_wf ok (tables e)" by simp
  then show ?thesis by (simp add: tables_def db_wf_def fk_wf_def links_wf_def)
qed

lemma withTransaction_value:
  fixes s t :: "('s, 'c, 'l) cache_state"
  assumes "\<And>d x d'. db_wf ok d \<Longrightarrow> m d = (Inr x, d') \<Longrightarrow> R x"
    and "db_wf ok (cst_db s)" "withTransaction (in_db m) s = (Inr x, t)"
  shows "R x"
proof -
  have "attempts maxAttempts (in_db m) s = (Inr x, t)" using assms(3) by (simp add: withTransaction_def)
  from attempts_ok [OF this] obtain u v :: "('s, 'c, 'l) cache_state"
    where u: "tables (cst_db u) = tables (cst_db s)" "in_db m u = (Inr x, v)" by blast
  then show ?thesis
    using assms(1) [of "cst_db u" x] assms(2) db_wf_tables [OF u(1)] by (auto simp: in_db_def split: prod.splits)
qed

lemma claim_stale_ok:
  assumes "db_wf ok d" "claim_nar_file u fileSize d = (Inr x, d')"
  shows "list_all (\<lambda>row. ok (ck_hash row)) (snd x)"
proof -
  let ?create = "nar_file_of u (\<lambda>h cm q. CreateNarFile h cm q fileSize 0)"
  from assms(2) obtain nr d1 where c: "?create d = (Inr nr, d1)"
    by (auto simp: claim_nar_file_def bindE_Inr)
  have w1: "db_wf ok d1" using keepsD [OF keeps_CreateNarFile assms(1)] c by (metis nar_file_of_def snd_conv)
  let ?upd = "whenE (nf_file_size nr \<noteq> fileSize \<and> nf_total_chunks nr = 0) (UpdateNarFileFileSize (nf_id nr) fileSize)"
  from assms(2) c obtain d2 where u: "?upd d1 = (Inr (), d2)" by (auto simp: claim_nar_file_def bindE_Inr thenE_def)
  have "keeps (db_wf ok) ?upd" by (intro keeps_intros db_keeps)
  then have w2: "db_wf ok d2" using w1 u keepsD by fastforce
  show ?thesis
    using assms(2) c u GetChunksByNarFileID_ok [OF w2]
    by (auto simp: claim_nar_file_def bindE_Inr thenE_def returnE_def raiseE_def getsE_def split: if_splits option.splits)
qed

lemma keeps_finds [cache_keeps]: "keeps (cache_inv ok I K L) (findOrCreateNarFileForCDC u n)"
  unfolding findOrCreateNarFileForCDC_def claim_nar_file_def nar_file_of_def by (intro keeps_intros cache_keeps db_keeps)

lemma triple_find:
  "triple (cache_inv ok I K L) (findOrCreateNarFileForCDC u n)
     (\<lambda>x s. cache_inv ok I K L s \<and> list_all (\<lambda>row. ok (ck_hash row)) (snd x)) (\<lambda>_. cache_inv ok I K L)"
proof (rule tripleI, goal_cases)
  case (1 s x t)
  then have wf: "db_wf ok (cst_db s)" by (simp add: cache_inv_def)
  have run: "withTransaction (in_db (claim_nar_file u n)) s = (Inr x, t)"
    using 1(2) by (simp only: findOrCreateNarFileForCDC_def)
  have "list_all (\<lambda>row. ok (ck_hash row)) (snd x)"
    by (rule withTransaction_value [where R = "\<lambda>x. list_all (\<lambda>row. ok (ck_hash row)) (snd x)", OF claim_stale_ok wf run])
  with keepsD [OF keeps_finds 1(1), of u n] 1(2) show ?case by simp
next
  case (2 s e t)
  with keepsD [OF keeps_finds 2(1), of u n] show ?case by simp
qed

lemma keeps_relink [db_keeps]: "keeps (db_wf ok) (relinkNarInfosToNarFile u i)"
  unfolding relinkNarInfosToNarFile_def by (intro keeps_intros db_keeps)

lemma keeps_init_chunk_stream [cache_keeps]: "keeps (cache_inv ok I K L) (init_chunk_stream c u)"
  unfolding init_chunk_stream_def nar_file_of_def by (intro keeps_intros cache_keeps db_keeps)

lemma keeps_mapE_mem: "(\<And>x. x \<in> set xs \<Longrightarrow> keeps P (f x)) \<Longrightarrow> keeps P (mapE f xs)"
  by (induction xs) (auto intro!: keeps_intros)

lemma keeps_recordChunkBatch:
  assumes "list_all (\<lambda>ch. ok (ch_Hash ch)) batch"
  shows "keeps (cache_inv ok I K L) (recordChunkBatch i n batch)"
  unfolding recordChunkBatch_def
  by (intro keeps_if keeps_returnE keeps_withTransaction keeps_in_db keeps_bindE keeps_mapE_mem db_keeps)
    (use assms in \<open>auto simp: list_all_iff\<close>)

lemma keeps_finish_chunking:
  "list_all (\<lambda>ch. ok (ch_Hash ch)) batch \<Longrightarrow> keeps (cache_inv ok I K L) (finish_chunking i n k z batch)"
  unfolding finish_chunking_def by (intro keeps_intros keeps_recordChunkBatch cache_keeps db_keeps)

context cache_env
begin

lemma keeps_cleanupStale:
  assumes "cc_chunkStore c = Some cs" "list_all (\<lambda>row. ok (ck_hash row)) rows"
  shows "keeps (cache_inv ok I K L) (cleanupStaleLockChunks cs rows)"
proof -
  have "keeps (cache_inv ok I K L) (ignoreE (in_chunks (cs_DeleteChunk cs hash)))"
    if "map_of (rev (map (\<lambda>ch. (ck_id ch, ck_hash ch)) rows)) i = Some hash" for i hash
  proof -
    have "ok hash" using map_of_SomeD [OF that] assms(2) by (auto simp: list_all_iff)
    then show ?thesis by (intro keeps_intros keeps_in_chunks chunk_ops(4) assms(1))
  qed
  then show ?thesis
    unfolding cleanupStaleLockChunks_def
    by (intro keeps_if keeps_bindE keeps_attemptE keeps_sum keeps_forE keeps_returnE cache_keeps db_keeps)
      (auto intro!: keeps_bindE keeps_attemptE keeps_sum keeps_returnE cache_keeps db_keeps split: option.split)
qed

lemma keeps_take_chunk:
  assumes "cc_chunkStore c = Some cs" "ok (ch_Hash ch)" "list_all (\<lambda>ch. ok (ch_Hash ch)) batch"
    and "\<And>b n. list_all (\<lambda>ch. ok (ch_Hash ch)) b \<Longrightarrow> keeps (cache_inv ok I K L) (k b n)"
  shows "keeps (cache_inv ok I K L) (take_chunk cs i ch batch n k)"
  unfolding take_chunk_def Let_def
  by (intro keeps_intros keeps_in_chunks chunk_ops(2) keeps_recordChunkBatch) (use assms in auto)

lemma keeps_chunk_loop:
  assumes "cc_chunkStore c = Some cs" "list_all (\<lambda>ch. ok (ch_Hash ch)) pending" "list_all (\<lambda>ch. ok (ch_Hash ch)) batch"
  shows "keeps (cache_inv ok I K L) (chunk_loop cs i n sched pending failure batch k z)"
  using assms
proof (induction cs i n sched pending failure batch k z rule: chunk_loop.induct)
  case (2 cs i n sched pending failure batch k z)
  then show ?case by (cases pending; cases failure) (auto intro: keeps_intros)
next
  case (3 cs i n sched pending failure batch k z)
  then show ?case by (auto intro!: keeps_intros keeps_recordChunkBatch)
qed (auto intro!: keeps_intros keeps_finish_chunking keeps_take_chunk)

lemma keeps_run_chunker:
  assumes "list_all (\<lambda>row. ok (ck_hash row)) rows" and sums: "\<And>b. ok (kl_sum (cc_chunkLib c) b)"
  shows "keeps (cache_inv ok I K L) (run_chunker c sched r n ct i rows)"
proof -
  have "list_all (\<lambda>ch. ok (ch_Hash ch)) cs" if run: "CDCChunker_Chunk (cc_chunkLib c) x = (cs, e)" for x cs e
  proof -
    obtain ds where "cs = chunk_from (kl_sum (cc_chunkLib c)) 0 ds"
      using run by (auto simp: CDCChunker_Chunk_def split: prod.splits)
    then have "map ch_Hash cs = map (kl_sum (cc_chunkLib c)) ds" by simp
    then have "ok h" if "h \<in> ch_Hash ` set cs" for h
      using that sums by (metis (no_types, lifting) image_iff list.set_map)
    then show ?thesis by (simp add: list_all_iff)
  qed
  then show ?thesis
    unfolding run_chunker_def
    by (auto intro!: keeps_intros keeps_cleanupStale keeps_chunk_loop assms split: option.split bool.split prod.split)
qed

lemma keeps_storeNarWithCDCFromReader:
  assumes ready: "keeps (cache_inv ok I K L) ready" and sums: "\<And>b. ok (kl_sum (cc_chunkLib c) b)"
  shows "keeps (cache_inv ok I K L) (storeNarWithCDCFromReader c sched ready r n u)"
proof -
  let ?C = "cache_inv ok I K L"
  have rest: "keeps ?C (case found of
         Inl e \<Rightarrow> if e = ErrAlreadyExists then ready else raiseE e
       | Inr (i, rows) \<Rightarrow>
           bindE (attemptE (thenE ready (run_chunker c sched r n (url_Compression u) i rows))) (\<lambda>res.
           case res of
             Inl e \<Rightarrow> thenE (ignoreE (in_db (ClearNarFileChunkingStarted i))) (raiseE e)
           | Inr _ \<Rightarrow>
               whenE (url_Compression u \<noteq> ''none'' \<and> \<not> cc_cdcLazyChunking c)
                 (ignoreE (withTransaction (in_db (
                    thenE (nar_file_of u DeleteNarFileByHash) (relinkNarInfosToNarFile u i)))))))"
    if "\<forall>i rows. found = Inr (i, rows) \<longrightarrow> list_all (\<lambda>row. ok (ck_hash row)) rows" for found
    using that unfolding nar_file_of_def
    by (cases found) (auto intro!: keeps_intros ready keeps_run_chunker sums cache_keeps db_keeps)
  show ?thesis
    unfolding storeNarWithCDCFromReader_def
  proof (rule keeps_bindE [OF keeps_liftE], rule keepsI, goal_cases)
    case (1 x s)
    obtain f t where f: "findOrCreateNarFileForCDC (u\<lparr>url_Compression := ''none''\<rparr>) n s = (f, t)" by fastforce
    have t: "?C t" using keepsD [OF keeps_finds 1] f by (metis snd_conv)
    have "\<forall>i rows. f = Inr (i, rows) \<longrightarrow> list_all (\<lambda>row. ok (ck_hash row)) rows"
      using triple_Inr [OF triple_find 1] f by fastforce
    from keepsD [OF rest [OF this] t] show ?case by (simp add: bindE_def attemptE_def f)
  qed
qed

lemma keeps_migrateCleanup: "keeps (cache_inv ok I K L) (migrateNarToChunksCleanup c u)"
proof -
  have "keeps (cache_inv ok I K L) (delete_first c us)" for us
    unfolding delete_first_def by (induction us) (auto intro!: keeps_intros env_keeps)
  then show ?thesis unfolding migrateNarToChunksCleanup_def by (intro keeps_intros cache_keeps db_keeps)
qed

lemma keeps_MigrateNarToChunks:
  "(\<And>b. ok (kl_sum (cc_chunkLib c) b)) \<Longrightarrow> keeps (cache_inv ok I K L) (MigrateNarToChunks c sched copy u)"
  unfolding MigrateNarToChunks_def storeNarWithCDC_def
  by (intro keeps_intros cache_keeps db_keeps env_keeps keeps_storeNarWithCDCFromReader keeps_migrateCleanup)

lemma keeps_streamChunks:
  assumes "cc_chunkStore c = Some cs"
  shows "keeps (cache_inv ok I K L) (streamChunksWithPrefetch cs raw hs cx)" "keeps (cache_inv ok I K L) (feed_chunks cs raw hs cx)"
proof -
  have fetch: "keeps (cache_inv ok I K L) (fetch_chunk cs raw h)" for h
    unfolding fetch_chunk_def by (intro keeps_intros keeps_in_chunks chunk_ops(1,3) assms)
  show "keeps (cache_inv ok I K L) (streamChunksWithPrefetch cs raw hs cx)"
    by (induction hs arbitrary: cx) (auto intro!: keeps_intros fetch split: option.split)
  show "keeps (cache_inv ok I K L) (feed_chunks cs raw hs cx)"
    by (induction hs arbitrary: cx) (auto intro!: keeps_intros fetch)
qed

lemma keeps_streamComplete:
  "cc_chunkStore c = Some cs \<Longrightarrow> keeps (cache_inv ok I K L) (streamCompleteChunks cs i n raw cx)"
  unfolding streamCompleteChunks_def by (intro keeps_intros cache_keeps db_keeps keeps_streamChunks)

lemma keeps_stream_step:
  "cc_chunkStore c = Some cs \<Longrightarrow> keeps (cache_inv ok I K L) (stream_step_at cs raw i st)"
  unfolding stream_step_at_def stream_query_def feed_batch_def looking_def Let_def
  by (cases "ss_point st") (auto intro!: keeps_intros cache_keeps db_keeps keeps_streamChunks)

end

end
