(* ===== verification/Cache_Eviction.thy ===== *)
theory Cache_Eviction
  imports Cache_CDC
begin

text \<open>
  Pinned closures and eviction in \<open>pkg/cache/cache.go\<close>: the closures that are protected, the choice of the least recently used narinfos, the
  removal of their records and files, and the two jobs that run beside it for chunking.
\<close>

section \<open>Pinned closures\<close>

definition PinClosure :: "string \<Rightarrow> (('s, 'c, 'l) cache_state, unit) prog" where
  "PinClosure h =
     thenE (map_err (\<lambda>e. if e = ErrDBNotFound then ErrNotFound else e) (in_db (GetNarInfoByHash h)))
     (bindE (attemptE (in_db (CreatePinnedClosure h))) (\<lambda>r.
        case r of Inr _ \<Rightarrow> returnE () | Inl e \<Rightarrow> if IsDuplicateKeyError e then returnE () else raiseE e))"

definition UnpinClosure :: "string \<Rightarrow> (('s, 'c, 'l) cache_state, unit) prog" where
  "UnpinClosure h = thenE (in_db (DeletePinnedClosure h)) (returnE ())"

definition cache_ListPinnedClosures :: "(('s, 'c, 'l) cache_state, string list) prog" where
  "cache_ListPinnedClosures = in_db ListPinnedClosures"

definition IsNarInfoPinned :: "string \<Rightarrow> (('s, 'c, 'l) cache_state, bool) prog" where
  "IsNarInfoPinned h =
     bindE (attemptE (in_db (GetPinnedClosure h))) (\<lambda>r.
       case r of Inr _ \<Rightarrow> returnE True | Inl e \<Rightarrow> if e = ErrDBNotFound then returnE False else raiseE e)"

definition narInfoHashLength :: nat where "narInfoHashLength = 52"

definition maxDepth :: nat where "maxDepth = 1000"

text \<open>The references of one narinfo: those not visited yet are visited, protected and queued.\<close>

fun visit_refs :: "string list \<Rightarrow> string list \<Rightarrow> string list \<Rightarrow> string list \<Rightarrow> string list \<times> string list \<times> string list" where
  "visit_refs [] queue visited excluded = (queue, visited, excluded)"
| "visit_refs (ref # refs) queue visited excluded =
     (let refHash = take narInfoHashLength ref in
      if length ref < narInfoHashLength \<or> refHash \<in> set visited then visit_refs refs queue visited excluded
      else visit_refs refs (queue @ [refHash]) (refHash # visited) (refHash # excluded))"

text \<open>The first \<open>levelSize\<close> hashes of the queue.\<close>

fun closure_level ::
  "nat \<Rightarrow> string list \<Rightarrow> string list \<Rightarrow> string list \<Rightarrow> (database, string list \<times> string list \<times> string list) prog" where
  "closure_level (Suc n) (h # queue) visited excluded =
     bindE (attemptE (GetNarInfoByHash h)) (\<lambda>r.
       case r of
         Inl e \<Rightarrow> if IsNotFoundError e then closure_level n queue visited excluded else raiseE e
       | Inr ni \<Rightarrow>
           bindE (GetNarInfoReferences (ni_id ni)) (\<lambda>refs.
             case visit_refs refs queue visited excluded of (q, v, x) \<Rightarrow> closure_level n q v x))"
| "closure_level _ queue visited excluded = returnE (queue, visited, excluded)"

primrec closure_levels :: "nat \<Rightarrow> string list \<Rightarrow> string list \<Rightarrow> string list \<Rightarrow> (database, string list) prog" where
  "closure_levels 0 queue visited excluded = returnE excluded"
| "closure_levels (Suc depth) queue visited excluded =
     (if queue = [] then returnE excluded
      else bindE (closure_level (length queue) queue visited excluded) (\<lambda>(q, v, x). closure_levels depth q v x))"

definition GetPinnedClosureHashes :: "(database, string list) prog" where
  "GetPinnedClosureHashes =
     bindE ListPinnedClosures (\<lambda>roots.
       if roots = [] then returnE [] else closure_levels maxDepth roots roots roots)"

section \<open>Eviction\<close>

definition cacheLockKey :: string where "cacheLockKey = ''cache''"

definition calculateCleanupSize :: "nat \<Rightarrow> (database, 64 word) prog" where
  "calculateCleanupSize maxSize =
     bindE GetNarTotalSize (\<lambda>narTotalSize.
       if narTotalSize = 0 then returnE 0
       else if narTotalSize \<le> maxSize then returnE 0
       else returnE (of_nat (narTotalSize - maxSize)))"

definition maxFetchSize :: "64 word" where "maxFetchSize = 10000"

definition first_fetchSize :: "64 word \<Rightarrow> 64 word" where
  "first_fetchSize cleanupSize =
     (let fetchSize = (if cleanupSize > 0
                       then (if cleanupSize * 2 < cleanupSize then maxFetchSize else cleanupSize * 2)
                       else 100)
      in if fetchSize > maxFetchSize then maxFetchSize else fetchSize)"

text \<open>\<open>database/sql\<close> refuses an argument of type \<open>uint64\<close> whose high bit is set.\<close>

definition least_used :: "64 word \<Rightarrow> (database, narinfo_row list) prog" where
  "least_used n = (if n \<ge> 2 ^ 63 then raiseE ErrDB else GetLeastUsedNarInfos (unat n))"

text \<open>The candidates, looked for with a growing size; \<open>None\<close> when the fuel is used up, which \<open>fetchFuel\<close> rules out.\<close>

primrec fetch_candidates ::
  "nat \<Rightarrow> 64 word \<Rightarrow> string list \<Rightarrow> 64 word \<Rightarrow> 64 word \<Rightarrow> (database, narinfo_row list option) prog" where
  "fetch_candidates 0 cleanupSize pinned fetchSize fetchIncrement = returnE None"
| "fetch_candidates (Suc fuel) cleanupSize pinned fetchSize fetchIncrement =
     bindE (least_used fetchSize) (\<lambda>rows.
       if rows = [] then returnE (Some [])
       else if list_ex (\<lambda>r. ni_hash r \<notin> set pinned) rows \<and> (cleanupSize > 0 \<or> rows = []) then returnE (Some rows)
       else fetch_candidates fuel cleanupSize pinned (fetchSize + fetchIncrement) (fetchIncrement * 2))"

definition fetchFuel :: nat where "fetchFuel = 64"

text \<open>
  The candidates are removed one after the other until enough is collected. A candidate whose NAR file cannot be read is left; \<open>sql.ErrNoRows\<close> never
  comes out of the wrapper, so one without a NAR file is left too.
\<close>

fun evict :: "64 word \<Rightarrow> string list \<Rightarrow> nat \<Rightarrow> narinfo_row list \<Rightarrow> string list \<Rightarrow> 64 word \<Rightarrow> (database, string list) prog" where
  "evict cleanupSize pinned count [] removed totalSize = returnE removed"
| "evict cleanupSize pinned count (info # infos) removed totalSize =
     (if ni_hash info \<in> set pinned then evict cleanupSize pinned count infos removed totalSize
      else bindE (attemptE (GetNarFileByNarInfoID (ni_id info))) (\<lambda>r.
        if (case r of Inl e \<Rightarrow> e \<noteq> ErrNoRows | Inr _ \<Rightarrow> False) then evict cleanupSize pinned count infos removed totalSize
        else
          (let fileSize = (case r of Inl _ \<Rightarrow> 0 | Inr narFile \<Rightarrow> of_nat (nf_file_size narFile));
               removed' = removed @ [ni_hash info];
               totalSize' = totalSize + fileSize
           in thenE (DeleteNarInfoByID (ni_id info))
             (if cleanupSize > 0 \<and> totalSize' \<ge> cleanupSize \<and> int (length removed') < int count - 1 then returnE removed'
              else evict cleanupSize pinned count infos removed' totalSize'))))"

type_synonym removals = "string list \<times> nar_url list \<times> string list"

definition collect_orphans :: "('s, 'c, 'l) cache_conf \<Rightarrow> string list \<Rightarrow> (database, removals) prog" where
  "collect_orphans c removed =
     bindE GetOrphanedNarFiles (\<lambda>files.
     thenE (if files = [] then returnE () else thenE DeleteOrphanedNarFiles (returnE ()))
     (let urls = map (\<lambda>nf. mk_nar_url (nf_hash nf) (nf_compression nf) []) files in
      if \<not> isCDCEnabled c then returnE (removed, urls, [])
      else bindE GetOrphanedChunks (\<lambda>chunks.
        if chunks = [] then returnE (removed, urls, [])
        else thenE DeleteOrphanedChunks (returnE (removed, urls, map ck_hash chunks)))))"

definition deleteLRURecordsFromDB ::
  "('s, 'c, 'l) cache_conf \<Rightarrow> 64 word \<Rightarrow> string list \<Rightarrow> (database, removals option) prog" where
  "deleteLRURecordsFromDB c cleanupSize pinned =
     (let fetchSize = first_fetchSize cleanupSize in
      bindE (fetch_candidates fetchFuel cleanupSize pinned fetchSize fetchSize) (\<lambda>found.
        case found of
          None \<Rightarrow> returnE None
        | Some [] \<Rightarrow> returnE (Some ([], [], []))
        | Some infos \<Rightarrow>
            bindE (evict cleanupSize pinned (length infos) infos [] 0) (\<lambda>removed.
            bindE (collect_orphans c removed) (\<lambda>r. returnE (Some r)))))"

text \<open>The files are deleted by one goroutine each; they are different files, so the order does not matter. Errors are logged,
  and so is the panic of printing an URL with an unknown compression, which ends its goroutine only.\<close>

definition parallelDeleteFromStores :: "('s, 'c, 'l) cache_conf \<Rightarrow> removals \<Rightarrow> (('s, 'c, 'l) cache_state, unit) prog" where
  "parallelDeleteFromStores c r =
     (case r of (hashes, urls, chunks) \<Rightarrow>
        thenE (forE hashes (\<lambda>h. ignoreE (in_store (nis_DeleteNarInfo (cc_narInfoStore c) h))))
        (thenE (forE urls (\<lambda>u. ignoreE (in_store (bindE (liftE (url_String u)) (\<lambda>_. ns_DeleteNar (cc_narStore c) u)))))
        (case cc_chunkStore c of
           None \<Rightarrow> returnE ()
         | Some cs \<Rightarrow> forE chunks (\<lambda>h. ignoreE (in_chunks (cs_DeleteChunk cs h))))))"

text \<open>A transaction that is committed only when there is something to remove; otherwise it is rolled back and the run ends without an error.\<close>

definition commit_if :: "('a \<Rightarrow> bool) \<Rightarrow> (('s, 'c, 'l) cache_state, 'a) prog \<Rightarrow> (('s, 'c, 'l) cache_state, 'a) prog" where
  "commit_if p m s =
     (case m s of
        (Inr x, t) \<Rightarrow> if p x then (Inr x, t) else (Inr x, t\<lparr>cst_db := rollback (cst_db s) (cst_db t)\<rparr>)
      | (Inl e, t) \<Rightarrow> (Inl e, t\<lparr>cst_db := rollback (cst_db s) (cst_db t)\<rparr>))"

definition something :: "removals option \<Rightarrow> bool" where
  "something r = (case r of None \<Rightarrow> False | Some (hashes, urls, chunks) \<Rightarrow> hashes \<noteq> [] \<or> chunks \<noteq> [])"

definition lru_records :: "('s, 'c, 'l) cache_conf \<Rightarrow> string list \<Rightarrow> (database, removals option) prog" where
  "lru_records c pinned =
     bindE (calculateCleanupSize (cc_maxSize c)) (\<lambda>cleanupSize.
     if cleanupSize = 0 then returnE None
     else bindE (deleteLRURecordsFromDB c cleanupSize pinned) (\<lambda>r.
       thenE (whenE (something r) db_ping) (returnE r)))"

definition lru_section :: "('s, 'c, 'l) cache_conf \<Rightarrow> (('s, 'c, 'l) cache_state, unit) prog" where
  "lru_section c =
     bindE (in_db GetPinnedClosureHashes) (\<lambda>pinned.
     thenE (in_db db_ping)
     (bindE (commit_if something (in_db (lru_records c pinned))) (\<lambda>r.
        case r of
          Some x \<Rightarrow> if something r then parallelDeleteFromStores c x else returnE ()
        | None \<Rightarrow> returnE ())))"

definition runLRU :: "('s, 'c, 'l) cache_conf \<Rightarrow> (('s, 'c, 'l) cache_state, unit) prog" where
  "runLRU c = ignoreE (withTryLock c cacheLockKey (lru_section c))"

section \<open>Jobs of chunking\<close>

definition runCDCDeletedCleanup :: "('s, 'c, 'l) cache_conf \<Rightarrow> (('s, 'c, 'l) cache_state, unit) prog" where
  "runCDCDeletedCleanup c =
     ignoreE (withTryLock c ''cdc-deleted-cleanup''
       (bindE (in_db (getsE db_now)) (\<lambda>now.
        bindE (in_db (GetOldCompressedNarFiles (now - cc_cdcDeleteDelay c))) (\<lambda>oldFiles.
        forE oldFiles (\<lambda>old.
          bindE (attemptE (in_db (DeleteNarFileByID (nf_id old)))) (\<lambda>r.
            case r of
              Inl _ \<Rightarrow> returnE ()
            | Inr _ \<Rightarrow> ignoreE (in_store (ns_DeleteNar (cc_narStore c) (mk_nar_url (nf_hash old) (nf_compression old) [])))))))))"

text \<open>\<open>cutoffTime\<close> is the time of the run less the interval of the schedule.\<close>

definition runCDCLazyRecovery :: "('s, 'c, 'l) cache_conf \<Rightarrow> nat \<Rightarrow> nat \<Rightarrow> (('s, 'c, 'l) cache_state, unit) prog" where
  "runCDCLazyRecovery c cutoffTime batchSize =
     ignoreE (withTryLock c ''cdc-lazy-recovery''
       (bindE (in_db (GetStuckNarFiles cutoffTime (min batchSize (2 ^ 31 - 1)))) (\<lambda>stuckFiles.
        forE stuckFiles (\<lambda>f.
          case parse_query (nf_query f) of
            Inl _ \<Rightarrow> returnE ()
          | Inr query \<Rightarrow> BackgroundMigrateNarToChunks (mk_nar_url (nf_hash f) (nf_compression f) query)))))"

end
