(* ===== verification/Cache_NarInfo_Props.thy ===== *)
theory Cache_NarInfo_Props
  imports Cache_NarInfo
begin

text \<open>
  What the narinfo operations of the cache achieve: the round trip of a narinfo through the database, signing, uploads that never overwrite,
  migration that never loses, repair of file sizes, and purges. \<open>quiet\<close> is a database with no failure scheduled; the theorems that do not ask for
  it hold for every schedule of failures.
\<close>

section \<open>Runs without failures\<close>

definition quiet :: "database \<Rightarrow> bool" where
  "quiet d \<longleftrightarrow> db_faults d = []"

lemma add_refs_quiet:
  "quiet d \<Longrightarrow> has_narinfo d i \<Longrightarrow>
   AddNarInfoReferences i xs d = (Inr (), d\<lparr>db_references := fold (\<lambda>x. add_row (i, x)) xs (db_references d)\<rparr>)"
  unfolding AddNarInfoReferences_def
  by (induction xs arbitrary: d) (auto simp: quiet_def AddNarInfoReference_def thenE_def bindE_def returnE_def)

lemma add_sigs_quiet:
  "quiet d \<Longrightarrow> has_narinfo d i \<Longrightarrow>
   AddNarInfoSignatures i xs d = (Inr (), d\<lparr>db_signatures := fold (\<lambda>x. add_row (i, x)) xs (db_signatures d)\<rparr>)"
  unfolding AddNarInfoSignatures_def
  by (induction xs arbitrary: d) (auto simp: quiet_def AddNarInfoSignature_def thenE_def bindE_def returnE_def)

lemma rows_of_new:
  assumes "i \<notin> fst ` set rs" "distinct xs"
  shows "map snd (filter (\<lambda>(j, _). j = i) (fold (\<lambda>x. add_row (i, x)) xs rs)) = xs"
proof -
  have "fold (\<lambda>x. add_row (i, x)) xs rs = rs @ map (Pair i) xs"
    if "\<forall>x \<in> set xs. (i, x) \<notin> set rs" "distinct xs" for rs :: "('a \<times> 'b) list"
    using that
  proof (induction xs arbitrary: rs)
    case (Cons a xs)
    then have "\<forall>x \<in> set xs. (i, x) \<notin> set (rs @ [(i, a)])" by auto
    with Cons show ?case by (simp add: add_row_def)
  qed simp
  moreover have "filter (\<lambda>(j, _). j = i) rs = []" using assms(1) by (force simp: filter_empty_conv)
  ultimately show ?thesis using assms by (force simp: filter_map o_def)
qed

lemma CreateNarFile_quiet:
  assumes "quiet d"
  obtains nf d' where "CreateNarFile h cm q sz tot d = (Inr nf, d')" "quiet d'" "nar_file_key h cm q nf"
    "nf \<in> set (db_nar_files d')" "db_narinfos d' = db_narinfos d" "db_references d' = db_references d"
    "db_signatures d' = db_signatures d" "db_narinfo_nar_files d' = db_narinfo_nar_files d" "db_now d' = db_now d"
proof (cases "filter (nar_file_key h cm q) (db_nar_files d)")
  case Nil
  then show thesis using assms that by (fastforce simp: CreateNarFile_def quiet_def Let_def nar_file_key_def)
next
  case (Cons r rs)
  then have r: "r \<in> set (db_nar_files d)" "nar_file_key h cm q r"
    by (auto dest!: Cons_eq_filterD simp: eq_commute [of _ "r # rs"])
  let ?d = "d\<lparr>db_nar_files := upd_where (nar_file_key h cm q) (\<lambda>r. r\<lparr>nf_updated_at := None\<rparr>) (db_nar_files d)\<rparr>"
  have "r\<lparr>nf_updated_at := None\<rparr> \<in> set (db_nar_files ?d)" using r by (force simp: upd_where_def)
  with Cons r assms show thesis
    by (intro that [of "r\<lparr>nf_updated_at := None\<rparr>" ?d])
      (auto simp: CreateNarFile_def quiet_def nar_file_key_def)
qed

text \<open>What the code relies on in the go-nix library for a narinfo: printed signatures and hashes parse back.\<close>

definition prints_back :: "nix_lib \<Rightarrow> narinfo \<Rightarrow> bool" where
  "prints_back lib n \<longleftrightarrow>
     list_all (\<lambda>sg. nl_ParseSignature lib (nl_SigString lib sg) = Inr sg) (n_Signatures n) \<and>
     parseValidHash lib (n_FileHash n) = Inr (n_FileHash n) \<and> parseValidHash lib (n_NarHash n) = Inr (n_NarHash n)"

text \<open>A narinfo as it is read back: its references and its signatures in the order of the index.\<close>

definition reordered :: "nix_lib \<Rightarrow> narinfo \<Rightarrow> narinfo" where
  "reordered lib n = n\<lparr>n_References := sort (n_References n), n_Signatures := sort_key (nl_SigString lib) (n_Signatures n)\<rparr>"

lemma sort_printed: "sort (map f xs) = map f (sort_key f xs)"
proof -
  have insort: "insort (f x) (map f ys) = map f (insort_key f x ys)" for x ys by (induction ys) auto
  show ?thesis by (induction xs) (simp_all add: insort)
qed

text \<open>Sizes that fit the signed columns.\<close>

definition sizes_fit :: "narinfo \<Rightarrow> bool" where
  "sizes_fit n \<longleftrightarrow> n_FileSize n < 2 ^ 63 \<and> n_NarSize n < 2 ^ 63"

lemma sint_nonneg: "w < 2 ^ 63 \<Longrightarrow> 0 \<le> sint (w :: 64 word)"
proof -
  assume "w < 2 ^ 63"
  then have "uint w < 2 ^ 63" by (simp add: word_less_def)
  then have "signed_take_bit 63 (uint w) = uint w" by (intro signed_take_bit_int_eq_self; use uint_nonnegative [of w] in linarith)
  then show ?thesis by (simp add: sint_uint)
qed

lemma sizes_fit_ok: "sizes_fit n \<Longrightarrow> sizes_ok (createNarInfoParams h (if n_FileSize n \<noteq> 0 then Some (sint (n_FileSize n)) else None) n)"
  by (simp add: sizes_fit_def sizes_ok_def createNarInfoParams_def sint_nonneg)

lemma parse_signatures_print:
  "list_all (\<lambda>sg. nl_ParseSignature lib (nl_SigString lib sg) = Inr sg) sgs \<Longrightarrow>
   parse_signatures lib (map (nl_SigString lib) sgs) = Inr sgs"
  by (induction sgs) auto

lemma distinct_printed:
  assumes "list_all (\<lambda>sg. nl_ParseSignature lib (nl_SigString lib sg) = Inr sg) sgs" "distinct sgs"
  shows "distinct (map (nl_SigString lib) sgs)"
  using assms by (auto simp: distinct_map list_all_iff intro!: inj_onI) (metis Inr_inject)

lemma null_if_empty_back [simp]: "string_of (null_if_empty s) = s"
  by (simp add: string_of_def null_if_empty_def)

lemma uint64_back [simp]:
  "uint64_of (Some (sint w)) = w" "uint64_of (if w \<noteq> 0 then Some (sint w) else None) = w"
  by (simp_all add: uint64_of_def)

lemma ParseURL_nonempty: "ParseURL t = Inr u \<Longrightarrow> t \<noteq> []"
  by (auto simp: ParseURL_def)

lemma upsert_new:
  assumes "quiet d" "np_hash a \<notin> ni_hash ` set (db_narinfos d)" "sizes_ok a"
  shows "upsert_narinfo a d =
    (let r = new_narinfo_row a (db_next d) (db_now d)
     in (Inr r, d\<lparr>db_narinfos := db_narinfos d @ [r], db_next := db_next d + 1\<rparr>))"
proof -
  have "filter (\<lambda>r. ni_hash r = np_hash a) (db_narinfos d) = []" using assms(2) by (force simp: filter_empty_conv)
  then show ?thesis
    using assms(1,3) by (simp add: upsert_narinfo_def CreateNarInfo_def quiet_def bindE_def attemptE_def returnE_def Let_def)
qed

lemma createOrUpdateNarFile_fits:
  "sz < 2 ^ 63 \<Longrightarrow> createOrUpdateNarFile u sz = bindE (nar_file_of u (\<lambda>h cm q. CreateNarFile h cm q (unat sz) 0)) (\<lambda>nf. returnE (nf_id nf))"
  by (simp add: createOrUpdateNarFile_def not_le [symmetric])

text \<open>The tables after a new narinfo was stored.\<close>

lemma storeInDatabase_quiet:
  assumes q: "quiet (cst_db s)" and new: "h \<notin> ni_hash ` set (db_narinfos (cst_db s))"
    and u: "ParseURL (n_URL n) = Inr u" "Normalize u = Inr v" and fit: "sizes_fit n"
  obtains d nf r where "storeInDatabase c h n s = (Inr (), s\<lparr>cst_db := d\<rparr>)" "quiet d"
    "r = new_narinfo_row (createNarInfoParams h (if n_FileSize n \<noteq> 0 then Some (sint (n_FileSize n)) else None) n)
           (db_next (cst_db s)) (db_now (cst_db s))"
    "db_narinfos d = db_narinfos (cst_db s) @ [r]"
    "db_references d = fold (\<lambda>x. add_row (ni_id r, x)) (n_References n) (db_references (cst_db s))"
    "db_signatures d = fold (\<lambda>x. add_row (ni_id r, x)) (map (nl_SigString (cc_nix c)) (n_Signatures n)) (db_signatures (cst_db s))"
    "nf \<in> set (db_nar_files d)" "nar_file_of v nar_file_key nf" "(ni_id r, nf_id nf) \<in> set (db_narinfo_nar_files d)"
    "db_now d = db_now (cst_db s)"
proof -
  let ?d = "cst_db s"
  define a where "a = createNarInfoParams h (if n_FileSize n \<noteq> 0 then Some (sint (n_FileSize n)) else None) n"
  define r where "r = new_narinfo_row a (db_next ?d) (db_now ?d)"
  define d1 where "d1 = ?d\<lparr>db_narinfos := db_narinfos ?d @ [r], db_next := db_next ?d + 1\<rparr>"
  define d2 where "d2 = d1\<lparr>db_references := fold (\<lambda>x. add_row (ni_id r, x)) (n_References n) (db_references d1)\<rparr>"
  define d3 where "d3 = d2\<lparr>db_signatures :=
    fold (\<lambda>x. add_row (ni_id r, x)) (map (nl_SigString (cc_nix c)) (n_Signatures n)) (db_signatures d2)\<rparr>"
  have ha: "np_hash a = h" by (simp add: a_def createNarInfoParams_def)
  have s1: "upsert_narinfo a ?d = (Inr r, d1)"
    using upsert_new [of ?d a] q new sizes_fit_ok [OF fit, of h] by (simp add: ha r_def d1_def Let_def flip: a_def)
  have s2: "AddNarInfoReferences (ni_id r) (n_References n) d1 = (Inr (), d2)"
    using q by (subst add_refs_quiet) (auto simp: d1_def d2_def quiet_def)
  have s3: "AddNarInfoSignatures (ni_id r) (map (nl_SigString (cc_nix c)) (n_Signatures n)) d2 = (Inr (), d3)"
    using q by (subst add_sigs_quiet) (auto simp: d1_def d2_def d3_def quiet_def)
  have q3: "quiet d3" using q by (simp add: quiet_def d1_def d2_def d3_def)
  obtain nf d4 where s4: "nar_file_of v (\<lambda>h cm q. CreateNarFile h cm q (unat (narFileSize n)) 0) d3 = (Inr nf, d4)" and q4: "quiet d4"
    and k: "nar_file_of v nar_file_key nf" and nf: "nf \<in> set (db_nar_files d4)" and e: "db_narinfos d4 = db_narinfos d3"
    "db_references d4 = db_references d3" "db_signatures d4 = db_signatures d3" "db_now d4 = db_now d3"
    unfolding nar_file_of_def by (rule CreateNarFile_quiet [OF q3]) blast
  have small: "narFileSize n < 2 ^ 63" using fit by (simp add: narFileSize_def sizes_fit_def)
  define d5 where "d5 = d4\<lparr>db_narinfo_nar_files := add_row (ni_id r, nf_id nf) (db_narinfo_nar_files d4)\<rparr>"
  have s5: "LinkNarInfoToNarFile (ni_id r) (nf_id nf) d4 = (Inr (), d5)"
    using q4 nf e by (auto simp: LinkNarInfoToNarFile_def quiet_def d5_def d1_def d2_def d3_def)
  have s1': "upsert_narinfo (createNarInfoParams h (if n_FileSize n \<noteq> 0 then Some (sint (n_FileSize n)) else None) n) ?d = (Inr r, d1)"
    using s1 unfolding a_def .
  have run: "storeInDatabase c h n s = (Inr (), s\<lparr>cst_db := d5\<rparr>)"
    unfolding storeInDatabase_def using q4 q
    by (intro withTransaction_calm)
      (simp_all add: in_db_def bindE_def thenE_def s1' s2 s3 liftE_def u createOrUpdateNarFile_fits [OF small] s4 returnE_def s5 quiet_def,
       simp add: d5_def)
  show thesis
    by (rule that [OF run, of r nf])
      (use q4 k nf e in \<open>simp_all add: d5_def quiet_def r_def a_def d3_def d2_def d1_def\<close>)
qed

lemma store_populate_run:
  assumes "quiet (cst_db s)" "db_wf ok (cst_db s)" "h \<notin> ni_hash ` set (db_narinfos (cst_db s))"
    and "ParseURL (n_URL n) = Inr u" "Normalize u = Inr v"
    and "prints_back (cc_nix c) n" "distinct (n_References n)" "distinct (n_Signatures n)" "sizes_fit n"
  shows "\<exists>d. storeInDatabase c h n s = (Inr (), s\<lparr>cst_db := d\<rparr>) \<and>
    quiet d \<and> populateNarInfoFromDatabase c h touch d = (Inr (reordered (cc_nix c) n, u), d) \<and>
    (\<exists>r nf. r \<in> set (db_narinfos d) \<and> ni_hash r = h \<and> nf \<in> set (db_nar_files d) \<and> nar_file_of v nar_file_key nf \<and>
       (ni_id r, nf_id nf) \<in> set (db_narinfo_nar_files d))"
proof -
  obtain d nf r where d: "storeInDatabase c h n s = (Inr (), s\<lparr>cst_db := d\<rparr>)" "quiet d"
    and r: "r = new_narinfo_row (createNarInfoParams h (if n_FileSize n \<noteq> 0 then Some (sint (n_FileSize n)) else None) n)
           (db_next (cst_db s)) (db_now (cst_db s))"
    and t: "db_narinfos d = db_narinfos (cst_db s) @ [r]"
    "db_references d = fold (\<lambda>x. add_row (ni_id r, x)) (n_References n) (db_references (cst_db s))"
    "db_signatures d = fold (\<lambda>x. add_row (ni_id r, x)) (map (nl_SigString (cc_nix c)) (n_Signatures n)) (db_signatures (cst_db s))"
    and nf: "nf \<in> set (db_nar_files d)" "nar_file_of v nar_file_key nf" "(ni_id r, nf_id nf) \<in> set (db_narinfo_nar_files d)"
    and now: "db_now d = db_now (cst_db s)"
    using storeInDatabase_quiet [OF assms(1,3,4,5,9)] by blast
  have hash: "ni_hash r = h" "ni_id r = db_next (cst_db s)" by (simp_all add: r new_narinfo_row_def createNarInfoParams_def)
  have "filter (\<lambda>x. ni_hash x = h) (db_narinfos (cst_db s)) = []"
    using assms(3) by (force simp: filter_empty_conv)
  then have "filter (\<lambda>x. ni_hash x = h) (db_narinfos d) = [r]" using hash by (simp add: t)
  then have get: "GetNarInfoByHash h d = (Inr r, d)"
    using d(2) by (simp add: GetNarInfoByHash_def select_one_def quiet_def one_row_def)
  have fresh: "ni_id r \<notin> fst ` set (db_references (cst_db s))" "ni_id r \<notin> fst ` set (db_signatures (cst_db s))"
    using assms(2) by (fastforce simp: hash(2) db_wf_def fk_wf_def keys_wf_def list_all_iff)+
  have refs: "GetNarInfoReferences (ni_id r) d = (Inr (sort (n_References n)), d)"
    using d(2) rows_of_new [OF fresh(1) assms(7)] by (simp add: GetNarInfoReferences_def select_def quiet_def t)
  have printed: "list_all (\<lambda>sg. nl_ParseSignature (cc_nix c) (nl_SigString (cc_nix c) sg) = Inr sg) (n_Signatures n)"
    using assms(6) by (simp add: prints_back_def)
  have sigs: "GetNarInfoSignatures (ni_id r) d = (Inr (map (nl_SigString (cc_nix c)) (sort_key (nl_SigString (cc_nix c)) (n_Signatures n))), d)"
    unfolding sort_printed [symmetric] using d(2) rows_of_new [OF fresh(2) distinct_printed [OF printed assms(8)]]
    by (simp add: GetNarInfoSignatures_def select_def quiet_def t)
  have url: "n_URL n \<noteq> []" using ParseURL_nonempty [OF assms(4)] .
  have fields: "ni_url r = Some (n_URL n)" "ni_file_hash r = n_FileHash n" "ni_nar_hash r = n_NarHash n"
    "ni_last_accessed_at r = db_now d" "string_of (ni_store_path r) = n_StorePath n"
    "string_of (ni_compression r) = n_Compression n" "uint64_of (ni_file_size r) = n_FileSize n"
    "uint64_of (ni_nar_size r) = n_NarSize n" "string_of (ni_deriver r) = n_Deriver n"
    "string_of (ni_system r) = n_System n" "string_of (ni_ca r) = n_CA n"
    using url now by (simp_all add: r new_narinfo_row_def createNarInfoParams_def null_if_empty_def string_of_def)
  have hashes: "parseValidHash (cc_nix c) (n_FileHash n) = Inr (n_FileHash n)"
    "parseValidHash (cc_nix c) (n_NarHash n) = Inr (n_NarHash n)"
    using assms(6) by (simp_all add: prints_back_def)
  have parsed: "parse_signatures (cc_nix c) (map (nl_SigString (cc_nix c)) (sort_key (nl_SigString (cc_nix c)) (n_Signatures n))) =
      Inr (sort_key (nl_SigString (cc_nix c)) (n_Signatures n))"
    using printed by (intro parse_signatures_print) (simp add: list_all_iff)
  have "populateNarInfoFromDatabase c h touch d = (Inr (reordered (cc_nix c) n, u), d)"
    unfolding populateNarInfoFromDatabase_def
    by (simp add: bindE_def map_err_def get refs sigs fields hashes liftE_def getsE_def thenE_def returnE_def stale_def
        string_of_def [of "Some x" for x] parsed assms(4) reordered_def)
  with d nf t hash show ?thesis by (metis in_set_conv_decomp)
qed

section \<open>Properties\<close>

text \<open>C6. What \<open>storeInDatabase\<close> stores under a new hash, with sizes that fit the signed columns, is what \<open>populateNarInfoFromDatabase\<close> reads back, field by
  field; references and signatures are the same ones, in the order of their bytes. The narinfo is linked to the record of its NAR file under the normalized URL.\<close>

theorem store_populate:
  assumes "quiet (cst_db s)" "db_wf ok (cst_db s)" "h \<notin> ni_hash ` set (db_narinfos (cst_db s))"
    and "ParseURL (n_URL n) = Inr u" "Normalize u = Inr v"
    and "prints_back (cc_nix c) n" "distinct (n_References n)" "distinct (n_Signatures n)" "sizes_fit n"
  shows "\<exists>d. storeInDatabase c h n s = (Inr (), s\<lparr>cst_db := d\<rparr>) \<and>
    fst (populateNarInfoFromDatabase c h touch d) = Inr (reordered (cc_nix c) n, u) \<and>
    (\<exists>r nf. r \<in> set (db_narinfos d) \<and> ni_hash r = h \<and> nf \<in> set (db_nar_files d) \<and> nar_file_of v nar_file_key nf \<and>
       (ni_id r, nf_id nf) \<in> set (db_narinfo_nar_files d))"
  using store_populate_run [OF assms] by (metis fst_conv)

text \<open>Signing leaves exactly one signature of this cache, the new one, keeps all others in their order, and signing again changes
  nothing when the fingerprint does not depend on the signatures.\<close>

theorem signNarInfo_once:
  assumes "cc_shouldSignNarinfo c" "\<And>m. nl_Fingerprint (cc_nix c) (m\<lparr>n_Signatures := sgs\<rparr>) = nl_Fingerprint (cc_nix c) m"
    and "nl_Sign (cc_nix c) (nl_Fingerprint (cc_nix c) n) = Inr sg" "sg_Name sg = cc_hostName c"
    and "sgs = filter (\<lambda>x. sg_Name x \<noteq> cc_hostName c) (n_Signatures n) @ [sg]"
  shows "signNarInfo c n = Inr (n\<lparr>n_Signatures := sgs\<rparr>) \<and> filter (\<lambda>x. sg_Name x = cc_hostName c) sgs = [sg] \<and>
    rbind (signNarInfo c n) (signNarInfo c) = signNarInfo c n"
proof -
  have "filter (\<lambda>x. sg_Name x \<noteq> cc_hostName c) sgs @ [sg] = sgs" using assms(4) by (simp add: assms(5))
  then show ?thesis using assms by (simp add: signNarInfo_def)
qed

lemma keeps_db_call_part:
  assumes "\<And>s. Q s \<Longrightarrow> Q (snd (m s))" "\<And>s fs. Q (s\<lparr>db_faults := fs\<rparr>) = Q s"
  shows "keeps Q (db_call m)"
proof (rule keepsI)
  fix s assume "Q s"
  with assms(1) [of s] assms(1) [of "s\<lparr>db_faults := tl (db_faults s)\<rparr>"] assms(2)
  show "Q (snd (db_call m s))" by (auto simp: db_call_def split: list.split option.split)
qed

lemma keeps_narinfos:
  "keeps (\<lambda>d. db_narinfos d = X) (AddNarInfoReferences i xs)" "keeps (\<lambda>d. db_narinfos d = X) (AddNarInfoSignatures i ys)"
  "keeps (\<lambda>d. db_narinfos d = X) (createOrUpdateNarFile u sz)" "keeps (\<lambda>d. db_narinfos d = X) (LinkNarInfoToNarFile i j)"
  unfolding AddNarInfoReferences_def AddNarInfoSignatures_def createOrUpdateNarFile_def nar_file_of_def
    AddNarInfoReference_def AddNarInfoSignature_def CreateNarFile_def LinkNarInfoToNarFile_def
  by (intro keeps_intros keeps_db_call_part; auto simp: Let_def split: list.split)+

lemma keeps_upsert_existing:
  assumes "r \<in> set X" "ni_hash r = np_hash a" "distinct (map ni_hash X)" "ni_url r \<noteq> None"
  shows "keeps (\<lambda>d. db_narinfos d = X) (upsert_narinfo a)"
proof -
  have "filter (\<lambda>x. ni_hash x = np_hash a) X = [r]"
    using filter_key_unique [OF assms(3,1)] assms(2) by simp
  then have "keeps (\<lambda>d. db_narinfos d = X) (CreateNarInfo a)"
    unfolding CreateNarInfo_def using assms(4) by (intro keeps_db_call_part) auto
  moreover have "keeps (\<lambda>d. db_narinfos d = X) (GetNarInfoByHash h)" for h
    unfolding GetNarInfoByHash_def select_one_def by (intro keeps_db_call_part) auto
  ultimately show ?thesis unfolding upsert_narinfo_def by (intro keeps_intros)
qed

lemma keeps_in_db_part: "keeps Q m \<Longrightarrow> keeps (\<lambda>s. Q (cst_db s)) (in_db m)"
  by (auto simp: keeps_def in_db_def split: prod.splits)

lemma tables_field:
  assumes "tables d = tables e"
  shows "db_narinfos d = db_narinfos e" "db_nar_files d = db_nar_files e"
  using arg_cong [OF assms, of db_narinfos] arg_cong [OF assms, of db_nar_files] by (simp_all add: tables_def)

lemma withTransaction_narinfos:
  fixes s :: "('s, 'c, 'l) cache_state"
  assumes "keeps (\<lambda>d. db_narinfos d = db_narinfos (cst_db s)) m"
  shows "db_narinfos (cst_db (snd (withTransaction (in_db m) s))) = db_narinfos (cst_db s)"
proof -
  obtain r t where t: "withTransaction (in_db m) s = (r, t)" by fastforce
  show ?thesis
  proof (cases r)
    case (Inl e)
    then have "tables (cst_db t) = tables (cst_db s)"
      using t attempts_error [of maxAttempts "in_db m" s e t] by (simp add: withTransaction_def)
    from tables_field(1) [OF this] show ?thesis by (simp add: t)
  next
    case (Inr x)
    then have "attempts maxAttempts (in_db m) s = (Inr x, t)" using t by (simp add: withTransaction_def)
    from attempts_ok [OF this] obtain u v :: "('s, 'c, 'l) cache_state"
      where u: "tables (cst_db u) = tables (cst_db s)" "in_db m u = (Inr x, v)" "tables (cst_db t) = tables (cst_db v)"
      by blast
    have "db_narinfos (cst_db v) = db_narinfos (cst_db s)"
      using keepsD [OF keeps_in_db_part [OF assms], of u] u(2) tables_field(1) [OF u(1)] by simp
    with t tables_field(1) [OF u(3)] show ?thesis by simp
  qed
qed

text \<open>A narinfo that is in the database is never overwritten by another upload under its hash, whatever queries fail: the
  rows of the table stay as they are.\<close>

theorem storeInDatabase_first_wins:
  assumes "db_wf ok (cst_db s)" "r \<in> set (db_narinfos (cst_db s))" "ni_hash r = h" "ni_url r \<noteq> None"
  shows "db_narinfos (cst_db (snd (storeInDatabase c h n s))) = db_narinfos (cst_db s)"
proof -
  have "distinct (map ni_hash (db_narinfos (cst_db s)))" using assms(1) by (simp add: db_wf_def keys_wf_def)
  then have up: "keeps (\<lambda>d. db_narinfos d = db_narinfos (cst_db s)) (upsert_narinfo (createNarInfoParams h fs n))" for fs
    using assms(2-4) by (intro keeps_upsert_existing) (auto simp: createNarInfoParams_def)
  show ?thesis
    unfolding storeInDatabase_def by (intro withTransaction_narinfos keeps_intros up keeps_narinfos)
qed

section \<open>Migration never loses a narinfo\<close>

definition in_database :: "string \<Rightarrow> database \<Rightarrow> bool" where
  "in_database h d \<longleftrightarrow> (\<exists>r \<in> set (db_narinfos d). ni_hash r = h \<and> ni_url r \<noteq> None)"

lemma in_database_faults: "in_database h (d\<lparr>db_faults := fs\<rparr>) = in_database h d"
  by (simp add: in_database_def)

lemma keeps_in_database:
  "keeps (in_database h) (AddNarInfoReferences i xs)" "keeps (in_database h) (AddNarInfoSignatures i ys)"
  "keeps (in_database h) (createOrUpdateNarFile u sz)" "keeps (in_database h) (LinkNarInfoToNarFile i j)"
  "keeps (in_database h) (GetNarInfoByHash g)"
  unfolding AddNarInfoReferences_def AddNarInfoSignatures_def createOrUpdateNarFile_def nar_file_of_def
    AddNarInfoReference_def AddNarInfoSignature_def CreateNarFile_def LinkNarInfoToNarFile_def GetNarInfoByHash_def select_one_def
  by (intro keeps_intros keeps_db_call_part in_database_faults; auto simp: in_database_def Let_def split: list.split)+

text \<open>A scheduled failure is never the report of a missing row, which only the table can give.\<close>

definition honest :: "database \<Rightarrow> bool" where
  "honest d \<longleftrightarrow> Some ErrDBNotFound \<notin> set (db_faults d)"

lemma upsert_in_database:
  assumes "upsert_narinfo a d = (Inr r, d')" "np_url a \<noteq> None" "honest d"
  shows "in_database (np_hash a) d'"
proof -
  obtain x e where x: "CreateNarInfo a d = (x, e)" by fastforce
  have e: "in_database (np_hash a) e" if "(\<exists>y. x = Inr y) \<or> x = Inl ErrDBNotFound"
    using x assms(2,3) that
    by (auto simp: CreateNarInfo_def db_call_def in_database_def Let_def new_narinfo_row_def set_columns_def upd_where_def
        honest_def split: list.splits option.splits if_splits dest!: filter_eq_ConsD)
  show ?thesis
  proof (cases x)
    case (Inr y)
    then show ?thesis using assms(1) e x by (auto simp: upsert_narinfo_def bindE_def attemptE_def returnE_def)
  next
    case (Inl f)
    then have "f = ErrDBNotFound" and g: "GetNarInfoByHash (np_hash a) e = (Inr r, d')"
      using assms(1) x by (auto simp: upsert_narinfo_def bindE_def attemptE_def raiseE_def IsNotFoundError_def split: if_splits)
    with e Inl keepsD [OF keeps_in_database(5), of "np_hash a" e "np_hash a"] show ?thesis by simp
  qed
qed

lemma keeps_unless: "keeps Q m \<Longrightarrow> keeps Q (unless_duplicate m)"
  by (rule keeps_intros)

lemma storeNarInfo_in_database:
  assumes "storeNarInfoInDatabase lib h n s = (Inr (), t)" "honest (cst_db s)"
  shows "in_database h (cst_db t)"
proof -
  define a where "a = createNarInfoParams h (Some (sint (n_FileSize n))) n"
  define rest where "rest = (\<lambda>nir :: narinfo_row. thenE (unless_duplicate (AddNarInfoReferences (ni_id nir) (n_References n)))
        (thenE (unless_duplicate (AddNarInfoSignatures (ni_id nir) (map (nl_SigString lib) (n_Signatures n))))
        (bindE (liftE (ParseURL (n_URL n))) (\<lambda>u.
         bindE (liftE (Normalize u)) (\<lambda>v.
         bindE (createOrUpdateNarFile v (narFileSize n)) (\<lambda>nf.
         unless_duplicate (LinkNarInfoToNarFile (ni_id nir) nf)))))))"
  have k: "keeps (in_database h) (rest nir)" for nir
    unfolding rest_def by (intro keeps_intros keeps_in_database)
  have "executeTransaction (in_db (bindE (upsert_narinfo a) rest)) s = (Inr (), t)"
    using assms(1) unfolding storeNarInfoInDatabase_def a_def rest_def .
  then obtain u v where u: "in_db db_ping s = (Inr (), u)" and m: "in_db (bindE (upsert_narinfo a) rest) u = (Inr (), v)"
    and v: "in_db db_ping v = (Inr (), t)"
    by (auto simp: executeTransaction_def thenE_def bindE_Inr returnE_def)
  have hu: "honest (cst_db u)"
    using u assms(2) by (auto simp: in_db_def db_ping_def db_call_def honest_def returnE_def split: list.splits option.splits)
  from m obtain r e where e: "upsert_narinfo a (cst_db u) = (Inr r, e)" and f: "rest r e = (Inr (), cst_db v)"
    by (auto simp: in_db_def bindE_Inr split: prod.splits)
  have "n_URL n \<noteq> []"
    using f ParseURL_nonempty by (auto simp: rest_def thenE_def bindE_Inr liftE_def)
  then have "in_database h e"
    using upsert_in_database [OF e _ hu] by (simp add: a_def createNarInfoParams_def null_if_empty_def)
  then have "in_database h (cst_db v)" using keepsD [OF k, of e r] f by simp
  then show ?thesis
    using tables_field(1) [OF ping_tables [OF v]] by (simp add: in_database_def)
qed

text \<open>C10. Migrating a narinfo from the store to the database never loses it, whatever fails: when the store was touched at all, the database
  has a complete row for the hash.\<close>

theorem MigrateNarInfo_never_loses:
  fixes s :: "('s, 'c, 'l) cache_state"
  assumes "honest (cst_db s)"
  shows "in_database h (cst_db (snd (MigrateNarInfo lib locker store h n s))) \<or>
    cst_store (snd (MigrateNarInfo lib locker store h n s)) = cst_store s"
proof -
  let ?P = "\<lambda>t. honest (cst_db t) \<and> cst_store t = cst_store s"
  let ?Q = "\<lambda>t. in_database h (cst_db t) \<or> cst_store t = cst_store s"
  have locks: "keeps ?P (in_locks m)" "keeps ?Q (in_locks m)" for m :: "('l, 'x) prog"
    by (auto simp: keeps_def in_locks_def split: prod.splits)
  have get: "keeps ?P (in_db (GetNarInfoByHash h))"
    by (auto simp: keeps_def in_db_def GetNarInfoByHash_def select_one_def db_call_def honest_def split: prod.splits list.splits option.splits)
  have store: "triple ?P (storeNarInfoInDatabase lib h n) (\<lambda>_. \<lambda>t. in_database h (cst_db t)) (\<lambda>_. ?Q)"
  proof (rule tripleI, goal_cases)
    case (1 t x u)
    then show ?case using storeNarInfo_in_database [of lib h n t u] by simp
  next
    case (2 t e u)
    have "keeps (\<lambda>t. cst_store t = cst_store s) (storeNarInfoInDatabase lib h n)"
      unfolding storeNarInfoInDatabase_def executeTransaction_def
      by (auto simp: keeps_def in_db_def all_or_nothing_def bindE_def thenE_def returnE_def split: prod.splits sum.splits)
    from keepsD [OF this, of t] 2 show ?case by simp
  qed
  have del: "triple (\<lambda>t. in_database h (cst_db t))
      (case store of None \<Rightarrow> returnE () | Some st \<Rightarrow> ignoreE (in_store (nis_DeleteNarInfo st h))) (\<lambda>_. ?Q) (\<lambda>_. ?Q)"
    by (auto simp: triple_def returnE_def ignoreE_def bindE_def attemptE_def in_store_def split: option.splits prod.splits)
  have body: "triple ?P (bindE (attemptE (in_db (GetNarInfoByHash h))) (\<lambda>r.
            if (case r of Inr nir \<Rightarrow> ni_url nir \<noteq> None | Inl _ \<Rightarrow> False) then returnE ()
            else thenE (storeNarInfoInDatabase lib h n)
              (case store of None \<Rightarrow> returnE () | Some st \<Rightarrow> ignoreE (in_store (nis_DeleteNarInfo st h))))) (\<lambda>_. ?Q) (\<lambda>_. ?Q)"
    by (rule triple_bindE [where R = "\<lambda>_. ?P"], rule triple_weaken [OF triple_keeps [OF keeps_attemptE [OF get]]])
      (auto intro!: triple_returnE triple_thenE [OF store del])
  have "triple ?P (MigrateNarInfo lib locker store h n) (\<lambda>_. ?Q) (\<lambda>_. ?Q)"
    unfolding MigrateNarInfo_def
    by (rule triple_bindE [where R = "\<lambda>_. ?P"], rule triple_weaken [OF triple_keeps [OF locks(1)]])
      (auto intro!: triple_returnE triple_finallyE body locks(2))
  then show ?thesis
    using assms by (cases "MigrateNarInfo lib locker store h n s"; cases "fst (MigrateNarInfo lib locker store h n s)")
      (auto simp: triple_def)
qed

section \<open>Repair and purge\<close>

lemma quiet_simps: "quiet d \<Longrightarrow> db_faults d = []"
  by (simp add: quiet_def)

lemma GetNarInfoByHash_quiet:
  assumes "quiet d" "db_wf ok d" "r \<in> set (db_narinfos d)"
  shows "GetNarInfoByHash (ni_hash r) d = (Inr r, d)"
proof -
  have "distinct (map ni_hash (db_narinfos d))" using assms(2) by (simp add: db_wf_def keys_wf_def)
  then have "filter (\<lambda>x. ni_hash x = ni_hash r) (db_narinfos d) = [r]" using assms(3) by (rule filter_key_unique)
  with assms(1) show ?thesis by (simp add: GetNarInfoByHash_def select_one_def quiet_def one_row_def)
qed

lemma HasNarInChunks_quiet:
  "getNarFileFromDB c u (cst_db s) = (Inr nf, cst_db s) \<Longrightarrow> \<exists>b. HasNarInChunks c u s = (Inr b, s)"
  by (cases "isCDCEnabled c") (auto simp: HasNarInChunks_def in_db_def not_found_false_def bindE_def attemptE_def returnE_def)

definition file_size_of :: "narinfo_row \<Rightarrow> int" where
  "file_size_of r = (case ni_file_size r of None \<Rightarrow> 0 | Some i \<Rightarrow> i)"

text \<open>For a narinfo with compression whose NAR is in the store and recorded, \<open>CheckAndFixNarInfo\<close> makes the file size of the
  narinfo that of the record, and touches no other row and no other column but the time of the update.\<close>

theorem CheckAndFixNarInfo_repairs:
  assumes "quiet (cst_db s)" "db_wf ok (cst_db s)" "r \<in> set (db_narinfos (cst_db s))" "ni_url r = Some t"
    and "ParseURL t = Inr u" "url_Compression u \<noteq> ''none''"
    and "HasNarInStore c u s = (Inr True, s)" "getNarFileFromDB c u (cst_db s) = (Inr nf, cst_db s)"
  shows "\<exists>f. CheckAndFixNarInfo c (ni_hash r) s =
      (Inr (), s\<lparr>cst_db := (cst_db s)\<lparr>db_narinfos := upd_where (\<lambda>x. ni_hash x = ni_hash r) f (db_narinfos (cst_db s))\<rparr>\<rparr>) \<and>
    file_size_of (f r) = int (nf_file_size nf) \<and>
    (\<forall>x. (f x)\<lparr>ni_file_size := ni_file_size x, ni_updated_at := ni_updated_at x\<rparr> = x)"
proof -
  let ?d = "cst_db s" and ?k = "nf_file_size nf"
  obtain b where b: "HasNarInChunks c u s = (Inr b, s)" using HasNarInChunks_quiet [OF assms(8)] by blast
  have id: "s\<lparr>cst_db := ?d\<rparr> = s" by simp
  have run: "CheckAndFixNarInfo c (ni_hash r) s = whenE (int ?k \<noteq> file_size_of r) (fixNarInfoFileSize (ni_hash r) ?k) s"
    unfolding CheckAndFixNarInfo_def
    by (simp add: bindE_def attemptE_def in_db_def GetNarInfoByHash_quiet [OF assms(1-3)] id assms(4-7) liftE_def b
        getNarActualSize_def assms(8) returnE_def file_size_of_def)
  show ?thesis
  proof (cases "int ?k = file_size_of r")
    case True
    have "upd_where (\<lambda>x. ni_hash x = ni_hash r) (\<lambda>x. x) (db_narinfos ?d) = db_narinfos ?d" by (simp add: upd_where_def)
    with True run show ?thesis by (intro exI [of _ "\<lambda>x. x"]) (simp add: whenE_def returnE_def)
  next
    case False
    let ?f = "\<lambda>x. x\<lparr>ni_file_size := Some (int ?k), ni_updated_at := Some (db_now ?d)\<rparr>"
    have "fixNarInfoFileSize (ni_hash r) ?k s =
      (Inr (), s\<lparr>cst_db := ?d\<lparr>db_narinfos := upd_where (\<lambda>x. ni_hash x = ni_hash r) ?f (db_narinfos ?d)\<rparr>\<rparr>)"
      unfolding fixNarInfoFileSize_def using assms(1)
      by (intro withTransaction_calm) (simp_all add: in_db_def UpdateNarInfoFileSize_def exec_def quiet_def)
    with False run show ?thesis by (intro exI [of _ ?f]) (simp add: whenE_def file_size_of_def)
  qed
qed

text \<open>A hash without narinfo is an error for \<open>CheckAndFixNarInfo\<close>, although its code has a branch for that case: the branch
  tests for an error the database layer does not return.\<close>

theorem CheckAndFixNarInfo_missing:
  assumes "quiet (cst_db s)" "h \<notin> ni_hash ` set (db_narinfos (cst_db s))"
  shows "CheckAndFixNarInfo c h s = (Inl ErrDBNotFound, s)"
proof -
  have "filter (\<lambda>x. ni_hash x = h) (db_narinfos (cst_db s)) = []" using assms(2) by (force simp: filter_empty_conv)
  then show ?thesis
    using assms(1)
    by (simp add: CheckAndFixNarInfo_def bindE_def attemptE_def in_db_def GetNarInfoByHash_def select_one_def quiet_def
        one_row_def raiseE_def)
qed

definition gone :: "string \<Rightarrow> nar_url \<Rightarrow> database \<Rightarrow> bool" where
  "gone h u d \<longleftrightarrow> list_all (\<lambda>r. ni_hash r \<noteq> h) (db_narinfos d) \<and>
     (url_Hash u \<noteq> [] \<longrightarrow> list_all (\<lambda>f. \<not> nar_file_of u nar_file_key f) (db_nar_files d))"

lemma gone_tables:
  assumes "tables d = tables e"
  shows "gone h u d = gone h u e"
  unfolding gone_def tables_field(1) [OF assms] tables_field(2) [OF assms] ..

lemma keeps_gone:
  "keeps (\<lambda>s. gone h u (cst_db s)) (in_db (GetNarInfoByHash g))" "keeps (\<lambda>s. gone h u (cst_db s)) (in_db (DeleteNarInfoByHash g))"
  "keeps (\<lambda>s. gone h u (cst_db s)) (in_db (DeleteNarFileByHash a b q))" "keeps (\<lambda>s. gone h u (cst_db s)) (in_store m)"
  unfolding GetNarInfoByHash_def DeleteNarInfoByHash_def DeleteNarFileByHash_def select_one_def execrows_def
  by ((intro keeps_in_db_part keeps_db_call_part;
       auto simp: gone_def delete_narinfos_def delete_nar_files_def Let_def list_all_iff)+)
    (auto simp: keeps_def in_store_def split: prod.splits)

lemma purge_transaction:
  "triple (\<lambda>_. True) (thenE (DeleteNarInfoByHash h)
          (whenE (url_Hash u \<noteq> []) (thenE (nar_file_of u DeleteNarFileByHash) (returnE ())))) (\<lambda>_. gone h u) (\<lambda>_ _. True)"
  by (auto simp: triple_def thenE_def bindE_def whenE_def returnE_def nar_file_of_def DeleteNarInfoByHash_def DeleteNarFileByHash_def
      execrows_def db_call_def delete_narinfos_def delete_nar_files_def Let_def gone_def list_all_iff nar_file_key_def
      split: list.splits option.splits prod.splits sum.splits)

lemma triple_withTransaction:
  fixes m :: "(database, 'a) prog"
  assumes "triple (\<lambda>_. True) m (\<lambda>_. Q) (\<lambda>_ _. True)" "\<And>d e. tables d = tables e \<Longrightarrow> Q d = Q e"
  shows "triple (\<lambda>_. True) (withTransaction (in_db m)) (\<lambda>_ (s :: ('s, 'c, 'l) cache_state). Q (cst_db s)) (\<lambda>_ _. True)"
proof (rule tripleI, goal_cases)
  case (1 s x t)
  then have "attempts maxAttempts (in_db m) s = (Inr x, t)" by (simp add: withTransaction_def)
  from attempts_ok [OF this] obtain u v :: "('s, 'c, 'l) cache_state"
    where u: "in_db m u = (Inr x, v)" "tables (cst_db t) = tables (cst_db v)" by blast
  have "Q (cst_db v)" using u(1) triple_Inr [OF assms(1), of "cst_db u" x "cst_db v"] by (auto simp: in_db_def split: prod.splits)
  with assms(2) [OF u(2)] show ?case by simp
qed simp

text \<open>After a purge that reports success neither the narinfo nor the record of its NAR file is in the database, whatever failed and was
  retried on the way.\<close>

theorem purgeNarInfo_gone:
  assumes "purgeNarInfo c h u s = (Inr (), t)"
  shows "gone h u (cst_db t)"
proof -
  let ?G = "\<lambda>s. gone h u (cst_db s)"
  have tx: "triple (\<lambda>_. True) (withTransaction (in_db (thenE (DeleteNarInfoByHash h)
          (whenE (url_Hash u \<noteq> []) (thenE (nar_file_of u DeleteNarFileByHash) (returnE ())))))) (\<lambda>_. ?G) (\<lambda>_ _. True)"
    by (intro triple_withTransaction purge_transaction gone_tables)
  have has: "keeps ?G (HasNarInStore c v)" for v
    unfolding HasNarInStore_def Let_def by (intro keeps_intros keeps_gone)
  have k: "keeps ?G (bindE (in_store (nis_HasNarInfo (cc_narInfoStore c) h)) (\<lambda>b.
     thenE (whenE b (deleteNarInfoFromStore c h))
       (whenE (url_Hash u \<noteq> []) (bindE (HasNarInStore c u) (\<lambda>b. whenE b (deleteNarFromStore c u))))))"
    unfolding deleteNarInfoFromStore_def deleteNarFromStore_def nar_file_of_def by (intro keeps_intros keeps_gone has)
  have "triple (\<lambda>_. True) (purgeNarInfo c h u) (\<lambda>_. ?G) (\<lambda>_ _. True)"
    unfolding purgeNarInfo_def
    by (rule triple_bindE [where R = "\<lambda>_ _. True"], rule triple_liftE, simp, simp, rule triple_thenE [OF tx])
      (rule triple_weaken [OF triple_keeps [OF k]]; simp)
  from triple_Inr [OF this _ assms] show ?thesis by simp
qed

section \<open>Examples\<close>

text \<open>A store that only knows which NARs it has, lockers that always succeed, and signatures printed as \<open>name:data\<close>.\<close>

definition demo_nar_store :: "(string \<times> string) list nar_store" where
  "demo_nar_store =
     \<lparr>ns_HasNar = (\<lambda>u. getsE (\<lambda>s. (url_Hash u, url_Compression u) \<in> set s)),
      ns_GetNar = (\<lambda>u s. if (url_Hash u, url_Compression u) \<in> set s then (Inr (0, []), s) else (Inl ErrNotFound, s)),
      ns_PutNar = (\<lambda>u r s. (Inr 0, (url_Hash u, url_Compression u) # s)),
      ns_DeleteNar = (\<lambda>u s. if (url_Hash u, url_Compression u) \<in> set s
                            then (Inr (), filter (\<lambda>x. x \<noteq> (url_Hash u, url_Compression u)) s) else (Inl ErrNotFound, s))\<rparr>"

definition demo_narinfo_store :: "((string \<times> string) list, narinfo) narinfo_store" where
  "demo_narinfo_store =
     \<lparr>nis_HasNarInfo = (\<lambda>h. returnE False), nis_GetNarInfo = (\<lambda>h. raiseE ErrNotFound), nis_PutNarInfo = (\<lambda>h n. returnE ()),
      nis_DeleteNarInfo = (\<lambda>h. raiseE ErrNotFound)\<rparr>"

definition demo_locker :: "unit rw_locker" where
  "demo_locker = \<lparr>lo_Lock = (\<lambda>_. returnE ()), lo_TryLock = (\<lambda>_. returnE True), lo_Unlock = (\<lambda>_. returnE ()),
     lo_RLock = (\<lambda>_. returnE ()), lo_RUnlock = (\<lambda>_. returnE ())\<rparr>"

definition demo_lib :: nix_lib where
  "demo_lib =
     \<lparr>nl_SigString = (\<lambda>sg. sg_Name sg @ '':'' @ sg_Data sg),
      nl_ParseSignature = (\<lambda>x. case str_cut x '':'' of (a, b, found) \<Rightarrow>
         if found then Inr \<lparr>sg_Name = a, sg_Data = b\<rparr> else Inl ErrSignature),
      nl_ParseHash = Inr, nl_Fingerprint = n_StorePath, nl_Sign = (\<lambda>x. Inr \<lparr>sg_Name = ''ncps'', sg_Data = x\<rparr>)\<rparr>"

definition demo_conf :: "((string \<times> string) list, unit, unit) cache_conf" where
  "demo_conf =
     \<lparr>cc_narStore = demo_nar_store, cc_narInfoStore = demo_narinfo_store, cc_chunkStore = None, cc_cdcEnabled = False,
      cc_cdcLazyChunking = False, cc_cdcDeleteDelay = 0, cc_chunkLib = demo_chunk_lib,
      cc_downloadLocker = locker.truncate demo_locker, cc_cacheLocker = demo_locker, cc_hostName = ''ncps'', cc_shouldSignNarinfo = True,
      cc_recordAgeIgnoreTouch = 300, cc_maxSize = 0, cc_nix = demo_lib\<rparr>"

definition demo_url :: string where
  "demo_url = ''nar/'' @ plain_hash @ ''.nar.xz''"

definition demo_narinfo :: narinfo where
  "demo_narinfo =
     \<lparr>n_StorePath = ''/nix/store/hello'', n_URL = demo_url, n_Compression = ''xz'', n_FileHash = Some ''sha256:f'', n_FileSize = 50,
      n_NarHash = Some ''sha256:n'', n_NarSize = 200, n_References = [''glibc'', ''hello''], n_Deriver = ''d.drv'', n_System = [],
      n_Signatures = [\<lparr>sg_Name = ''cache.nixos.org-1'', sg_Data = ''abc''\<rparr>], n_CA = []\<rparr>"

lemma demo_parse: "ParseURL demo_url = Inr (mk_nar_url plain_hash ''xz'' [])"
proof -
  have "ParseURL (''nar'' @ ''/'' @ plain_hash @ ''.nar'' @ ''.xz'') = Inr (mk_nar_url plain_hash ''xz'' [])"
    by (rule ParseURL_parts [where e = "''xz''" and q = "[]" and b = False and d = "''nar''"])
      (simp_all add: plain_hash_ok CompressionTypeFromExtension_def parse_query_def str_contains_def str_index.simps)
  then show ?thesis by (simp add: demo_url_def)
qed

lemma demo_normalize: "Normalize (mk_nar_url plain_hash ''xz'' []) = Inr (mk_nar_url plain_hash ''xz'' [])"
  using plain_hash_ok(1)
  by (simp add: Normalize_def lenient_match_def hash_prefixed_def mk_nar_url_def normalized_hash_def plain_hash_def)

definition demo_state :: "((string \<times> string) list, unit, unit) cache_state" where
  "demo_state = idle_cache empty_db [(plain_hash, ''xz'')] () ()"

lemma demo_state_ok: "quiet (cst_db demo_state)" "db_wf ok (cst_db demo_state)" "db_narinfos (cst_db demo_state) = []"
  by (simp_all add: demo_state_def idle_cache_def quiet_def empty_db_wf) (simp_all add: empty_db_def)

lemma demo_prints_back: "prints_back demo_lib demo_narinfo"
  by (simp add: prints_back_def demo_lib_def demo_narinfo_def parseValidHash_def str_cut_def str_index.simps)

theorem store_populate_witness:
  "\<exists>d. storeInDatabase demo_conf ''h'' (demo_narinfo\<lparr>n_References := [''b'', ''a'']\<rparr>) demo_state = (Inr (), demo_state\<lparr>cst_db := d\<rparr>) \<and>
    fst (populateNarInfoFromDatabase demo_conf ''h'' True d) = Inr (demo_narinfo\<lparr>n_References := [''a'', ''b'']\<rparr>, mk_nar_url plain_hash ''xz'' [])"
proof -
  let ?n = "demo_narinfo\<lparr>n_References := [''b'', ''a'']\<rparr>"
  have "n_URL ?n = demo_url" "cc_nix demo_conf = demo_lib" "distinct (n_References ?n)" "distinct (n_Signatures ?n)" "sizes_fit ?n"
    by (simp_all add: demo_narinfo_def demo_conf_def sizes_fit_def)
  moreover have "prints_back demo_lib ?n" using demo_prints_back by (simp add: prints_back_def)
  moreover have "reordered demo_lib ?n = demo_narinfo\<lparr>n_References := [''a'', ''b'']\<rparr>"
    by (simp add: reordered_def demo_narinfo_def)
  ultimately show ?thesis
    using store_populate [of demo_state "\<lambda>_. True" "''h''" ?n "mk_nar_url plain_hash ''xz'' []" "mk_nar_url plain_hash ''xz'' []" demo_conf True]
      demo_state_ok demo_parse demo_normalize
    by auto
qed

theorem signNarInfo_once_witness:
  "signNarInfo demo_conf demo_narinfo = Inr (demo_narinfo\<lparr>n_Signatures :=
     [\<lparr>sg_Name = ''cache.nixos.org-1'', sg_Data = ''abc''\<rparr>, \<lparr>sg_Name = ''ncps'', sg_Data = ''/nix/store/hello''\<rparr>]\<rparr>)"
proof -
  let ?sg = "\<lparr>sg_Name = ''ncps'', sg_Data = ''/nix/store/hello''\<rparr> :: signature"
  have c: "cc_shouldSignNarinfo demo_conf" "cc_hostName demo_conf = ''ncps''" "cc_nix demo_conf = demo_lib"
    "nl_Fingerprint demo_lib = n_StorePath" "nl_Sign demo_lib ''/nix/store/hello'' = Inr ?sg"
    "n_StorePath demo_narinfo = ''/nix/store/hello''"
    "n_Signatures demo_narinfo = [\<lparr>sg_Name = ''cache.nixos.org-1'', sg_Data = ''abc''\<rparr>]"
    by (simp_all add: demo_conf_def demo_lib_def demo_narinfo_def)
  show ?thesis
    by (rule signNarInfo_once [where sg = ?sg, THEN conjunct1]) (simp_all add: c)
qed

definition demo_row :: narinfo_row where
  "demo_row = (new_narinfo_row (createNarInfoParams ''h'' (Some 49) demo_narinfo) 1 0)"

definition demo_full :: "err option list \<Rightarrow> ((string \<times> string) list, unit, unit) cache_state" where
  "demo_full fs = idle_cache (empty_db\<lparr>db_narinfos := [demo_row], db_next := 3, db_faults := fs,
     db_nar_files := [\<lparr>nf_id = 2, nf_hash = plain_hash, nf_compression = ''xz'', nf_file_size = 50, nf_query = [], nf_created_at = 0,
       nf_updated_at = None, nf_last_accessed_at = 0, nf_total_chunks = 0, nf_chunking_started_at = None, nf_verified_at = None\<rparr>]\<rparr>)
     [(plain_hash, ''xz'')] () ()"

lemma demo_row_fields: "ni_hash demo_row = ''h''" "ni_url demo_row = Some demo_url" "ni_id demo_row = 1"
  by (simp_all add: demo_row_def new_narinfo_row_def createNarInfoParams_def null_if_empty_def demo_narinfo_def demo_url_def)

lemma demo_full_ok: "db_wf ok (cst_db (demo_full fs))" "db_narinfos (cst_db (demo_full fs)) = [demo_row]"
  by (simp_all add: demo_full_def idle_cache_def empty_db_def db_wf_def keys_wf_def fk_wf_def links_wf_def demo_row_fields)

theorem storeInDatabase_first_wins_witness:
  "db_narinfos (cst_db (snd (storeInDatabase demo_conf ''h'' (demo_narinfo\<lparr>n_System := ''x''\<rparr>)
     (demo_full [None, Some ErrDeadlock])))) = [demo_row]"
  using storeInDatabase_first_wins [of "\<lambda>_. True" "demo_full [None, Some ErrDeadlock]" demo_row "''h''"]
  by (simp add: demo_full_ok demo_row_fields)

theorem MigrateNarInfo_never_loses_witness:
  "let t = snd (MigrateNarInfo demo_lib (locker.truncate demo_locker) (Some demo_narinfo_store) ''h'' demo_narinfo (demo_full [Some ErrDB]))
   in in_database ''h'' (cst_db t) \<or> cst_store t = [(plain_hash, ''xz'')]"
  using MigrateNarInfo_never_loses [of "demo_full [Some ErrDB]" "''h''" demo_lib "locker.truncate demo_locker"
      "Some demo_narinfo_store" demo_narinfo]
  by (simp add: honest_def demo_full_def idle_cache_def)

lemma values_encode_Nil: "values_encode [] = []"
  by (simp add: values_encode_def encode_pairs_def)

lemma demo_getNarFile:
  "getNarFileFromDB demo_conf (mk_nar_url plain_hash ''xz'' []) (cst_db (demo_full [])) =
   (Inr (hd (db_nar_files (cst_db (demo_full [])))), cst_db (demo_full []))"
  by (simp add: getNarFileFromDB_def isCDCEnabled_def demo_conf_def nar_file_of_def mk_nar_url_def bindE_def attemptE_def
      GetNarFileByHashAndCompressionAndQuery_def select_one_def demo_full_def idle_cache_def empty_db_def one_row_def nar_file_key_def
      values_encode_Nil returnE_def)

theorem CheckAndFixNarInfo_repairs_witness:
  "\<exists>f. fst (CheckAndFixNarInfo demo_conf ''h'' (demo_full [])) = Inr () \<and> file_size_of (f demo_row) = 50"
proof -
  have "HasNarInStore demo_conf (mk_nar_url plain_hash ''xz'' []) (demo_full []) = (Inr True, demo_full [])"
    by (simp add: HasNarInStore_def demo_conf_def demo_nar_store_def mk_nar_url_def in_store_def getsE_def demo_full_def idle_cache_def Let_def)
  moreover have "quiet (cst_db (demo_full []))" by (simp add: quiet_def demo_full_def idle_cache_def)
  moreover have "nf_file_size (hd (db_nar_files (cst_db (demo_full [])))) = 50" by (simp add: demo_full_def idle_cache_def)
  ultimately show ?thesis
    using CheckAndFixNarInfo_repairs [OF _ demo_full_ok(1) _ demo_row_fields(2) demo_parse _ _ demo_getNarFile]
    by (force simp: demo_full_ok(2) demo_row_fields mk_nar_url_def)
qed

theorem CheckAndFixNarInfo_missing_witness:
  "CheckAndFixNarInfo demo_conf ''h'' demo_state = (Inl ErrDBNotFound, demo_state)"
  by (rule CheckAndFixNarInfo_missing) (simp_all add: demo_state_ok)

theorem purgeNarInfo_gone_witness:
  "\<exists>t. purgeNarInfo demo_conf ''h'' zero_url (demo_full []) = (Inr (), t) \<and> gone ''h'' zero_url (cst_db t)"
proof -
  let ?s = "demo_full []"
  let ?t = "?s\<lparr>cst_db := delete_narinfos (\<lambda>r. ni_hash r = ''h'') (cst_db ?s)\<rparr>"
  have "withTransaction (in_db (thenE (DeleteNarInfoByHash ''h'')
      (whenE (url_Hash zero_url \<noteq> []) (thenE (nar_file_of zero_url DeleteNarFileByHash) (returnE ()))))) ?s = (Inr (), ?t)"
    by (rule withTransaction_calm)
      (simp_all add: in_db_def thenE_def bindE_def DeleteNarInfoByHash_def execrows_def demo_full_def idle_cache_def empty_db_def
        whenE_def zero_url_def mk_nar_url_def returnE_def delete_narinfos_def Let_def)
  moreover have "url_String zero_url = Inr ''nar/.nar''"
    by (simp add: zero_url_def mk_nar_url_def url_String_def pathWithCompression_def ToFileExtension_def values_encode_Nil Let_def)
  ultimately have "purgeNarInfo demo_conf ''h'' zero_url ?s = (Inr (), ?t)"
    by (simp add: purgeNarInfo_def thenE_def bindE_def in_store_def demo_conf_def demo_narinfo_store_def returnE_def whenE_def)
      (simp add: zero_url_def mk_nar_url_def)
  with purgeNarInfo_gone show ?thesis by blast
qed

end
