(* ===== verification/Chunk_Store.thy ===== *)
theory Chunk_Store
  imports Storage File_System
begin

text \<open>
  Package \<open>pkg/storage/chunk\<close>, the store of chunks in the local file system (\<open>local.go\<close>). Chunks are
  kept compressed with zstd; the two directions of that codec are a parameter. A store is the
  path of its base directory.
\<close>

record zstd_codec =
  zc_compress :: "bytes \<Rightarrow> bytes"
  zc_decompress :: "bytes \<Rightarrow> bytes result"

definition chunk_storeDir :: "path \<Rightarrow> path" where
  "chunk_storeDir b = b @ [''chunk'']"

definition NewLocalStore :: "path \<Rightarrow> (file_system, path) prog" where
  "NewLocalStore b = thenE (os_MkdirAll (chunk_storeDir b)) (returnE b)"

definition chunkPath :: "path \<Rightarrow> string \<Rightarrow> path result" where
  "chunkPath b hash =
     rbind (FilePathWithSharding hash) (\<lambda>fp. Inr (chunk_storeDir b @ split_on (CHR ''/'') fp))"

definition HasChunk_local :: "path \<Rightarrow> string \<Rightarrow> (file_system, bool) prog" where
  "HasChunk_local b hash =
     bindE (liftE (chunkPath b hash)) (\<lambda>p.
     bindE (attemptE (os_Stat p)) (\<lambda>r.
       case r of Inr _ \<Rightarrow> returnE True | Inl e \<Rightarrow> if e = ErrNotExist then returnE False else raiseE e))"

definition chunk_not_found :: "err \<Rightarrow> err" where
  "chunk_not_found e = (if e = ErrNotExist then ErrChunkNotFound else e)"

definition GetRawChunk_local :: "path \<Rightarrow> string \<Rightarrow> (file_system, bytes) prog" where
  "GetRawChunk_local b hash =
     bindE (liftE (chunkPath b hash)) (\<lambda>p. map_err chunk_not_found (os_Open p))"

definition GetChunk_local :: "zstd_codec \<Rightarrow> path \<Rightarrow> string \<Rightarrow> (file_system, bytes) prog" where
  "GetChunk_local zc b hash =
     bindE (liftE (chunkPath b hash)) (\<lambda>p.
     bindE (map_err chunk_not_found (os_Open p)) (\<lambda>raw. liftE (zc_decompress zc raw)))"

text \<open>The whole chunk is written and synced to a temporary file beside its final path, and linked there.\<close>

definition write_temp :: "path \<Rightarrow> bytes \<Rightarrow> (file_system, unit) prog" where
  "write_temp tmp data =
     bindE (attemptE (thenE (os_Write tmp data) os_Sync)) (\<lambda>r.
     bindE (attemptE os_Close) (\<lambda>c.
     case r of Inl e \<Rightarrow> raiseE e | Inr _ \<Rightarrow> liftE c))"

definition PutChunk_local :: "zstd_codec \<Rightarrow> path \<Rightarrow> string \<Rightarrow> bytes \<Rightarrow> (file_system, bool \<times> nat) prog" where
  "PutChunk_local zc b hash data =
     bindE (liftE (chunkPath b hash)) (\<lambda>p.
     thenE (os_MkdirAll (butlast p))
     (bindE (os_CreateTemp (butlast p) ''chunk-'' []) (\<lambda>tmp.
      finallyE
        (thenE (write_temp tmp (zc_compress zc data))
        (bindE (os_Stat tmp) (\<lambda>fi.
         let compressedSize = (case fi of File c \<Rightarrow> length c | Dir \<Rightarrow> 0) in
         bindE (attemptE (os_Link tmp p)) (\<lambda>r.
           case r of
             Inl e \<Rightarrow> if e = ErrExist then returnE (False, compressedSize) else raiseE e
           | Inr _ \<Rightarrow> returnE (True, compressedSize)))))
        (os_Remove tmp))))"

definition DeleteChunk_local :: "path \<Rightarrow> string \<Rightarrow> (file_system, unit) prog" where
  "DeleteChunk_local b hash =
     bindE (liftE (chunkPath b hash)) (\<lambda>p.
     bindE (attemptE (os_Remove p)) (\<lambda>r.
       if r \<noteq> Inr () \<and> r \<noteq> Inl ErrNotExist then (case r of Inl e \<Rightarrow> raiseE e | Inr _ \<Rightarrow> returnE ())
       else remove_dirs (rev (filter (strict_prefix (chunk_storeDir b)) (prefixes (butlast p))))))"

definition chunk_files :: "path \<Rightarrow> file_system \<Rightarrow> path list" where
  "chunk_files b fs =
     sort (map fst (filter (\<lambda>(p, n). prefix (chunk_storeDir b) p \<and> n \<noteq> Dir) (fs_nodes fs)))"

definition WalkChunks_local :: "path \<Rightarrow> (string \<Rightarrow> (file_system, unit) prog) \<Rightarrow> (file_system, unit) prog" where
  "WalkChunks_local b fn =
     bindE (attemptE (os_Stat (chunk_storeDir b))) (\<lambda>r.
     if r = Inl ErrNotExist then returnE ()
     else bindE (getsE (chunk_files b)) (\<lambda>ps. forE ps (\<lambda>p. fn (last p))))"

definition local_chunk_store :: "zstd_codec \<Rightarrow> path \<Rightarrow> file_system chunk_store" where
  "local_chunk_store zc b =
     \<lparr>cs_HasChunk = HasChunk_local b, cs_GetChunk = GetChunk_local zc b, cs_GetRawChunk = GetRawChunk_local b,
      cs_PutChunk = PutChunk_local zc b, cs_DeleteChunk = DeleteChunk_local b\<rparr>"

section \<open>Where the chunks are\<close>

text \<open>A chunk hash is 64 hexadecimal digits, as the chunker makes it.\<close>

definition chunk_hash :: "string \<Rightarrow> bool" where
  "chunk_hash h \<longleftrightarrow> length h = 64 \<and> list_all is_hex h"

definition chunk_leaf :: "path \<Rightarrow> path \<Rightarrow> bool" where
  "chunk_leaf b p \<longleftrightarrow> (\<exists>x y z. p = chunk_storeDir b @ [x, y, z])"

definition chunk_path_of :: "path \<Rightarrow> string \<Rightarrow> path" where
  "chunk_path_of b h = chunk_storeDir b @ [take 1 h, take 2 h, h]"

definition chunk_tmps :: "path \<Rightarrow> path set" where
  "chunk_tmps b = {chunk_storeDir b @ [x, y, ''chunk-'' @ show_nat n] |x y n. True}"

definition chunks :: "zstd_codec \<Rightarrow> path \<Rightarrow> file_system \<Rightarrow> string \<Rightarrow> bytes option" where
  "chunks zc b fs h =
     (if chunk_hash h
      then case file_at fs (chunk_path_of b h) of
             None \<Rightarrow> None
           | Some raw \<Rightarrow> (case zc_decompress zc raw of Inl _ \<Rightarrow> None | Inr d \<Rightarrow> Some d)
      else None)"

abbreviation chunk_holds :: "path \<Rightarrow> path set \<Rightarrow> (path \<Rightarrow> fs_node option) \<Rightarrow> file_system \<Rightarrow> bool" where
  "chunk_holds b A f \<equiv> fs_inv (chunk_leaf b) A {} f"

text \<open>A well-formed store has, under a hash, only what the compressor wrote.\<close>

definition chunk_wf :: "zstd_codec \<Rightarrow> path \<Rightarrow> file_system \<Rightarrow> bool" where
  "chunk_wf zc b fs \<longleftrightarrow> chunk_holds b UNIV Map.empty fs \<and>
     (\<forall>h raw. chunk_hash h \<longrightarrow> file_at fs (chunk_path_of b h) = Some raw \<longrightarrow> (\<exists>d. raw = zc_compress zc d))"

definition chunk_calm :: "path \<Rightarrow> file_system \<Rightarrow> bool" where
  "chunk_calm b fs \<longleftrightarrow> fs_faults fs = [] \<and> (\<forall>p \<in> chunk_tmps b. lookup fs p = None)"

lemma chunk_leaf_ok: "leaf_ok (chunk_leaf b)"
  unfolding leaf_ok_def
proof (intro allI impI notI)
  fix p q assume p: "chunk_leaf b p" and pre: "strict_prefix q p" and q: "chunk_leaf b q"
  then obtain r where "p = q @ r" "r \<noteq> []" by (auto simp: strict_prefix_def prefix_def)
  with p q show False by (auto simp: chunk_leaf_def)
qed

lemma chunkPath_hash:
  assumes "chunk_hash h"
  shows "chunkPath b h = Inr (chunk_path_of b h)"
proof -
  have c: "x \<noteq> CHR ''/'' \<and> x \<noteq> CHR ''.''" if "x \<in> set h" for x
    using that assms hex_no_sep [of x] by (auto simp: chunk_hash_def list_all_iff)
  have l: "3 \<le> length h" "h \<noteq> []" using assms by (auto simp: chunk_hash_def)
  then have sl: "CHR ''/'' \<notin> set h" "hd h \<noteq> CHR ''.''" using c hd_in_set [of h] by auto
  then have "CHR ''/'' \<notin> set (take n h)" for n by (meson in_set_takeD)
  then have "split_on (CHR ''/'') (take 1 h @ CHR ''/'' # take 2 h @ CHR ''/'' # h) = [take 1 h, take 2 h, h]"
    using sl by (simp add: split_on_append split_on_plain)
  then show ?thesis
    using FilePathWithSharding_plain [OF l(1) sl(2,1)] by (simp add: chunkPath_def chunk_path_of_def)
qed

lemma chunk_path_facts:
  assumes "chunk_hash h"
  shows "chunk_leaf b (chunk_path_of b h)" "chunk_path_of b h \<noteq> []" "chunk_path_of b h \<notin> chunk_tmps b"
proof -
  show "chunk_leaf b (chunk_path_of b h)" "chunk_path_of b h \<noteq> []"
    by (auto simp: chunk_leaf_def chunk_path_of_def)
  have "CHR ''-'' \<notin> set h" using assms hex_no_sep by (fastforce simp: chunk_hash_def list_all_iff)
  then have "h \<noteq> ''chunk-'' @ show_nat n" for n by auto
  then show "chunk_path_of b h \<notin> chunk_tmps b" by (auto simp: chunk_tmps_def chunk_path_of_def)
qed

lemma chunk_path_inj: "chunk_path_of b h = chunk_path_of b g \<longleftrightarrow> h = g"
  by (auto simp: chunk_path_of_def)

lemma chunk_parent_not_leaf: "chunk_leaf b p \<Longrightarrow> prefix q (butlast p) \<Longrightarrow> \<not> chunk_leaf b q"
  by (auto simp: chunk_leaf_def butlast_append dest!: prefix_length_le)

section \<open>PutChunk and DeleteChunk, whatever fails\<close>

lemma triple_write_temp:
  assumes "tmp \<in> chunk_tmps b"
  shows "triple (\<lambda>t. chunk_holds b (chunk_tmps b) g t \<and> lookup t tmp = Some (File [])) (write_temp tmp d)
    (\<lambda>_ t. chunk_holds b (chunk_tmps b) g t \<and> lookup t tmp = Some (File d)) (\<lambda>_. chunk_holds b (chunk_tmps b) g)"
    (is "triple ?P _ ?Q ?E")
proof -
  have leaf: "chunk_leaf b tmp" "tmp \<noteq> []" using assms by (auto simp: chunk_tmps_def chunk_leaf_def)
  have "triple ?P (thenE (os_Write tmp d) os_Sync) ?Q ?E"
    by (rule triple_thenE [OF triple_Write [OF chunk_leaf_ok leaf assms]], rule triple_weaken [OF triple_Sync [where P = "?Q ()"]]) auto
  then have w: "triple ?P (attemptE (thenE (os_Write tmp d) os_Sync)) (\<lambda>r. case r of Inl e \<Rightarrow> ?E e | Inr x \<Rightarrow> ?Q x) ?E"
    by (rule triple_attemptE)
  have c: "triple I (attemptE os_Close) (\<lambda>_. I) ?E" if "\<And>t fs. I (t\<lparr>fs_faults := fs\<rparr>) = I t" for I
    using triple_Close [of I, OF that] by (auto simp: triple_def attemptE_def split: prod.splits sum.splits)
  show ?thesis
    unfolding write_temp_def
  proof (rule triple_bindE [OF w])
    fix r :: "unit result"
    show "triple (case r of Inl e \<Rightarrow> ?E e | Inr x \<Rightarrow> ?Q x)
        (bindE (attemptE os_Close) (\<lambda>c. case r of Inl e \<Rightarrow> raiseE e | Inr _ \<Rightarrow> liftE c)) ?Q ?E"
      by (rule triple_bindE [OF c]) (auto simp: triple_def raiseE_def liftE_def split: sum.splits)
  qed
qed

lemma PutChunk_triple:
  fixes b :: path and zc :: zstd_codec and d :: bytes
  assumes h: "chunk_hash h"
  defines "p \<equiv> chunk_path_of b h" and "z \<equiv> zc_compress zc d"
  shows "triple (chunk_holds b (chunk_tmps b) g) (PutChunk_local zc b h d)
    (\<lambda>x t. if fst x then chunk_holds b (chunk_tmps b) (g(p \<mapsto> File z)) t \<and> g p = None
           else chunk_holds b (chunk_tmps b) g t \<and> g p \<noteq> None)
    (\<lambda>_. chunk_holds b (chunk_tmps b) g)"
    (is "triple ?I _ ?Q ?E")
proof -
  note pp = chunk_path_facts [OF h, of b, folded p_def]
  have mk: "triple ?I (os_MkdirAll (butlast p)) (\<lambda>_. ?I) ?E"
    by (rule triple_keeps [OF keeps_MkdirAll]) (use pp(1) chunk_parent_not_leaf in blast)
  have pd: "butlast p = chunk_storeDir b @ [take 1 h, take 2 h]" by (simp add: p_def chunk_path_of_def butlast_append)
  have tmp: "triple ?I (os_CreateTemp (butlast p) ''chunk-'' [])
      (\<lambda>f t. (?I t \<and> lookup t f = Some (File [])) \<and> f \<in> chunk_tmps b) ?E"
    by (rule triple_weaken [OF triple_CreateTemp [OF chunk_leaf_ok]])
      (auto simp: pd chunk_leaf_def chunk_tmps_def)
  have body: "triple (\<lambda>t. ?I t \<and> lookup t f = Some (File []))
      (thenE (write_temp f z) (bindE (os_Stat f) (\<lambda>fi.
         let n = (case fi of File c \<Rightarrow> length c | Dir \<Rightarrow> 0) in
         bindE (attemptE (os_Link f p)) (\<lambda>r.
           case r of
             Inl e \<Rightarrow> if e = ErrExist then returnE (False, n) else raiseE e
           | Inr _ \<Rightarrow> returnE (True, n))))) ?Q ?E"
    if f: "f \<in> chunk_tmps b" for f
  proof (rule triple_thenE [OF triple_write_temp [OF f]], rule triple_bindE)
    show "triple (\<lambda>t. ?I t \<and> lookup t f = Some (File z)) (os_Stat f) (\<lambda>_ t. ?I t \<and> lookup t f = Some (File z)) ?E"
      by (auto simp: triple_def os_Stat_def os_call_def split: list.splits option.splits)
    fix fi
    show "triple (\<lambda>t. ?I t \<and> lookup t f = Some (File z))
       (let n = (case fi of File c \<Rightarrow> length c | Dir \<Rightarrow> 0) in
         bindE (attemptE (os_Link f p)) (\<lambda>r.
           case r of
             Inl e \<Rightarrow> if e = ErrExist then returnE (False, n) else raiseE e
           | Inr _ \<Rightarrow> returnE (True, n))) ?Q ?E"
      unfolding Let_def
      by (rule triple_bindE [OF triple_attemptE [OF triple_Link [OF chunk_leaf_ok pp]]])
        (auto simp: triple_def returnE_def raiseE_def split: sum.splits)
  qed
  have rm: "keeps (chunk_holds b (chunk_tmps b) k) (os_Remove f)" if "f \<in> chunk_tmps b" for f k
    using that by (intro keeps_Remove) auto
  have fin: "triple (\<lambda>t. ?I t \<and> lookup t f = Some (File []))
      (finallyE (thenE (write_temp f z) (bindE (os_Stat f) (\<lambda>fi.
         let n = (case fi of File c \<Rightarrow> length c | Dir \<Rightarrow> 0) in
         bindE (attemptE (os_Link f p)) (\<lambda>r.
           case r of
             Inl e \<Rightarrow> if e = ErrExist then returnE (False, n) else raiseE e
           | Inr _ \<Rightarrow> returnE (True, n))))) (os_Remove f)) ?Q ?E"
    if f: "f \<in> chunk_tmps b" for f
    using body [OF f] by (rule triple_finallyE) (use rm [OF f] in \<open>auto simp: keeps_def\<close>)
  show ?thesis
    unfolding PutChunk_local_def chunkPath_hash [OF h] bindE_liftE p_def [symmetric] z_def [symmetric]
    by (rule triple_thenE [OF mk], rule triple_bindE [OF tmp], rule triple_assume, rule fin)
qed

lemma DeleteChunk_triple:
  fixes b :: path
  assumes h: "chunk_hash h"
  defines "p \<equiv> chunk_path_of b h"
  shows "triple (chunk_holds b A g) (DeleteChunk_local b h)
    (\<lambda>_. chunk_holds b A (g(p := None))) (\<lambda>_. chunk_holds b A g)"
    (is "triple ?I _ ?Q ?E")
proof -
  note pp = chunk_path_facts [OF h, of b, folded p_def]
  have k: "keeps (chunk_holds b (insert p A) g) (os_Remove p)" by (intro keeps_Remove) auto
  have rm: "chunk_holds b A (g(p := None)) t' \<and> (r = Inr () \<or> r = Inl ErrNotExist) \<or> chunk_holds b A g t' \<and> (\<exists>e. r = Inl e \<and> e \<noteq> ErrNotExist)"
    if t: "?I t" and run: "os_Remove p t = (r, t')" for t r t'
  proof -
    have "chunk_holds b (insert p A) g t" using t by (auto simp: fs_inv_def)
    then have "chunk_holds b (insert p A) g t'" using keepsD [OF k] run by fastforce
    moreover have "lookup t' p = None \<and> (r = Inr () \<or> r = Inl ErrNotExist) \<or> r = Inl ErrIO \<and> lookup t' p = lookup t p"
      using run by (auto simp: os_Remove_def os_call_def split: list.splits option.splits fs_node.splits if_splits)
    ultimately show ?thesis using t by (auto simp: fs_inv_def)
  qed
  let ?dirs = "rev (filter (strict_prefix (chunk_storeDir b)) (prefixes (butlast p)))"
  have dirs: "keeps (chunk_holds b A f) (remove_dirs ?dirs)" for f
    by (rule keeps_remove_dirs) (use pp(1) chunk_parent_not_leaf in auto)
  show ?thesis
  proof
    fix t x t' assume t: "?I t" and run: "DeleteChunk_local b h t = (Inr x, t')"
    obtain r u where u: "os_Remove p t = (r, u)" by fastforce
    have r: "r = Inr () \<or> r = Inl ErrNotExist" and t': "t' = snd (remove_dirs ?dirs u)"
      using run by (auto simp: DeleteChunk_local_def chunkPath_hash [OF h] p_def [symmetric] u bindE_def attemptE_def raiseE_def
          split: if_splits sum.splits)
    with rm [OF t u] have "chunk_holds b A (g(p := None)) u" by auto
    then show "chunk_holds b A (g(p := None)) t'" unfolding t' by (rule keepsD [OF dirs])
  next
    fix t e t' assume t: "?I t" and run: "DeleteChunk_local b h t = (Inl e, t')"
    obtain r u where u: "os_Remove p t = (r, u)" by fastforce
    have "r \<noteq> Inr () \<and> r \<noteq> Inl ErrNotExist \<and> t' = u"
      using run remove_dirs_ok [of ?dirs u]
      by (auto simp: DeleteChunk_local_def chunkPath_hash [OF h] p_def [symmetric] u bindE_def attemptE_def raiseE_def
          split: if_splits sum.splits)
    with rm [OF t u] show "chunk_holds b A g t'" by auto
  qed
qed

section \<open>Runs without failures\<close>

lemma chunk_node:
  assumes "chunk_holds b A f fs" and "chunk_leaf b p"
  shows "\<not> below_file fs p" and "lookup fs p = None \<or> (\<exists>x. lookup fs p = Some (File x))"
  using assms below_file_wf [OF chunk_leaf_ok, of b fs p] fs_wf_file [of "chunk_leaf b" fs p]
  by (auto simp: fs_inv_def) (metis option.exhaust)

lemma PutChunk_calm:
  fixes b :: path and zc :: zstd_codec and d :: bytes
  assumes h: "chunk_hash h" and wf: "chunk_holds b UNIV Map.empty fs" and calm: "chunk_calm b fs"
  shows "\<exists>t. PutChunk_local zc b h d fs =
    (Inr (lookup fs (chunk_path_of b h) = None, length (zc_compress zc d)), t) \<and> chunk_calm b t"
proof -
  let ?p = "chunk_path_of b h" and ?z = "zc_compress zc d"
  note pp = chunk_path_facts [OF h, of b]
  have nf [simp]: "fs_faults fs = []" using calm by (simp add: chunk_calm_def)
  have fwf: "fs_wf (chunk_leaf b) fs" using wf by (simp add: fs_inv_def)
  have dirs: "\<And>q. prefix q (butlast ?p) \<Longrightarrow> \<not> chunk_leaf b q" using pp chunk_parent_not_leaf by blast
  define t1 where "t1 = mkdirs (prefixes (butlast ?p)) fs"
  have mk: "os_MkdirAll (butlast ?p) fs = (Inr (), t1)"
    using below_file_dir [OF fwf dirs] by (simp add: os_MkdirAll_def t1_def)
  have wf1: "fs_wf (chunk_leaf b) t1" and par: "lookup t1 (butlast ?p) = Some Dir"
    using fs_wf_mkdirs [OF fwf dirs] by (auto simp: t1_def)
  have n1 [simp]: "fs_faults t1 = []" by (simp add: t1_def)
  have same: "lookup t1 q = lookup fs q" if "chunk_leaf b q" for q
    using dirs that by (auto simp: t1_def lookup_mkdirs)
  have pd: "butlast ?p = chunk_storeDir b @ [take 1 h, take 2 h]" by (simp add: chunk_path_of_def butlast_append)
  define f where "f = butlast ?p @ [''chunk-'' @ show_nat (fs_rand t1 (fs_seed t1))]"
  have fl: "chunk_leaf b f" "f \<in> chunk_tmps b" "f \<noteq> []" by (auto simp: f_def pd chunk_leaf_def chunk_tmps_def)
  have free: "lookup t1 f = None" using same [OF fl(1)] calm fl(2) by (simp add: chunk_calm_def)
  define t2 where "t2 = set_node f (File []) (t1\<lparr>fs_seed := fs_seed t1 + 1\<rparr>)"
  have "temp_name 10000 (butlast ?p) ''chunk-'' [] t1 = (Some f, t1\<lparr>fs_seed := fs_seed t1 + 1\<rparr>)"
    using free unfolding numeral_eq_Suc pred_numeral_simps by (subst temp_name.simps) (simp add: Let_def f_def)
  moreover have "\<not> below_file t1 (butlast ?p)" using below_file_dir [OF wf1 dirs] by blast
  ultimately have tmp: "os_CreateTemp (butlast ?p) ''chunk-'' [] t1 = (Inr f, t2)"
    using par by (simp add: os_CreateTemp_def is_file_def t2_def)
  define t3 where "t3 = set_node f (File ?z) t2"
  have n3 [simp]: "fs_faults t3 = []" by (simp add: t3_def t2_def)
  have wr: "write_temp f ?z t2 = (Inr (), t3)"
    by (simp add: write_temp_def os_Write_def put_bytes_def is_file_def os_Sync_def os_Close_def prog_defs t2_def t3_def)
  have wf3: "fs_wf (chunk_leaf b) t3"
    unfolding t3_def t2_def using wf1 par fl by (intro fs_wf_set_file chunk_leaf_ok) (auto simp: f_def)
  have below: "\<not> below_file t3 q" if "chunk_leaf b q" for q using below_file_wf [OF chunk_leaf_ok wf3 that] .
  have f3: "lookup t3 f = Some (File ?z)" by (simp add: t3_def)
  have stat: "os_Stat f t3 = (Inr (File ?z), t3)" using below [OF fl(1)] f3 by (simp add: os_Stat_def)
  have ne: "?p \<noteq> f" using pp fl by auto
  have p3: "lookup t3 ?p = lookup fs ?p" "lookup t3 (butlast ?p) = Some Dir"
    using same [OF pp(1)] ne par free by (auto simp: t3_def t2_def)
  define t4 where "t4 = (if lookup fs ?p = None then set_node ?p (File ?z) t3 else t3)"
  have ln: "os_Link f ?p t3 = (if lookup fs ?p = None then Inr () else Inl ErrExist, t4)"
    using below [OF pp(1)] p3 f3 by (simp add: os_Link_def t4_def)
  have n4: "fs_faults t4 = []" "lookup t4 f = Some (File ?z)" using ne by (auto simp: t4_def t3_def t2_def)
  have wf4: "fs_wf (chunk_leaf b) t4"
    using wf3 p3 pp by (auto simp: t4_def intro!: fs_wf_set_file chunk_leaf_ok)
  have rm: "os_Remove f t4 = (Inr (), del_node f t4)"
    using below_file_wf [OF chunk_leaf_ok wf4 fl(1)] n4 by (simp add: os_Remove_def)
  have "chunk_calm b (del_node f t4)"
  proof -
    have "lookup (del_node f t4) q = None" if "q \<in> chunk_tmps b" for q
    proof -
      have "chunk_leaf b q" "q \<noteq> ?p" using that pp by (auto simp: chunk_tmps_def chunk_leaf_def)
      with that same [of q] calm show ?thesis by (auto simp: t4_def t3_def t2_def chunk_calm_def)
    qed
    then show ?thesis using n4 by (simp add: chunk_calm_def)
  qed
  then show ?thesis
    unfolding PutChunk_local_def chunkPath_hash [OF h] bindE_liftE
    by (simp add: thenE_def bindE_def finallyE_def attemptE_def returnE_def raiseE_def Let_def mk tmp wr stat ln rm)
qed

section \<open>The local chunk store is a store of chunks\<close>

definition codec_ok :: "zstd_codec \<Rightarrow> bool" where
  "codec_ok zc \<longleftrightarrow> (\<forall>x. zc_decompress zc (zc_compress zc x) = Inr x)"

definition chunk_inv :: "zstd_codec \<Rightarrow> path \<Rightarrow> file_system \<Rightarrow> bool" where
  "chunk_inv zc b fs \<longleftrightarrow> codec_ok zc \<and> chunk_wf zc b fs"

lemma chunk_inv_holds: "chunk_inv zc b fs \<Longrightarrow> chunk_holds b A (lookup fs) fs"
  by (simp add: chunk_inv_def chunk_wf_def fs_inv_def)

lemma chunk_file:
  "chunk_holds b (chunk_tmps b) f t \<Longrightarrow> chunk_hash h \<Longrightarrow> lookup t (chunk_path_of b h) = f (chunk_path_of b h)"
  using chunk_path_facts [of h b] by (auto simp: fs_inv_def)

lemma chunk_holds_chunks:
  assumes c: "codec_ok zc" and w: "chunk_wf zc b fs"
  shows "chunk_holds b (chunk_tmps b) (lookup fs) t \<Longrightarrow> chunk_wf zc b t \<and> chunks zc b t = chunks zc b fs"
    and "chunk_holds b (chunk_tmps b) ((lookup fs)(chunk_path_of b h \<mapsto> File (zc_compress zc d))) t \<Longrightarrow> chunk_hash h \<Longrightarrow>
      chunk_wf zc b t \<and> chunks zc b t = (chunks zc b fs)(h \<mapsto> d)"
    and "chunk_holds b (chunk_tmps b) ((lookup fs)(chunk_path_of b h := None)) t \<Longrightarrow> chunk_hash h \<Longrightarrow>
      chunk_wf zc b t \<and> chunks zc b t = (chunks zc b fs)(h := None)"
proof -
  have u: "chunk_holds b UNIV Map.empty t" if "chunk_holds b A f t" for A f using that by (simp add: fs_inv_def)
  have rt: "zc_decompress zc (zc_compress zc x) = Inr x" for x using c by (simp add: codec_ok_def)
  have old: "\<exists>d. raw = zc_compress zc d"
    if "chunk_hash g" "lookup fs (chunk_path_of b g) = Some (File raw)" for g raw
    using w that by (auto simp: chunk_wf_def file_at_def)
  show "chunk_wf zc b t \<and> chunks zc b t = chunks zc b fs" if t: "chunk_holds b (chunk_tmps b) (lookup fs) t"
    using chunk_file [OF t] u [OF t] w by (auto simp: chunk_wf_def chunks_def file_at_def fun_eq_iff)
  show "chunk_wf zc b t \<and> chunks zc b t = (chunks zc b fs)(h \<mapsto> d)"
    if t: "chunk_holds b (chunk_tmps b) ((lookup fs)(chunk_path_of b h \<mapsto> File (zc_compress zc d))) t" and h: "chunk_hash h"
    using chunk_file [OF t] u [OF t] h old rt
    by (auto simp: chunk_wf_def chunks_def file_at_def fun_eq_iff chunk_path_inj split: option.splits fs_node.splits)
  show "chunk_wf zc b t \<and> chunks zc b t = (chunks zc b fs)(h := None)"
    if t: "chunk_holds b (chunk_tmps b) ((lookup fs)(chunk_path_of b h := None)) t" and h: "chunk_hash h"
    using chunk_file [OF t] u [OF t] h old
    by (auto simp: chunk_wf_def chunks_def file_at_def fun_eq_iff chunk_path_inj split: option.splits fs_node.splits)
qed

lemma chunk_raw:
  assumes "chunk_inv zc b fs" "chunk_hash h" "lookup fs (chunk_path_of b h) = Some (File x)"
  shows "\<exists>d. x = zc_compress zc d"
proof -
  have "file_at fs (chunk_path_of b h) = Some x" using assms(3) by (simp add: file_at_def)
  with assms(1,2) show ?thesis unfolding chunk_inv_def chunk_wf_def by blast
qed

lemma chunk_none_iff:
  assumes "chunk_inv zc b fs" and "chunk_hash h"
  shows "chunks zc b fs h = None \<longleftrightarrow> lookup fs (chunk_path_of b h) = None"
proof -
  have "chunk_holds b UNIV Map.empty fs" using assms(1) by (simp add: chunk_inv_def chunk_wf_def)
  then consider "lookup fs (chunk_path_of b h) = None" | x where "lookup fs (chunk_path_of b h) = Some (File x)"
    using chunk_node(2) [OF _ chunk_path_facts(1) [OF assms(2)]] by metis
  then show ?thesis
  proof cases
    case (2 x)
    obtain d where "x = zc_compress zc d" using chunk_raw [OF assms 2] by blast
    with 2 assms show ?thesis by (simp add: chunks_def file_at_def chunk_inv_def codec_ok_def)
  qed (simp add: chunks_def file_at_def)
qed

lemma PutChunk_content:
  assumes inv: "chunk_inv zc b fs" and h: "chunk_hash h"
  shows "chunk_inv zc b (snd (PutChunk_local zc b h d fs))" and
    "chunks zc b (snd (PutChunk_local zc b h d fs)) = chunks zc b fs \<and>
       (isl (fst (PutChunk_local zc b h d fs)) \<or> chunks zc b fs h \<noteq> None) \<or>
     chunks zc b (snd (PutChunk_local zc b h d fs)) = (chunks zc b fs)(h \<mapsto> d) \<and> chunks zc b fs h = None"
proof -
  have cw: "codec_ok zc" "chunk_wf zc b fs" using inv by (simp_all add: chunk_inv_def)
  obtain x t where run: "PutChunk_local zc b h d fs = (x, t)" by fastforce
  have post: "chunk_holds b (chunk_tmps b) (lookup fs) t \<and> (isl x \<or> lookup fs (chunk_path_of b h) \<noteq> None) \<or>
      chunk_holds b (chunk_tmps b) ((lookup fs)(chunk_path_of b h \<mapsto> File (zc_compress zc d))) t \<and>
        lookup fs (chunk_path_of b h) = None"
    using PutChunk_triple [OF h, of b "lookup fs" zc d] chunk_inv_holds [OF inv] run
    by (cases x) (force simp: triple_def split: if_splits)+
  show "chunk_inv zc b (snd (PutChunk_local zc b h d fs))"
    using post chunk_holds_chunks(1,2) [OF cw] h cw(1) by (auto simp: run chunk_inv_def)
  show "chunks zc b (snd (PutChunk_local zc b h d fs)) = chunks zc b fs \<and>
       (isl (fst (PutChunk_local zc b h d fs)) \<or> chunks zc b fs h \<noteq> None) \<or>
     chunks zc b (snd (PutChunk_local zc b h d fs)) = (chunks zc b fs)(h \<mapsto> d) \<and> chunks zc b fs h = None"
    using post chunk_holds_chunks(1,2) [OF cw] h chunk_none_iff [OF inv h] by (auto simp: run)
qed

lemma DeleteChunk_content:
  assumes inv: "chunk_inv zc b fs" and h: "chunk_hash h"
  shows "chunk_inv zc b (snd (DeleteChunk_local b h fs))" and
    "chunks zc b (snd (DeleteChunk_local b h fs)) = chunks zc b fs \<and> isl (fst (DeleteChunk_local b h fs)) \<or>
     chunks zc b (snd (DeleteChunk_local b h fs)) = (chunks zc b fs)(h := None)"
proof -
  have cw: "codec_ok zc" "chunk_wf zc b fs" using inv by (simp_all add: chunk_inv_def)
  obtain x t where run: "DeleteChunk_local b h fs = (x, t)" by fastforce
  have post: "chunk_holds b (chunk_tmps b) (lookup fs) t \<and> isl x \<or>
      chunk_holds b (chunk_tmps b) ((lookup fs)(chunk_path_of b h := None)) t"
    using DeleteChunk_triple [OF h, of b "chunk_tmps b" "lookup fs"] chunk_inv_holds [OF inv] run
    by (cases x) (force simp: triple_def)+
  show "chunk_inv zc b (snd (DeleteChunk_local b h fs))"
    using post chunk_holds_chunks(1,3) [OF cw] h cw(1) by (auto simp: run chunk_inv_def)
  show "chunks zc b (snd (DeleteChunk_local b h fs)) = chunks zc b fs \<and> isl (fst (DeleteChunk_local b h fs)) \<or>
     chunks zc b (snd (DeleteChunk_local b h fs)) = (chunks zc b fs)(h := None)"
    using post chunk_holds_chunks(1,3) [OF cw] h by (auto simp: run)
qed

lemma GetChunk_calm:
  assumes inv: "chunk_inv zc b fs" and nf: "fs_faults fs = []" and h: "chunk_hash h"
  shows "GetChunk_local zc b h fs =
    (case chunks zc b fs h of None \<Rightarrow> Inl ErrChunkNotFound | Some d \<Rightarrow> Inr d, fs)"
proof -
  have wf: "chunk_holds b UNIV Map.empty fs" using inv by (simp add: chunk_inv_def chunk_wf_def)
  note pp = chunk_path_facts [OF h, of b]
  consider "lookup fs (chunk_path_of b h) = None" | x where "lookup fs (chunk_path_of b h) = Some (File x)"
    using chunk_node(2) [OF wf pp(1)] by metis
  then show ?thesis
  proof cases
    case 1
    then show ?thesis
      using chunk_node(1) [OF wf pp(1)] nf h
      by (simp add: GetChunk_local_def chunkPath_hash bindE_def map_err_def os_Open_def chunk_not_found_def chunks_def file_at_def)
  next
    case (2 x)
    obtain d where "x = zc_compress zc d" using chunk_raw [OF inv h 2] by blast
    with 2 show ?thesis
      using chunk_node(1) [OF wf pp(1)] nf h inv
      by (simp add: GetChunk_local_def chunkPath_hash bindE_def map_err_def os_Open_def chunks_def file_at_def liftE_def
          chunk_inv_def codec_ok_def)
  qed
qed

lemma DeleteChunk_calm:
  assumes "chunk_hash h" and "chunk_calm b fs"
  shows "chunk_calm b (snd (DeleteChunk_local b h fs))"
proof -
  have nf: "fs_faults fs = []" using assms by (simp add: chunk_calm_def)
  obtain r u where u: "os_Remove (chunk_path_of b h) fs = (r, u)" by fastforce
  then have fu: "fs_faults u = []" and lu: "\<And>q. lookup fs q = None \<Longrightarrow> lookup u q = None"
    using nf by (auto simp: os_Remove_def split: if_splits option.splits fs_node.splits)
  define ds where "ds = rev (filter (strict_prefix (chunk_storeDir b)) (prefixes (butlast (chunk_path_of b h))))"
  have "snd (DeleteChunk_local b h fs) \<in> {u, snd (remove_dirs ds u)}"
    by (auto simp: DeleteChunk_local_def chunkPath_hash [OF assms(1)] bindE_def attemptE_def u raiseE_def returnE_def ds_def
        split: sum.splits)
  moreover have "chunk_calm b u" using fu lu assms(2) by (auto simp: chunk_calm_def)
  moreover from this have "chunk_calm b (snd (remove_dirs ds u))"
    using remove_dirs_quiet [OF fu, of ds] remove_dirs_gone [of u _ ds] by (auto simp: chunk_calm_def)
  ultimately show ?thesis by auto
qed

interpretation local_chunks: chunk_store_laws "local_chunk_store zc b" "chunks zc b" chunk_hash "chunk_inv zc b" "chunk_calm b"
  for zc b
proof
  fix fs h d
  assume h: "chunk_hash h"
  have putd: "cs_PutChunk (local_chunk_store zc b) = PutChunk_local zc b"
    and deld: "cs_DeleteChunk (local_chunk_store zc b) = DeleteChunk_local b"
    and getd: "cs_GetChunk (local_chunk_store zc b) = GetChunk_local zc b"
    by (simp_all add: local_chunk_store_def)
  assume inv: "chunk_inv zc b fs"
  have wf: "chunk_holds b UNIV Map.empty fs" using inv by (simp add: chunk_inv_def chunk_wf_def)
  show "chunk_inv zc b (snd (cs_PutChunk (local_chunk_store zc b) h d fs))"
    unfolding putd by (rule PutChunk_content(1) [OF inv h])
  show "chunk_inv zc b (snd (cs_DeleteChunk (local_chunk_store zc b) h fs))"
    unfolding deld by (rule DeleteChunk_content(1) [OF inv h])
  show "chunks zc b (snd (cs_PutChunk (local_chunk_store zc b) h d fs)) = chunks zc b fs \<or>
      chunks zc b (snd (cs_PutChunk (local_chunk_store zc b) h d fs)) = (chunks zc b fs)(h \<mapsto> d) \<and> chunks zc b fs h = None"
    unfolding putd using PutChunk_content(2) [OF inv h] by blast
  show "chunks zc b (snd (cs_PutChunk (local_chunk_store zc b) h d fs)) h \<noteq> None"
    if "\<not> isl (fst (cs_PutChunk (local_chunk_store zc b) h d fs))"
    using PutChunk_content(2) [OF inv h, of d] that unfolding putd by auto
  show "chunks zc b (snd (cs_DeleteChunk (local_chunk_store zc b) h fs)) = chunks zc b fs \<and>
      isl (fst (cs_DeleteChunk (local_chunk_store zc b) h fs)) \<or>
      chunks zc b (snd (cs_DeleteChunk (local_chunk_store zc b) h fs)) = (chunks zc b fs)(h := None)"
    unfolding deld by (rule DeleteChunk_content(2) [OF inv h])
  assume calm: "chunk_calm b fs"
  show "chunk_calm b (snd (cs_PutChunk (local_chunk_store zc b) h d fs))"
    unfolding putd using PutChunk_calm [OF h wf calm] by (metis snd_conv)
  show "chunk_calm b (snd (cs_DeleteChunk (local_chunk_store zc b) h fs))"
    unfolding deld by (rule DeleteChunk_calm [OF h calm])
  show "\<exists>n. fst (cs_PutChunk (local_chunk_store zc b) h d fs) = Inr (chunks zc b fs h = None, n)"
    unfolding putd using PutChunk_calm [OF h wf calm, of zc d] chunk_none_iff [OF inv h] by auto
  show "cs_GetChunk (local_chunk_store zc b) h fs =
      (case chunks zc b fs h of None \<Rightarrow> Inl ErrChunkNotFound | Some d \<Rightarrow> Inr d, fs)"
    unfolding getd using calm by (intro GetChunk_calm inv h) (simp add: chunk_calm_def)
qed

section \<open>Properties of the local chunk store\<close>

text \<open>C32. A chunk that was put is read back decompressed, a chunk under another hash is not touched, and \<open>PutChunk\<close>
  says whether the chunk is new; no other bytes were stored under the hash, as a hash determines its bytes.\<close>

theorem local_chunk_roundtrip:
  assumes "codec_ok zc" "chunk_wf zc b fs" "chunk_calm b fs" "chunk_hash h" "chunk_hash g"
    and "chunks zc b fs h \<in> {None, Some d}"
  shows "fst (GetChunk_local zc b g (snd (PutChunk_local zc b h d fs))) =
      (if g = h then Inr d else fst (GetChunk_local zc b g fs)) \<and>
    (\<exists>n. fst (PutChunk_local zc b h d fs) = Inr (chunks zc b fs h = None, n))"
  using local_chunks.getc_after_putc [of zc b fs h g d] local_chunks.putc_result [of zc b fs h d] assms
  by (simp add: local_chunk_store_def chunk_inv_def)

text \<open>Whatever calls fail, putting a chunk leaves every other chunk alone, and the chunk itself is afterwards as before
  or complete; a put that returns no error has it stored.\<close>

theorem local_chunk_atomic:
  assumes "codec_ok zc" "chunk_wf zc b fs" "chunk_hash h"
  shows "chunk_wf zc b (snd (PutChunk_local zc b h d fs)) \<and>
    chunks zc b (snd (PutChunk_local zc b h d fs)) \<in> {chunks zc b fs, (chunks zc b fs)(h \<mapsto> d)} \<and>
    (isl (fst (PutChunk_local zc b h d fs)) \<or> chunks zc b (snd (PutChunk_local zc b h d fs)) h \<noteq> None)"
  using PutChunk_content [of zc b fs h d] assms by (auto simp: chunk_inv_def)

section \<open>Examples\<close>

definition plain_codec :: zstd_codec where
  "plain_codec = \<lparr>zc_compress = (\<lambda>x. CHR ''Z'' # x), zc_decompress = (\<lambda>x. if x = [] then Inl ErrCodec else Inr (tl x))\<rparr>"

definition empty_fs :: "nat option list \<Rightarrow> file_system" where
  "empty_fs faults = \<lparr>fs_nodes = [([], Dir)], fs_faults = faults, fs_rand = (\<lambda>n. n), fs_seed = 0\<rparr>"

definition some_chunk_hash :: string where
  "some_chunk_hash = replicate 64 (CHR ''a'')"

lemma empty_fs_chunks:
  "codec_ok plain_codec" "chunk_wf plain_codec [] (empty_fs f)" "chunk_calm [] (empty_fs [])" "chunk_hash some_chunk_hash"
  "chunks plain_codec [] (empty_fs f) h = None"
proof -
  have n: "lookup (empty_fs f) p = (if p = [] then Some Dir else None)" for p f
    by (simp add: empty_fs_def lookup_def)
  show "codec_ok plain_codec" by (simp add: codec_ok_def plain_codec_def)
  show "chunk_wf plain_codec [] (empty_fs f)"
    by (auto simp: chunk_wf_def fs_inv_def fs_wf_def n file_at_def chunk_leaf_def chunk_path_of_def)
  show "chunk_calm [] (empty_fs [])"
    by (auto simp: chunk_calm_def n chunk_tmps_def) (simp add: empty_fs_def)
  show "chunk_hash some_chunk_hash" by (simp add: chunk_hash_def some_chunk_hash_def list_all_iff is_hex_def)
  show "chunks plain_codec [] (empty_fs f) h = None"
    by (simp add: chunks_def file_at_def n chunk_path_of_def)
qed

theorem local_chunk_roundtrip_witness:
  "fst (GetChunk_local plain_codec [] some_chunk_hash
     (snd (PutChunk_local plain_codec [] some_chunk_hash ''abc'' (empty_fs [])))) = Inr ''abc''"
  using local_chunk_roundtrip [OF empty_fs_chunks(1,2,3,4,4), of "''abc''"] empty_fs_chunks(5) by simp

theorem local_chunk_atomic_witness:
  "chunk_wf plain_codec [] (snd (PutChunk_local plain_codec [] some_chunk_hash ''abc'' (empty_fs [None, None, Some 2])))"
  using local_chunk_atomic [OF empty_fs_chunks(1,2,4)] by blast

end
