(* ===== verification/Cache_CDC_Lemmas.thy ===== *)
theory Cache_CDC_Lemmas
  imports Cache_CDC Cache_NarInfo_Props Chunk_Store
begin

text \<open>
  The loop of \<open>storeNarWithCDCFromReader\<close> without failures, for every store of chunks with the laws of \<open>chunk_store_laws\<close> and every
  schedule of the timer: the chunks are recorded in order and their bytes are in the store.
\<close>

section \<open>The chunks a NAR file is recorded with\<close>

definition recorded :: "database \<Rightarrow> nat \<Rightarrow> string list \<Rightarrow> bool" where
  "recorded d j hs \<longleftrightarrow> map (\<lambda>(k, row). (k, ck_hash row)) (linked_chunks d j) = zip [0..<length hs] hs"

lemma recorded_rows: "recorded d j hs \<Longrightarrow> map (\<lambda>(k, row). ck_hash row) (linked_chunks d j) = hs"
proof -
  assume "recorded d j hs"
  then have "map snd (map (\<lambda>(k, row). (k, ck_hash row)) (linked_chunks d j)) = map snd (zip [0..<length hs] hs)"
    by (simp add: recorded_def)
  then show ?thesis by (simp add: comp_def split_def)
qed

lemma one_chunk_row:
  assumes "db_wf ok d" "l \<in> set (db_nar_file_chunks d)"
  obtains row where "row \<in> set (db_chunks d)" "ck_id row = cl_chunk_id l" "filter (\<lambda>c. ck_id c = cl_chunk_id l) (db_chunks d) = [row]"
proof -
  obtain row where row: "row \<in> set (db_chunks d)" "ck_id row = cl_chunk_id l"
    using assms by (auto simp: db_wf_def fk_wf_def list_all_iff)
  moreover have "filter (\<lambda>c. ck_id c = ck_id row) (db_chunks d) = [row]"
    using assms(1) row by (intro filter_key_unique) (auto simp: db_wf_def keys_wf_def)
  ultimately show thesis using that by simp
qed

lemma recorded_index:
  assumes "db_wf ok d" "recorded d j hs" "l \<in> set (db_nar_file_chunks d)" "cl_nar_file_id l = j"
  shows "cl_chunk_index l < length hs"
proof -
  obtain row where "row \<in> set (db_chunks d)" "ck_id row = cl_chunk_id l"
    using one_chunk_row [OF assms(1,3)] by blast
  then have "(cl_chunk_index l, row) \<in> set (linked_chunks d j)"
    using assms(3,4) by (auto simp: linked_chunks_def intro!: exI [of _ l])
  then have "(cl_chunk_index l, ck_hash row) \<in> set (map (\<lambda>(k, row). (k, ck_hash row)) (linked_chunks d j))" by force
  then have "(cl_chunk_index l, ck_hash row) \<in> set (zip [0..<length hs] hs)" using assms(2) by (simp only: recorded_def)
  then show ?thesis by (auto dest: set_zip_leftD)
qed

lemma CreateChunk_quiet:
  assumes "quiet d" "db_wf ok d" "ok h"
  obtains row d' where "CreateChunk h sz csz d = (Inr row, d')" "quiet d'" "db_wf ok d'" "ck_hash row = h"
    "row \<in> set (db_chunks d')" "set (db_chunks d) \<subseteq> set (db_chunks d')" "linked_chunks d' = linked_chunks d"
    "db_nar_files d' = db_nar_files d" "db_nar_file_chunks d' = db_nar_file_chunks d" "db_now d' = db_now d"
proof (cases "filter (\<lambda>c. ck_hash c = h) (db_chunks d)")
  case Nil
  let ?row = "\<lparr>ck_id = db_next d, ck_hash = h, ck_size = sz, ck_compressed_size = csz\<rparr>"
  let ?d = "d\<lparr>db_chunks := db_chunks d @ [?row], db_next := db_next d + 1\<rparr>"
  have run: "CreateChunk h sz csz d = (Inr ?row, ?d)" using assms(1) Nil by (simp add: CreateChunk_def quiet_def Let_def)
  have ne: "db_next d \<noteq> cl_chunk_id l" if l: "l \<in> set (db_nar_file_chunks d)" for l
  proof -
    obtain row where row: "row \<in> set (db_chunks d)" "ck_id row = cl_chunk_id l" using one_chunk_row [OF assms(2) l] by blast
    have "\<forall>x \<in> set (db_chunks d). ck_id x < db_next d" using assms(2) by (simp add: db_wf_def keys_wf_def list_all_iff)
    with row show ?thesis by fastforce
  qed
  have "linked_chunks ?d j = linked_chunks d j" for j
    unfolding linked_chunks_def
    by (intro arg_cong [where f = concat] map_cong) (auto dest: ne)
  moreover have "db_wf ok ?d" using keepsD [OF keeps_CreateChunk [of ok h, OF assms(3)] assms(2)] run by (metis snd_conv)
  ultimately show thesis using run assms(1) by (intro that [of ?row ?d]) (auto simp: quiet_def)
next
  case (Cons r rs)
  then have "r \<in> set (db_chunks d)" "ck_hash r = h" by (auto dest!: Cons_eq_filterD simp: eq_commute [of _ "r # rs"])
  with Cons assms show thesis by (intro that [of r d]) (auto simp: CreateChunk_def quiet_def)
qed

lemma LinkNarFileToChunk_quiet:
  assumes "quiet d" "db_wf ok d" "recorded d j hs" "row \<in> set (db_chunks d)" "j \<in> nf_id ` set (db_nar_files d)"
  obtains d' where "LinkNarFileToChunk j (ck_id row) (length hs) d = (Inr (), d')" "quiet d'" "db_wf ok d'"
    "recorded d' j (hs @ [ck_hash row])" "db_chunks d' = db_chunks d" "db_nar_files d' = db_nar_files d" "db_now d' = db_now d"
proof -
  let ?l = "\<lparr>cl_nar_file_id = j, cl_chunk_id = ck_id row, cl_chunk_index = length hs\<rparr>"
  let ?d = "d\<lparr>db_nar_file_chunks := db_nar_file_chunks d @ [?l]\<rparr>"
  have fresh: "\<not> list_ex (\<lambda>l. cl_nar_file_id l = j \<and> cl_chunk_index l = length hs) (db_nar_file_chunks d)"
    using recorded_index [OF assms(2,3)] by (metis (mono_tags, lifting) less_irrefl list_ex_iff)
  have run: "LinkNarFileToChunk j (ck_id row) (length hs) d = (Inr (), ?d)"
    using assms fresh by (simp add: LinkNarFileToChunk_def quiet_def link_chunk_def)
  have "sort_key cl_chunk_index (filter (\<lambda>l. cl_nar_file_id l = j) (db_nar_file_chunks d) @ [?l]) =
      sort_key cl_chunk_index (filter (\<lambda>l. cl_nar_file_id l = j) (db_nar_file_chunks d)) @ [?l]"
    using recorded_index [OF assms(2,3)] by (intro sort_key_snoc) (auto intro: less_imp_le)
  moreover have "filter (\<lambda>c. ck_id c = ck_id row) (db_chunks d) = [row]"
    using assms by (intro filter_key_unique) (auto simp: db_wf_def keys_wf_def)
  ultimately have "linked_chunks ?d j = linked_chunks d j @ [(length hs, row)]"
    by (simp add: linked_chunks_def)
  then have "recorded ?d j (hs @ [ck_hash row])" using assms(3) by (simp add: recorded_def)
  moreover have "db_wf ok ?d" using keepsD [OF keeps_LinkNarFileToChunk assms(2)] run by (metis snd_conv)
  ultimately show thesis using run assms(1) by (intro that [of ?d]) (auto simp: quiet_def)
qed

definition same_files :: "database \<Rightarrow> database \<Rightarrow> bool" where
  "same_files d d' \<longleftrightarrow> db_nar_files d' = db_nar_files d \<and> db_now d' = db_now d"

lemma create_chunks_quiet:
  assumes "quiet d" "db_wf ok d" "list_all (\<lambda>ch. ok (ch_Hash ch)) batch"
  shows "\<exists>ids d'. mapE (\<lambda>ch. bindE (CreateChunk (ch_Hash ch) (ch_Size ch) (ch_CompressedSize ch)) (\<lambda>row. returnE (ck_id row))) batch d = (Inr ids, d') \<and>
    quiet d' \<and> db_wf ok d' \<and> set (db_chunks d) \<subseteq> set (db_chunks d') \<and> linked_chunks d' = linked_chunks d \<and> same_files d d' \<and>
    list_all2 (\<lambda>i ch. \<exists>row \<in> set (db_chunks d'). ck_id row = i \<and> ck_hash row = ch_Hash ch) ids batch"
  using assms
proof (induction batch arbitrary: d)
  case Nil
  then show ?case by (simp add: returnE_def same_files_def)
next
  case (Cons ch batch)
  obtain row d1 where c: "CreateChunk (ch_Hash ch) (ch_Size ch) (ch_CompressedSize ch) d = (Inr row, d1)" "quiet d1" "db_wf ok d1"
    "ck_hash row = ch_Hash ch" "row \<in> set (db_chunks d1)" "set (db_chunks d) \<subseteq> set (db_chunks d1)" "linked_chunks d1 = linked_chunks d"
    "db_nar_files d1 = db_nar_files d" "db_now d1 = db_now d"
    using CreateChunk_quiet [OF Cons.prems(1,2)] Cons.prems(3) by (metis (no_types, lifting) list.pred_inject(2))
  from Cons.IH [OF c(2,3)] Cons.prems obtain ids d2
    where d2: "mapE (\<lambda>ch. bindE (CreateChunk (ch_Hash ch) (ch_Size ch) (ch_CompressedSize ch)) (\<lambda>row. returnE (ck_id row))) batch d1 = (Inr ids, d2)"
    "quiet d2" "db_wf ok d2" "set (db_chunks d1) \<subseteq> set (db_chunks d2)" "linked_chunks d2 = linked_chunks d1" "same_files d1 d2"
    "list_all2 (\<lambda>i ch. \<exists>row \<in> set (db_chunks d2). ck_id row = i \<and> ck_hash row = ch_Hash ch) ids batch"
    by auto
  let ?f = "\<lambda>ch. bindE (CreateChunk (ch_Hash ch) (ch_Size ch) (ch_CompressedSize ch)) (\<lambda>row. returnE (ck_id row))"
  have one: "?f ch d = (Inr (ck_id row), d1)" using c(1) by (simp add: bindE_run returnE_def)
  have "mapE ?f (ch # batch) d = (Inr (ck_id row # ids), d2)"
    unfolding mapE.simps by (subst bindE_run, rule one, subst bindE_run, rule d2(1), rule returnE_def)
  with c d2 show ?case
    by (intro exI [of _ "ck_id row # ids"] exI [of _ d2]) (auto simp: same_files_def)
qed

lemma link_chunks_quiet:
  fixes batch :: "chunk list" and ids :: "nat list"
  assumes "list_all2 (\<lambda>i ch. \<exists>row \<in> C. ck_id row = i \<and> ck_hash row = ch_Hash ch) ids batch"
    and "C \<subseteq> set (db_chunks d)" "quiet d" "db_wf ok d" "recorded d j hs" "j \<in> nf_id ` set (db_nar_files d)"
  shows "\<exists>d'. forE (zip ids (map (\<lambda>i. length hs + i) [0..<length batch])) (\<lambda>(c, k). LinkNarFileToChunk j c k) d = (Inr (), d') \<and>
    quiet d' \<and> db_wf ok d' \<and> recorded d' j (hs @ map ch_Hash batch) \<and> same_files d d'"
  using assms
proof (induction ids batch arbitrary: d hs rule: list_all2_induct)
  case Nil
  then show ?case by (simp add: returnE_def same_files_def)
next
  case (Cons i ids' ch batch)
  obtain row where row: "row \<in> set (db_chunks d)" "ck_id row = i" "ck_hash row = ch_Hash ch"
    using Cons.hyps(1) Cons.prems(1) by auto
  obtain d1 where d1: "LinkNarFileToChunk j (ck_id row) (length hs) d = (Inr (), d1)" "quiet d1" "db_wf ok d1"
    "recorded d1 j (hs @ [ck_hash row])" "db_chunks d1 = db_chunks d" "db_nar_files d1 = db_nar_files d" "db_now d1 = db_now d"
    using LinkNarFileToChunk_quiet [OF Cons.prems(2,3,4) row(1) Cons.prems(5)] by blast
  from Cons.IH [OF _ d1(2,3,4)] obtain d2
    where d2: "forE (zip ids' (map (\<lambda>i. length (hs @ [ck_hash row]) + i) [0..<length batch])) (\<lambda>(c, k). LinkNarFileToChunk j c k) d1 = (Inr (), d2)"
    "quiet d2" "db_wf ok d2" "recorded d2 j ((hs @ [ck_hash row]) @ map ch_Hash batch)" "same_files d1 d2"
    using d1(5,6) Cons.prems(1,5) by auto
  have "map (\<lambda>i. length hs + i) [0..<length (ch # batch)] = length hs # map (\<lambda>i. length (hs @ [ck_hash row]) + i) [0..<length batch]"
    by (simp add: map_upt_Suc del: upt_Suc)
  with d1 d2 row show ?case
    by (intro exI [of _ d2]) (auto simp: runs same_files_def simp del: upt_Suc)
qed

lemma recordChunkBatch_quiet:
  fixes s :: "('s, 'c, 'l) cache_state"
  assumes "quiet (cst_db s)" "db_wf ok (cst_db s)" "list_all (\<lambda>ch. ok (ch_Hash ch)) batch"
    and "recorded (cst_db s) j hs" "j \<in> nf_id ` set (db_nar_files (cst_db s))"
  shows "\<exists>d. recordChunkBatch j (length hs) batch s = (Inr (), s\<lparr>cst_db := d\<rparr>) \<and> quiet d \<and> db_wf ok d \<and>
    recorded d j (hs @ map ch_Hash batch) \<and> same_files (cst_db s) d"
proof (cases "batch = []")
  case True
  with assms show ?thesis
    by (intro exI [of _ "cst_db s"]) (simp add: recordChunkBatch_def returnE_def same_files_def)
next
  case False
  obtain ids d1 where c: "mapE (\<lambda>ch. bindE (CreateChunk (ch_Hash ch) (ch_Size ch) (ch_CompressedSize ch)) (\<lambda>row. returnE (ck_id row))) batch (cst_db s) = (Inr ids, d1)"
    "quiet d1" "db_wf ok d1" "linked_chunks d1 = linked_chunks (cst_db s)" "same_files (cst_db s) d1"
    "list_all2 (\<lambda>i ch. \<exists>row \<in> set (db_chunks d1). ck_id row = i \<and> ck_hash row = ch_Hash ch) ids batch"
    using create_chunks_quiet [OF assms(1-3)] by blast
  have rec: "recorded d1 j hs" using assms(4) c(4) by (simp add: recorded_def)
  have "j \<in> nf_id ` set (db_nar_files d1)" using assms(5) c(5) by (simp add: same_files_def)
  from link_chunks_quiet [OF c(6) subset_refl c(2,3) rec this] obtain d2
    where l: "forE (zip ids (map (\<lambda>i. length hs + i) [0..<length batch])) (\<lambda>(c, k). LinkNarFileToChunk j c k) d1 = (Inr (), d2)"
    "quiet d2" "db_wf ok d2" "recorded d2 j (hs @ map ch_Hash batch)" "same_files d1 d2" by blast
  have len: "length ids = length batch" using c(6) by (rule list_all2_lengthD)
  have "recordChunkBatch j (length hs) batch s = (Inr (), s\<lparr>cst_db := d2\<rparr>)"
    unfolding recordChunkBatch_def using False assms(1) l(2)
    by (simp, intro withTransaction_calm)
      (simp_all add: quiet_def in_db_def bindE_def c(1) LinkNarFileToChunks_def len l(1))
  with l c(5) show ?thesis by (auto simp: same_files_def)
qed

lemma recorded_cong: "db_chunks d' = db_chunks d \<Longrightarrow> db_nar_file_chunks d' = db_nar_file_chunks d \<Longrightarrow> recorded d' = recorded d"
  by (simp add: recorded_def linked_chunks_def fun_eq_iff)

definition completed :: "nat \<Rightarrow> nat \<Rightarrow> nat \<Rightarrow> database \<Rightarrow> database \<Rightarrow> bool" where
  "completed j n z d d' \<longleftrightarrow> db_now d' = db_now d \<and> db_nar_files d' =
     map (\<lambda>r. if nf_id r = j then r\<lparr>nf_total_chunks := int n, nf_file_size := z, nf_updated_at := Some (db_now d), nf_chunking_started_at := None\<rparr> else r)
       (db_nar_files d)"

lemma UpdateNarFileTotalChunks_quiet:
  fixes s :: "('s, 'c, 'l) cache_state"
  assumes "quiet (cst_db s)" "db_wf ok (cst_db s)" "recorded (cst_db s) j hs"
  shows "\<exists>d. withTransaction (in_db (UpdateNarFileTotalChunks j (int n) z)) s = (Inr (), s\<lparr>cst_db := d\<rparr>) \<and>
    quiet d \<and> db_wf ok d \<and> recorded d j hs \<and> completed j n z (cst_db s) d"
proof -
  obtain d where d: "UpdateNarFileTotalChunks j (int n) z (cst_db s) = (Inr (), d)" "completed j n z (cst_db s) d"
    "db_chunks d = db_chunks (cst_db s)" "db_nar_file_chunks d = db_nar_file_chunks (cst_db s)" "db_faults d = []"
    using assms(1) by (auto simp: UpdateNarFileTotalChunks_def exec_def upd_nar_file_def upd_where_def quiet_def completed_def)
  have "withTransaction (in_db (UpdateNarFileTotalChunks j (int n) z)) s = (Inr (), s\<lparr>cst_db := d\<rparr>)"
    using assms(1) d(1,5) by (intro withTransaction_calm) (simp_all add: quiet_def in_db_def)
  moreover have "keeps (db_wf ok) (UpdateNarFileTotalChunks j (int n) z)" by (rule db_keeps)
  ultimately show ?thesis
    using d assms keepsD [of "db_wf ok" "UpdateNarFileTotalChunks j (int n) z" "cst_db s"] recorded_cong [OF d(3,4)]
    by (auto simp: quiet_def)
qed

lemma finish_chunking_quiet:
  fixes s :: "('s, 'c, 'l) cache_state"
  assumes "quiet (cst_db s)" "db_wf ok (cst_db s)" "list_all (\<lambda>ch. ok (ch_Hash ch)) batch"
    and "recorded (cst_db s) j hs" "j \<in> nf_id ` set (db_nar_files (cst_db s))" "fs = 0 \<or> fs = z"
  shows "\<exists>d. finish_chunking j fs (length hs) z batch s = (Inr (), s\<lparr>cst_db := d\<rparr>) \<and> quiet d \<and> db_wf ok d \<and>
    recorded d j (hs @ map ch_Hash batch) \<and> completed j (length hs + length batch) z (cst_db s) d"
proof -
  obtain d1 where d1: "recordChunkBatch j (length hs) batch s = (Inr (), s\<lparr>cst_db := d1\<rparr>)" "quiet d1" "db_wf ok d1"
    "recorded d1 j (hs @ map ch_Hash batch)" "same_files (cst_db s) d1"
    using recordChunkBatch_quiet [OF assms(1-5)] by blast
  let ?t = "s\<lparr>cst_db := d1\<rparr>"
  have "quiet (cst_db ?t)" "db_wf ok (cst_db ?t)" "recorded (cst_db ?t) j (hs @ map ch_Hash batch)" using d1 by simp_all
  from UpdateNarFileTotalChunks_quiet [OF this, of "length hs + length batch" z] obtain d2
    where d2: "withTransaction (in_db (UpdateNarFileTotalChunks j (int (length hs + length batch)) z)) ?t = (Inr (), ?t\<lparr>cst_db := d2\<rparr>)"
      "quiet d2" "db_wf ok d2" "recorded d2 j (hs @ map ch_Hash batch)" "completed j (length hs + length batch) z d1 d2"
    by auto
  have "finish_chunking j fs (length hs) z batch s = (Inr (), s\<lparr>cst_db := d2\<rparr>)"
    unfolding finish_chunking_def by (subst thenE_run, rule d1(1)) (use assms(6) d2(1) in auto)
  moreover have "completed j (length hs + length batch) z (cst_db s) d2"
    using d2(5) d1(5) by (simp add: completed_def same_files_def)
  ultimately show ?thesis using d2 by blast
qed

text \<open>The chunks of a stream, each under the hash of its bytes.\<close>

definition hashed :: "(bytes \<Rightarrow> string) \<Rightarrow> bytes set \<Rightarrow> chunk list \<Rightarrow> bool" where
  "hashed f P cs \<longleftrightarrow> (\<forall>ch \<in> set cs. ch_Hash ch = f (ch_Data ch) \<and> ch_Size ch = length (ch_Data ch) \<and> ch_Data ch \<in> P)"

context chunk_store_laws
begin

text \<open>A store whose chunks under the hashes of the given pieces are those pieces.\<close>

definition fits :: "(bytes \<Rightarrow> string) \<Rightarrow> bytes set \<Rightarrow> 's \<Rightarrow> bool" where
  "fits f P s \<longleftrightarrow> inv s \<and> calm s \<and> inj_on f P \<and> (\<forall>p \<in> P. ok (f p) \<and> content s (f p) \<in> {None, Some p})"

lemma put_piece:
  assumes "fits f P s" "p \<in> P"
  obtains b n t where "cs_PutChunk ops (f p) p s = (Inr (b, n), t)" "fits f P t"
    "content s \<subseteq>\<^sub>m content t" "content t (f p) = Some p"
proof -
  have a: "inv s" "calm s" "ok (f p)" "content s (f p) \<in> {None, Some p}" using assms by (auto simp: fits_def)
  obtain r t where run: "cs_PutChunk ops (f p) p s = (r, t)" by fastforce
  obtain n where r: "r = Inr (content s (f p) = None, n)" using putc_result [OF a(1-3), of p] run by auto
  have "content t (f p) \<noteq> None" using putc_stored [OF a(1,3), of p] run r by simp
  then have c: "content t = (content s)(f p \<mapsto> p)" using putc_content [OF a(1,3), of p] a(4) run by auto
  have "inv t" "calm t" using putc_inv [OF a(1,3), of p] putc_calm [OF a(1,3,2), of p] run by auto
  moreover have "content t (f q) \<in> {None, Some q}" if "q \<in> P" for q
    using assms that by (auto simp: c fits_def inj_on_def)
  ultimately have "fits f P t" using assms by (auto simp: fits_def)
  moreover have "content s \<subseteq>\<^sub>m content t" using a(4) by (auto simp: c map_le_def)
  ultimately show thesis using that [of _ n t] run r c by simp
qed

lemma take_chunk_quiet:
  fixes s :: "('l, 's, 'm) cache_state"
  assumes "quiet (cst_db s)" "db_wf ok (cst_db s)" "fits f P (cst_chunks s)" "hashed f P [ch]" "list_all (\<lambda>ch. ok (ch_Hash ch)) batch"
    and "recorded (cst_db s) j hs" "j \<in> nf_id ` set (db_nar_files (cst_db s))"
  obtains batch' hs' d k where "take_chunk ops j ch batch (length hs) loop s = loop batch' (length hs') (s\<lparr>cst_chunks := k, cst_db := d\<rparr>)"
    "quiet d" "db_wf ok d" "fits f P k" "content (cst_chunks s) \<subseteq>\<^sub>m content k" "content k (ch_Hash ch) = Some (ch_Data ch)"
    "recorded d j hs'" "hs' @ map ch_Hash batch' = hs @ map ch_Hash batch @ [ch_Hash ch]"
    "list_all (\<lambda>ch. ok (ch_Hash ch)) batch'" "same_files (cst_db s) d"
proof -
  have ch: "ch_Hash ch = f (ch_Data ch)" "ch_Data ch \<in> P" "ok (ch_Hash ch)" using assms(3,4) by (auto simp: hashed_def fits_def)
  obtain b n k where k: "cs_PutChunk ops (ch_Hash ch) (ch_Data ch) (cst_chunks s) = (Inr (b, n), k)" "fits f P k"
    "content (cst_chunks s) \<subseteq>\<^sub>m content k" "content k (ch_Hash ch) = Some (ch_Data ch)"
    using put_piece [OF assms(3) ch(2)] ch(1) by metis
  let ?b = "batch @ [ch\<lparr>ch_CompressedSize := n mod 2 ^ 32\<rparr>]"
  let ?t = "s\<lparr>cst_chunks := k\<rparr>"
  have put: "in_chunks (cs_PutChunk ops (ch_Hash ch) (ch_Data ch)) s = (Inr (b, n), ?t)" using k(1) by (simp add: in_chunks_def)
  have okb: "list_all (\<lambda>ch. ok (ch_Hash ch)) ?b" using assms(5) ch(3) by simp
  show thesis
  proof (cases "length ?b \<ge> cdcMaxBatchSize")
    case True
    have t: "quiet (cst_db ?t)" "db_wf ok (cst_db ?t)" "recorded (cst_db ?t) j hs" "j \<in> nf_id ` set (db_nar_files (cst_db ?t))"
      using assms by simp_all
    obtain d where d: "recordChunkBatch j (length hs) ?b ?t = (Inr (), ?t\<lparr>cst_db := d\<rparr>)" "quiet d" "db_wf ok d"
      "recorded d j (hs @ map ch_Hash ?b)" "same_files (cst_db ?t) d"
      using recordChunkBatch_quiet [OF t(1,2) okb t(3,4)] by blast
    have "take_chunk ops j ch batch (length hs) loop s = loop [] (length (hs @ map ch_Hash ?b)) (?t\<lparr>cst_db := d\<rparr>)"
      unfolding take_chunk_def
      by (subst bindE_run, rule put) (use True thenE_run [of "recordChunkBatch j (length hs) ?b", OF d(1)] in \<open>simp add: Let_def\<close>)
    with d k show thesis by (intro that [of "[]" "hs @ map ch_Hash ?b" d k]) auto
  next
    case False
    have "take_chunk ops j ch batch (length hs) loop s = loop ?b (length hs) (?t\<lparr>cst_db := cst_db s\<rparr>)"
      unfolding take_chunk_def by (subst bindE_run, rule put) (use False in \<open>simp add: Let_def\<close>)
    with assms k okb show thesis by (intro that [of ?b hs "cst_db s" k]) (auto simp: same_files_def)
  qed
qed

end

lemma completed_same: "same_files d e \<Longrightarrow> completed j n z e d' \<Longrightarrow> completed j n z d d'"
  by (simp add: completed_def same_files_def)

text \<open>A schedule in which the context is never done.\<close>

definition never_done :: "cdc_event list \<Rightarrow> bool" where
  "never_done sched \<longleftrightarrow> list_all (\<lambda>e. \<forall>x. e \<noteq> TakeDone x) sched"

context chunk_store_laws
begin

text \<open>The state of the loop: \<open>hs\<close> are recorded, the batch is not yet.\<close>

definition chunking :: "(bytes \<Rightarrow> string) \<Rightarrow> bytes set \<Rightarrow> nat \<Rightarrow> string list \<Rightarrow> chunk list \<Rightarrow> ('l, 's, 'm) cache_state \<Rightarrow> bool" where
  "chunking f P j hs batch s \<longleftrightarrow> quiet (cst_db s) \<and> db_wf ok (cst_db s) \<and> fits f P (cst_chunks s) \<and>
     list_all (\<lambda>ch. ok (ch_Hash ch)) batch \<and> recorded (cst_db s) j hs \<and> j \<in> nf_id ` set (db_nar_files (cst_db s))"

text \<open>What the loop leaves: every chunk recorded, in order, and every piece in the store.\<close>

definition chunked ::
  "(bytes \<Rightarrow> string) \<Rightarrow> bytes set \<Rightarrow> nat \<Rightarrow> string list \<Rightarrow> nat \<Rightarrow> bytes list \<Rightarrow> ('l, 's, 'm) cache_state \<Rightarrow> ('l, 's, 'm) cache_state \<Rightarrow> bool" where
  "chunked f P j hs z ps s t \<longleftrightarrow> (\<exists>d k. t = s\<lparr>cst_chunks := k, cst_db := d\<rparr> \<and> quiet d \<and> db_wf ok d \<and> fits f P k \<and> recorded d j hs \<and>
     completed j (length hs) z (cst_db s) d \<and> content (cst_chunks s) \<subseteq>\<^sub>m content k \<and> list_all (\<lambda>p. content k (f p) = Some p) ps)"

lemma chunkingD:
  assumes "chunking f P j hs batch s"
  shows "quiet (cst_db s)" "db_wf ok (cst_db s)" "fits f P (cst_chunks s)" "list_all (\<lambda>ch. ok (ch_Hash ch)) batch"
    "recorded (cst_db s) j hs" "j \<in> nf_id ` set (db_nar_files (cst_db s))"
  using assms by (simp_all add: chunking_def)

lemma chunked_finish:
  fixes s :: "('l, 's, 'm) cache_state"
  assumes "chunking f P j hs batch s" "fs = 0 \<or> fs = z"
  shows "\<exists>t. finish_chunking j fs (length hs) z batch s = (Inr (), t) \<and> chunked f P j (hs @ map ch_Hash batch) z [] s t"
proof -
  note s = chunkingD [OF assms(1)]
  obtain d where "finish_chunking j fs (length hs) z batch s = (Inr (), s\<lparr>cst_db := d\<rparr>)" "quiet d" "db_wf ok d"
    "recorded d j (hs @ map ch_Hash batch)" "completed j (length hs + length batch) z (cst_db s) d"
    using finish_chunking_quiet [OF s(1,2,4,5,6) assms(2)] by blast
  then show ?thesis
    using s(3) by (intro exI [of _ "s\<lparr>cst_db := d\<rparr>"]) (auto simp: chunked_def intro!: exI [of _ d] exI [of _ "cst_chunks s"])
qed

lemma chunked_take:
  fixes s :: "('l, 's, 'm) cache_state"
  assumes "chunking f P j hs batch s" "hashed f P [ch]"
    and rest: "\<And>b hs' t. chunking f P j hs' b (t :: ('l, 's, 'm) cache_state) \<Longrightarrow>
      \<exists>u. loop b (length hs') t = (Inr (), u) \<and> chunked f P j (hs' @ map ch_Hash b @ hs2) z ps t u"
  shows "\<exists>u. take_chunk ops j ch batch (length hs) loop s = (Inr (), u) \<and>
    chunked f P j (hs @ map ch_Hash batch @ ch_Hash ch # hs2) z (ch_Data ch # ps) s u"
proof -
  note s = chunkingD [OF assms(1)]
  obtain b hs' d k where t: "take_chunk ops j ch batch (length hs) loop s = loop b (length hs') (s\<lparr>cst_chunks := k, cst_db := d\<rparr>)"
    "quiet d" "db_wf ok d" "fits f P k" "content (cst_chunks s) \<subseteq>\<^sub>m content k" "content k (ch_Hash ch) = Some (ch_Data ch)"
    "recorded d j hs'" "hs' @ map ch_Hash b = hs @ map ch_Hash batch @ [ch_Hash ch]"
    "list_all (\<lambda>ch. ok (ch_Hash ch)) b" "same_files (cst_db s) d"
    using take_chunk_quiet [OF s(1-3) assms(2) s(4-6), where loop = loop] by blast
  let ?t = "s\<lparr>cst_chunks := k, cst_db := d\<rparr>"
  have "chunking f P j hs' b ?t" using t s(6) by (simp add: chunking_def same_files_def)
  from rest [OF this] obtain d' k' where r: "loop b (length hs') ?t = (Inr (), ?t\<lparr>cst_chunks := k', cst_db := d'\<rparr>)"
    "quiet d'" "db_wf ok d'" "fits f P k'" "recorded d' j (hs' @ map ch_Hash b @ hs2)" "completed j (length (hs' @ map ch_Hash b @ hs2)) z d d'"
    "content k \<subseteq>\<^sub>m content k'" "list_all (\<lambda>p. content k' (f p) = Some p) ps"
    by (auto simp: chunked_def)
  have hs: "hs' @ map ch_Hash b @ hs2 = hs @ map ch_Hash batch @ ch_Hash ch # hs2"
    using t(8) by (metis append.assoc append_Cons append_Nil)
  have "content k' (f (ch_Data ch)) = Some (ch_Data ch)"
    using r(7) t(6) assms(2) by (auto simp: hashed_def map_le_def dom_def)
  then have "chunked f P j (hs @ map ch_Hash batch @ ch_Hash ch # hs2) z (ch_Data ch # ps) s (s\<lparr>cst_chunks := k', cst_db := d'\<rparr>)"
    unfolding chunked_def using r(2-8) t(5) completed_same [OF t(10) r(6)]
    by (intro exI [of _ d'] exI [of _ k']) (auto simp flip: hs intro: map_le_trans)
  then show ?thesis using t(1) r(1) by (intro exI) auto
qed

lemma chunked_flush:
  fixes s :: "('l, 's, 'm) cache_state"
  assumes "chunking f P j hs batch s"
    and rest: "\<And>t. chunking f P j (hs @ map ch_Hash batch) [] (t :: ('l, 's, 'm) cache_state) \<Longrightarrow>
      \<exists>u. loop t = (Inr (), u) \<and> chunked f P j hs2 z ps t u"
  shows "\<exists>u. thenE (recordChunkBatch j (length hs) batch) loop s = (Inr (), u) \<and> chunked f P j hs2 z ps s u"
proof -
  note s = chunkingD [OF assms(1)]
  obtain d where d: "recordChunkBatch j (length hs) batch s = (Inr (), s\<lparr>cst_db := d\<rparr>)" "quiet d" "db_wf ok d"
    "recorded d j (hs @ map ch_Hash batch)" "same_files (cst_db s) d"
    using recordChunkBatch_quiet [OF s(1,2,4,5,6)] by blast
  let ?t = "s\<lparr>cst_db := d\<rparr>"
  have "chunking f P j (hs @ map ch_Hash batch) [] ?t" using d s by (simp add: chunking_def same_files_def)
  from rest [OF this] obtain u where u: "loop ?t = (Inr (), u)" "chunked f P j hs2 z ps ?t u" by blast
  from u(2) have "chunked f P j hs2 z ps s u"
    unfolding chunked_def using completed_same [OF d(5)] by fastforce
  moreover have "thenE (recordChunkBatch j (length hs) batch) loop s = (Inr (), u)"
    by (subst thenE_run, rule d(1)) (rule u(1))
  ultimately show ?thesis by blast
qed

text \<open>For every schedule of the timer, the loop records the chunks of the stream, in order, as long as no error is taken from the chunker.\<close>

lemma chunk_loop_quiet:
  fixes s :: "('l, 's, 'm) cache_state"
  assumes "chunking f P j hs batch s" "hashed f P pending" "never_done sched" "failure = None \<or> TakeError \<notin> set sched" "fs = 0 \<or> fs = z + length (concat (map ch_Data pending))"
  shows "\<exists>t. chunk_loop ops j fs sched pending failure batch (length hs) z s = (Inr (), t) \<and>
    chunked f P j (hs @ map ch_Hash batch @ map ch_Hash pending) (z + length (concat (map ch_Data pending))) (map ch_Data pending) s t"
  using assms
proof (induction "length sched + length pending" arbitrary: sched pending batch hs z s rule: less_induct)
  case less
  note a = less.prems
  have finish: ?case if "pending = []" "chunk_loop ops j fs sched pending failure batch (length hs) z s = finish_chunking j fs (length hs) z batch s"
    using chunked_finish [OF a(1), of fs z] a(5) that by simp
  have take: ?case if pending: "pending = ch # rest" and sched: "never_done sched'" "length sched' \<le> length sched"
    and err: "failure = None \<or> TakeError \<notin> set sched'"
    and run: "chunk_loop ops j fs sched pending failure batch (length hs) z s =
      take_chunk ops j ch batch (length hs) (\<lambda>b n. chunk_loop ops j fs sched' rest failure b n (z + ch_Size ch)) s" for ch rest sched'
  proof -
    have ch: "hashed f P [ch]" "hashed f P rest" "ch_Size ch = length (ch_Data ch)" using a(2) by (auto simp: pending hashed_def)
    have fs: "fs = 0 \<or> fs = z + ch_Size ch + length (concat (map ch_Data rest))" using a(5) ch(3) by (simp add: pending add.assoc)
    show ?thesis
      using chunked_take [OF a(1) ch(1) less.hyps [OF _ _ ch(2) sched(1) err fs]] sched(2) run by (simp add: pending ch(3) add.assoc)
  qed
  show ?case
  proof (cases sched)
    case Nil
    then show ?thesis using finish take [of _ _ "[]"] by (cases pending) (auto simp: never_done_def)
  next
    case (Cons e sched')
    have sched: "never_done sched'" "failure = None \<or> TakeError \<notin> set sched'" using a(3,4) by (auto simp: Cons never_done_def)
    show ?thesis
    proof (cases e)
      case TakeChunk
      then show ?thesis using finish take [of _ _ sched'] sched by (cases pending) (auto simp: Cons)
    next
      case TakeError
      have "chunk_loop ops j fs sched pending failure batch (length hs) z s = chunk_loop ops j fs sched' pending failure batch (length hs) z s"
        using a(4) by (cases pending; cases failure) (simp_all add: Cons TakeError)
      with less.hyps [OF _ a(1,2) sched a(5)] show ?thesis by (simp add: Cons)
    next
      case TakeTimer
      then show ?thesis using chunked_flush [OF a(1) less.hyps [of sched' pending "hs @ map ch_Hash batch" "[]", OF _ _ a(2) sched a(5)]] by (simp add: Cons)
    next
      case (TakeDone x)
      then show ?thesis using a(3) by (simp add: Cons never_done_def)
    qed
  qed
qed

end

end
