(* ===== verification/Cache_CDC_Props.thy ===== *)
theory Cache_CDC_Props
  imports Cache_CDC_Lemmas
begin

text \<open>
  What content-defined chunking promises: a NAR that was stored as chunks is served byte by byte, for every schedule of the timer that flushes
  the batches; a success with a known size means that the whole NAR was chunked; a reader that follows the chunking gets the NAR or an error. The
  proofs are done once for every store of chunks with the laws of \<open>chunk_store_laws\<close> and then used at the local store.
\<close>

section \<open>A NAR that is not chunked yet\<close>

definition unclaimed :: "database \<Rightarrow> nar_url \<Rightarrow> bool" where
  "unclaimed d u \<longleftrightarrow>
     list_all (\<lambda>r. nar_file_key (url_Hash u) ''none'' (values_encode (url_Query u)) r \<longrightarrow>
        nf_total_chunks r = 0 \<and> nf_chunking_started_at r = None \<and> recorded d (nf_id r) []) (db_nar_files d)"

definition row_id :: "database \<Rightarrow> nar_url \<Rightarrow> nat \<Rightarrow> bool" where
  "row_id d u j \<longleftrightarrow> map nf_id (filter (nar_file_key (url_Hash u) ''none'' (values_encode (url_Query u))) (db_nar_files d)) = [j]"

lemma row_id_mem: "row_id d u j \<Longrightarrow> j \<in> nf_id ` set (db_nar_files d)"
proof -
  assume "row_id d u j"
  then have "j \<in> nf_id ` set (filter (nar_file_key (url_Hash u) ''none'' (values_encode (url_Query u))) (db_nar_files d))"
    by (metis list.set_intros(1) list.set_map row_id_def)
  then show ?thesis by auto
qed

lemma filter_upd_where:
  assumes "\<And>r. p (f r) = p r"
  shows "filter p (upd_where q f xs) = upd_where q f (filter p xs)"
  using assms by (induction xs) (auto simp: upd_where_def)

lemma row_id_update:
  assumes "row_id d u j" "db_nar_files d' = upd_where q f (db_nar_files d)"
    and "\<And>r. nf_hash (f r) = nf_hash r \<and> nf_compression (f r) = nf_compression r \<and> nf_query (f r) = nf_query r \<and> nf_id (f r) = nf_id r"
  shows "row_id d' u j"
proof -
  have "nar_file_key h c x (f r) = nar_file_key h c x r" for h c x r using assms(3) by (simp add: nar_file_key_def)
  with assms show ?thesis by (simp add: row_id_def filter_upd_where map_upd_where)
qed

lemma recorded_fresh: "db_wf ok d \<Longrightarrow> recorded d (db_next d) []"
proof -
  assume wf: "db_wf ok d"
  have "cl_nar_file_id l \<noteq> db_next d" if l: "l \<in> set (db_nar_file_chunks d)" for l
  proof -
    have "cl_nar_file_id l \<in> nf_id ` set (db_nar_files d)" using wf l by (auto simp: db_wf_def fk_wf_def list_all_iff)
    moreover have "\<forall>x \<in> set (db_nar_files d). nf_id x < db_next d" using wf by (simp add: db_wf_def keys_wf_def list_all_iff)
    ultimately show ?thesis by auto
  qed
  then show ?thesis by (simp add: recorded_def linked_chunks_def filter_False)
qed

lemma one_nar_file:
  assumes "db_wf ok d" "r \<in> set (db_nar_files d)" "nar_file_key h c q r"
  shows "filter (nar_file_key h c q) (db_nar_files d) = [r]"
proof -
  have "filter (\<lambda>x. nf_key x = nf_key r) (db_nar_files d) = [r]"
    using assms(1,2) by (intro filter_key_unique) (auto simp: db_wf_def keys_wf_def)
  moreover have "nar_file_key h c q = (\<lambda>x. nf_key x = nf_key r)"
    using assms(3) by (auto simp: nar_file_key_def nf_key_def fun_eq_iff)
  ultimately show ?thesis by simp
qed

text \<open>Claiming the row: its creation, the size, and the time at which chunking started.\<close>

lemma create_quiet:
  assumes "quiet d" "db_wf ok d" "unclaimed d u"
  obtains r d' where "nar_file_of (u\<lparr>url_Compression := ''none''\<rparr>) (\<lambda>h cm q. CreateNarFile h cm q fs 0) d = (Inr r, d')" "quiet d'"
    "recorded d' (nf_id r) []" "row_id d' u (nf_id r)" "nf_total_chunks r = 0" "nf_chunking_started_at r = None"
proof -
  let ?key = "nar_file_key (url_Hash u) ''none'' (values_encode (url_Query u))"
  let ?create = "nar_file_of (u\<lparr>url_Compression := ''none''\<rparr>) (\<lambda>h cm q. CreateNarFile h cm q fs 0)"
  show thesis
  proof (cases "filter ?key (db_nar_files d)")
    case Nil
    let ?r = "\<lparr>nf_id = db_next d, nf_hash = url_Hash u, nf_compression = ''none'', nf_file_size = fs, nf_query = values_encode (url_Query u),
      nf_created_at = db_now d, nf_updated_at = None, nf_last_accessed_at = db_now d, nf_total_chunks = 0, nf_chunking_started_at = None, nf_verified_at = None\<rparr>"
    let ?d = "d\<lparr>db_nar_files := db_nar_files d @ [?r], db_next := db_next d + 1\<rparr>"
    have "?create d = (Inr ?r, ?d)" using Nil assms(1) by (simp add: nar_file_of_def CreateNarFile_def quiet_def Let_def)
    moreover have "recorded ?d (db_next d) []" using recorded_fresh [OF assms(2)] recorded_cong [of ?d d] by simp
    moreover have "row_id ?d u (db_next d)" using Nil by (simp add: row_id_def nar_file_key_def)
    ultimately show thesis using assms(1) by (intro that [of ?r ?d]) (simp_all add: quiet_def)
  next
    case (Cons r rs)
    then have mem: "r \<in> set (filter ?key (db_nar_files d))" by simp
    let ?f = "\<lambda>r. r\<lparr>nf_updated_at := None\<rparr>"
    let ?d = "d\<lparr>db_nar_files := upd_where ?key ?f (db_nar_files d)\<rparr>"
    have "?create d = (Inr (?f r), ?d)" using Cons assms(1) by (simp add: nar_file_of_def CreateNarFile_def quiet_def)
    moreover have "row_id d u (nf_id r)" using one_nar_file [OF assms(2), of r] mem by (auto simp: row_id_def)
    then have "row_id ?d u (nf_id r)" by (rule row_id_update [where q = ?key and f = ?f]) auto
    moreover have "recorded ?d (nf_id r) []" "nf_total_chunks r = 0" "nf_chunking_started_at r = None"
      using assms(3) mem recorded_cong [of ?d d] by (auto simp: unclaimed_def list_all_iff)
    ultimately show thesis using assms(1) by (intro that [of "?f r" ?d]) (simp_all add: quiet_def)
  qed
qed

lemma exec_row:
  assumes "quiet d" "recorded d j hs" "row_id d u j"
    and "\<And>r. nf_hash (f d r) = nf_hash r \<and> nf_compression (f d r) = nf_compression r \<and> nf_query (f d r) = nf_query r \<and> nf_id (f d r) = nf_id r"
  shows "\<exists>d'. exec (\<lambda>s. upd_nar_file i (f s) s) d = (Inr (), d') \<and> quiet d' \<and> recorded d' j hs \<and> row_id d' u j"
proof -
  let ?d = "upd_nar_file i (f d) d"
  have "exec (\<lambda>s. upd_nar_file i (f s) s) d = (Inr (), ?d)" using assms(1) by (simp add: exec_def quiet_def)
  moreover have "quiet ?d \<and> recorded ?d j hs \<and> row_id ?d u j"
    using assms recorded_cong [of ?d d] row_id_update [OF assms(3), of ?d "\<lambda>r. nf_id r = i" "f d"]
    by (simp add: upd_nar_file_def quiet_def)
  ultimately show ?thesis by blast
qed

lemma claim_quiet:
  assumes "quiet d" "db_wf ok d" "unclaimed d u"
  obtains j d' where "claim_nar_file (u\<lparr>url_Compression := ''none''\<rparr>) fs d = (Inr (j, []), d')" "quiet d'" "db_wf ok d'" "recorded d' j []" "row_id d' u j"
proof -
  let ?claim = "claim_nar_file (u\<lparr>url_Compression := ''none''\<rparr>) fs"
  obtain r d1 where c: "nar_file_of (u\<lparr>url_Compression := ''none''\<rparr>) (\<lambda>h cm q. CreateNarFile h cm q fs 0) d = (Inr r, d1)" "quiet d1"
    "recorded d1 (nf_id r) []" "row_id d1 u (nf_id r)" "nf_total_chunks r = 0" "nf_chunking_started_at r = None"
    using create_quiet [OF assms] by blast
  obtain d2 where u: "UpdateNarFileFileSize (nf_id r) fs d1 = (Inr (), d2)" "quiet d2" "recorded d2 (nf_id r) []" "row_id d2 u (nf_id r)"
    unfolding UpdateNarFileFileSize_def
    using exec_row [OF c(2-4), of "\<lambda>s r. r\<lparr>nf_file_size := fs, nf_updated_at := Some (db_now s)\<rparr>" "nf_id r"] by auto
  define d3 where "d3 = (if nf_file_size r \<noteq> fs then d2 else d1)"
  have d3: "whenE (nf_file_size r \<noteq> fs \<and> nf_total_chunks r = 0) (UpdateNarFileFileSize (nf_id r) fs) d1 = (Inr (), d3)"
    "quiet d3" "recorded d3 (nf_id r) []" "row_id d3 u (nf_id r)"
    using c u by (simp_all add: d3_def whenE_def returnE_def)
  obtain d4 where s: "SetNarFileChunkingStarted (nf_id r) d3 = (Inr (), d4)" "quiet d4" "recorded d4 (nf_id r) []" "row_id d4 u (nf_id r)"
    unfolding SetNarFileChunkingStarted_def
    using exec_row [OF d3(2-4), of "\<lambda>s r. r\<lparr>nf_chunking_started_at := Some (db_now s), nf_updated_at := Some (db_now s)\<rparr>" "nf_id r"] by auto
  have run: "?claim d = (Inr (nf_id r, []), d4)"
    unfolding claim_nar_file_def
    by (subst bindE_run, rule c(1), subst thenE_run, rule d3(1)) (simp add: c(5,6) getsE_def bindE_def thenE_def returnE_def s(1))
  have "keeps (db_wf ok) ?claim" unfolding claim_nar_file_def nar_file_of_def by (intro keeps_intros db_keeps)
  then have "db_wf ok d4" using keepsD [of "db_wf ok" ?claim d] assms(2) run by simp
  with run s show thesis by (intro that [of "nf_id r" d4]) auto
qed


section \<open>Reading the chunks back\<close>

lemma init_chunk_stream_quiet:
  fixes s :: "('s, 'c, 'l) cache_state"
  assumes "isCDCEnabled c" "quiet (cst_db s)" "recorded (cst_db s) j hs" "row_id (cst_db s) u j"
  obtains r t where "init_chunk_stream c u s = (Inr r, t)" "r \<in> set (db_nar_files (cst_db s))" "nf_id r = j"
    "quiet (cst_db t)" "recorded (cst_db t) j hs" "cst_chunks t = cst_chunks s"
proof -
  let ?none = "u\<lparr>url_Compression := ''none''\<rparr>"
  obtain r where r: "filter (nar_file_key (url_Hash u) ''none'' (values_encode (url_Query u))) (db_nar_files (cst_db s)) = [r]" "nf_id r = j"
    using assms(4) by (auto simp: row_id_def)
  then have mem: "r \<in> set (db_nar_files (cst_db s))" by (metis filter_is_subset list.set_intros(1) subsetD)
  have get: "getNarFileFromDB c u (cst_db s) = (Inr r, cst_db s)"
    using assms(1,2) r(1)
    by (simp add: getNarFileFromDB_def nar_file_of_def GetNarFileByHashAndCompressionAndQuery_def select_one_def one_row_def
        quiet_def bindE_def attemptE_def returnE_def)
  define d where "d = (if stale c (db_now (cst_db s)) (nf_last_accessed_at r) then snd (nar_file_of u TouchNarFile (cst_db s)) else cst_db s)"
  have d: "quiet d" "recorded d j hs"
    using assms(2,3) recorded_cong [of d "cst_db s"]
    by (auto simp: d_def nar_file_of_def TouchNarFile_def execrows_def quiet_def)
  have "init_chunk_stream c u s = (Inr r, s\<lparr>cst_db := d\<rparr>)"
    unfolding init_chunk_stream_def using assms(2) d(1)
    by (intro withTransaction_calm)
      (auto simp: d_def quiet_def in_db_def get getsE_def bindE_def thenE_def returnE_def
        nar_file_of_def TouchNarFile_def execrows_def)
  then show thesis using that [of r "s\<lparr>cst_db := d\<rparr>"] mem r(2) d by simp
qed

context chunk_store_laws
begin

lemma stream_pieces:
  fixes s :: "('l, 's, 'm) cache_state"
  assumes "fits f P (cst_chunks s)" "set ps \<subseteq> P" "list_all (\<lambda>p. content (cst_chunks s) (f p) = Some p) ps"
  shows "streamChunksWithPrefetch ops False (map f ps) None s = (Inr (reader_of (concat ps)), s)"
  using assms(2,3)
proof (induction ps)
  case (Cons p ps)
  have "inv (cst_chunks s)" "calm (cst_chunks s)" "ok (f p)" using assms(1) Cons.prems by (auto simp: fits_def)
  from getc_result [OF this] have "in_chunks (cs_GetChunk ops (f p)) s = (Inr p, s)" using Cons.prems by (simp add: in_chunks_def)
  then show ?case using Cons by (simp add: fetch_chunk_def bindE_def attemptE_def returnE_def reader_of_def)
qed (simp add: returnE_def)

text \<open>When the context ends between a fetch and the sending of the chunk, the rest is missing and the stream ends without an error.\<close>

lemma stream_pieces_cut:
  fixes s :: "('l, 's, 'm) cache_state"
  assumes "fits f P (cst_chunks s)" "set ps \<subseteq> P" "list_all (\<lambda>p. content (cst_chunks s) (f p) = Some p) ps"
  shows "streamChunksWithPrefetch ops False (map f ps) (Some (2 * k + 1, quietly, e)) s = (Inr (reader_of (concat (take k ps))), s)"
  using assms(2,3)
proof (induction ps arbitrary: k)
  case (Cons p ps)
  have "inv (cst_chunks s)" "calm (cst_chunks s)" "ok (f p)" using assms(1) Cons.prems by (auto simp: fits_def)
  from getc_result [OF this] have "in_chunks (cs_GetChunk ops (f p)) s = (Inr p, s)" using Cons.prems by (simp add: in_chunks_def)
  then show ?case using Cons by (cases k) (simp_all add: fetch_chunk_def bindE_def attemptE_def returnE_def reader_of_def ended_def looked_def)
qed (simp add: returnE_def)

text \<open>A batch is written up to where the context ends.\<close>

lemma feed_pieces:
  fixes s :: "('l, 's, 'm) cache_state"
  assumes "fits f P (cst_chunks s)" "set ps \<subseteq> P" "list_all (\<lambda>p. content (cst_chunks s) (f p) = Some p) ps"
  shows "\<exists>k cx' cut. feed_chunks ops False (map f ps) cx s = (Inr (reader_of (concat (take k ps)), cx', cut), s) \<and> (\<not> cut \<longrightarrow> length ps \<le> k) \<and>
    (cx = None \<longrightarrow> \<not> cut \<and> cx' = None)"
  using assms(2,3)
proof (induction ps arbitrary: cx)
  case (Cons p ps)
  have "inv (cst_chunks s)" "calm (cst_chunks s)" "ok (f p)" using assms(1) Cons.prems by (auto simp: fits_def)
  from getc_result [OF this] have fetch: "fetch_chunk ops False (f p) s = (Inr (Inr p), s)" using Cons.prems by (simp add: in_chunks_def fetch_chunk_def attemptE_def)
  have sub: "set ps \<subseteq> P" "list_all (\<lambda>p. content (cst_chunks s) (f p) = Some p) ps" using Cons.prems by simp_all
  from Cons.IH [OF sub, of "looked cx"] obtain k cx' cut where k: "feed_chunks ops False (map f ps) (looked cx) s = (Inr (reader_of (concat (take k ps)), cx', cut), s)"
    "\<not> cut \<longrightarrow> length ps \<le> k" "looked cx = None \<longrightarrow> \<not> cut \<and> cx' = None"
    by (elim exE conjE)
  have "looked cx = None \<longleftrightarrow> cx = None" by (simp add: looked_def)
  note k = k(1,2) k(3) [unfolded this]
  show ?case
  proof (cases "ended cx")
    case None
    then show ?thesis using fetch k by (intro exI [of _ "Suc k"] exI [of _ cx'] exI [of _ cut]) (auto simp: bindE_def returnE_def reader_of_def)
  next
    case (Some x)
    then have "cx \<noteq> None" by (cases cx) auto
    then show ?thesis using fetch Some by (intro exI [of _ 0] exI [of _ cx] exI [of _ True]) (auto simp: bindE_def returnE_def reader_of_def)
  qed
qed (auto simp: returnE_def)

lemma serve_chunked:
  fixes s t :: "('l, 's, 'm) cache_state"
  assumes "cc_cdcEnabled c" "cc_chunkStore c = Some ops" "url_String u = Inr x"
    and "chunked f P j (map f ps) (length (concat ps)) ps s t" "row_id (cst_db s) u j" "set ps \<subseteq> P" "ps \<noteq> []"
  shows "\<exists>t'. getNarFromChunks c None envs u t = (Inr (length (concat ps), Some (reader_of (concat ps))), t')"
proof -
  have t: "quiet (cst_db t)" "fits f P (cst_chunks t)" "recorded (cst_db t) j (map f ps)" "completed j (length ps) (length (concat ps)) (cst_db s) (cst_db t)"
    "list_all (\<lambda>p. content (cst_chunks t) (f p) = Some p) ps" "db_wf ok (cst_db t)"
    using assms(4) by (auto simp: chunked_def)
  let ?f = "\<lambda>r. r\<lparr>nf_total_chunks := int (length ps), nf_file_size := length (concat ps), nf_updated_at := Some (db_now (cst_db s)), nf_chunking_started_at := None\<rparr>"
  have files: "db_nar_files (cst_db t) = upd_where (\<lambda>r. nf_id r = j) ?f (db_nar_files (cst_db s))"
    using t(4) by (simp add: completed_def upd_where_def)
  have "row_id (cst_db t) u j" by (rule row_id_update [OF assms(5) files]) simp
  moreover have "isCDCEnabled c" using assms(1,2) by (simp add: isCDCEnabled_def)
  ultimately obtain r t1 where i: "init_chunk_stream c u t = (Inr r, t1)" "r \<in> set (db_nar_files (cst_db t))" "nf_id r = j"
    "quiet (cst_db t1)" "recorded (cst_db t1) j (map f ps)" "cst_chunks t1 = cst_chunks t"
    using init_chunk_stream_quiet [OF _ t(1,3)] by blast
  have r: "nf_total_chunks r = int (length ps)" "nf_file_size r = length (concat ps)"
  proof -
    have "r \<in> set (upd_where (\<lambda>r. nf_id r = j) ?f (db_nar_files (cst_db s)))" using i(2) by (simp only: files)
    then obtain r0 where "r = (if nf_id r0 = j then ?f r0 else r0)" unfolding upd_where_def set_map by (rule imageE)
    then have "r = ?f r0" using i(3) by (cases "nf_id r0 = j") simp_all
    then show "nf_total_chunks r = int (length ps)" "nf_file_size r = length (concat ps)" by simp_all
  qed
  have rows: "map ck_hash (map snd (linked_chunks (cst_db t1) j)) = map f ps"
    using recorded_rows [OF i(5)] by (simp add: comp_def split_def)
  have "length (linked_chunks (cst_db t1) j) = length ps" using arg_cong [OF rows, of length] by simp
  moreover have "in_db (GetChunksByNarFileID j) t1 = (Inr (map snd (linked_chunks (cst_db t1) j)), t1)"
    using i(4) by (simp add: GetChunksByNarFileID_def select_def in_db_def quiet_def)
  moreover have "streamChunksWithPrefetch ops False (map f ps) None t1 = (Inr (reader_of (concat ps)), t1)"
    using t(2,5) assms(6) i(6) by (intro stream_pieces) auto
  ultimately have "streamCompleteChunks ops j (int (length ps)) False None t1 = (Inr (reader_of (concat ps)), t1)"
    using rows by (simp add: streamCompleteChunks_def bindE_def attemptE_def comp_def)
  then have "getNarFromChunks c None envs u t = (Inr (length (concat ps), Some (reader_of (concat ps))), t1)"
    using assms(1-3,7) i(1,3) r by (simp add: getNarFromChunks_def bindE_def returnE_def liftE_def)
  then show ?thesis by blast
qed

lemma store_then_serve:
  fixes s :: "('l, 's, 'm) cache_state"
  assumes c: "cc_cdcEnabled c" "cc_chunkStore c = Some ops" "cc_chunkLib c = lib" "url_String u = Inr x"
    and r: "kl_cut lib (maybeDecompressReader lib r (url_Compression u)) = (ps, failure)" "concat ps \<noteq> []"
    and s: "quiet (cst_db s)" "db_wf ok (cst_db s)" "unclaimed (cst_db s) u" "fits (kl_sum lib) (set ps) (cst_chunks s)"
    and u: "url_Compression u = ''none'' \<or> cc_cdcLazyChunking c" "fs = 0 \<or> fs = length (concat ps)" "never_done sched"
    and failure: "failure = None \<or> TakeError \<notin> set sched"
  shows "\<exists>t t'. storeNarWithCDCFromReader c sched (returnE ()) r fs u s = (Inr (), t) \<and>
    getNarFromChunks c None envs u t = (Inr (length (concat ps), Some (reader_of (concat ps))), t')"
proof -
  let ?u = "u\<lparr>url_Compression := ''none''\<rparr>"
  let ?P = "set ps"
  let ?cs = "chunk_from (kl_sum lib) 0 ps"
  obtain j d where d: "claim_nar_file ?u fs (cst_db s) = (Inr (j, []), d)" "quiet d" "db_wf ok d" "recorded d j []" "row_id d u j"
    using claim_quiet [OF s(1-3)] by blast
  let ?s = "s\<lparr>cst_db := d\<rparr>"
  have find: "findOrCreateNarFileForCDC ?u fs s = (Inr (j, []), ?s)"
    unfolding findOrCreateNarFileForCDC_def using s(1) d by (intro withTransaction_calm) (simp_all add: quiet_def in_db_def)
  have "chunking (kl_sum lib) ?P j [] [] ?s" using d s(4) row_id_mem [OF d(5)] by (simp add: chunking_def)
  moreover have "hashed (kl_sum lib) ?P ?cs"
  proof -
    have "ch_Data ` set ?cs = set ps" using chunk_from_data [of "kl_sum lib" 0 ps] by (metis list.set_map)
    then show ?thesis using chunk_from_mem [of _ "kl_sum lib" 0 ps] by (auto simp: hashed_def)
  qed
  ultimately obtain t where t: "chunk_loop ops j fs sched ?cs failure [] 0 0 ?s = (Inr (), t)" "chunked (kl_sum lib) ?P j (map (kl_sum lib) ps) (length (concat ps)) ps ?s t"
    using chunk_loop_quiet [of "kl_sum lib" ?P j "[]" "[]" ?s ?cs sched failure fs 0] u(2,3) failure by auto
  have "run_chunker c sched r fs (url_Compression u) j [] ?s = (Inr (), t)"
    using c r(1) t(1) by (simp add: run_chunker_def cleanupStaleLockChunks_def CDCChunker_Chunk_def thenE_def)
  then have "storeNarWithCDCFromReader c sched (returnE ()) r fs u s = (Inr (), t)"
    using c(4) u(1) by (auto simp: storeNarWithCDCFromReader_def bindE_def attemptE_def find thenE_def returnE_def whenE_def)
  moreover have "ps \<noteq> []" using r(2) by auto
  ultimately show ?thesis
    using serve_chunked [OF c(1,2,4), of "kl_sum lib" ?P j ps ?s t envs] t(2) d(5) by auto
qed

end

section \<open>Following a NAR that is being chunked\<close>

lemma recorded_from:
  assumes "recorded d j hs"
  shows "map ck_hash (map snd (filter (\<lambda>(k, _). k \<ge> i) (linked_chunks d j))) = drop i hs"
proof -
  have "map (\<lambda>(k, row). (k, ck_hash row)) (filter (\<lambda>(k, _). k \<ge> i) (linked_chunks d j)) =
      filter (\<lambda>(k, _). k \<ge> i) (map (\<lambda>(k, row). (k, ck_hash row)) (linked_chunks d j))"
    by (induction "linked_chunks d j") (auto simp: filter_map comp_def split_def)
  also have "\<dots> = filter (\<lambda>(k, _). k \<ge> i) (zip [0..<length hs] hs)" using assms by (simp only: recorded_def)
  finally have "map snd (map (\<lambda>(k, row). (k, ck_hash row)) (filter (\<lambda>(k, _). k \<ge> i) (linked_chunks d j))) =
      map snd (filter (\<lambda>(k, _). k \<ge> i) (zip [0..<length hs] hs))" by simp
  moreover have "map snd (filter (\<lambda>(k, _). k \<ge> i) (zip [m..<m + length hs] hs)) = drop (i - m) hs" for m hs
  proof (induction hs arbitrary: m)
    case (Cons h hs)
    have "zip [m..<m + length (h # hs)] (h # hs) = (m, h) # zip [Suc m..<Suc m + length hs] hs"
      by (simp add: upt_conv_Cons del: upt_Suc)
    moreover have "drop (i - m) (h # hs) = drop (i - Suc m) hs" if "i > m" using that by (simp add: drop_Cons' )
    moreover have "map snd (filter (\<lambda>(k, _). k \<ge> i) (zip [Suc m..<Suc m + length hs] hs)) = drop (i - Suc m) hs" by (rule Cons.IH)
    ultimately show ?case by (cases "i \<le> m") auto
  qed simp
  from this [of 0 hs] have "map snd (filter (\<lambda>(k, _). k \<ge> i) (zip [0..<length hs] hs)) = drop i hs" by simp
  ultimately show ?thesis by (simp add: comp_def split_def)
qed

context chunk_store_laws
begin

text \<open>The first pieces of the NAR are recorded and stored; its row has no other number of chunks than the final one.\<close>

definition growing :: "(bytes \<Rightarrow> string) \<Rightarrow> bytes list \<Rightarrow> nat \<Rightarrow> ('l, 's, 'm) cache_state \<Rightarrow> bool" where
  "growing f ps j s \<longleftrightarrow> fits f (set ps) (cst_chunks s) \<and>
     (\<exists>k. recorded (cst_db s) j (map f (take k ps)) \<and> list_all (\<lambda>p. content (cst_chunks s) (f p) = Some p) (take k ps)) \<and>
     (\<forall>r \<in> set (db_nar_files (cst_db s)). nf_id r = j \<longrightarrow> nf_total_chunks r \<in> {0, int (length ps)})"

definition at_most :: "bytes list \<Rightarrow> stream_state \<Rightarrow> bool" where
  "at_most ps st \<longleftrightarrow> ss_totalChunks st \<in> {0, int (length ps)}"

text \<open>What a step gives: the next pieces, and, as long as the request lasts, it only ends without an error when all are out.\<close>

definition step_ok :: "bytes list \<Rightarrow> stream_state \<Rightarrow> stream_step \<Rightarrow> bool" where
  "step_ok ps st res \<longleftrightarrow>
     (case res of
        Continue st' b \<Rightarrow> at_most ps st' \<and> (ss_context st = None \<longrightarrow> ss_context st' = None) \<and>
          b @ concat (drop (ss_chunkIndex st') ps) = concat (drop (ss_chunkIndex st) ps)
      | Finish b e \<Rightarrow> prefix b (concat (drop (ss_chunkIndex st) ps)) \<and> (e = None \<and> ss_context st = None \<longrightarrow> b = concat (drop (ss_chunkIndex st) ps)))"

end

definition refault :: "err option list \<Rightarrow> ('s, 'c, 'l) cache_state \<Rightarrow> ('s, 'c, 'l) cache_state" where
  "refault fs s = s\<lparr>cst_db := (cst_db s)\<lparr>db_faults := fs\<rparr>\<rparr>"

text \<open>A query of the stream fails, or its answer is that of the tables.\<close>

lemma stream_query_cases:
  fixes s :: "('s, 'c, 'l) cache_state"
  assumes "stream_query q k s = (r, t)" "\<And>d fs. fst (q' (d\<lparr>db_faults := fs\<rparr>)) = fst (q' d)" "q = db_call q'" "\<And>d. snd (q' d) = d"
  obtains e fs where "r = Inr (Finish [] (Some e))" "t = refault fs s"
  | x fs where "fst (q' (cst_db s)) = Inr x" "k x (refault fs s) = (r, t)"
proof -
  obtain y d where y: "q (cst_db s) = (y, d)" by fastforce
  have "\<exists>fs. d = (cst_db s)\<lparr>db_faults := fs\<rparr>"
  proof (cases "db_faults (cst_db s)")
    case Nil
    then have "d = cst_db s" using y assms(4) [of "cst_db s"] by (simp add: assms(3) db_call_def)
    then show ?thesis by (intro exI [of _ "db_faults (cst_db s)"]) simp
  next
    case (Cons f fs)
    then show ?thesis
      using y assms(4) [of "(cst_db s)\<lparr>db_faults := fs\<rparr>"]
      by (intro exI [of _ fs]) (auto simp: assms(3) db_call_def split: option.splits)
  qed
  then obtain fs where d: "d = (cst_db s)\<lparr>db_faults := fs\<rparr>" by blast
  have "\<exists>e. y = Inl e \<or> fst (q' (cst_db s)) = y"
    using y assms(2) by (auto simp: assms(3) db_call_def split: list.splits option.splits dest!: arg_cong [of _ _ fst])
  then show thesis
    using that y assms(1) d
    by (cases y) (auto simp: stream_query_def bindE_def attemptE_def in_db_def returnE_def refault_def)
qed

context chunk_store_laws
begin

lemma growing_refault: "growing f ps j s \<Longrightarrow> growing f ps j (refault fs s)"
  using recorded_cong [of "(cst_db s)\<lparr>db_faults := fs\<rparr>" "cst_db s"] by (simp add: growing_def refault_def)

lemma feed_growing:
  fixes s :: "('l, 's, 'm) cache_state"
  assumes "fits f (set ps) (cst_chunks s)" "list_all (\<lambda>p. content (cst_chunks s) (f p) = Some p) qs" "at_most ps st"
    and "map ck_hash batch = map f qs" "qs = take (length qs) (drop (ss_chunkIndex st) ps)"
  shows "\<exists>res. feed_batch ops False st batch s = (Inr res, s) \<and> step_ok ps st res"
proof -
  let ?i = "ss_chunkIndex st"
  have rest: "concat qs @ concat (drop (?i + length qs) ps) = concat (drop ?i ps)"
    by (metis append_take_drop_id assms(5) concat_append drop_drop add.commute)
  have "set qs \<subseteq> set ps" by (metis assms(5) set_drop_subset set_take_subset subset_trans)
  from feed_pieces [OF assms(1) this assms(2), of "ss_context st"] obtain k cx cut
    where run: "feed_chunks ops False (map f qs) (ss_context st) s = (Inr (reader_of (concat (take k qs)), cx, cut), s)"
      and cut: "\<not> cut \<longrightarrow> length qs \<le> k" and cx: "ss_context st = None \<longrightarrow> \<not> cut \<and> cx = None" by (elim exE conjE)
  from cut have k: "\<not> cut \<Longrightarrow> take k qs = qs" by simp
  have len: "length batch = length qs" using assms(4) by (metis length_map)
  let ?st = "st\<lparr>ss_point := AskBatch, ss_chunkIndex := ?i + length qs, ss_context := cx\<rparr>"
  let ?b = "concat (take k qs)"
  have "feed_batch ops False st batch s = (Inr (if cut \<or> stream_done ?st then Finish ?b None else Continue ?st ?b), s)"
    using run by (simp add: feed_batch_def assms(4) bindE_def reader_of_def returnE_def Let_def len)
  moreover have "prefix ?b (concat (drop ?i ps))"
    by (metis append_take_drop_id concat_append prefixI append.assoc rest)
  moreover have "concat qs = concat (drop ?i ps)" if "stream_done ?st"
  proof -
    have "drop (?i + length qs) ps = []" using that assms(3) by (auto simp: stream_done_def at_most_def)
    then show ?thesis using rest by (metis append_Nil2 concat.simps(1))
  qed
  ultimately show ?thesis
    using rest assms(3) k cx by (cases cut) (auto simp: step_ok_def at_most_def)
qed

lemma batch_growing:
  assumes "recorded d j (map f (take k ps))"
  shows "\<exists>qs. map ck_hash (take n (map snd (filter (\<lambda>(k, _). k \<ge> i) (linked_chunks d j)))) = map f qs \<and>
    qs = take (length qs) (drop i ps) \<and> set qs \<subseteq> set (take k ps)"
proof (intro exI conjI)
  let ?qs = "take n (drop i (take k ps))"
  show "map ck_hash (take n (map snd (filter (\<lambda>(k, _). k \<ge> i) (linked_chunks d j)))) = map f ?qs"
    using arg_cong [OF recorded_from [OF assms, of i], of "take n"] by (simp add: take_map drop_map)
  show "?qs = take (length ?qs) (drop i ps)" by (simp add: drop_take min_def)
  show "set ?qs \<subseteq> set (take k ps)" by (meson set_drop_subset set_take_subset subset_trans)
qed

lemma ask_growing:
  fixes s :: "('l, 's, 'm) cache_state"
  assumes "growing f ps j s" "at_most ps st"
    and empty: "\<And>fs. \<exists>res gs. other (refault fs s) = (Inr res, refault gs s) \<and> step_ok ps st res"
  shows "\<exists>res fs. stream_query (GetChunksByNarFileIDFromIndex j (ss_chunkIndex st) n)
      (\<lambda>batch. if batch \<noteq> [] then feed_batch ops False st batch else other) s = (Inr res, refault fs s) \<and> step_ok ps st res"
proof -
  let ?k = "\<lambda>batch. if batch \<noteq> [] then feed_batch ops False st batch else other"
  let ?g = "\<lambda>d. take n (map snd (filter (\<lambda>(k, _). k \<ge> ss_chunkIndex st) (linked_chunks d j)))"
  obtain r t where run: "stream_query (GetChunksByNarFileIDFromIndex j (ss_chunkIndex st) n) ?k s = (r, t)" by fastforce
  obtain k where k: "recorded (cst_db s) j (map f (take k ps))" "list_all (\<lambda>p. content (cst_chunks s) (f p) = Some p) (take k ps)"
    using assms(1) by (auto simp: growing_def)
  have same: "linked_chunks (d\<lparr>db_faults := fs\<rparr>) = linked_chunks d" for d fs by (simp add: linked_chunks_def fun_eq_iff)
  show ?thesis
  proof (rule stream_query_cases [OF run, where q' = "\<lambda>d. (Inr (?g d), d)"], goal_cases)
    case (5 x fs)
    then have x: "x = ?g (cst_db s)" by simp
    obtain qs where qs: "map ck_hash x = map f qs" "qs = take (length qs) (drop (ss_chunkIndex st) ps)" "set qs \<subseteq> set (take k ps)"
      using batch_growing [OF k(1)] x by blast
    show ?case
    proof (cases "x = []")
      case True
      then show ?thesis using empty [of fs] 5(2) run by auto
    next
      case False
      have "list_all (\<lambda>p. content (cst_chunks (refault fs s)) (f p) = Some p) qs"
        using k(2) qs(3) by (auto simp: list_all_iff refault_def)
      moreover have "fits f (set ps) (cst_chunks (refault fs s))" using assms(1) by (simp add: growing_def refault_def)
      ultimately obtain res where "feed_batch ops False st x (refault fs s) = (Inr res, refault fs s)" "step_ok ps st res"
        using feed_growing [OF _ _ assms(2) qs(1,2)] by blast
      then show ?thesis using 5(2) False run by auto
    qed
  next
    case (4 e fs)
    then show ?case using run by (auto simp: step_ok_def)
  qed (simp_all add: GetChunksByNarFileIDFromIndex_def select_def same)
qed

lemma record_growing:
  fixes s :: "('l, 's, 'm) cache_state"
  assumes "growing f ps j s"
    and "\<And>r fs. nf_total_chunks r \<in> {0, int (length ps)} \<Longrightarrow> \<exists>res. k r (refault fs s) = (Inr res, refault fs s) \<and> step_ok ps st res"
  shows "\<exists>res fs. stream_query (GetNarFileByID j) k s = (Inr res, refault fs s) \<and> step_ok ps st res"
proof -
  obtain r t where run: "stream_query (GetNarFileByID j) k s = (r, t)" by fastforce
  show ?thesis
  proof (rule stream_query_cases [OF run, where q' = "\<lambda>d. (one_row (filter (\<lambda>r. nf_id r = j) (db_nar_files d)), d)"], goal_cases)
    case (5 x fs)
    then have "x \<in> set (db_nar_files (cst_db s))" "nf_id x = j"
      by (auto simp: one_row_def split: list.splits dest!: Cons_eq_filterD sym [of "filter _ _"])
    then show ?case using assms 5(2) run unfolding growing_def by metis
  next
    case (4 e fs)
    then show ?case using run by (auto simp: step_ok_def)
  qed (simp_all add: GetNarFileByID_def select_one_def)
qed

lemma ask_looked:
  fixes s :: "('l, 's, 'm) cache_state"
  assumes "growing f ps j s" "at_most ps st" "st' = st\<lparr>ss_context := looked (ss_context st)\<rparr>"
    and "\<And>fs. \<exists>res gs. other (refault fs s) = (Inr res, refault gs s) \<and> step_ok ps st' res"
  shows "\<exists>res fs. stream_query (GetChunksByNarFileIDFromIndex j (ss_chunkIndex st) n)
      (\<lambda>batch. if batch \<noteq> [] then feed_batch ops False st' batch else other) s = (Inr res, refault fs s) \<and> step_ok ps st' res"
proof -
  have "at_most ps st'" "ss_chunkIndex st' = ss_chunkIndex st" using assms(2,3) by (simp_all add: at_most_def)
  then show ?thesis using ask_growing [of f ps j s st' other n, OF assms(1)] assms(4) by simp
qed

lemma looking_growing:
  fixes s :: "('l, 's, 'm) cache_state"
  assumes "\<exists>res fs. k (st\<lparr>ss_context := looked (ss_context st)\<rparr>) s = (Inr res, refault fs s) \<and> step_ok ps (st\<lparr>ss_context := looked (ss_context st)\<rparr>) res"
  shows "\<exists>res fs. looking st k s = (Inr res, refault fs s) \<and> step_ok ps st res"
proof (cases "ended (ss_context st)")
  case None
  have "step_ok ps (st\<lparr>ss_context := looked (ss_context st)\<rparr>) res \<longrightarrow> step_ok ps st res" for res
    by (auto simp: step_ok_def split: stream_step.splits)
  then show ?thesis using assms None by (auto simp: looking_def)
next
  case (Some x)
  have "refault (db_faults (cst_db s)) s = s" by (simp add: refault_def)
  moreover have "looking st k s = (Inr (Finish [] (Some (snd x))), s)" using Some by (simp add: looking_def returnE_def split_def)
  ultimately show ?thesis by (intro exI [of _ "Finish [] (Some (snd x))"] exI [of _ "db_faults (cst_db s)"]) (simp add: step_ok_def)
qed

lemma step_growing:
  fixes s :: "('l, 's, 'm) cache_state"
  assumes "growing f ps j s" "at_most ps st"
  shows "\<exists>res fs. stream_step_at ops False j st s = (Inr res, refault fs s) \<and> step_ok ps st res"
proof (cases "ss_point st")
  case AskBatch
  show ?thesis
    unfolding stream_step_at_def Let_def AskBatch poll_point.case
    by (rule looking_growing, rule ask_looked [OF assms refl])
      (use assms(2) in \<open>auto simp: returnE_def step_ok_def at_most_def stream_done_def\<close>)
next
  case AskRecord
  show ?thesis
    unfolding stream_step_at_def Let_def AskRecord poll_point.case
    by (rule record_growing [OF assms(1)]) (use assms(2) in \<open>auto simp: returnE_def step_ok_def at_most_def stream_done_def\<close>)
next
  case (WaitBatch n)
  show ?thesis
    unfolding stream_step_at_def Let_def WaitBatch poll_point.case
    by (rule looking_growing, rule ask_looked [OF assms refl])
      (use assms(2) in \<open>auto simp: returnE_def step_ok_def at_most_def\<close>)
next
  case (WaitRecord n)
  show ?thesis
    unfolding stream_step_at_def Let_def WaitRecord poll_point.case
    by (rule record_growing [OF assms(1)]) (use assms(2) in \<open>auto simp: returnE_def step_ok_def at_most_def stream_done_def\<close>)
qed

lemma run_growing:
  fixes s :: "('l, 's, 'm) cache_state"
  assumes "growing f ps j s" "at_most ps st" "list_all (\<lambda>env. \<forall>t. growing f ps j t \<longrightarrow> growing f ps j (env t)) envs"
  shows "\<exists>out t. run_stream ops False j envs st s = (Inr out, t) \<and>
    (\<forall>r. out = Some r \<longrightarrow> prefix (rd_data r) (concat (drop (ss_chunkIndex st) ps)) \<and>
      (rd_err r = None \<and> ss_context st = None \<longrightarrow> rd_data r = concat (drop (ss_chunkIndex st) ps)))"
  using assms
proof (induction envs arbitrary: st s)
  case (Cons env envs)
  obtain res fs where r: "stream_step_at ops False j st (env s) = (Inr res, refault fs (env s))" "step_ok ps st res"
    using step_growing [of f ps j "env s" st] Cons.prems by auto
  show ?case
  proof (cases res)
    case (Finish b e)
    then show ?thesis using r by (simp add: thenE_def bindE_def modifyE_def returnE_def step_ok_def)
  next
    case (Continue st' b)
    have g: "growing f ps j (refault fs (env s))" using Cons.prems by (simp add: growing_refault)
    have st': "at_most ps st'" "b @ concat (drop (ss_chunkIndex st') ps) = concat (drop (ss_chunkIndex st) ps)"
      "ss_context st = None \<longrightarrow> ss_context st' = None"
      using r(2) by (simp_all add: Continue step_ok_def)
    from Cons.IH [OF g st'(1)] Cons.prems(3) obtain out t where "run_stream ops False j envs st' (refault fs (env s)) = (Inr out, t)"
      "\<forall>r. out = Some r \<longrightarrow> prefix (rd_data r) (concat (drop (ss_chunkIndex st') ps)) \<and>
        (rd_err r = None \<and> ss_context st' = None \<longrightarrow> rd_data r = concat (drop (ss_chunkIndex st') ps))" by auto
    then show ?thesis
      using r(1) st'(3) by (auto simp: thenE_def bindE_def modifyE_def returnE_def Continue simp flip: st'(2))
  qed
qed (simp add: returnE_def)

end

section \<open>Properties\<close>

text \<open>No two of the pieces have the same hash, and the store has nothing else under the hash of a piece.\<close>

definition collision_free :: "zstd_codec \<Rightarrow> path \<Rightarrow> (bytes \<Rightarrow> string) \<Rightarrow> bytes list \<Rightarrow> file_system \<Rightarrow> bool" where
  "collision_free zc b f ps k \<longleftrightarrow>
     inj_on f (set ps) \<and> list_all (\<lambda>p. chunk_hash (f p) \<and> chunks zc b k (f p) \<in> {None, Some p}) ps"

text \<open>A local store of chunks without failures.\<close>

definition chunks_ready :: "zstd_codec \<Rightarrow> path \<Rightarrow> file_system \<Rightarrow> bool" where
  "chunks_ready zc b k \<longleftrightarrow> chunk_inv zc b k \<and> chunk_calm b k"

lemma local_fits: "chunks_ready zc b k \<Longrightarrow> collision_free zc b f ps k \<Longrightarrow> local_chunks.fits zc b f (set ps) k"
  by (simp add: chunks_ready_def collision_free_def local_chunks.fits_def list_all_iff)

text \<open>C1. A NAR that is stored as chunks is then served from them: exactly its bytes, after decompression, and their number, for every order in
  which the timer, the chunks and the batches meet, for every way of cutting, and with chunks shared with other NARs.\<close>

theorem cdc_store_then_serve:
  fixes s :: "('s, file_system, 'l) cache_state"
  assumes c: "cc_cdcEnabled c" "cc_chunkStore c = Some (local_chunk_store zc b)" "url_String u = Inr x"
    and nar: "maybeDecompressReader (cc_chunkLib c) r (url_Compression u) = reader_of nar" "nar \<noteq> []"
    and lib: "cuts_ok (cc_chunkLib c) (reader_of nar)"
    and s: "quiet (cst_db s)" "db_wf chunk_hash (cst_db s)" "unclaimed (cst_db s) u" "chunks_ready zc b (cst_chunks s)"
      "collision_free zc b (kl_sum (cc_chunkLib c)) (fst (kl_cut (cc_chunkLib c) (reader_of nar))) (cst_chunks s)"
    and u: "url_Compression u = ''none'' \<or> cc_cdcLazyChunking c" "fileSize = 0 \<or> fileSize = length nar" "never_done sched"
  shows "\<exists>t t'. storeNarWithCDCFromReader c sched (returnE ()) r fileSize u s = (Inr (), t) \<and>
    getNarFromChunks c None envs u t = (Inr (length nar, Some (reader_of nar)), t')"
proof -
  obtain ps where ps: "kl_cut (cc_chunkLib c) (reader_of nar) = (ps, None)" "concat ps = nar"
    using lib by (auto simp: cuts_ok_def reader_of_def split: prod.splits)
  show ?thesis
    using local_chunks.store_then_serve [OF c(1,2) refl c(3), where r = r and ps = ps and failure = None and s = s and fs = fileSize] nar u s
      local_fits [OF s(4)] ps by simp
qed

text \<open>The chunker closes its channel after an error too. When the size is not known, as for a NAR that is migrated, and the closed channel is taken
  before the error, the part that was cut is recorded as the whole NAR and served without an error.\<close>

theorem cdc_error_may_be_lost:
  fixes s :: "('s, file_system, 'l) cache_state"
  assumes c: "cc_cdcEnabled c" "cc_chunkStore c = Some (local_chunk_store zc b)" "url_String u = Inr x"
    and nar: "kl_cut (cc_chunkLib c) (maybeDecompressReader (cc_chunkLib c) r (url_Compression u)) = (ps, Some e)" "concat ps \<noteq> []"
    and s: "quiet (cst_db s)" "db_wf chunk_hash (cst_db s)" "unclaimed (cst_db s) u" "chunks_ready zc b (cst_chunks s)"
      "collision_free zc b (kl_sum (cc_chunkLib c)) ps (cst_chunks s)"
    and u: "url_Compression u = ''none'' \<or> cc_cdcLazyChunking c"
  shows "\<exists>t t'. storeNarWithCDC c [] (returnE ()) r u s = (Inr (), t) \<and>
    getNarFromChunks c None envs u t = (Inr (length (concat ps), Some (reader_of (concat ps))), t')"
  using local_chunks.store_then_serve [OF c(1,2) refl c(3) nar s(1-3) local_fits [OF s(4,5)] u, of 0 "[]" envs]
  by (auto simp: storeNarWithCDC_def never_done_def)

lemma chunk_loop_total:
  "chunk_loop cs j fs sched pending failure batch n z s = (Inr (), t) \<Longrightarrow> fs > 0 \<Longrightarrow> z + sum_list (map ch_Size pending) = fs"
proof (induction cs j fs sched pending failure batch n z arbitrary: s rule: chunk_loop.induct)
  case (2 cs j fs sched pending failure batch n z)
  then show ?case by (cases pending; cases failure) (auto simp: raiseE_def)
next
  case (5 cs j fs sched ch pending failure batch n z)
  from 5(2,3) show ?case
    by (auto simp: take_chunk_def bindE_Inr Let_def thenE_Inr in_chunks_def add.assoc split: if_splits dest!: 5(1))
next
  case (7 cs j fs ch pending failure batch n z)
  from 7(2,3) show ?case
    by (auto simp: take_chunk_def bindE_Inr Let_def thenE_Inr in_chunks_def add.assoc split: if_splits dest!: 7(1))
qed (auto simp: raiseE_def thenE_Inr finish_chunking_def split: if_splits)

text \<open>C19. When the size of the NAR is known, chunking returns without an error only when the whole NAR was cut into chunks, whatever fails on
  the way and whatever the reader, the timer and the context do.\<close>

theorem cdc_success_is_complete:
  assumes "cuts_ok (cc_chunkLib c) (maybeDecompressReader (cc_chunkLib c) r ct)"
    and "fileSize = length (rd_data (maybeDecompressReader (cc_chunkLib c) r ct))" "fileSize > 0"
    and "run_chunker c sched r fileSize ct narFileID staleLockChunks s = (Inr (), t)"
  shows "concat (map ch_Data (fst (CDCChunker_Chunk (cc_chunkLib c) (maybeDecompressReader (cc_chunkLib c) r ct)))) =
    rd_data (maybeDecompressReader (cc_chunkLib c) r ct)"
proof -
  let ?nar = "maybeDecompressReader (cc_chunkLib c) r ct"
  obtain ps e where ps: "kl_cut (cc_chunkLib c) ?nar = (ps, e)" by fastforce
  let ?cs = "chunk_from (kl_sum (cc_chunkLib c)) 0 ps"
  obtain cs u where "chunk_loop cs narFileID fileSize sched ?cs e [] 0 0 u = (Inr (), t)"
    using assms(4) ps by (auto simp: run_chunker_def raiseE_def thenE_Inr CDCChunker_Chunk_def split: bool.splits option.splits)
  from chunk_loop_total [OF this assms(3)] have "sum_list (map ch_Size ?cs) = fileSize" by simp
  then have "length (concat ps) = length (rd_data ?nar)" using assms(2) by (simp add: length_concat)
  moreover have "prefix (concat ps) (rd_data ?nar)" using assms(1) ps by (auto simp: cuts_ok_def split: if_splits)
  ultimately have "concat ps = rd_data ?nar" by (metis append_eq_conv_conj prefixE take_all_iff order_refl)
  then show ?thesis by (simp add: CDCChunker_Chunk_def ps)
qed




text \<open>What a request that ends leaves: for every number of chunks there is a moment to end at, after which the stream closes without an error on just
  these, although all chunks are there. Whoever reads the stream to its end takes the part for the whole NAR.\<close>

theorem stream_cut_quietly:
  fixes s :: "('s, file_system, 'l) cache_state"
  assumes "chunks_ready zc b (cst_chunks s)" "collision_free zc b f ps (cst_chunks s)"
    and "list_all (\<lambda>p. chunks zc b (cst_chunks s) (f p) = Some p) ps"
  shows "\<exists>cx. streamChunksWithPrefetch (local_chunk_store zc b) False (map f ps) cx s = (Inr \<lparr>rd_data = concat (take k ps), rd_err = None\<rparr>, s)"
  using local_chunks.stream_pieces_cut [OF local_fits [OF assms(1,2)] order_refl assms(3), of k] by (auto simp: reader_of_def)

section \<open>Examples\<close>

definition demo_cdc_conf :: "((string \<times> string) list, file_system, unit) cache_conf" where
  "demo_cdc_conf =
     \<lparr>cc_narStore = demo_nar_store, cc_narInfoStore = demo_narinfo_store, cc_chunkStore = Some (local_chunk_store plain_codec []), cc_cdcEnabled = True,
      cc_cdcLazyChunking = False, cc_cdcDeleteDelay = 0, cc_chunkLib = demo_chunk_lib,
      cc_downloadLocker = locker.truncate demo_locker, cc_cacheLocker = demo_locker, cc_hostName = ''ncps'', cc_shouldSignNarinfo = True,
      cc_recordAgeIgnoreTouch = 300, cc_maxSize = 0, cc_nix = demo_lib\<rparr>"

definition demo_cdc_state :: "((string \<times> string) list, file_system, unit) cache_state" where
  "demo_cdc_state = idle_cache empty_db [] (empty_fs []) ()"

definition demo_nar :: nar_url where
  "demo_nar = mk_nar_url plain_hash ''none'' []"

lemma demo_cdc_fields:
  "cc_cdcEnabled demo_cdc_conf" "cc_chunkStore demo_cdc_conf = Some (local_chunk_store plain_codec [])" "cc_chunkLib demo_cdc_conf = demo_chunk_lib"
  "url_Compression demo_nar = ''none''"
  by (simp_all add: demo_cdc_conf_def demo_nar_def mk_nar_url_def)

lemma demo_nar_string: "\<exists>x. url_String demo_nar = Inr x"
  by (simp add: demo_nar_def mk_nar_url_def url_String_def pathWithCompression_def ToFileExtension_def values_encode_Nil Let_def)

lemma demo_ready: "chunks_ready plain_codec [] (empty_fs [])"
  by (simp add: chunks_ready_def chunk_inv_def empty_fs_chunks)

lemma demo_collision_free: "collision_free plain_codec [] (kl_sum demo_chunk_lib) [''ab'', ''cd''] (empty_fs [])"
  by (simp add: collision_free_def empty_fs_chunks(5) demo_chunk_lib_def chunk_hash_def is_hex_def numeral_eq_Suc)

lemma demo_cdc_db: "quiet (cst_db demo_cdc_state)" "db_wf ok (cst_db demo_cdc_state)" "unclaimed (cst_db demo_cdc_state) demo_nar"
  "cst_chunks demo_cdc_state = empty_fs []"
  using demo_state_ok(1,2) by (simp_all add: demo_cdc_state_def demo_state_def idle_cache_def unclaimed_def empty_db_def)

theorem cdc_store_then_serve_witness:
  "\<exists>t t'. storeNarWithCDCFromReader demo_cdc_conf [TakeTimer, TakeChunk, TakeTimer] (returnE ()) (reader_of ''abcd'') 4 demo_nar demo_cdc_state = (Inr (), t) \<and>
    getNarFromChunks demo_cdc_conf None [] demo_nar t = (Inr (4, Some (reader_of ''abcd'')), t')"
proof -
  obtain x where x: "url_String demo_nar = Inr x" using demo_nar_string by blast
  have "fst (kl_cut demo_chunk_lib (reader_of ''abcd'')) = [''ab'', ''cd'']" by (simp add: demo_chunk_lib_def reader_of_def)
  moreover have "maybeDecompressReader demo_chunk_lib (reader_of ''abcd'') ''none'' = reader_of ''abcd''" by (simp add: maybeDecompressReader_def)
  ultimately show ?thesis
    using cdc_store_then_serve [OF demo_cdc_fields(1,2) x, where r = "reader_of ''abcd''" and nar = "''abcd''" and fileSize = 4
        and s = demo_cdc_state and sched = "[TakeTimer, TakeChunk, TakeTimer]" and envs = "[]"]
      demo_cuts_ok demo_cdc_db demo_ready demo_collision_free
    by (simp add: demo_cdc_fields never_done_def eval_nat_numeral)
qed

theorem cdc_error_may_be_lost_witness:
  "\<exists>t t'. storeNarWithCDC demo_cdc_conf [] (returnE ()) \<lparr>rd_data = ''abcd'', rd_err = Some ErrUnexpectedEOF\<rparr> demo_nar demo_cdc_state = (Inr (), t) \<and>
    getNarFromChunks demo_cdc_conf None [] demo_nar t = (Inr (4, Some (reader_of ''abcd'')), t')"
proof -
  obtain x where x: "url_String demo_nar = Inr x" using demo_nar_string by blast
  let ?r = "\<lparr>rd_data = ''abcd'', rd_err = Some ErrUnexpectedEOF\<rparr>"
  have "kl_cut demo_chunk_lib (maybeDecompressReader demo_chunk_lib ?r ''none'') = ([''ab'', ''cd''], Some ErrUnexpectedEOF)"
    by (simp add: demo_chunk_lib_def maybeDecompressReader_def)
  then show ?thesis
    using cdc_error_may_be_lost [OF demo_cdc_fields(1,2) x, where r = ?r and s = demo_cdc_state and envs = "[]" and ps = "[''ab'', ''cd'']"]
      demo_cdc_db demo_ready demo_collision_free
    by (simp add: demo_cdc_fields eval_nat_numeral)
qed

definition demo_claimed :: "((string \<times> string) list, file_system, unit) cache_state" where
  "demo_claimed = idle_cache (empty_db\<lparr>db_next := 2,
     db_nar_files := [\<lparr>nf_id = 1, nf_hash = plain_hash, nf_compression = ''none'', nf_file_size = 4, nf_query = [], nf_created_at = 0,
       nf_updated_at = None, nf_last_accessed_at = 0, nf_total_chunks = 0, nf_chunking_started_at = None, nf_verified_at = None\<rparr>]\<rparr>)
     [] (empty_fs []) ()"

lemma demo_claimed_ok: "quiet (cst_db demo_claimed)" "db_wf ok (cst_db demo_claimed)" "recorded (cst_db demo_claimed) 1 []"
  "cst_chunks demo_claimed = empty_fs []" "1 \<in> nf_id ` set (db_nar_files (cst_db demo_claimed))"
  by (simp_all add: demo_claimed_def idle_cache_def quiet_def db_wf_def keys_wf_def fk_wf_def links_wf_def recorded_def linked_chunks_def empty_db_def)

theorem cdc_success_is_complete_witness:
  "(\<exists>t. run_chunker demo_cdc_conf [TakeTimer] (reader_of ''abcd'') 4 ''none'' 1 [] demo_claimed = (Inr (), t)) \<and>
   concat (map ch_Data (fst (CDCChunker_Chunk demo_chunk_lib (reader_of ''abcd'')))) = ''abcd''"
proof -
  have nar: "maybeDecompressReader demo_chunk_lib (reader_of ''abcd'') ''none'' = reader_of ''abcd''" by (simp add: maybeDecompressReader_def)
  have cut: "kl_cut demo_chunk_lib (reader_of ''abcd'') = ([''ab'', ''cd''], None)" by (simp add: demo_chunk_lib_def reader_of_def)
  let ?cs = "chunk_from (kl_sum demo_chunk_lib) 0 [''ab'', ''cd'']"
  have "local_chunks.chunking plain_codec [] (kl_sum demo_chunk_lib) (set [''ab'', ''cd'']) 1 [] [] demo_claimed"
    using demo_claimed_ok local_fits [OF demo_ready demo_collision_free] by (simp add: local_chunks.chunking_def)
  moreover have "hashed (kl_sum demo_chunk_lib) (set [''ab'', ''cd'']) ?cs" by (simp add: hashed_def)
  ultimately obtain t where "chunk_loop (local_chunk_store plain_codec []) 1 4 [TakeTimer] ?cs None [] 0 0 demo_claimed = (Inr (), t)"
    using local_chunks.chunk_loop_quiet [where hs = "[]" and batch = "[]" and sched = "[TakeTimer]" and fs = 4 and z = 0 and failure = None
      and pending = ?cs and s = demo_claimed] by (fastforce simp: never_done_def)
  then have run: "run_chunker demo_cdc_conf [TakeTimer] (reader_of ''abcd'') 4 ''none'' 1 [] demo_claimed = (Inr (), t)"
    by (simp add: run_chunker_def demo_cdc_fields cleanupStaleLockChunks_def thenE_def nar cut CDCChunker_Chunk_def)
  have "rd_data (reader_of ''abcd'') = ''abcd''" by (simp add: reader_of_def)
  then show ?thesis
    using cdc_success_is_complete [OF _ _ _ run] run demo_cuts_ok [of "reader_of ''abcd''"] by (simp add: demo_cdc_fields nar)
qed


end
