(* ===== verification/Cache_Eviction_Props.thy ===== *)
theory Cache_Eviction_Props
  imports Cache_Eviction Cache_CDC_Props
begin

text \<open>
  What is protected and what is evicted. The search through the references of pinned narinfos ends and protects the pins;
  eviction ends, never removes a pinned narinfo and never the file of a chunk that a NAR still uses, whatever fails; and two properties of the
  code as it is: references are cut at the wrong length, and a large NAR at the head of the queue stops eviction.
\<close>

section \<open>The closure that is protected\<close>

text \<open>The traversal adds hashes of one length only, that of the cut.\<close>

definition adds_cuts :: "string list \<Rightarrow> string list \<Rightarrow> bool" where
  "adds_cuts x x' \<longleftrightarrow> set x \<subseteq> set x' \<and> (\<forall>h \<in> set x' - set x. length h = narInfoHashLength)"

lemma adds_cuts_trans: "adds_cuts x y \<Longrightarrow> adds_cuts y z \<Longrightarrow> adds_cuts x z"
  by (auto simp: adds_cuts_def)

lemma visit_refs_adds: "visit_refs refs q v x = (q', v', x') \<Longrightarrow> adds_cuts x x'"
proof (induction refs q v x rule: visit_refs.induct)
  case (2 ref refs q v x)
  let ?h = "take narInfoHashLength ref"
  show ?case
  proof (cases "length ref < narInfoHashLength \<or> ?h \<in> set v")
    case True
    with 2 show ?thesis by (simp add: Let_def)
  next
    case False
    then have "length ?h = narInfoHashLength" by simp
    then have "adds_cuts x (?h # x)" by (auto simp: adds_cuts_def)
    moreover have "adds_cuts (?h # x) x'" using 2(2) [OF refl False] 2(3) False by (simp add: Let_def)
    ultimately show ?thesis by (rule adds_cuts_trans)
  qed
qed (simp add: adds_cuts_def)

lemma closure_level_adds:
  "quiet d \<Longrightarrow> \<exists>q' v' x'. closure_level n q v x d = (Inr (q', v', x'), d) \<and> adds_cuts x x'"
proof (induction n arbitrary: q v x)
  case (Suc n)
  show ?case
  proof (cases q)
    case (Cons h t)
    show ?thesis
    proof (cases "filter (\<lambda>r. ni_hash r = h) (db_narinfos d)")
      case Nil
      then have "closure_level (Suc n) q v x d = closure_level n t v x d"
        using Suc.prems Cons by (simp add: bindE_def attemptE_def GetNarInfoByHash_def select_one_def one_row_def quiet_def IsNotFoundError_def)
      then show ?thesis using Suc.IH [OF Suc.prems] by simp
    next
      case (Cons ni nis)
      let ?refs = "sort (map snd (filter (\<lambda>(j, _). j = ni_id ni) (db_references d)))"
      obtain q1 v1 x1 where v: "visit_refs ?refs t v x = (q1, v1, x1)" by (metis prod_cases3)
      have run: "closure_level (Suc n) q v x d = closure_level n q1 v1 x1 d"
        using Suc.prems \<open>q = h # t\<close> Cons v
        by (simp add: bindE_def attemptE_def GetNarInfoByHash_def GetNarInfoReferences_def select_def select_one_def one_row_def quiet_def)
      obtain q' v' x' where "closure_level n q1 v1 x1 d = (Inr (q', v', x'), d)" "adds_cuts x1 x'" using Suc by blast
      then show ?thesis using adds_cuts_trans [OF visit_refs_adds [OF v]] run by auto
    qed
  qed (simp add: returnE_def adds_cuts_def)
qed (simp add: returnE_def adds_cuts_def)

lemma closure_levels_adds: "quiet d \<Longrightarrow> \<exists>e. closure_levels m q v x d = (Inr e, d) \<and> adds_cuts x e"
proof (induction m arbitrary: q v x)
  case (Suc m)
  obtain q' v' x' where l: "closure_level (length q) q v x d = (Inr (q', v', x'), d)" "adds_cuts x x'"
    using closure_level_adds [OF Suc.prems] by blast
  obtain e where "closure_levels m q' v' x' d = (Inr e, d)" "adds_cuts x' e" using Suc by blast
  then show ?case using l by (auto simp: bindE_def returnE_def adds_cuts_def intro: adds_cuts_trans [unfolded adds_cuts_def])
qed (simp add: returnE_def adds_cuts_def)

lemma pins_and_cuts:
  assumes "quiet d"
  shows "\<exists>e. GetPinnedClosureHashes d = (Inr e, d) \<and> adds_cuts (db_pinned d) e"
  using closure_levels_adds [OF assms, of maxDepth "db_pinned d" "db_pinned d" "db_pinned d"] assms
  by (auto simp: GetPinnedClosureHashes_def bindE_def ListPinnedClosures_def select_def quiet_def returnE_def adds_cuts_def)

text \<open>C28. The traversal protects every pinned hash, and of the hashes of narinfos, which have 32 characters, no other one: references are cut after 52
  characters, so nothing that a pinned narinfo refers to is protected.\<close>

theorem GetPinnedClosureHashes_roots_only:
  assumes "quiet d"
  shows "\<exists>e. GetPinnedClosureHashes d = (Inr e, d) \<and> set (db_pinned d) \<subseteq> set e \<and> (\<forall>h. length h = 32 \<longrightarrow> (h \<in> set e \<longleftrightarrow> h \<in> set (db_pinned d)))"
proof -
  obtain e where e: "GetPinnedClosureHashes d = (Inr e, d)" "set (db_pinned d) \<subseteq> set e" "\<And>h. h \<in> set e - set (db_pinned d) \<Longrightarrow> length h = 52"
    using pins_and_cuts [OF assms] by (auto simp: adds_cuts_def narInfoHashLength_def)
  have "h \<in> set (db_pinned d)" if "length h = 32" "h \<in> set e" for h using e(3) [of h] that by auto
  with e(1,2) show ?thesis by blast
qed

section \<open>Looking for candidates\<close>

lemma high_bit: "(n :: 64 word) \<ge> 2 ^ 63 \<longleftrightarrow> unat n \<ge> 2 ^ 63"
  by (simp add: word_le_nat_alt)

lemma fetch_ends:
  "unat fs * 2 ^ fuel \<ge> 2 ^ 64 \<Longrightarrow> fst (fetch_candidates fuel cs pinned fs fs d) \<noteq> Inr None"
proof (induction fuel arbitrary: fs d)
  case 0
  have "unat fs < 2 ^ LENGTH(64)" by (rule unsigned_less)
  with 0 show ?case by simp
next
  case (Suc fuel)
  obtain r t where run: "least_used fs d = (r, t)" by fastforce
  show ?case
  proof (cases "fs \<ge> 2 ^ 63")
    case True
    then show ?thesis by (simp add: bindE_def least_used_def raiseE_def)
  next
    case False
    then have "unat fs < 2 ^ 63" by (simp only: high_bit not_le)
    then have "unat (fs + fs) = 2 * unat fs" by (simp add: unat_word_ariths)
    then have "2 ^ 64 \<le> unat (fs + fs) * 2 ^ fuel" using Suc.prems by simp
    from Suc.IH [OF this] run show ?thesis
      by (cases r) (auto simp: bindE_def returnE_def mult_2_right)
  qed
qed

lemma first_fetchSize_pos: "unat (first_fetchSize cs) > 0"
proof -
  have "cs * 2 \<noteq> 0" if "cs > 0" "\<not> cs * 2 < cs" for cs :: "64 word" using that by (auto simp: word_gt_0)
  then show ?thesis by (auto simp: first_fetchSize_def maxFetchSize_def Let_def unat_gt_0)
qed

text \<open>C25. The search for candidates ends: the size doubles in every round, so that 64 rounds are enough for every cleanup size, every set of pinned
  hashes and every state of the database.\<close>

theorem deleteLRURecordsFromDB_terminates: "fst (deleteLRURecordsFromDB c cleanupSize pinned d) \<noteq> Inr None"
proof -
  let ?fs = "first_fetchSize cleanupSize"
  have "2 ^ 64 \<le> unat ?fs * 2 ^ fetchFuel" using first_fetchSize_pos [of cleanupSize] by (simp add: fetchFuel_def)
  from fetch_ends [OF this] have "fst (fetch_candidates fetchFuel cleanupSize pinned ?fs ?fs d) \<noteq> Inr None" .
  then show ?thesis
    by (auto simp: deleteLRURecordsFromDB_def bindE_def Let_def returnE_def split: prod.splits sum.splits option.splits list.splits)
qed

text \<open>The size of the first search is at most 10000 and counts bytes: when the NAR of the least recently used narinfo is larger than that, nothing is evicted,
  however far the store is above its limit.\<close>

theorem deleteLRURecordsFromDB_blocked:
  assumes "quiet d" "\<forall>n \<in> set (db_narinfos d). size_up_to d n > 10000"
  shows "deleteLRURecordsFromDB c cleanupSize pinned d = (Inr (Some ([], [], [])), d)"
proof -
  let ?fs = "first_fetchSize cleanupSize"
  have le: "?fs \<le> maxFetchSize" by (auto simp: first_fetchSize_def Let_def)
  then have n: "unat ?fs \<le> 10000" by (simp add: word_le_nat_alt maxFetchSize_def)
  then have "\<not> ?fs \<ge> 2 ^ 63" by (simp only: high_bit) simp
  then have "least_used ?fs d = (Inr [], d)"
    using assms n by (auto simp: least_used_def GetLeastUsedNarInfos_def select_def quiet_def filter_empty_conv)
  then show ?thesis
    by (simp add: deleteLRURecordsFromDB_def Let_def fetchFuel_def eval_nat_numeral bindE_def returnE_def)
qed

section \<open>What eviction removes\<close>

text \<open>Calls that only read, as far as a part of the tables is concerned.\<close>

lemma part_db_call:
  assumes "\<And>d. g (snd (m d)) = g d" "\<And>d fs. g (d\<lparr>db_faults := fs\<rparr>) = g d"
  shows "g (snd (db_call m d)) = g d"
  using assms by (auto simp: db_call_def split: list.splits option.splits)

lemma fetch_rows:
  assumes "fetch_candidates fuel cs pinned fs inc d = (r, d')"
  shows "db_narinfos d' = db_narinfos d \<and> db_chunks d' = db_chunks d \<and> db_nar_file_chunks d' = db_nar_file_chunks d \<and>
    (\<forall>rows. r = Inr (Some rows) \<longrightarrow> set rows \<subseteq> set (db_narinfos d))"
  using assms
proof (induction fuel arbitrary: fs inc d)
  case (Suc fuel)
  obtain x d1 where l: "least_used fs d = (x, d1)" by fastforce
  have same: "db_narinfos d1 = db_narinfos d" "db_chunks d1 = db_chunks d" "db_nar_file_chunks d1 = db_nar_file_chunks d"
    "\<forall>rows. x = Inr rows \<longrightarrow> set rows \<subseteq> set (db_narinfos d)"
    using l by (auto simp: least_used_def raiseE_def GetLeastUsedNarInfos_def select_def db_call_def split: if_splits list.splits option.splits)
  show ?case
  proof (cases x)
    case (Inl e)
    then show ?thesis using Suc.prems l same by (auto simp: bindE_def)
  next
    case (Inr rows)
    then show ?thesis
      using Suc.prems l same Suc.IH [of "fs + inc" "inc * 2" d1]
      by (auto simp: bindE_def returnE_def split: if_splits)
  qed
qed (auto simp: returnE_def)

text \<open>The narinfos that are left: no row is new, and no protected one is gone.\<close>

definition spared :: "narinfo_row list \<Rightarrow> string set \<Rightarrow> database \<Rightarrow> bool" where
  "spared rows P d \<longleftrightarrow> set (db_narinfos d) \<subseteq> set rows \<and> (\<forall>r \<in> set rows. ni_hash r \<in> P \<longrightarrow> r \<in> set (db_narinfos d))"

lemma keeps_spared:
  assumes "\<And>d. db_narinfos (snd (m d)) = db_narinfos d"
  shows "keeps (spared rows P) (db_call m)"
  using part_db_call [of db_narinfos m, OF assms] by (auto simp: keeps_def spared_def)

lemma spared_delete:
  assumes "distinct (map ni_id rows)" "i \<in> set rows" "ni_hash i \<notin> P"
  shows "keeps (spared rows P) (DeleteNarInfoByID (ni_id i))"
proof (rule keepsI)
  fix d assume s: "spared rows P d"
  have "r = i" if "r \<in> set rows" "ni_id r = ni_id i" for r using assms(1,2) that by (auto dest: eq_key_imp_eq_value simp: distinct_map inj_on_def)
  then have "spared rows P (delete_narinfos (\<lambda>r. ni_id r = ni_id i) d')" if "db_narinfos d' = db_narinfos d" for d'
    using s assms(3) that by (auto simp: spared_def delete_narinfos_def Let_def)
  then show "spared rows P (snd (DeleteNarInfoByID (ni_id i) d))"
    using s by (auto simp: DeleteNarInfoByID_def execrows_def db_call_def spared_def split: list.splits option.splits)
qed

lemma keeps_evict:
  assumes "distinct (map ni_id rows)"
  shows "set infos \<subseteq> set rows \<Longrightarrow> keeps (spared rows (set pinned)) (evict cs pinned n infos removed z)"
proof (induction infos arbitrary: removed z)
  case (Cons info infos)
  have get: "keeps (spared rows (set pinned)) (GetNarFileByNarInfoID (ni_id info))"
    unfolding GetNarFileByNarInfoID_def select_one_def by (rule keeps_spared) simp
  have rest: "keeps (spared rows (set pinned)) (evict cs pinned n infos removed' z')" for removed' z'
    using Cons by simp
  show ?case
  proof (cases "ni_hash info \<in> set pinned")
    case False
    then have "keeps (spared rows (set pinned)) (DeleteNarInfoByID (ni_id info))" using Cons.prems assms by (intro spared_delete) auto
    with False show ?thesis by (auto intro!: keeps_intros get rest simp: Let_def)
  qed (simp add: rest)
qed (auto intro: keeps_intros)

lemma keeps_spared_queries:
  "keeps (spared rows P) GetNarTotalSize" "keeps (spared rows P) db_ping" "keeps (spared rows P) GetOrphanedNarFiles"
  "keeps (spared rows P) DeleteOrphanedNarFiles" "keeps (spared rows P) GetOrphanedChunks" "keeps (spared rows P) DeleteOrphanedChunks"
  unfolding GetNarTotalSize_def db_ping_def GetOrphanedNarFiles_def DeleteOrphanedNarFiles_def GetOrphanedChunks_def DeleteOrphanedChunks_def
    select_def execrows_def
  by (rule keeps_spared; simp add: returnE_def delete_nar_files_def delete_chunks_def Let_def)+

lemma keeps_collect_orphans: "keeps (spared rows P) (collect_orphans c removed)"
  unfolding collect_orphans_def Let_def by (intro keeps_intros keeps_spared_queries)

lemma deleteLRU_spared:
  assumes "distinct (map ni_id (db_narinfos d))"
  shows "spared (db_narinfos d) (set pinned) (snd (deleteLRURecordsFromDB c cs pinned d))"
proof -
  let ?fs = "first_fetchSize cs"
  let ?S = "spared (db_narinfos d) (set pinned)"
  obtain r d1 where f: "fetch_candidates fetchFuel cs pinned ?fs ?fs d = (r, d1)" by fastforce
  note rows = fetch_rows [OF f]
  have d1: "?S d1" using rows by (simp add: spared_def)
  show ?thesis
  proof (cases "\<exists>x xs. r = Inr (Some (x # xs))")
    case True
    then obtain infos where r: "r = Inr (Some infos)" "infos \<noteq> []" by blast
    let ?rest = "bindE (evict cs pinned (length infos) infos [] 0) (\<lambda>removed. bindE (collect_orphans c removed) (\<lambda>r. returnE (Some r)))"
    have "keeps ?S ?rest" using rows r(1) by (intro keeps_intros keeps_evict keeps_collect_orphans assms) auto
    from keepsD [OF this d1] r f show ?thesis
      by (auto simp: deleteLRURecordsFromDB_def Let_def bindE_run split: list.splits)
  next
    case False
    then show ?thesis
      using d1 f by (auto simp: deleteLRURecordsFromDB_def Let_def bindE_def returnE_def split: sum.splits option.splits list.splits)
  qed
qed

lemma cleanup_same: "db_narinfos (snd (calculateCleanupSize m d)) = db_narinfos d"
  by (auto simp: calculateCleanupSize_def GetNarTotalSize_def select_def bindE_def db_call_def returnE_def split: list.splits option.splits)

lemma lru_records_spared:
  assumes "distinct (map ni_id (db_narinfos d))"
  shows "spared (db_narinfos d) (set pinned) (snd (lru_records c pinned d))"
proof -
  let ?S = "spared (db_narinfos d) (set pinned)"
  obtain x d1 where c: "calculateCleanupSize (cc_maxSize c) d = (x, d1)" by fastforce
  have d1: "db_narinfos d1 = db_narinfos d" using cleanup_same [of "cc_maxSize c" d] c by simp
  then have s1: "?S d1" by (simp add: spared_def)
  show ?thesis
  proof (cases x)
    case (Inl e)
    then show ?thesis using c s1 by (simp add: lru_records_def bindE_def)
  next
    case (Inr cs)
    obtain y d2 where l: "deleteLRURecordsFromDB c cs pinned d1 = (y, d2)" by fastforce
    have s2: "?S d2" using deleteLRU_spared [of d1 pinned c cs] assms l by (simp add: d1)
    have "keeps ?S (thenE (whenE (something r) db_ping) (returnE r))" for r by (intro keeps_intros keeps_spared_queries)
    from keepsD [OF this s2] show ?thesis
      using c l s1 s2 Inr by (cases y) (auto simp: lru_records_def bindE_def returnE_def)
  qed
qed

section \<open>The pinned hashes are among the protected ones\<close>

lemma visit_refs_mono: "visit_refs refs q v x = (q', v', x') \<Longrightarrow> set x \<subseteq> set x'"
  by (induction refs q v x rule: visit_refs.induct) (auto simp: Let_def split: if_splits)

lemma closure_level_mono: "closure_level n q v x d = (Inr (q', v', x'), d') \<Longrightarrow> set x \<subseteq> set x'"
proof (induction n arbitrary: q v x d)
  case (Suc n)
  show ?case
  proof (cases q)
    case (Cons h t)
    obtain r d1 where g: "GetNarInfoByHash h d = (r, d1)" by fastforce
    show ?thesis
    proof (cases r)
      case (Inl e)
      then show ?thesis using Suc g by (auto simp: Cons bindE_def attemptE_def raiseE_def split: if_splits)
    next
      case (Inr ni)
      then obtain refs d2 where "GetNarInfoReferences (ni_id ni) d1 = (Inr refs, d2)"
        "(case visit_refs refs t v x of (q, v, x) \<Rightarrow> closure_level n q v x) d2 = (Inr (q', v', x'), d')"
        using Suc.prems g by (auto simp: Cons bindE_Inr attemptE_def)
      then show ?thesis using Suc.IH visit_refs_mono by (cases "visit_refs refs t v x") (fastforce dest: subsetD)
    qed
  qed (use Suc.prems in \<open>simp add: returnE_def\<close>)
qed (simp add: returnE_def)

lemma closure_levels_mono: "closure_levels n q v x d = (Inr e, d') \<Longrightarrow> set x \<subseteq> set e"
proof (induction n arbitrary: q v x d)
  case (Suc n)
  then show ?case
    by (auto simp: bindE_Inr returnE_def split: if_splits prod.splits) (meson closure_level_mono subset_trans subsetD)+
qed (simp add: returnE_def)

lemma pinned_protected: "GetPinnedClosureHashes d = (Inr e, d') \<Longrightarrow> set (db_pinned d) \<subseteq> set e"
proof -
  assume run: "GetPinnedClosureHashes d = (Inr e, d')"
  then obtain roots d1 where r: "ListPinnedClosures d = (Inr roots, d1)"
    "(if roots = [] then returnE [] else closure_levels maxDepth roots roots roots) d1 = (Inr e, d')"
    by (auto simp: GetPinnedClosureHashes_def bindE_Inr)
  have "roots = db_pinned d" using r(1) by (auto simp: ListPinnedClosures_def select_def db_call_def split: list.splits option.splits)
  then show ?thesis using r(2) closure_levels_mono [of maxDepth roots roots roots d1 e d'] by (auto split: if_splits)
qed

lemma keeps_tables_part:
  assumes "\<And>d fs. g (d\<lparr>db_faults := fs\<rparr>) = g d"
  shows "keeps (\<lambda>d. g d = N) (select f)" "keeps (\<lambda>d. g d = N) (select_one h)" "keeps (\<lambda>d. g d = N) db_ping"
  by (auto simp: keeps_def select_def select_one_def db_ping_def returnE_def part_db_call [of g, OF _ assms])

lemma keeps_pinned_closure:
  assumes "\<And>d fs. g (d\<lparr>db_faults := fs\<rparr>) = g d"
  shows "keeps (\<lambda>d. g d = N) GetPinnedClosureHashes"
proof -
  note part = keeps_tables_part [of g N, OF assms]
  have level: "keeps (\<lambda>d. g d = N) (closure_level n q v x)" for n q v x
  proof (induction n arbitrary: q v x)
    case (Suc n)
    show ?case
    proof (cases q)
      case (Cons h t)
      have "keeps (\<lambda>d. g d = N) (case visit_refs refs t v x of (q, v, x) \<Rightarrow> closure_level n q v x)" for refs
        by (auto intro: Suc split: prod.split)
      then show ?thesis
        unfolding Cons closure_level.simps GetNarInfoByHash_def GetNarInfoReferences_def by (intro keeps_intros part Suc)
    qed (simp add: keeps_returnE)
  qed (simp add: keeps_returnE)
  have "keeps (\<lambda>d. g d = N) (closure_levels n q v x)" for n q v x
    by (induction n arbitrary: q v x) (auto intro!: keeps_intros level split: prod.split)
  then show ?thesis unfolding GetPinnedClosureHashes_def ListPinnedClosures_def by (intro keeps_intros part)
qed

section \<open>Orphaned chunks\<close>

lemma orphans_gone:
  assumes "collect_orphans c removed d = (Inr (hs, us, cks), d')" "db_wf ok d" "h \<in> set cks"
  shows "h \<notin> ck_hash ` set (db_chunks d') \<and> ok h"
proof -
  obtain files d1 d2 where run: "GetOrphanedNarFiles d = (Inr files, d1)"
    "(if files = [] then returnE () else thenE DeleteOrphanedNarFiles (returnE ())) d1 = (Inr (), d2)"
    "bindE GetOrphanedChunks (\<lambda>chunks.
        if chunks = [] then returnE (removed, map (\<lambda>nf. mk_nar_url (nf_hash nf) (nf_compression nf) []) files, [])
        else thenE DeleteOrphanedChunks (returnE (removed, map (\<lambda>nf. mk_nar_url (nf_hash nf) (nf_compression nf) []) files, map ck_hash chunks))) d2
      = (Inr (hs, us, cks), d')"
    using assms(1,3) by (auto simp: collect_orphans_def bindE_Inr thenE_Inr Let_def returnE_def split: if_splits)
  have "db_wf ok d1" using keepsD [of "db_wf ok" GetOrphanedNarFiles d] assms(2) run(1) db_keeps by (metis snd_conv)
  moreover have "keeps (db_wf ok) (if files = [] then returnE () else thenE DeleteOrphanedNarFiles (returnE ()))"
    by (intro keeps_intros db_keeps)
  ultimately have wf: "db_wf ok d2" using keepsD run(2) by (metis snd_conv)
  obtain cs d3 n d4 where r: "GetOrphanedChunks d2 = (Inr cs, d3)" "DeleteOrphanedChunks d3 = (Inr n, d4)" "d' = d4" "cks = map ck_hash cs"
    using run(3) assms(3) by (auto simp: bindE_Inr thenE_Inr returnE_def split: if_splits)
  have same: "orphaned_chunk (d2\<lparr>db_faults := fs\<rparr>) = orphaned_chunk d2" for fs by (simp add: fun_eq_iff orphaned_chunk_def)
  have d3: "db_chunks d3 = db_chunks d2" "db_nar_file_chunks d3 = db_nar_file_chunks d2" "cs = filter (orphaned_chunk d2) (db_chunks d2)"
    using r(1) by (auto simp: GetOrphanedChunks_def select_def db_call_def same split: list.splits option.splits)
  have d4: "db_chunks d4 = filter (\<lambda>r. \<not> orphaned_chunk d2 r) (db_chunks d2)"
    using r(2) d3(1,2)
    by (auto simp: DeleteOrphanedChunks_def execrows_def db_call_def delete_chunks_def Let_def orphaned_chunk_def split: list.splits option.splits)
  have "inj_on ck_hash (set (db_chunks d2))" "list_all ok (map ck_hash (db_chunks d2))"
    using wf by (auto simp: db_wf_def keys_wf_def distinct_map)
  then show ?thesis using assms(3) by (auto simp: r(3,4) d3(3) d4 list_all_iff dest: inj_onD)
qed

lemma lru_chunks_gone:
  assumes "lru_records c pinned d = (Inr (Some (hs, us, cks)), d')" "db_wf ok d" "h \<in> set cks"
  shows "h \<notin> ck_hash ` set (db_chunks d') \<and> ok h"
proof -
  obtain cs d1 d2 where run: "calculateCleanupSize (cc_maxSize c) d = (Inr cs, d1)" "deleteLRURecordsFromDB c cs pinned d1 = (Inr (Some (hs, us, cks)), d2)"
    "thenE (whenE (something (Some (hs, us, cks))) db_ping) (returnE (Some (hs, us, cks))) d2 = (Inr (Some (hs, us, cks)), d')"
    using assms(1) by (auto simp: lru_records_def bindE_Inr thenE_Inr returnE_def split: if_splits)
  have "keeps (db_wf ok) (calculateCleanupSize (cc_maxSize c))"
    unfolding calculateCleanupSize_def by (intro keeps_intros db_keeps)
  then have wf1: "db_wf ok d1" using keepsD assms(2) run(1) by (metis snd_conv)
  have least: "keeps (db_wf ok) (least_used n)" for n unfolding least_used_def by (intro keeps_intros db_keeps)
  have fetch: "keeps (db_wf ok) (fetch_candidates n cs pinned fs inc)" for n fs inc
    by (induction n arbitrary: fs inc) (auto intro!: keeps_intros least)
  have ev: "keeps (db_wf ok) (evict cs pinned n infos removed z)" for n infos removed z
    by (induction infos arbitrary: removed z) (auto intro!: keeps_intros db_keeps simp: Let_def)
  obtain infos d3 removed d4 where r: "fetch_candidates fetchFuel cs pinned (first_fetchSize cs) (first_fetchSize cs) d1 = (Inr (Some infos), d3)"
    "evict cs pinned (length infos) infos [] 0 d3 = (Inr removed, d4)" "collect_orphans c removed d4 = (Inr (hs, us, cks), d2)"
  proof -
    from run(2) obtain found d3 where f: "fetch_candidates fetchFuel cs pinned (first_fetchSize cs) (first_fetchSize cs) d1 = (Inr found, d3)"
      by (auto simp: deleteLRURecordsFromDB_def Let_def bindE_Inr)
    obtain x xs where "found = Some (x # xs)"
      using run(2) assms(3) f by (cases found; cases "the found") (auto simp: deleteLRURecordsFromDB_def Let_def bindE_def returnE_def)
    then show thesis
      using run(2) f that by (auto simp: deleteLRURecordsFromDB_def Let_def bindE_run bindE_Inr returnE_def simp del: evict.simps)
  qed
  have "db_wf ok d3" using keepsD [OF fetch wf1] r(1) by (metis snd_conv)
  from keepsD [OF ev this] r(2) have "db_wf ok d4" by (metis snd_conv)
  from orphans_gone [OF r(3) this assms(3)] have "h \<notin> ck_hash ` set (db_chunks d2) \<and> ok h" .
  moreover have "keeps (\<lambda>x. db_chunks x = db_chunks d2) (thenE (whenE (something (Some (hs, us, cks))) db_ping) (returnE (Some (hs, us, cks))))"
    by (intro keeps_intros keeps_tables_part) simp
  then have "db_chunks d' = db_chunks d2" using keepsD run(3) by fastforce
  ultimately show ?thesis by simp
qed

context chunk_store_laws
begin

lemma delete_all_chunks:
  fixes s :: "('l, 's, 'm) cache_state"
  assumes "inv (cst_chunks s)" "\<forall>h \<in> set hs. ok h"
  shows "\<exists>k. forE hs (\<lambda>h. ignoreE (in_chunks (cs_DeleteChunk ops h))) s = (Inr (), s\<lparr>cst_chunks := k\<rparr>) \<and> inv k \<and>
    (\<forall>g. g \<notin> set hs \<longrightarrow> content k g = content (cst_chunks s) g)"
  using assms
proof (induction hs arbitrary: s)
  case Nil
  then show ?case by (intro exI [of _ "cst_chunks s"]) (simp add: returnE_def)
next
  case (Cons h hs)
  obtain r k where run: "cs_DeleteChunk ops h (cst_chunks s) = (r, k)" by fastforce
  have k: "inv k" "\<forall>g. g \<noteq> h \<longrightarrow> content k g = content (cst_chunks s) g"
    using delc_inv [of "cst_chunks s" h] delc_content [of "cst_chunks s" h] Cons.prems run by auto
  from Cons.IH [of "s\<lparr>cst_chunks := k\<rparr>"] Cons.prems(2) k(1) obtain k' where
    "forE hs (\<lambda>h. ignoreE (in_chunks (cs_DeleteChunk ops h))) (s\<lparr>cst_chunks := k\<rparr>) = (Inr (), s\<lparr>cst_chunks := k'\<rparr>)" "inv k'"
    "\<forall>g. g \<notin> set hs \<longrightarrow> content k' g = content k g" by auto
  moreover have "ignoreE (in_chunks (cs_DeleteChunk ops h)) s = (Inr (), s\<lparr>cst_chunks := k\<rparr>)"
    using run by (simp add: bindE_def ignoreE_def attemptE_def in_chunks_def returnE_def)
  ultimately show ?case using k by (intro exI [of _ k']) (simp add: thenE_run)
qed

end

section \<open>Properties\<close>

lemma withTryLock_cases:
  fixes s :: "('s, 'c, 'l) cache_state"
  assumes "\<And>l. Q (s\<lparr>cst_locks := l\<rparr>)" "\<And>l. Q (snd (fn (s\<lparr>cst_locks := l\<rparr>)))" "\<And>t l. Q t \<Longrightarrow> Q (t\<lparr>cst_locks := l\<rparr>)"
  shows "Q (snd (ignoreE (withTryLock c key fn) s))"
proof -
  have lock: "\<exists>r l. in_locks m u = (r, u\<lparr>cst_locks := l\<rparr>)" for u :: "('s, 'c, 'l) cache_state" and m :: "('l, 'b) prog"
    by (cases "m (cst_locks u)") (auto simp: in_locks_def)
  obtain r l where t: "in_locks (lo_TryLock (cc_cacheLocker c) key) s = (r, s\<lparr>cst_locks := l\<rparr>)" using lock by blast
  obtain x u where f: "fn (s\<lparr>cst_locks := l\<rparr>) = (x, u)" by fastforce
  obtain y l' where un: "in_locks (lo_Unlock (cc_cacheLocker c) key) u = (y, u\<lparr>cst_locks := l'\<rparr>)" using lock by blast
  have "Q u" using assms(2) [of l] f by simp
  then show ?thesis
    using t f un assms(1) [of l] assms(3)
    by (cases r; cases x)
      (auto simp: ignoreE_def withTryLock_def bindE_def attemptE_def finallyE_def thenE_def returnE_def)
qed

text \<open>One run of the section under the lock: the protected hashes, the transaction, and the deletion of files.\<close>

lemma lru_section_cases:
  fixes s :: "('s, 'c, 'l) cache_state"
  obtains (kept) d where "snd (lru_section c s) = s\<lparr>cst_db := d\<rparr>" "tables d = tables (cst_db s)"
  | (evicted) pinned d0 d1 x d where "GetPinnedClosureHashes (cst_db s) = (Inr pinned, d0)" "tables d1 = tables (cst_db s)"
    "lru_records c pinned d1 = (Inr (Some x), d)" "snd (lru_section c s) = snd (parallelDeleteFromStores c x (s\<lparr>cst_db := d\<rparr>))"
proof -
  obtain r0 d0 where p: "GetPinnedClosureHashes (cst_db s) = (r0, d0)" by fastforce
  have t0: "tables d0 = tables (cst_db s)"
    using keepsD [OF keeps_pinned_closure [of tables "tables (cst_db s)"], of "cst_db s"] p by (simp add: tables_def)
  obtain r1 d1 where q: "db_ping d0 = (r1, d1)" by fastforce
  have t1: "tables d1 = tables (cst_db s)" using db_ping_tables [OF q] t0 by simp
  obtain y d2 where l: "lru_records c pinned d1 = (y, d2)" if "r0 = Inr pinned" for pinned by (metis sum.inject(2) surj_pair)
  have run: "in_db GetPinnedClosureHashes s = (r0, s\<lparr>cst_db := d0\<rparr>)" "in_db db_ping (s\<lparr>cst_db := d0\<rparr>) = (r1, s\<lparr>cst_db := d1\<rparr>)"
    using p q by (simp_all add: in_db_def)
  show thesis
  proof (cases "r0")
    case (Inl e)
    then show thesis using kept [of d0] run(1) t0 by (simp add: lru_section_def bindE_def)
  next
    case (Inr pinned)
    show thesis
    proof (cases r1)
      case (Inl e)
      then show thesis using kept [of d1] run t1 Inr by (simp add: lru_section_def bindE_def thenE_def)
    next
      case (Inr u)
      have c: "in_db (lru_records c pinned) (s\<lparr>cst_db := d1\<rparr>) = (y, s\<lparr>cst_db := d2\<rparr>)" using l \<open>r0 = Inr pinned\<close> by (simp add: in_db_def)
      let ?undone = "rollback d1 d2"
      have b: "tables ?undone = tables (cst_db s)" using t1 by simp
      show thesis
      proof (cases "\<exists>x. y = Inr (Some x) \<and> something (Some x)")
        case True
        then obtain x where x: "y = Inr (Some x)" "something (Some x)" by blast
        have "lru_section c s = parallelDeleteFromStores c x (s\<lparr>cst_db := d2\<rparr>)"
          using run c x \<open>r0 = Inr pinned\<close> Inr by (simp add: lru_section_def bindE_def thenE_def commit_if_def)
        then show thesis using evicted [OF _ t1] p l x(1) \<open>r0 = Inr pinned\<close> by simp
      next
        case False
        then have "snd (lru_section c s) = s\<lparr>cst_db := ?undone\<rparr>"
          using run c \<open>r0 = Inr pinned\<close> Inr
          by (cases y) (auto simp: lru_section_def bindE_def thenE_def commit_if_def returnE_def something_def split: option.splits)
        then show thesis using kept b by blast
      qed
    qed
  qed
qed

lemma parallelDelete_db: "cst_db (snd (parallelDeleteFromStores c x s)) = cst_db s"
proof -
  have part: "keeps (\<lambda>t. cst_db t = cst_db s) (in_store m)" "keeps (\<lambda>t. cst_db t = cst_db s) (in_chunks k)" for m :: "('a, 'd) prog" and k :: "('b, 'e) prog"
    by (auto simp: keeps_def in_store_def in_chunks_def split: prod.split)
  have "keeps (\<lambda>t. cst_db t = cst_db s) (parallelDeleteFromStores c x)"
    unfolding parallelDeleteFromStores_def by (cases x) (auto intro!: keeps_intros part split: option.split)
  then show ?thesis by (auto simp: keeps_def)
qed

lemma store_deletes_chunks: "\<exists>t. forE xs (\<lambda>x. ignoreE (in_store (f x))) s = (Inr (), t) \<and> cst_chunks t = cst_chunks s"
proof (induction xs arbitrary: s)
  case (Cons x xs)
  obtain t where "ignoreE (in_store (f x)) s = (Inr (), t)" "cst_chunks t = cst_chunks s"
    by (cases "f x (cst_store s)") (auto simp: bindE_def ignoreE_def attemptE_def in_store_def returnE_def)
  with Cons [of t] show ?case by (simp add: thenE_run)
qed (simp add: returnE_def)

text \<open>C13. Eviction never removes a pinned narinfo, whatever calls of the database, of the stores and of the lockers fail.\<close>

theorem runLRU_keeps_pinned:
  fixes s :: "('s, 'c, 'l) cache_state"
  assumes "db_wf ok (cst_db s)" "r \<in> set (db_narinfos (cst_db s))" "ni_hash r \<in> set (db_pinned (cst_db s))"
  shows "r \<in> set (db_narinfos (cst_db (snd (runLRU c s))))"
  unfolding runLRU_def
proof (rule withTryLock_cases [where Q = "\<lambda>t. r \<in> set (db_narinfos (cst_db t))"], goal_cases)
  case (2 l)
  let ?s = "s\<lparr>cst_locks := l\<rparr>"
  have distinct: "distinct (map ni_id (db_narinfos (cst_db s)))" using assms(1) by (simp add: db_wf_def keys_wf_def)
  show ?case
  proof (rule lru_section_cases [of c ?s], goal_cases)
    case (1 d)
    then show ?case using assms(2) tables_field(1) [OF 1(2)] by simp
  next
    case (2 pinned d0 d1 x d)
    have d1: "db_narinfos d1 = db_narinfos (cst_db s)" using tables_field(1) [OF 2(2)] by simp
    have "spared (db_narinfos d1) (set pinned) d" using lru_records_spared [of d1 pinned c] distinct 2(3) by (simp add: d1)
    moreover have "ni_hash r \<in> set pinned" using pinned_protected [OF 2(1)] assms(3) by auto
    ultimately have "r \<in> set (db_narinfos d)" using assms(2) by (auto simp: spared_def d1)
    then show ?case using parallelDelete_db [of c x "?s\<lparr>cst_db := d\<rparr>"] 2(4) by simp
  qed
qed (use assms in auto)

text \<open>C14. Eviction deletes only the files of chunks that no NAR uses any more: a chunk that is still in the database is afterwards in the store as before,
  whatever fails.\<close>

theorem runLRU_keeps_chunks:
  fixes s :: "('s, file_system, 'l) cache_state"
  assumes "db_wf chunk_hash (cst_db s)" "chunk_inv zc b (cst_chunks s)" "cc_chunkStore c = Some (local_chunk_store zc b)"
    and "h \<in> ck_hash ` set (db_chunks (cst_db (snd (runLRU c s))))"
  shows "chunks zc b (cst_chunks (snd (runLRU c s))) h = chunks zc b (cst_chunks s) h"
proof -
  let ?Q = "\<lambda>t :: ('s, file_system, 'l) cache_state. h \<in> ck_hash ` set (db_chunks (cst_db t)) \<longrightarrow>
    chunks zc b (cst_chunks t) h = chunks zc b (cst_chunks s) h"
  have "?Q (snd (runLRU c s))"
    unfolding runLRU_def
  proof (rule withTryLock_cases [where Q = ?Q], goal_cases)
    case (2 l)
    let ?s = "s\<lparr>cst_locks := l\<rparr>"
    show ?case
    proof (rule lru_section_cases [of c ?s], goal_cases)
      case (2 pinned d0 d1 x d)
      obtain hs us cks where x: "x = (hs, us, cks)" by (metis prod_cases3)
      have wf: "db_wf chunk_hash d1" using db_wf_tables [OF 2(2)] assms(1) by simp
      have gone: "g \<notin> ck_hash ` set (db_chunks d)" "chunk_hash g" if "g \<in> set cks" for g
        using lru_chunks_gone [OF 2(3) [unfolded x] wf that] by simp_all
      let ?d = "?s\<lparr>cst_db := d\<rparr>"
      obtain t1 where t1: "forE hs (\<lambda>h. ignoreE (in_store (nis_DeleteNarInfo (cc_narInfoStore c) h))) ?d = (Inr (), t1)" "cst_chunks t1 = cst_chunks s"
        using store_deletes_chunks [of hs _ ?d] by fastforce
      obtain t2 where t2: "forE us (\<lambda>u. ignoreE (in_store (bindE (liftE (url_String u)) (\<lambda>_. ns_DeleteNar (cc_narStore c) u)))) t1 = (Inr (), t2)" "cst_chunks t2 = cst_chunks s"
        using store_deletes_chunks [of us _ t1] t1(2) by fastforce
      obtain k where k: "forE cks (\<lambda>h. ignoreE (in_chunks (cs_DeleteChunk (local_chunk_store zc b) h))) t2 = (Inr (), t2\<lparr>cst_chunks := k\<rparr>)"
        "\<forall>g. g \<notin> set cks \<longrightarrow> chunks zc b k g = chunks zc b (cst_chunks s) g"
        using local_chunks.delete_all_chunks [of zc b t2 cks] assms(2) gone(2) t2(2) by auto
      have run: "snd (parallelDeleteFromStores c x ?d) = t2\<lparr>cst_chunks := k\<rparr>"
        using t1(1) t2(1) k(1) by (simp add: parallelDeleteFromStores_def x thenE_def bindE_def assms(3))
      then have "db_chunks (cst_db (t2\<lparr>cst_chunks := k\<rparr>)) = db_chunks d" using parallelDelete_db [of c x ?d] by simp
      then show ?case using 2(4) run gone(1) k(2) by auto
    qed simp
  qed auto
  then show ?thesis using assms(4) by simp
qed

section \<open>Examples\<close>

text \<open>A pinned narinfo that refers to another one by a store path.\<close>

definition demo_pins :: database where
  "demo_pins = empty_db\<lparr>db_narinfos := [demo_row\<lparr>ni_hash := replicate 32 (CHR ''a'')\<rparr>, demo_row\<lparr>ni_id := 2, ni_hash := replicate 32 (CHR ''b'')\<rparr>],
     db_references := [(1, replicate 32 (CHR ''b'') @ ''-glibc-2.40-66-with-locales'')], db_pinned := [replicate 32 (CHR ''a'')], db_next := 3\<rparr>"

theorem GetPinnedClosureHashes_roots_only_witness:
  "\<exists>e. GetPinnedClosureHashes demo_pins = (Inr e, demo_pins) \<and> replicate 32 (CHR ''a'') \<in> set e \<and> replicate 32 (CHR ''b'') \<notin> set e"
proof -
  have q: "quiet demo_pins" by (simp add: demo_pins_def quiet_def empty_db_def)
  have "length (replicate 32 (CHR ''a'')) = 32" "length (replicate 32 (CHR ''b'')) = 32" by simp_all
  then show ?thesis using GetPinnedClosureHashes_roots_only [OF q] by (force simp: demo_pins_def numeral_eq_Suc)
qed

definition demo_big :: database where
  "demo_big = (cst_db (demo_full []))\<lparr>db_narinfo_nar_files := [(1, 2)],
     db_nar_files := map (\<lambda>r. r\<lparr>nf_file_size := 20000\<rparr>) (db_nar_files (cst_db (demo_full [])))\<rparr>"

theorem deleteLRURecordsFromDB_blocked_witness:
  "deleteLRURecordsFromDB demo_conf 1000000 [] demo_big = (Inr (Some ([], [], [])), demo_big)"
proof -
  have "quiet demo_big" "\<forall>n \<in> set (db_narinfos demo_big). size_up_to demo_big n > 10000"
    by (simp_all add: demo_big_def demo_full_def idle_cache_def quiet_def empty_db_def size_up_to_def used_before_def demo_row_fields)
  then show ?thesis by (rule deleteLRURecordsFromDB_blocked)
qed

theorem runLRU_keeps_pinned_witness:
  "demo_row \<in> set (db_narinfos (cst_db (snd (runLRU demo_conf
     (idle_cache ((cst_db (demo_full [Some ErrDB]))\<lparr>db_pinned := [''h'']\<rparr>) [] () ())))))"
proof -
  let ?s = "idle_cache ((cst_db (demo_full [Some ErrDB]))\<lparr>db_pinned := [''h'']\<rparr>) [] () ()"
  have "db_wf (\<lambda>_. True) (cst_db ?s)"
    by (simp add: demo_full_def idle_cache_def empty_db_def db_wf_def keys_wf_def fk_wf_def links_wf_def demo_row_fields)
  then show ?thesis by (rule runLRU_keeps_pinned) (simp_all add: idle_cache_def demo_full_def demo_row_fields)
qed

theorem runLRU_keeps_chunks_witness:
  "\<exists>s. some_chunk_hash \<in> ck_hash ` set (db_chunks (cst_db (snd (runLRU demo_cdc_conf s)))) \<and>
    chunks plain_codec [] (cst_chunks (snd (runLRU demo_cdc_conf s))) some_chunk_hash = chunks plain_codec [] (cst_chunks s) some_chunk_hash"
proof -
  let ?row = "\<lparr>ck_id = 1, ck_hash = some_chunk_hash, ck_size = 3, ck_compressed_size = 4\<rparr>"
  let ?s = "idle_cache (empty_db\<lparr>db_chunks := [?row], db_next := 2\<rparr>) [] (empty_fs []) () :: ((string \<times> string) list, file_system, unit) cache_state"
  have "some_chunk_hash \<in> ck_hash ` set (db_chunks (cst_db (snd (runLRU demo_cdc_conf ?s))))"
    by (simp add: runLRU_def ignoreE_def withTryLock_def in_locks_def demo_cdc_conf_def demo_locker_def lru_section_def lru_records_def in_db_def
        idle_cache_def GetPinnedClosureHashes_def ListPinnedClosures_def select_def db_call_def empty_db_def db_ping_def commit_if_def
        calculateCleanupSize_def GetNarTotalSize_def bindE_def thenE_def returnE_def attemptE_def finallyE_def something_def rollback_def)
  moreover have "db_wf chunk_hash (cst_db ?s)"
    using empty_fs_chunks(4) by (simp add: idle_cache_def db_wf_def keys_wf_def fk_wf_def links_wf_def empty_db_def)
  moreover have "chunk_inv plain_codec [] (cst_chunks ?s)" by (simp add: idle_cache_def chunk_inv_def empty_fs_chunks)
  ultimately show ?thesis using runLRU_keeps_chunks [of ?s plain_codec "[]" demo_cdc_conf some_chunk_hash] demo_cdc_fields(2) by blast
qed

section \<open>What pinning and eviction keep\<close>

lemma keeps_pins [cache_keeps]:
  "keeps (cache_inv ok I K L) (PinClosure h)" "keeps (cache_inv ok I K L) (UnpinClosure h)"
  "keeps (cache_inv ok I K L) cache_ListPinnedClosures" "keeps (cache_inv ok I K L) (IsNarInfoPinned h)"
  unfolding PinClosure_def UnpinClosure_def cache_ListPinnedClosures_def IsNarInfoPinned_def by (intro keeps_intros cache_keeps db_keeps)+

lemma keeps_lru_records: "keeps (db_wf ok) (lru_records c pinned)"
proof -
  have least: "keeps (db_wf ok) (least_used n)" for n unfolding least_used_def by (intro keeps_intros db_keeps)
  have fetch: "keeps (db_wf ok) (fetch_candidates n cs pinned fs inc)" for n cs fs inc
    by (induction n arbitrary: fs inc) (auto intro!: keeps_intros least)
  have evict: "keeps (db_wf ok) (evict cs pinned n infos removed z)" for n cs infos removed z
    by (induction infos arbitrary: removed z) (auto intro!: keeps_intros db_keeps simp: Let_def)
  have "keeps (db_wf ok) (deleteLRURecordsFromDB c cs pinned)" for cs
    unfolding deleteLRURecordsFromDB_def collect_orphans_def Let_def
    by (intro keeps_bindE fetch) (auto intro!: keeps_intros evict db_keeps split: option.split list.split)
  then show ?thesis unfolding lru_records_def calculateCleanupSize_def by (intro keeps_intros db_keeps)
qed

context cache_env
begin

lemma keeps_parallelDelete:
  assumes "\<forall>h \<in> set cks. ok h"
  shows "keeps (cache_inv ok I K L) (parallelDeleteFromStores c (hs, us, cks))"
proof -
  have "keeps (cache_inv ok I K L) (forE cks (\<lambda>h. ignoreE (in_chunks (cs_DeleteChunk cs h))))" if "cc_chunkStore c = Some cs" for cs
    using assms by (induction cks) (auto intro!: keeps_intros keeps_in_chunks chunk_ops(4) that)
  moreover have "keeps (cache_inv ok I K L) (forE hs (\<lambda>h. ignoreE (in_store (nis_DeleteNarInfo (cc_narInfoStore c) h))))"
    "keeps (cache_inv ok I K L) (forE us (\<lambda>u. ignoreE (in_store (bindE (liftE (url_String u)) (\<lambda>_. ns_DeleteNar (cc_narStore c) u)))))"
    by (intro keeps_intros env_keeps keeps_in_store nar_ops narinfo_ops)+
  ultimately show ?thesis
    by (auto simp: parallelDeleteFromStores_def intro!: keeps_thenE keeps_returnE split: option.split)
qed

lemma keeps_lru_section: "keeps (cache_inv ok I K L) (lru_section c)"
proof (rule keepsI)
  fix s :: "('s, 'c, 'l) cache_state" assume inv: "cache_inv ok I K L s"
  show "cache_inv ok I K L (snd (lru_section c s))"
  proof (rule lru_section_cases [of c s], goal_cases)
    case (1 d)
    then show ?case using inv db_wf_tables [OF 1(2)] by (simp add: cache_inv_def)
  next
    case (2 pinned d0 d1 x d)
    have wf1: "db_wf ok d1" using inv db_wf_tables [OF 2(2)] by (simp add: cache_inv_def)
    have wf: "db_wf ok d" using keepsD [OF keeps_lru_records wf1] 2(3) by (metis snd_conv)
    obtain hs us cks where x: "x = (hs, us, cks)" by (metis prod_cases3)
    have "\<forall>h \<in> set cks. ok h" using lru_chunks_gone [OF 2(3) [unfolded x] wf1] by blast
    from keepsD [OF keeps_parallelDelete [OF this], of "s\<lparr>cst_db := d\<rparr>"] inv wf show ?case
      using 2(4) by (simp add: x cache_inv_def)
  qed
qed

lemma keeps_eviction:
  "keeps (cache_inv ok I K L) (runLRU c)" "keeps (cache_inv ok I K L) (runCDCDeletedCleanup c)"
  "keeps (cache_inv ok I K L) (runCDCLazyRecovery c cutoff n)"
  unfolding runLRU_def runCDCDeletedCleanup_def runCDCLazyRecovery_def
  by (intro keeps_intros keeps_withTryLock keeps_lru_section cache_keeps db_keeps env_keeps)+

end

end
