(* ===== verification/Cache_Nar.thy ===== *)
theory Cache_Nar
  imports Cache_CDC Chunk_Store
begin

text \<open>
  Storing and serving whole NARs in \<open>pkg/cache/cache.go\<close>: uploads, the file of a finished download, deletion, and the choice between the store and
  the chunks when a NAR is served.
\<close>

section \<open>Storing\<close>

text \<open>The NAR is there already: its size is read from the store, for the record.\<close>

definition put_or_size :: "('s, 'c, 'l) cache_conf \<Rightarrow> nar_url \<Rightarrow> reader \<Rightarrow> (('s, 'c, 'l) cache_state, nat) prog" where
  "put_or_size c u r =
     bindE (attemptE (in_store (ns_PutNar (cc_narStore c) u r))) (\<lambda>res.
       case res of
         Inr written \<Rightarrow> returnE written
       | Inl e \<Rightarrow>
           if e = ErrAlreadyExists then bindE (in_store (ns_GetNar (cc_narStore c) u)) (\<lambda>(size, _). returnE size) else raiseE e)"

text \<open>\<open>copy\<close> is the copy of the body to a temporary file, which may fail. The chunking leaves its URL without compression.\<close>

definition putNarWithCDC ::
  "('s, 'c, 'l) cache_conf \<Rightarrow> cdc_event list \<Rightarrow> (reader \<Rightarrow> reader result) \<Rightarrow> nar_url \<Rightarrow> reader \<Rightarrow> (('s, 'c, 'l) cache_state, unit) prog" where
  "putNarWithCDC c sched copy u r =
     bindE (liftE (copy r)) (\<lambda>file.
     thenE (bindE (attemptE (storeNarWithCDC c sched (returnE ()) file u)) (\<lambda>res.
              case res of Inr _ \<Rightarrow> returnE () | Inl e \<Rightarrow> if e = ErrAlreadyExists then returnE () else raiseE e))
     (ignoreE (checkAndFixNarInfosForNar c (u\<lparr>url_Compression := ''none''\<rparr>))))"

definition PutNar ::
  "('s, 'c, 'l) cache_conf \<Rightarrow> cdc_event list \<Rightarrow> (reader \<Rightarrow> reader result) \<Rightarrow> nar_url \<Rightarrow> reader \<Rightarrow> (('s, 'c, 'l) cache_state, unit) prog" where
  "PutNar c sched copy u r =
     bindE (liftE (url_String u)) (\<lambda>_.
     withReadLock c (narJobKey (url_Hash u))
       (if isCDCEnabled c then putNarWithCDC c sched copy u r
        else bindE (put_or_size c u r) (\<lambda>written.
          thenE (ensureNarFileRecord u written) (ignoreE (checkAndFixNarInfosForNar c u)))))"

definition DeleteNar :: "('s, 'c, 'l) cache_conf \<Rightarrow> nar_url \<Rightarrow> (('s, 'c, 'l) cache_state, unit) prog" where
  "DeleteNar c u =
     bindE (liftE (url_String u)) (\<lambda>_.
     withReadLock c (narJobKey (url_Hash u)) (in_store (ns_DeleteNar (cc_narStore c) u)))"

text \<open>
  The temporary file of a download. A NAR without compression is compressed with zstd on its way into the store; the pipe between the compressor and
  the store passes an error of the file on.
\<close>

definition compress_pipe :: "zstd_codec \<Rightarrow> reader \<Rightarrow> reader" where
  "compress_pipe zc file = file\<lparr>rd_data := zc_compress zc (rd_data file)\<rparr>"

definition storeNarFromTempFile :: "('s, 'c, 'l) cache_conf \<Rightarrow> zstd_codec \<Rightarrow> nar_url \<Rightarrow> reader \<Rightarrow> (('s, 'c, 'l) cache_state, unit) prog" where
  "storeNarFromTempFile c zc u file =
     (let (storeURL, r) = (if url_Compression u = ''none'' then (u\<lparr>url_Compression := ''zstd''\<rparr>, compress_pipe zc file) else (u, file)) in
      bindE (put_or_size c storeURL r) (\<lambda>written. ensureNarFileRecord u written))"

section \<open>Serving\<close>

text \<open>The compression of the record that was found, or \<open>None\<close> when the NAR has no record.\<close>

definition touch_record :: "('s, 'c, 'l) cache_conf \<Rightarrow> nar_url \<Rightarrow> (database, string option) prog" where
  "touch_record c u =
     bindE (attemptE (getNarFileFromDB c u)) (\<lambda>res.
       case res of
         Inl e \<Rightarrow> if IsNotFoundError e then returnE None else raiseE e
       | Inr nr \<Rightarrow>
           bindE (getsE db_now) (\<lambda>now.
           thenE (if stale c now (nf_last_accessed_at nr)
                  then thenE (nar_file_of (u\<lparr>url_Compression := nf_compression nr\<rparr>) TouchNarFile) (returnE ()) else returnE ())
             (returnE (Some (nf_compression nr)))))"

text \<open>The size, \<open>-1\<close> when it is not known, the bytes, and the URL with the compression that is served.\<close>

definition getNarFromStore :: "('s, 'c, 'l) cache_conf \<Rightarrow> nar_url \<Rightarrow> (('s, 'c, 'l) cache_state, int \<times> reader \<times> nar_url) prog" where
  "getNarFromStore c u =
     bindE (liftE (url_String u)) (\<lambda>_.
     bindE (if url_Compression u = ''none'' then in_store (ns_HasNar (cc_narStore c) (u\<lparr>url_Compression := ''zstd''\<rparr>)) else returnE False) (\<lambda>decompress.
     bindE (in_store (ns_GetNar (cc_narStore c) (if decompress then u\<lparr>url_Compression := ''zstd''\<rparr> else u))) (\<lambda>(storedFileSize, b).
     bindE (liftE (if decompress \<and> \<not> url_TransparentZstd u
                   then rbind (DecompressReader (cc_chunkLib c) (reader_of b) ''zstd'') (\<lambda>r. Inr (- 1, r))
                   else Inr (int storedFileSize, reader_of b))) (\<lambda>(size, r).
     let u1 = (if decompress then u else u\<lparr>url_TransparentZstd := False\<rparr>) in
     bindE (withTransaction (in_db (touch_record c u1))) (\<lambda>found.
       case found of
         Some ct \<Rightarrow> returnE (size, r, u1\<lparr>url_Compression := ct\<rparr>)
       | None \<Rightarrow> thenE (ignoreE (ensureNarFileRecord u1 storedFileSize)) (returnE (size, r, u1)))))))"

text \<open>The stream between the storage and the client passes bytes and errors on; \<open>None\<close> stands for a stream that is still open, as in the progressive case.\<close>

definition serveNarFromStorageViaPipe ::
  "('s, 'c, 'l) cache_conf \<Rightarrow> stream_ctx \<Rightarrow> (('s, 'c, 'l) cache_state \<Rightarrow> ('s, 'c, 'l) cache_state) list \<Rightarrow> nar_url \<Rightarrow> bool
   \<Rightarrow> (('s, 'c, 'l) cache_state, int \<times> reader option \<times> nar_url) prog" where
  "serveNarFromStorageViaPipe c cx envs u hasInStore =
     bindE (liftE (url_String u)) (\<lambda>_.
     bindE (if hasInStore \<and> isCDCEnabled c
            then bindE (attemptE (in_db (getNarFileFromDB c u))) (\<lambda>res.
                   returnE (case res of Inr nr \<Rightarrow> nf_total_chunks nr > 0 | Inl _ \<Rightarrow> False))
            else returnE (\<not> hasInStore)) (\<lambda>serveFromChunks.
     if serveFromChunks
     then bindE (getNarFromChunks c cx envs u) (\<lambda>(size, out). returnE (int size, out, u\<lparr>url_Compression := ''none'', url_TransparentZstd := False\<rparr>))
     else bindE (getNarFromStore c u) (\<lambda>(size, r, v). returnE (size, Some r, v))))"

text \<open>
  The part of \<open>GetNar\<close> that looks at this cache: whether the NAR is served from here, and otherwise whether it is asked of an upstream. A NAR that
  another instance is chunking right now counts as present.
\<close>

datatype nar_answer = Served int "reader option" nar_url | Pull

definition chunking_elsewhere :: "('s, 'c, 'l) cache_conf \<Rightarrow> nar_url \<Rightarrow> (('s, 'c, 'l) cache_state, bool) prog" where
  "chunking_elsewhere c u =
     bindE (attemptE (in_db (getNarFileFromDB c u))) (\<lambda>res.
       case res of
         Inl e \<Rightarrow> if IsNotFoundError e then returnE False else raiseE e
       | Inr nr \<Rightarrow>
           bindE (in_db (getsE db_now)) (\<lambda>now.
             returnE (case nf_chunking_started_at nr of None \<Rightarrow> False | Some t \<Rightarrow> now < t + cdcChunkingLockTTL)))"

definition GetNar_here ::
  "('s, 'c, 'l) cache_conf \<Rightarrow> stream_ctx \<Rightarrow> (('s, 'c, 'l) cache_state \<Rightarrow> ('s, 'c, 'l) cache_state) list \<Rightarrow> bool \<Rightarrow> nar_url
   \<Rightarrow> (('s, 'c, 'l) cache_state, nar_answer) prog" where
  "GetNar_here c cx envs uploadOnly u =
     bindE (HasNarInStore c u) (\<lambda>hasNarInStore.
     bindE (if hasNarInStore then returnE True else HasNarInChunks c u) (\<lambda>hasNar.
     bindE (hasUpstreamJob (url_Hash u)) (\<lambda>hasActiveLocalJob.
     bindE (if \<not> hasNar \<and> \<not> hasNarInStore \<and> isCDCEnabled c \<and> \<not> hasActiveLocalJob then chunking_elsewhere c u else returnE hasNar) (\<lambda>hasNar.
     if hasNar then
       thenE (whenE hasNarInStore (maybeBackgroundMigrateNarToChunks c u))
         (bindE (serveNarFromStorageViaPipe c cx envs u hasNarInStore) (\<lambda>(size, out, v). returnE (Served size out v)))
     else if uploadOnly then raiseE ErrNotFound
     else returnE Pull))))"

section \<open>What every operation keeps\<close>

lemma keeps_touch_record [db_keeps]: "keeps (db_wf ok) (touch_record c u)"
  unfolding touch_record_def nar_file_of_def by (intro keeps_intros db_keeps)

context cache_env
begin

lemma keeps_put_or_size: "keeps (cache_inv ok I K L) (put_or_size c u r)"
  unfolding put_or_size_def by (intro keeps_intros env_keeps)

lemma keeps_PutNar:
  assumes "\<And>b. ok (kl_sum (cc_chunkLib c) b)"
  shows "keeps (cache_inv ok I K L) (PutNar c sched copy u r)"
  unfolding PutNar_def putNarWithCDC_def storeNarWithCDC_def
  by (intro keeps_intros keeps_locked keeps_put_or_size keeps_storeNarWithCDCFromReader keeps_checkAndFixNarInfosForNar assms cache_keeps db_keeps env_keeps)

lemma keeps_DeleteNar: "keeps (cache_inv ok I K L) (DeleteNar c u)"
  unfolding DeleteNar_def by (intro keeps_intros keeps_locked env_keeps)

lemma keeps_storeNarFromTempFile: "keeps (cache_inv ok I K L) (storeNarFromTempFile c zc u file)"
  unfolding storeNarFromTempFile_def by (intro keeps_intros keeps_put_or_size cache_keeps)

lemma keeps_getNarFromStore: "keeps (cache_inv ok I K L) (getNarFromStore c u)"
  unfolding getNarFromStore_def by (intro keeps_intros cache_keeps db_keeps env_keeps)

lemma keeps_getNarFromChunks:
  assumes "\<forall>env \<in> set envs. \<forall>s. cache_inv ok I K L s \<longrightarrow> cache_inv ok I K L (env s)"
  shows "keeps (cache_inv ok I K L) (getNarFromChunks c cx envs u)"
proof -
  have "keeps (cache_inv ok I K L) (run_stream cs raw j envs st)" if cs: "cc_chunkStore c = Some cs" for cs raw j st
    using assms
  proof (induction envs arbitrary: st)
    case (Cons env envs)
    then have "keeps (cache_inv ok I K L) (modifyE env)" by (intro keeps_modifyE) simp
    with Cons show ?case
      by (auto intro!: keeps_intros keeps_stream_step cs split: stream_step.split)
  qed (simp add: keeps_returnE)
  then show ?thesis
    unfolding getNarFromChunks_def streamProgressiveChunks_def
    by (auto intro!: keeps_intros cache_keeps keeps_streamComplete split: bool.split option.split)
qed

lemma keeps_GetNar_here:
  assumes "\<forall>env \<in> set envs. \<forall>s. cache_inv ok I K L s \<longrightarrow> cache_inv ok I K L (env s)"
  shows "keeps (cache_inv ok I K L) (GetNar_here c cx envs b u)"
  unfolding GetNar_here_def serveNarFromStorageViaPipe_def chunking_elsewhere_def
  by (intro keeps_intros cache_keeps db_keeps keeps_HasNarInStore keeps_getNarFromStore keeps_getNarFromChunks assms)

end

end
