(* ===== verification/Cache_Nar_Props.thy ===== *)
theory Cache_Nar_Props
  imports Cache_Nar Cache_CDC_Props Local_Store
begin

text \<open>
  A NAR that was downloaded and stored is served from this cache with the bytes of the download, whether it was compressed on its way into the
  store or not; an upload that is there already changes nothing in the store; a delete by the URL of an uncompressed NAR misses the file.
\<close>

section \<open>Records without failures\<close>

lemma ensureNarFileRecord_quiet:
  fixes s :: "('s, 'c, 'l) cache_state"
  assumes "quiet (cst_db s)"
  obtains d where "ensureNarFileRecord u n s = (Inr (), s\<lparr>cst_db := d\<rparr>)" "quiet d"
proof -
  obtain nf d1 where c: "nar_file_of u (\<lambda>h cm q. CreateNarFile h cm q n 0) (cst_db s) = (Inr nf, d1)" "quiet d1"
    unfolding nar_file_of_def by (rule CreateNarFile_quiet [OF assms]) blast
  let ?upd = "if nf_file_size nf \<noteq> n then UpdateNarFileFileSize (nf_id nf) n else returnE ()"
  obtain d2 where d2: "?upd d1 = (Inr (), d2)" "quiet d2"
    using c(2) by (cases "nf_file_size nf = n") (auto simp: UpdateNarFileFileSize_def exec_def upd_nar_file_def quiet_def returnE_def)
  have "in_db (bindE (nar_file_of u (\<lambda>h cm q. CreateNarFile h cm q n 0)) (\<lambda>nf.
      if nf_file_size nf \<noteq> n then UpdateNarFileFileSize (nf_id nf) n else returnE ())) s = (Inr (), s\<lparr>cst_db := d2\<rparr>)"
    using c(1) d2(1) by (simp add: in_db_def bindE_run)
  then have "ensureNarFileRecord u n s = (Inr (), s\<lparr>cst_db := d2\<rparr>)"
    unfolding ensureNarFileRecord_def using assms d2(2) by (intro withTransaction_calm) (simp_all add: quiet_def)
  then show thesis using that d2(2) by blast
qed

lemma getNarFileFromDB_quiet:
  assumes "quiet d"
  shows "\<exists>r. getNarFileFromDB c u d = (r, d) \<and> (r = Inl ErrDBNotFound \<or> (\<exists>nr. r = Inr nr \<and> nf_compression nr \<in> {''none'', url_Compression u}))"
proof -
  have one: "\<exists>r. nar_file_of v GetNarFileByHashAndCompressionAndQuery d = (r, d) \<and>
      (r = Inl ErrDBNotFound \<or> (\<exists>nr. r = Inr nr \<and> nf_compression nr = url_Compression v))" for v
    using assms
    by (auto simp: nar_file_of_def GetNarFileByHashAndCompressionAndQuery_def select_one_def one_row_def quiet_def nar_file_key_def
        dest!: filter_eq_ConsD split: list.splits)
  show ?thesis
    using one [of "u\<lparr>url_Compression := ''none''\<rparr>"] one [of "u\<lparr>url_Compression := url_Compression u\<rparr>"]
    by (auto simp: getNarFileFromDB_def bindE_def attemptE_def returnE_def raiseE_def IsNotFoundError_def Let_def split: if_splits)
qed

lemma touch_record_quiet:
  fixes s :: "('s, 'c, 'l) cache_state"
  assumes "quiet (cst_db s)"
  obtains found d where "withTransaction (in_db (touch_record c u)) s = (Inr found, s\<lparr>cst_db := d\<rparr>)" "quiet d"
    "found \<in> {None, Some ''none'', Some (url_Compression u)}"
proof -
  obtain r where r: "getNarFileFromDB c u (cst_db s) = (r, cst_db s)" "r = Inl ErrDBNotFound \<or> (\<exists>nr. r = Inr nr \<and> nf_compression nr \<in> {''none'', url_Compression u})"
    using getNarFileFromDB_quiet [OF assms] by blast
  have "\<exists>found d. touch_record c u (cst_db s) = (Inr found, d) \<and> quiet d \<and> found \<in> {None, Some ''none'', Some (url_Compression u)}"
    using r assms
    by (auto simp: touch_record_def bindE_def attemptE_def thenE_def returnE_def getsE_def IsNotFoundError_def nar_file_of_def TouchNarFile_def
        execrows_def quiet_def)
  then obtain found d where f: "touch_record c u (cst_db s) = (Inr found, d)" "quiet d" "found \<in> {None, Some ''none'', Some (url_Compression u)}" by blast
  have "withTransaction (in_db (touch_record c u)) s = (Inr found, s\<lparr>cst_db := d\<rparr>)"
    using f(1,2) assms by (intro withTransaction_calm) (simp_all add: in_db_def quiet_def)
  then show thesis using that f(2,3) by blast
qed

section \<open>Storing and serving\<close>

definition stored_url :: "nar_url \<Rightarrow> nar_url" where
  "stored_url u = (if url_Compression u = ''none'' then u\<lparr>url_Compression := ''zstd''\<rparr> else u)"

definition stored_bytes :: "zstd_codec \<Rightarrow> nar_url \<Rightarrow> bytes \<Rightarrow> bytes" where
  "stored_bytes zc u nar = (if url_Compression u = ''none'' then zc_compress zc nar else nar)"

context nar_store_laws
begin

lemma put_new:
  assumes "inv s" "calm s" "key u = Inr k" "content s k = None"
  obtains t where "ns_PutNar ops u (reader_of b) s = (Inr (length b), t)" "inv t" "calm t" "content t k = Some b"
proof -
  obtain r t where run: "ns_PutNar ops u (reader_of b) s = (r, t)" by fastforce
  have r: "r = Inr (length b)" using put_result [OF assms(1-3) _ assms(4), of "reader_of b"] run by (simp add: reader_of_def)
  then have "content t = (content s)(k \<mapsto> b)" using put_atomic [OF assms(1,3), of "reader_of b"] run by (auto simp: reader_of_def)
  then show thesis using that run r put_inv [OF assms(1), of u "reader_of b"] put_calm [OF assms(1,2), of u "reader_of b"] by simp
qed

text \<open>
  A NAR in the store, kept compressed with zstd (bytes \<open>b\<close>) or as it is. The bytes of the file are handed out when it is not to be decompressed, and otherwise those of the
  NAR; the URL says which.
\<close>

lemma getNarFromStore_stored:
  fixes s :: "('s, 'c, 'l) cache_state" and u :: nar_url and z :: "bytes option"
  defines "packed \<equiv> url_Compression u = ''none'' \<and> z \<noteq> None"
  assumes c: "cc_narStore c = ops" "url_String u = Inr x"
    and s: "quiet (cst_db s)" "inv (cst_store s)" "calm (cst_store s)" "packed \<or> key u = Inr k" "key (stored_url u) = Inr kz" "content (cst_store s) kz = z"
    and nar: "if packed then kl_open (cc_chunkLib c) ''zstd'' (reader_of (the z)) = Inr (reader_of nar) else content (cst_store s) k = Some nar"
  shows "\<exists>n r v t. getNarFromStore c u s = (Inr (n, reader_of r, v), t) \<and> url_TransparentZstd v = (packed \<and> url_TransparentZstd u) \<and>
    url_Compression v \<in> {''none'', url_Compression u} \<and>
    (if packed \<and> url_TransparentZstd u then r = the z else r = nar) \<and> (n = - 1 \<or> n = int (length r))"
proof -
  have has: "in_store (ns_HasNar ops (stored_url u)) s = (Inr (z \<noteq> None), s)" using has_result [OF s(2,3,5)] s(6) by (simp add: in_store_def)
  let ?u = "if packed then u else u\<lparr>url_TransparentZstd := False\<rparr>"
  let ?b = "if packed then the z else nar"
  have get: "in_store (ns_GetNar ops (if packed then stored_url u else u)) s = (Inr (length ?b, ?b), s)"
    using get_result [OF s(2,3,5)] get_result [OF s(2,3), of u k] s(4,6) nar by (auto simp: in_store_def packed_def)
  have unpack: "packed \<Longrightarrow> DecompressReader (cc_chunkLib c) (reader_of (the z)) ''zstd'' = Inr (reader_of nar)"
    using nar by (simp add: DecompressReader_def)
  obtain found d where touch: "withTransaction (in_db (touch_record c ?u)) s = (Inr found, s\<lparr>cst_db := d\<rparr>)" "quiet d"
    "found \<in> {None, Some ''none'', Some (url_Compression ?u)}"
    using touch_record_quiet [OF s(1), of c ?u] by blast
  obtain d' where heal: "ensureNarFileRecord ?u (length ?b) (s\<lparr>cst_db := d\<rparr>) = (Inr (), s\<lparr>cst_db := d'\<rparr>)"
    using ensureNarFileRecord_quiet [of "s\<lparr>cst_db := d\<rparr>" ?u "length ?b"] touch(2) by auto
  have "getNarFromStore c u s = (case found of
        Some ct \<Rightarrow> (Inr (if packed \<and> \<not> url_TransparentZstd u then - 1 else int (length ?b),
          reader_of (if packed \<and> \<not> url_TransparentZstd u then nar else ?b), ?u\<lparr>url_Compression := ct\<rparr>), s\<lparr>cst_db := d\<rparr>)
      | None \<Rightarrow> (Inr (if packed \<and> \<not> url_TransparentZstd u then - 1 else int (length ?b),
          reader_of (if packed \<and> \<not> url_TransparentZstd u then nar else ?b), ?u), s\<lparr>cst_db := d'\<rparr>))"
  proof (cases packed)
    case True
    then have u: "url_Compression u = ''none''" "stored_url u = u\<lparr>url_Compression := ''zstd''\<rparr>" "z \<noteq> None" by (simp_all add: packed_def stored_url_def)
    show ?thesis
      using True has get touch(1) heal unpack c(2) u
      by (simp add: getNarFromStore_def c(1) bindE_def liftE_def thenE_def ignoreE_def attemptE_def returnE_def Let_def split: option.split)
  next
    case False
    then have no: "url_Compression u = ''none'' \<Longrightarrow> in_store (ns_HasNar ops (u\<lparr>url_Compression := ''zstd''\<rparr>)) s = (Inr False, s)"
      using has by (auto simp: packed_def stored_url_def)
    show ?thesis
      using False no get touch(1) heal c(2)
      by (simp add: getNarFromStore_def c(1) bindE_def liftE_def thenE_def ignoreE_def attemptE_def returnE_def Let_def split: option.split)
  qed
  then show ?thesis using touch(3) by (cases found) (auto simp: packed_def)
qed

lemma GetNar_here_stored:
  fixes s :: "('s, 'c, 'l) cache_state"
  assumes c: "\<not> isCDCEnabled c" "cc_narStore c = ops" "url_String u = Inr x"
    and s: "inv (cst_store s)" "calm (cst_store s)" "key (stored_url u) = Inr kz" "content (cst_store s) kz \<noteq> None \<or> key u = Inr k \<and> content (cst_store s) k \<noteq> None"
    and get: "getNarFromStore c u s = (Inr (n, r, w), t)"
  shows "GetNar_here c cx envs up u s = (Inr (Served n (Some r) w), t)"
proof -
  have has: "in_store (ns_HasNar ops (stored_url u)) s = (Inr (content (cst_store s) kz \<noteq> None), s)" using has_result [OF s(1-3)] by (simp add: in_store_def)
  have "content (cst_store s) kz = None \<Longrightarrow> in_store (ns_HasNar ops u) s = (Inr True, s)" using has_result [OF s(1,2)] s(4) by (auto simp: in_store_def)
  then have here: "HasNarInStore c u s = (Inr True, s)"
    using has by (auto simp: HasNarInStore_def c(2) stored_url_def bindE_def returnE_def Let_def split: if_splits)
  have "serveNarFromStorageViaPipe c cx envs u True s = (Inr (n, Some r, w), t)"
    using c(1,3) get by (simp add: serveNarFromStorageViaPipe_def bindE_run returnE_def)
  then show ?thesis
    using here c(1)
    by (simp add: GetNar_here_def bindE_def thenE_def hasUpstreamJob_def getsE_def returnE_def whenE_def maybeBackgroundMigrateNarToChunks_def)
qed

lemma get_stored:
  fixes s :: "('s, 'c, 'l) cache_state"
  assumes c: "\<not> isCDCEnabled c" "cc_narStore c = ops" "url_String u = Inr x" "\<not> url_TransparentZstd u"
    and s: "quiet (cst_db s)" "inv (cst_store s)" "calm (cst_store s)" "key (stored_url u) = Inr k" "content (cst_store s) k = Some b"
    and b: "if url_Compression u = ''none'' then kl_open (cc_chunkLib c) ''zstd'' (reader_of b) = Inr (reader_of nar) else b = nar"
  shows "\<exists>size v t. GetNar_here c cx envs up u s = (Inr (Served size (Some (reader_of nar)) v), t)"
proof -
  have "\<exists>n r v t. getNarFromStore c u s = (Inr (n, reader_of r, v), t) \<and> r = nar"
    using getNarFromStore_stored [OF c(2,3) s(1-3), where k = k and kz = k and z = "Some b" and nar = nar] s(4,5) b c(4)
    by (cases "url_Compression u = ''none''") (auto simp: stored_url_def)
  then show ?thesis using GetNar_here_stored [OF c(1-3) s(2-4)] s(5) by fastforce
qed

lemma store_leaves:
  fixes s :: "('s, 'c, 'l) cache_state"
  assumes c: "cc_narStore c = ops"
    and s: "quiet (cst_db s)" "inv (cst_store s)" "calm (cst_store s)" "key (stored_url u) = Inr k" "content (cst_store s) k = None"
  obtains f d where "storeNarFromTempFile c zc u (reader_of nar) s = (Inr (), s\<lparr>cst_store := f, cst_db := d\<rparr>)" "quiet d" "inv f" "calm f"
    "content f k = Some (stored_bytes zc u nar)"
proof -
  let ?b = "stored_bytes zc u nar"
  obtain f where f: "ns_PutNar ops (stored_url u) (reader_of ?b) (cst_store s) = (Inr (length ?b), f)" "inv f" "calm f" "content f k = Some ?b"
    using put_new [OF s(2-5)] by blast
  let ?s = "s\<lparr>cst_store := f\<rparr>"
  have put: "put_or_size c (stored_url u) (reader_of ?b) s = (Inr (length ?b), ?s)"
    using f(1) by (simp add: put_or_size_def c in_store_def bindE_def attemptE_def returnE_def)
  obtain d where d: "ensureNarFileRecord u (length ?b) ?s = (Inr (), ?s\<lparr>cst_db := d\<rparr>)" "quiet d"
    using ensureNarFileRecord_quiet [of ?s] s(1) by auto
  have "storeNarFromTempFile c zc u (reader_of nar) s = (Inr (), ?s\<lparr>cst_db := d\<rparr>)"
    using put d(1) by (auto simp: storeNarFromTempFile_def stored_bytes_def stored_url_def compress_pipe_def reader_of_def bindE_run split: if_splits)
  then show thesis using that [where f = f and d = d] d(2) f by blast
qed

lemma store_then_get:
  fixes s :: "('s, 'c, 'l) cache_state"
  assumes c: "\<not> isCDCEnabled c" "cc_narStore c = ops" "url_String u = Inr x" "\<not> url_TransparentZstd u"
    and s: "quiet (cst_db s)" "inv (cst_store s)" "calm (cst_store s)" "key (stored_url u) = Inr k" "content (cst_store s) k = None"
    and b: "kl_open (cc_chunkLib c) ''zstd'' (reader_of (zc_compress zc nar)) = Inr (reader_of nar)"
  shows "\<exists>t size v t'. storeNarFromTempFile c zc u (reader_of nar) s = (Inr (), t) \<and>
    GetNar_here c cx envs up u t = (Inr (Served size (Some (reader_of nar)) v), t')"
proof -
  obtain f d where f: "storeNarFromTempFile c zc u (reader_of nar) s = (Inr (), s\<lparr>cst_store := f, cst_db := d\<rparr>)" "quiet d" "inv f" "calm f"
    "content f k = Some (stored_bytes zc u nar)" by (rule store_leaves [OF c(2) s])
  then show ?thesis
    using get_stored [OF c, of "s\<lparr>cst_store := f, cst_db := d\<rparr>" k "stored_bytes zc u nar" nar cx envs up] s(4) b by (auto simp: stored_bytes_def)
qed

end

section \<open>Properties\<close>

text \<open>A NAR that was stored from the temporary file of its download is served with exactly the bytes of that file, also when it was compressed with zstd on its way
  into the store and is decompressed on its way out.\<close>

theorem nar_store_then_serve:
  fixes s :: "(file_system, 'c, 'l) cache_state"
  assumes "\<not> isCDCEnabled c" "cc_narStore c = local_nar_store dir" "url_String u = Inr x" "\<not> url_TransparentZstd u"
    and "quiet (cst_db s)" "store_wf dir (cst_store s)" "store_calm dir (cst_store s)"
    and "nar_path dir (stored_url u) = Inr p" "nars dir (cst_store s) p = None"
    and "kl_open (cc_chunkLib c) ''zstd'' (reader_of (zc_compress zc nar)) = Inr (reader_of nar)"
  shows "\<exists>t size v t'. storeNarFromTempFile c zc u (reader_of nar) s = (Inr (), t) \<and>
    GetNar_here c cx envs uploadOnly u t = (Inr (Served size (Some (reader_of nar)) v), t')"
  using local_nars.store_then_get assms by blast

text \<open>A NAR without compression is kept as a zstd file, but it is deleted under its own URL: the record of the NAR goes, the deletion of the file fails and the file stays in
  the store, without a record that would ever lead eviction to it.\<close>

theorem deleteNarFromStore_leaves_file:
  fixes s :: "(file_system, 'c, 'l) cache_state"
  assumes "cc_narStore c = local_nar_store dir" "quiet (cst_db s)" "store_wf dir (cst_store s)" "store_calm dir (cst_store s)"
    and "url_Compression u = ''none''" "nar_path dir u = Inr p" "nars dir (cst_store s) p = None"
    and "nar_path dir (stored_url u) = Inr q" "nars dir (cst_store s) q = Some b"
  shows "\<exists>t. deleteNarFromStore c u s = (Inl ErrNotFound, t) \<and> nars dir (cst_store t) q = Some b \<and>
    \<not> list_ex (nar_file_key (url_Hash u) ''none'' (values_encode (url_Query u))) (db_nar_files (cst_db t))"
proof -
  have "in_store (ns_HasNar (local_nar_store dir) (stored_url u)) s = (Inr True, s)"
    using local_nars.has_result [OF assms(3,4,8)] assms(9) by (simp add: in_store_def)
  then have has: "HasNarInStore c u s = (Inr True, s)"
    using assms(5) by (simp add: HasNarInStore_def assms(1) stored_url_def bindE_def returnE_def Let_def)
  obtain n d where d: "nar_file_of u DeleteNarFileByHash (cst_db s) = (Inr n, d)"
    "db_nar_files d = filter (\<lambda>r. \<not> nar_file_key (url_Hash u) ''none'' (values_encode (url_Query u)) r) (db_nar_files (cst_db s))"
    using assms(2,5) by (simp add: nar_file_of_def DeleteNarFileByHash_def execrows_def quiet_def delete_nar_files_def Let_def)
  obtain r f where run: "DeleteNar_local dir u (cst_store s) = (r, f)" by fastforce
  have r: "r = Inl ErrNotFound" using DeleteNar_calm [OF assms(3,4,6)] assms(7) run by simp
  have "p \<noteq> q" using assms(7,9) by auto
  then have "nars dir f q = Some b" using DeleteNar_content(2) [OF assms(3,6)] run assms(9) by auto
  moreover have "deleteNarFromStore c u s = (Inl ErrNotFound, s\<lparr>cst_db := d, cst_store := f\<rparr>)"
    using has d(1) run r by (simp add: deleteNarFromStore_def assms(1) bindE_def thenE_def in_db_def in_store_def local_nar_store_def)
  ultimately show ?thesis using d(2) by (auto simp: list_ex_iff)
qed

section \<open>Examples\<close>

definition demo_zstd_lib :: chunk_lib where
  "demo_zstd_lib = demo_chunk_lib\<lparr>kl_open := (\<lambda>ct r. case rd_data r of [] \<Rightarrow> Inl ErrCodec | _ # d \<Rightarrow> Inr (r\<lparr>rd_data := d\<rparr>))\<rparr>"

definition demo_disk_conf :: "(file_system, unit, unit) cache_conf" where
  "demo_disk_conf =
     \<lparr>cc_narStore = local_nar_store [], cc_narInfoStore = local_narinfo_store \<lparr>nc_String = n_StorePath, nc_Parse = (\<lambda>_. Inl ErrNarInfoParse)\<rparr> [],
      cc_chunkStore = None, cc_cdcEnabled = False, cc_cdcLazyChunking = False, cc_cdcDeleteDelay = 0, cc_chunkLib = demo_zstd_lib,
      cc_downloadLocker = locker.truncate demo_locker, cc_cacheLocker = demo_locker, cc_hostName = ''ncps'', cc_shouldSignNarinfo = True,
      cc_recordAgeIgnoreTouch = 300, cc_maxSize = 0, cc_nix = demo_lib\<rparr>"

definition demo_disk :: "file_system \<Rightarrow> (file_system, unit, unit) cache_state" where
  "demo_disk fs = idle_cache empty_db fs () ()"

lemma demo_stored: "\<exists>p. nar_path [] demo_nar = Inr p" "\<exists>p. nar_path [] (stored_url demo_nar) = Inr p"
  by (rule nar_path_known; simp add: demo_nar_def stored_url_def mk_nar_url_def plain_hash_ok known_compression_def)+

lemma demo_disk_quiet: "quiet (cst_db (demo_disk fs))" "cst_store (demo_disk fs) = fs"
  by (simp_all add: demo_disk_def idle_cache_def quiet_def empty_db_def)

theorem nar_store_then_serve_witness:
  "\<exists>t size v t'. storeNarFromTempFile demo_disk_conf plain_codec demo_nar (reader_of ''abc'') (demo_disk (small_store [])) = (Inr (), t) \<and>
    GetNar_here demo_disk_conf None [] False demo_nar t = (Inr (Served size (Some (reader_of ''abc'')) v), t')"
proof -
  obtain x where x: "url_String demo_nar = Inr x" using demo_nar_string by blast
  obtain p where p: "nar_path [] (stored_url demo_nar) = Inr p" using demo_stored(2) by blast
  have c: "\<not> isCDCEnabled demo_disk_conf" "cc_narStore demo_disk_conf = local_nar_store []" "\<not> url_TransparentZstd demo_nar"
    "kl_open (cc_chunkLib demo_disk_conf) ''zstd'' (reader_of (zc_compress plain_codec ''abc'')) = Inr (reader_of ''abc'')"
    by (simp_all add: demo_disk_conf_def isCDCEnabled_def demo_nar_def mk_nar_url_def demo_zstd_lib_def plain_codec_def reader_of_def)
  show ?thesis
    using nar_store_then_serve [OF c(1,2) x c(3) demo_disk_quiet(1) _ _ p _ c(4)] small_store_wf small_store_calm small_store_empty
    by (simp add: demo_disk_quiet(2))
qed

lemma split_on_size: "sum_list (map length (split_on c s)) + length (split_on c s) = length s + 1"
  by (induction s) (auto split: list.splits)

lemma demo_paths_differ: "nar_path [] demo_nar \<noteq> nar_path [] (stored_url demo_nar)"
proof -
  let ?z = "mk_nar_url plain_hash ''zstd'' []"
  have n: "Normalize (mk_nar_url plain_hash ct []) = Inr (mk_nar_url plain_hash ct [])" for ct
    using demo_normalize by (auto simp: Normalize_def mk_nar_url_def split: option.splits if_splits)
  have len: "\<exists>p. nar_path [] (mk_nar_url plain_hash ct []) = Inr (storeNarPath [] @ p) \<and>
      sum_list (map length p) + length p = 62 + (if e = [] then 0 else 1 + length e)" if e: "ToFileExtension ct = Inr e" for ct e
  proof -
    let ?f = "take 1 plain_hash @ ''/'' @ take 2 plain_hash @ ''/'' @ plain_hash @ ''.nar'' @ (if e \<noteq> [] then ''.'' @ e else [])"
    have "ToFilePath (mk_nar_url plain_hash ct []) = Inr ?f"
      using ToFilePath_plain [of "mk_nar_url plain_hash ct []" e] plain_hash_ok(2) e by (simp add: mk_nar_url_def)
    then have "nar_path [] (mk_nar_url plain_hash ct []) = Inr (storeNarPath [] @ split_on (CHR ''/'') ?f)"
      by (simp only: nar_path_def n rbind_simps components_def)
    moreover have "length plain_hash = 52" by (simp add: plain_hash_def)
    then have "length ?f + 1 = 62 + (if e = [] then 0 else 1 + length e)" by simp
    ultimately show ?thesis using split_on_size [of "CHR ''/''" ?f] by metis
  qed
  have "demo_nar = mk_nar_url plain_hash ''none'' []" "stored_url demo_nar = ?z" by (simp_all add: demo_nar_def stored_url_def mk_nar_url_def)
  moreover obtain p where "nar_path [] (mk_nar_url plain_hash ''none'' []) = Inr (storeNarPath [] @ p)" "sum_list (map length p) + length p = 62"
    using len [of "''none''" "[]"] by (auto simp: ToFileExtension_def)
  moreover obtain q where "nar_path [] ?z = Inr (storeNarPath [] @ q)" "sum_list (map length q) + length q = 66"
    using len [of "''zstd''" "''zst''"] by (auto simp: ToFileExtension_def)
  ultimately show ?thesis by auto
qed

theorem deleteNarFromStore_leaves_file_witness:
  "\<exists>fs t p. deleteNarFromStore demo_disk_conf demo_nar (demo_disk fs) = (Inl ErrNotFound, t) \<and> nars [] (cst_store t) p = Some ''abc''"
proof -
  obtain p q where p: "nar_path [] demo_nar = Inr p" "nar_path [] (stored_url demo_nar) = Inr q" using demo_stored by blast
  let ?zst = "stored_url demo_nar"
  obtain f where f: "ns_PutNar (local_nar_store []) ?zst (reader_of ''abc'') (small_store []) = (Inr (length ''abc''), f)"
    "store_wf [] f" "store_calm [] f" "nars [] f q = Some ''abc''"
    by (rule local_nars.put_new [OF small_store_wf small_store_calm p(2) small_store_empty])
  have f1: "PutNar_local [] ?zst (reader_of ''abc'') (small_store []) = (Inr (length ''abc''), f)" using f(1) by (simp only: local_nar_store_def nar_store.select_convs)
  have "p \<noteq> q"
  proof
    assume "p = q"
    then have "nar_path [] demo_nar = nar_path [] ?zst" using p by simp
    moreover have "nar_path [] demo_nar \<noteq> nar_path [] ?zst" by (rule demo_paths_differ)
    ultimately show False by simp
  qed
  then have "nars [] f p = None"
    using PutNar_atomic(2) [OF small_store_wf p(2), of "reader_of ''abc''" "[]"] small_store_empty [of "[]" p] by (simp add: f1)
  moreover have "cc_narStore demo_disk_conf = local_nar_store []" "url_Compression demo_nar = ''none''"
    by (simp_all add: demo_disk_conf_def demo_nar_def mk_nar_url_def)
  ultimately show ?thesis
    using deleteNarFromStore_leaves_file [of demo_disk_conf "[]" "demo_disk f" demo_nar p q "''abc''"] f(2-4) p demo_disk_quiet by metis
qed

end
