(* ===== verification/Cache_Local.thy ===== *)
theory Cache_Local
  imports Cache_Eviction_Props Cache_Nar_Props
begin

text \<open>
  The cache on the local stores of \<open>pkg/storage/local\<close> and \<open>pkg/storage/chunk\<close>, with any lockers: the interface \<open>cache_env\<close> is
  interpreted on the models of those packages, so that every operation of the cache keeps the invariants of its database and of its stores.
\<close>

text \<open>A configuration whose stores are local: NARs and narinfos below \<open>s\<close>, chunks below \<open>b\<close>.\<close>

definition on_local_stores ::
  "narinfo narinfo_codec \<Rightarrow> zstd_codec \<Rightarrow> path \<Rightarrow> path \<Rightarrow> (file_system, file_system, 'l) cache_conf \<Rightarrow> (file_system, file_system, 'l) cache_conf" where
  "on_local_stores nc zc s b c =
     c\<lparr>cc_narStore := local_nar_store s, cc_narInfoStore := local_narinfo_store nc s,
       cc_chunkStore := (if cc_cdcEnabled c then Some (local_chunk_store zc b) else None)\<rparr>"

section \<open>What the local operations keep\<close>

lemma keeps_local_reads:
  "keeps (store_wf s) (HasNar_local s u)" "keeps (store_wf s) (GetNar_local s u)"
  "keeps (store_wf s) (HasNarInfo s h)" "keeps (store_wf s) (GetNarInfo_local nc s h)"
  unfolding store_wf_def HasNar_local_def GetNar_local_def HasNarInfo_def GetNarInfo_local_def by (intro keeps_intros fs_keeps)+

lemma keeps_local_DeleteNarInfo: "keeps (store_wf s) (DeleteNarInfo_local s h)"
proof (cases "narinfo_path s h")
  case (Inl e)
  then show ?thesis by (simp add: DeleteNarInfo_local_def keeps_raiseE)
next
  case (Inr p)
  obtain x y z where p: "p = storeNarInfoPath s @ [x, y, z]" using narinfo_path_form [OF Inr] by blast
  have leaf: "store_leaf s p" by (auto simp: p store_leaf_def)
  have "\<not> store_leaf s d \<and> d \<noteq> storeTMPPath s" if d: "d \<in> set (parents_within (storeNarInfoPath s) p)" for d
    using d parent_not_leaf [of s p d] leaf by (auto simp: parents_within_def) (auto simp: store_paths prefix_def p)
  moreover have "p \<noteq> storeTMPPath s" by (simp add: p store_paths)
  ultimately have "keeps (store_holds s UNIV Map.empty) (DeleteNarInfo_local s h)"
    unfolding DeleteNarInfo_local_def Inr bindE_liftE removeEmptyParentDirs_def by (intro keeps_intros keeps_remove_dirs keeps_Remove) auto
  then show ?thesis by (simp add: store_wf_def fun_eq_iff keeps_def)
qed

lemma keeps_local_writes: "keeps (store_wf s) (PutNar_local s u r)" "keeps (store_wf s) (DeleteNar_local s u)"
  using local_nars.put_inv [of s _ u r] local_nars.del_inv [of s _ u] by (auto simp: keeps_def local_nar_store_def)

lemma keeps_chunk_inv:
  assumes "\<And>f. keeps (chunk_holds b (chunk_tmps b) f) m"
  shows "keeps (chunk_inv zc b) m"
proof (rule keepsI)
  fix fs assume inv: "chunk_inv zc b fs"
  from chunk_inv_holds [OF this] have "chunk_holds b (chunk_tmps b) (lookup fs) (snd (m fs))" by (rule keepsD [OF assms])
  then show "chunk_inv zc b (snd (m fs))" using chunk_holds_chunks(1) inv by (auto simp: chunk_inv_def)
qed

lemma keeps_local_chunks:
  "keeps (chunk_inv zc b) (GetChunk_local zc b g)" "keeps (chunk_inv zc b) (GetRawChunk_local b g)"
  "chunk_hash g \<Longrightarrow> keeps (chunk_inv zc b) (PutChunk_local zc b g d)" "chunk_hash g \<Longrightarrow> keeps (chunk_inv zc b) (DeleteChunk_local b g)"
proof -
  show "keeps (chunk_inv zc b) (GetChunk_local zc b g)" "keeps (chunk_inv zc b) (GetRawChunk_local b g)"
    unfolding GetChunk_local_def GetRawChunk_local_def by (intro keeps_chunk_inv keeps_intros fs_keeps)+
  show "keeps (chunk_inv zc b) (PutChunk_local zc b g d)" "keeps (chunk_inv zc b) (DeleteChunk_local b g)" if "chunk_hash g"
    using local_chunks.putc_inv [of zc b _ g d] local_chunks.delc_inv [of zc b _ g] that by (auto simp: keeps_def local_chunk_store_def)
qed

interpretation local_cache: cache_env "on_local_stores nc zc s b c" chunk_hash "store_wf s" "chunk_inv zc b" "\<lambda>_. True"
  for nc zc s b and c :: "(file_system, file_system, 'l) cache_conf"
  by unfold_locales
    (auto simp: on_local_stores_def local_nar_store_def local_narinfo_store_def local_chunk_store_def keeps_local_reads
      keeps_local_DeleteNarInfo keeps_local_writes keeps_local_chunks keeps_def [of "\<lambda>_. True"] split: if_splits)

end
