(* ===== verification/Upstream_Cache.thy ===== *)
theory Upstream_Cache
  imports Cache_State Nix_Cache_Info
begin

text \<open>
  Package \<open>pkg/cache/upstream\<close>: the client of one upstream cache, and \<open>pkg/cache/healthcheck\<close>: the checks that set its health and priority.

  The state is what the HTTP client sees of the network: the replies to come, one per \<open>httpClient.Do\<close>, an error or a response, and the requests
  that were sent. Nothing is assumed of the replies. The parser, the checker and the signature verification of go-nix are a record of functions. A URL is its
  path and its raw query; scheme and host do not change and are dropped. An error of \<open>Do\<close> is told apart by what the code tells apart: a GOAWAY
  frame, a timeout, anything else.
\<close>

section \<open>The network\<close>

datatype http_method = GET | HEAD

record http_request =
  rq_method :: http_method
  rq_url :: "string \<times> string"
  rq_auth :: "(string \<times> string) option"
  rq_AcceptEncoding :: "string option"

record http_response =
  rs_StatusCode :: nat
  rs_ContentEncoding :: string
  rs_Body :: reader

record network =
  nw_replies :: "http_response result list"
  nw_sent :: "http_request list"

definition httpClient_Do :: "http_request \<Rightarrow> (network, http_response) prog" where
  "httpClient_Do rq w =
     (case nw_replies w of
        [] \<Rightarrow> (Inl ErrUpstream, w\<lparr>nw_sent := nw_sent w @ [rq]\<rparr>)
      | r # rs \<Rightarrow> (r, w\<lparr>nw_replies := rs, nw_sent := nw_sent w @ [rq]\<rparr>))"

section \<open>The client\<close>

record nix_verifier =
  nv_Parse :: "reader \<Rightarrow> narinfo result"
  nv_Check :: "narinfo \<Rightarrow> bool"
  nv_Fingerprint :: "narinfo \<Rightarrow> string"
  nv_VerifyFirst :: "string \<Rightarrow> signature list \<Rightarrow> string list \<Rightarrow> bool"

record upstream_cache =
  up_url :: "string \<times> string"
  up_hostname :: string
  up_priority :: "64 word"
  up_publicKeys :: "string list"
  up_netrcAuth :: "(string \<times> string) option"
  up_isHealthy :: bool

definition defaultHTTPRetries :: nat where "defaultHTTPRetries = 3"

definition mk_request :: "upstream_cache \<Rightarrow> http_method \<Rightarrow> string \<times> string \<Rightarrow> string option \<Rightarrow> http_request" where
  "mk_request c mth u enc = \<lparr>rq_method = mth, rq_url = u, rq_auth = up_netrcAuth c, rq_AcceptEncoding = enc\<rparr>"

text \<open>The loop of \<open>doRequest\<close>: \<open>k\<close> attempts are left and the last one ended with \<open>e\<close>. Both methods of the model are retried.\<close>

primrec request_loop :: "nat \<Rightarrow> http_request \<Rightarrow> err \<Rightarrow> (network, http_response) prog" where
  "request_loop 0 rq e = raiseE e"
| "request_loop (Suc k) rq e =
     bindE (attemptE (httpClient_Do rq)) (\<lambda>r.
       case r of
         Inr resp \<Rightarrow> returnE resp
       | Inl e' \<Rightarrow> if e' = ErrGoAway then request_loop k rq e' else raiseE e')"

definition doRequest :: "upstream_cache \<Rightarrow> http_method \<Rightarrow> string \<times> string \<Rightarrow> string option \<Rightarrow> (network, http_response) prog" where
  "doRequest c mth u enc = request_loop defaultHTTPRetries (mk_request c mth u enc) ErrUpstream"

definition isTimeout :: "err \<Rightarrow> bool" where
  "isTimeout e \<longleftrightarrow> e = ErrDeadlineExceeded \<or> e = ErrNetTimeout"

definition narinfo_url :: "upstream_cache \<Rightarrow> string \<Rightarrow> string \<times> string" where
  "narinfo_url c h = (url_JoinPath (fst (up_url c)) (NarInfoURLPath h), snd (up_url c))"

definition expect_ok :: "http_response \<Rightarrow> (network, unit) prog" where
  "expect_ok resp =
     (if rs_StatusCode resp = 200 then returnE ()
      else if rs_StatusCode resp = 404 then raiseE ErrUpstreamNotFound
      else raiseE ErrUnexpectedStatus)"

text \<open>What a parsed narinfo has to pass: the check of its fields, a signature of a trusted key when keys are configured, and a file size.\<close>

definition accept_narinfo :: "nix_verifier \<Rightarrow> upstream_cache \<Rightarrow> narinfo \<Rightarrow> narinfo result" where
  "accept_narinfo nv c ni =
     (if \<not> nv_Check nv ni then Inl ErrNarInfoCheck
      else if up_publicKeys c \<noteq> [] \<and> \<not> nv_VerifyFirst nv (nv_Fingerprint nv ni) (n_Signatures ni) (up_publicKeys c) then Inl ErrSignatureInvalid
      else if n_FileSize ni = 0 then
        (if n_Compression ni \<noteq> ''none'' then Inl ErrInvalidNarInfo else Inr (ni\<lparr>n_FileSize := n_NarSize ni\<rparr>))
      else Inr ni)"

definition GetNarInfo_upstream :: "nix_verifier \<Rightarrow> upstream_cache \<Rightarrow> string \<Rightarrow> (network, narinfo) prog" where
  "GetNarInfo_upstream nv c h =
     bindE (doRequest c GET (narinfo_url c h) None) (\<lambda>resp.
     thenE (expect_ok resp)
     (liftE (rbind (nv_Parse nv (rs_Body resp)) (accept_narinfo nv c))))"

definition head_exists :: "(network, http_response) prog \<Rightarrow> (network, bool) prog" where
  "head_exists m =
     bindE (attemptE m) (\<lambda>r.
       case r of
         Inl e \<Rightarrow> if isTimeout e then returnE False else raiseE e
       | Inr resp \<Rightarrow> returnE (rs_StatusCode resp < 400))"

definition HasNarInfo_upstream :: "upstream_cache \<Rightarrow> string \<Rightarrow> (network, bool) prog" where
  "HasNarInfo_upstream c h = head_exists (doRequest c HEAD (narinfo_url c h) None)"

text \<open>A body with \<open>Content-Encoding: zstd\<close> is read through the pooled decoder of a third-party library, which is the function \<open>NewPooledReader\<close>.\<close>

definition GetNar_upstream :: "(reader \<Rightarrow> reader result) \<Rightarrow> upstream_cache \<Rightarrow> nar_url \<Rightarrow> (network, reader) prog" where
  "GetNar_upstream NewPooledReader c u =
     bindE (liftE (url_JoinURL u (up_url c))) (\<lambda>target.
     bindE (doRequest c GET target (Some ''zstd'')) (\<lambda>resp.
     thenE (expect_ok resp)
     (liftE (if rs_ContentEncoding resp = ''zstd'' then NewPooledReader (rs_Body resp) else Inr (rs_Body resp)))))"

definition HasNar_upstream :: "upstream_cache \<Rightarrow> nar_url \<Rightarrow> (network, bool) prog" where
  "HasNar_upstream c u =
     bindE (liftE (url_JoinURL u (up_url c))) (\<lambda>target. head_exists (doRequest c HEAD target None))"

text \<open>\<open>parsePriority\<close> does not retry, and does not tell a missing file from any other status.\<close>

definition parsePriority :: "upstream_cache \<Rightarrow> (network, 64 word) prog" where
  "parsePriority c =
     bindE (httpClient_Do (mk_request c GET (url_JoinPath (fst (up_url c)) ''/nix-cache-info'', snd (up_url c)) None)) (\<lambda>resp.
     if rs_StatusCode resp \<noteq> 200 then raiseE ErrUnexpectedStatus
     else liftE (case rd_err (rs_Body resp) of
        None \<Rightarrow> map_sum id nci_Priority (nci_Parse (rd_data (rs_Body resp)))
      | Some e \<Rightarrow> Inl e))"

section \<open>Construction\<close>

text \<open>The URL is given by its scheme, host, path and raw query; \<open>u.Query()\<close> skips what it cannot parse. Public keys are parsed by go-nix.\<close>

record upstream_options =
  uo_PublicKeys :: "string list"
  uo_NetrcCredentials :: "(string \<times> string) option"

definition parse_uint16 :: "string \<Rightarrow> 64 word result" where
  "parse_uint16 s =
     (if s = [] \<or> \<not> list_all is_digit s then Inl ErrNumSyntax
      else if digits_val s < 2 ^ 16 then Inr (of_nat (digits_val s)) else Inl ErrNumRange)"

definition url_priority :: "string \<Rightarrow> 64 word result" where
  "url_priority rawQuery =
     (case map_of (fst (parse_query_loop (split_on (CHR ''&'') rawQuery) [] False)) ''priority'' of
        None \<Rightarrow> Inr 40
      | Some vs \<Rightarrow> rbind (parse_uint16 (hd vs)) (\<lambda>p. Inr (if p = 0 then 40 else p)))"

primrec parse_keys :: "(string \<Rightarrow> string result) \<Rightarrow> string list \<Rightarrow> string list result" where
  "parse_keys pk [] = Inr []"
| "parse_keys pk (k # ks) = rbind (pk k) (\<lambda>x. rbind (parse_keys pk ks) (\<lambda>xs. Inr (x # xs)))"

definition New_upstream ::
  "(string \<Rightarrow> string result) \<Rightarrow> (string \<times> string \<times> string \<times> string) option \<Rightarrow> upstream_options \<Rightarrow> upstream_cache result" where
  "New_upstream ParsePublicKey u opts =
     (case u of
        None \<Rightarrow> Inl ErrURLRequired
      | Some (scheme, host, path, rawQuery) \<Rightarrow>
          if scheme = [] then Inl ErrURLMustContainScheme
          else rbind (parse_keys ParsePublicKey (uo_PublicKeys opts)) (\<lambda>keys.
            rbind (url_priority rawQuery) (\<lambda>p.
              Inr \<lparr>up_url = (path, rawQuery), up_hostname = host, up_priority = p, up_publicKeys = keys,
                   up_netrcAuth = uo_NetrcCredentials opts, up_isHealthy = False\<rparr>)))"

section \<open>Health checks\<close>

text \<open>A change is sent without blocking: when the channel has no room it is dropped. The channel is its content and its capacity.\<close>

record health_checker =
  hc_upstreams :: "upstream_cache list"
  hc_notifier :: "((upstream_cache \<times> bool) list \<times> nat) option"

definition HC_New :: health_checker where
  "HC_New = \<lparr>hc_upstreams = [], hc_notifier = None\<rparr>"

definition SetHealthChangeNotifier :: "nat \<Rightarrow> health_checker \<Rightarrow> health_checker" where
  "SetHealthChangeNotifier n hc = hc\<lparr>hc_notifier := Some ([], n)\<rparr>"

definition AddUpstreams :: "upstream_cache list \<Rightarrow> health_checker \<Rightarrow> health_checker" where
  "AddUpstreams us hc = hc\<lparr>hc_upstreams := hc_upstreams hc @ us\<rparr>"

primrec remove_host :: "string \<Rightarrow> upstream_cache list \<Rightarrow> upstream_cache list" where
  "remove_host h [] = []"
| "remove_host h (u # us) = (if up_hostname u = h then us else u # remove_host h us)"

definition RemoveUpstream :: "upstream_cache \<Rightarrow> health_checker \<Rightarrow> health_checker" where
  "RemoveUpstream u hc = hc\<lparr>hc_upstreams := remove_host (up_hostname u) (hc_upstreams hc)\<rparr>"

definition notify :: "upstream_cache \<times> bool \<Rightarrow> ((upstream_cache \<times> bool) list \<times> nat) option \<Rightarrow> ((upstream_cache \<times> bool) list \<times> nat) option" where
  "notify change ch =
     (case ch of
        None \<Rightarrow> None
      | Some (queue, n) \<Rightarrow> Some (if length queue < n then queue @ [change] else queue, n))"

definition check_one :: "upstream_cache \<Rightarrow> (network, upstream_cache) prog" where
  "check_one u =
     bindE (attemptE (parsePriority u)) (\<lambda>r.
       returnE (case r of
          Inl _ \<Rightarrow> u\<lparr>up_isHealthy := False\<rparr>
        | Inr p \<Rightarrow> u\<lparr>up_priority := p, up_isHealthy := True\<rparr>))"

definition note_change ::
  "upstream_cache \<Rightarrow> upstream_cache \<Rightarrow> ((upstream_cache \<times> bool) list \<times> nat) option \<Rightarrow> ((upstream_cache \<times> bool) list \<times> nat) option" where
  "note_change old new ch = (if up_isHealthy old \<noteq> up_isHealthy new then notify (new, up_isHealthy new) ch else ch)"

definition hc_check :: "health_checker \<Rightarrow> (network, health_checker) prog" where
  "hc_check hc =
     bindE (mapE check_one (hc_upstreams hc)) (\<lambda>us.
       returnE \<lparr>hc_upstreams = us, hc_notifier = fold (\<lambda>(old, new). note_change old new) (zip (hc_upstreams hc) us) (hc_notifier hc)\<rparr>)"

section \<open>Requests\<close>

lemma Do_sends: "httpClient_Do rq w = (r, w') \<Longrightarrow> nw_sent w' = nw_sent w @ [rq]"
  by (auto simp: httpClient_Do_def split: list.splits)

text \<open>The replies up to the first that is not a GOAWAY, at most \<open>k\<close>.\<close>

lemma request_loop_run:
  "request_loop k rq e w = (r, w') \<Longrightarrow>
   \<exists>n \<le> k. nw_sent w' = nw_sent w @ replicate n rq \<and> (\<forall>i < n - 1. i < length (nw_replies w) \<longrightarrow> nw_replies w ! i = Inl ErrGoAway) \<and>
     (0 < k \<longrightarrow> 0 < n \<and> r = (if n \<le> length (nw_replies w) then nw_replies w ! (n - 1) else Inl ErrUpstream)) \<and>
     (r = Inl ErrGoAway \<longrightarrow> 0 < k \<longrightarrow> n = k) \<and> nw_replies w' = drop n (nw_replies w)"
proof (induction k arbitrary: e w)
  case 0
  then show ?case by (auto simp: raiseE_def)
next
  case (Suc k)
  obtain r1 w1 where d: "httpClient_Do rq w = (r1, w1)" by fastforce
  have r1: "r1 = (if nw_replies w = [] then Inl ErrUpstream else hd (nw_replies w))" "nw_sent w1 = nw_sent w @ [rq]" "nw_replies w1 = tl (nw_replies w)"
    using d by (auto simp: httpClient_Do_def split: list.splits)
  show ?case
  proof (cases "r1 = Inl ErrGoAway")
    case False
    then have "r = r1" "w' = w1"
      using Suc.prems d by (auto simp: bindE_def attemptE_def returnE_def raiseE_def split: sum.splits if_splits)
    then show ?thesis using r1 False
      by (intro exI [of _ 1]) (cases "nw_replies w"; auto simp: drop_Suc)
  next
    case True
    then have loop: "request_loop k rq ErrGoAway w1 = (r, w')" and ne: "nw_replies w \<noteq> []"
      using Suc.prems d r1 by (auto simp: bindE_def attemptE_def split: if_splits)
    from Suc.IH [OF loop] obtain n where n: "n \<le> k" "nw_sent w' = nw_sent w1 @ replicate n rq"
      "\<forall>i < n - 1. i < length (nw_replies w1) \<longrightarrow> nw_replies w1 ! i = Inl ErrGoAway"
      "0 < k \<longrightarrow> 0 < n \<and> r = (if n \<le> length (nw_replies w1) then nw_replies w1 ! (n - 1) else Inl ErrUpstream)"
      "r = Inl ErrGoAway \<longrightarrow> 0 < k \<longrightarrow> n = k" "nw_replies w' = drop n (nw_replies w1)" by blast
    have head: "hd (nw_replies w) = Inl ErrGoAway" using True r1(1) ne by (auto split: if_splits)
    obtain x xs where xs: "nw_replies w = x # xs" using ne by (cases "nw_replies w") auto
    have k0: "k = 0 \<Longrightarrow> r = Inl ErrGoAway" using loop by (auto simp: raiseE_def)
    show ?thesis
      using n r1 head xs k0
      by (intro exI [of _ "Suc n"]) (auto simp: nth_Cons split: nat.splits)
  qed
qed

text \<open>A request is sent once and repeated only on a GOAWAY, three times at most; every attempt is the same request with the credentials of the upstream. The
  result is the reply to the last attempt, which is a GOAWAY only after the third.\<close>

theorem doRequest_retries:
  assumes "doRequest c mth u enc w = (r, w')" "length (nw_replies w) \<ge> 3"
  shows "\<exists>n \<in> {1..3}. nw_sent w' = nw_sent w @ replicate n (mk_request c mth u enc) \<and>
    (\<forall>i < n - 1. nw_replies w ! i = Inl ErrGoAway) \<and> r = nw_replies w ! (n - 1) \<and> (r = Inl ErrGoAway \<longrightarrow> n = 3) \<and> nw_replies w' = drop n (nw_replies w)"
proof -
  from request_loop_run [OF assms(1) [unfolded doRequest_def defaultHTTPRetries_def]] obtain n where n: "n \<le> 3"
    "nw_sent w' = nw_sent w @ replicate n (mk_request c mth u enc)" "\<forall>i < n - 1. i < length (nw_replies w) \<longrightarrow> nw_replies w ! i = Inl ErrGoAway"
    "0 < n" "r = (if n \<le> length (nw_replies w) then nw_replies w ! (n - 1) else Inl ErrUpstream)" "r = Inl ErrGoAway \<longrightarrow> n = 3" "nw_replies w' = drop n (nw_replies w)"
    by (metis zero_less_numeral)
  have len: "n \<le> length (nw_replies w)" using n(1) assms(2) by (rule order_trans)
  have "\<forall>i < n - 1. nw_replies w ! i = Inl ErrGoAway" using n(3) len by simp
  moreover have "r = nw_replies w ! (n - 1)" using n(5) len by (simp only: if_True)
  moreover have "n \<in> {1..3}" using n(1,4) by simp
  ultimately show ?thesis using n(2,6,7) by blast
qed

definition ok_response :: "bytes \<Rightarrow> http_response" where
  "ok_response b = \<lparr>rs_StatusCode = 200, rs_ContentEncoding = [], rs_Body = reader_of b\<rparr>"

definition demo_nci :: nix_cache_info where
  "demo_nci = \<lparr>nci_StoreDir = ''/nix/store'', nci_WantMassQuery = 1, nci_Priority = 30\<rparr>"

definition demo_upstream :: upstream_cache where
  "demo_upstream = \<lparr>up_url = (''/'', []), up_hostname = ''cache.nixos.org'', up_priority = 40, up_publicKeys = [], up_netrcAuth = Some (''user'', ''secret''),
     up_isHealthy = False\<rparr>"

definition demo_network :: network where
  "demo_network = \<lparr>nw_replies = [Inl ErrGoAway, Inr (ok_response (nci_print demo_nci)), Inl ErrUpstream], nw_sent = []\<rparr>"

lemmas demo_network_defs = demo_upstream_def demo_network_def ok_response_def reader_of_def

theorem doRequest_retries_witness:
  "\<exists>w'. doRequest demo_upstream GET (''/x'', []) None demo_network = (Inr (ok_response (nci_print demo_nci)), w') \<and>
     (\<exists>n \<in> {1..3::nat}. Inr (ok_response (nci_print demo_nci)) = nw_replies demo_network ! (n - 1) \<and> nw_replies w' = drop n (nw_replies demo_network))"
proof -
  let ?rq = "mk_request demo_upstream GET (''/x'', []) None"
  have run: "doRequest demo_upstream GET (''/x'', []) None demo_network =
      (Inr (ok_response (nci_print demo_nci)), \<lparr>nw_replies = [Inl ErrUpstream], nw_sent = [?rq, ?rq]\<rparr>)"
    by (simp add: doRequest_def defaultHTTPRetries_def numeral_3_eq_3 bindE_def attemptE_def httpClient_Do_def returnE_def demo_network_def)
  have "3 \<le> length (nw_replies demo_network)" by (simp add: demo_network_def)
  from doRequest_retries [OF run this] show ?thesis unfolding run by blast
qed

section \<open>Trust\<close>

lemma GetNarInfo_trusted:
  assumes "GetNarInfo_upstream nv c h w = (Inr ni', w')"
  obtains ni resp where "Inr resp \<in> set (nw_replies w)" "rs_StatusCode resp = 200" "nv_Parse nv (rs_Body resp) = Inr ni" "accept_narinfo nv c ni = Inr ni'"
proof -
  from assms obtain resp w1 where d: "doRequest c GET (narinfo_url c h) None w = (Inr resp, w1)"
    and r: "rs_StatusCode resp = 200" "rbind (nv_Parse nv (rs_Body resp)) (accept_narinfo nv c) = Inr ni'"
    by (auto simp: GetNarInfo_upstream_def bindE_Inr thenE_Inr expect_ok_def liftE_def returnE_def raiseE_def split: if_splits)
  have "Inr resp \<in> set (nw_replies w)"
    using request_loop_run [OF d [unfolded doRequest_def defaultHTTPRetries_def]] by (auto split: if_splits)
  with r that show thesis by (auto simp: rbind_Inr)
qed

text \<open>The errors of a HEAD request: those of the HTTP client, but for the timeouts.\<close>

lemma HasNarInfo_error:
  assumes "fst (HasNarInfo_upstream c h w) = Inl e"
  shows "\<not> isTimeout e \<and> (e = ErrUpstream \<or> Inl e \<in> set (nw_replies w))"
proof -
  obtain r w' where d: "doRequest c HEAD (narinfo_url c h) None w = (r, w')" by fastforce
  with assms have r: "r = Inl e" "\<not> isTimeout e"
    by (auto simp: HasNarInfo_upstream_def head_exists_def bindE_def attemptE_def returnE_def raiseE_def split: sum.splits if_splits)
  from request_loop_run [OF d [unfolded doRequest_def defaultHTTPRetries_def]] obtain n
    where "0 < n" "r = (if n \<le> length (nw_replies w) then nw_replies w ! (n - 1) else Inl ErrUpstream)" by auto
  then have "r = Inl ErrUpstream \<or> r \<in> set (nw_replies w)" by (auto split: if_splits)
  with r show ?thesis by auto
qed

section \<open>Health\<close>

text \<open>What a reply to the request for \<open>nix-cache-info\<close> says of an upstream.\<close>

definition judge :: "upstream_cache \<Rightarrow> http_response result \<Rightarrow> upstream_cache" where
  "judge u reply =
     (case reply of
        Inr resp \<Rightarrow>
          if rs_StatusCode resp = 200 \<and> rd_err (rs_Body resp) = None then
            (case nci_Parse (rd_data (rs_Body resp)) of
               Inr nci \<Rightarrow> u\<lparr>up_priority := nci_Priority nci, up_isHealthy := True\<rparr>
             | Inl _ \<Rightarrow> u\<lparr>up_isHealthy := False\<rparr>)
          else u\<lparr>up_isHealthy := False\<rparr>
      | Inl _ \<Rightarrow> u\<lparr>up_isHealthy := False\<rparr>)"

lemma check_one_run:
  assumes "nw_replies w = r # rs"
  shows "\<exists>sent. check_one u w = (Inr (judge u r), w\<lparr>nw_replies := rs, nw_sent := sent\<rparr>)"
  using assms
  by (auto simp: check_one_def parsePriority_def judge_def httpClient_Do_def bindE_def attemptE_def returnE_def raiseE_def liftE_def
      split: sum.splits option.splits)

lemma check_all_run:
  "length us \<le> length (nw_replies w) \<Longrightarrow> \<exists>w'. mapE check_one us w = (Inr (map2 judge us (nw_replies w)), w')"
proof (induction us arbitrary: w)
  case Nil
  then show ?case by (simp add: returnE_def)
next
  case (Cons u us)
  then obtain r rs where rs: "nw_replies w = r # rs" by (cases "nw_replies w") auto
  from check_one_run [OF this] obtain sent where one: "check_one u w = (Inr (judge u r), w\<lparr>nw_replies := rs, nw_sent := sent\<rparr>)" by blast
  have "length us \<le> length (nw_replies (w\<lparr>nw_replies := rs, nw_sent := sent\<rparr>))" using Cons.prems rs by simp
  from Cons.IH [OF this] obtain w' where "mapE check_one us (w\<lparr>nw_replies := rs, nw_sent := sent\<rparr>) = (Inr (map2 judge us rs), w')" by auto
  with one rs show ?case by (simp add: bindE_def returnE_def)
qed

definition changes :: "upstream_cache list \<Rightarrow> upstream_cache list \<Rightarrow> (upstream_cache \<times> bool) list" where
  "changes olds news = map (\<lambda>(old, new). (new, up_isHealthy new)) (filter (\<lambda>(old, new). up_isHealthy old \<noteq> up_isHealthy new) (zip olds news))"

lemma fold_note_change:
  "fold (\<lambda>(old, new). note_change old new) (zip olds news) (Some (queue, n)) = Some (take (max n (length queue)) (queue @ changes olds news), n)"
proof -
  have "fold (\<lambda>(old, new). note_change old new) ps (Some (queue, n)) =
      Some (take (max n (length queue)) (queue @ map (\<lambda>(old, new). (new, up_isHealthy new)) (filter (\<lambda>(old, new). up_isHealthy old \<noteq> up_isHealthy new) ps)), n)" for ps
  proof (induction ps arbitrary: queue)
    case (Cons p ps)
    then show ?case
      by (cases p) (auto simp: note_change_def notify_def max_def not_less le_Suc_eq Suc_le_eq take_Cons')
  qed simp
  then show ?thesis unfolding changes_def .
qed

text \<open>A health check judges every upstream by its own reply: an upstream is healthy exactly when \<open>nix-cache-info\<close> was served and parsed, its priority is then the
  published one, and nothing else of it changes. The changes of health are queued in order, up to the capacity of the channel.\<close>

theorem hc_check_judges:
  assumes "length (hc_upstreams hc) \<le> length (nw_replies w)" "hc_notifier hc = Some (queue, n)" "length queue \<le> n"
  shows "\<exists>w' us. hc_check hc w = (Inr \<lparr>hc_upstreams = us, hc_notifier = Some (take n (queue @ changes (hc_upstreams hc) us), n)\<rparr>, w') \<and>
    us = map2 judge (hc_upstreams hc) (nw_replies w)"
proof -
  from check_all_run [OF assms(1)] obtain w' where "mapE check_one (hc_upstreams hc) w = (Inr (map2 judge (hc_upstreams hc) (nw_replies w)), w')" by blast
  then show ?thesis using assms(2,3)
    by (auto simp: hc_check_def bindE_def returnE_def fold_note_change max_def)
qed

definition demo_checker :: health_checker where
  "demo_checker = \<lparr>hc_upstreams = [demo_upstream], hc_notifier = Some ([], 1)\<rparr>"

definition demo_info :: network where
  "demo_info = \<lparr>nw_replies = [Inr (ok_response (nci_print demo_nci))], nw_sent = []\<rparr>"

theorem hc_check_judges_witness:
  "\<exists>w'. hc_check demo_checker demo_info =
     (Inr \<lparr>hc_upstreams = [demo_upstream\<lparr>up_priority := 30, up_isHealthy := True\<rparr>],
           hc_notifier = Some ([(demo_upstream\<lparr>up_priority := 30, up_isHealthy := True\<rparr>, True)], 1)\<rparr>, w')"
proof -
  have "judge demo_upstream (Inr (ok_response (nci_print demo_nci))) = demo_upstream\<lparr>up_priority := 30, up_isHealthy := True\<rparr>"
    by (simp add: judge_def ok_response_def reader_of_def nci_Parse_print demo_nci_def)
  moreover have "length (hc_upstreams demo_checker) \<le> length (nw_replies demo_info)" "hc_notifier demo_checker = Some ([], 1)"
    by (simp_all add: demo_checker_def demo_info_def)
  note hc_check_judges [OF this]
  ultimately show ?thesis by (auto simp: demo_checker_def demo_info_def changes_def demo_upstream_def)
qed

end
