(* ===== verification/Upstream_Selection.thy ===== *)
theory Upstream_Selection
  imports Upstream_Cache "HOL-Library.Multiset"
begin

text \<open>
  The choice of an upstream in \<open>pkg/cache/cache.go\<close>: the healthy upstreams by priority, and the race between them for the first that has the asset.
\<close>

section \<open>Healthy upstreams\<close>

text \<open>The comparison is a subtraction of unsigned integers whose result is read as a signed one. The sort is written as an insertion; Go leaves the order of upstreams of
  the same priority open.\<close>

definition compare_priority :: "upstream \<Rightarrow> upstream \<Rightarrow> int" where
  "compare_priority a b = sint (uc_priority a - uc_priority b)"

primrec insert_upstream :: "upstream \<Rightarrow> upstream list \<Rightarrow> upstream list" where
  "insert_upstream a [] = [a]"
| "insert_upstream a (b # us) = (if compare_priority b a < 0 then b # insert_upstream a us else a # b # us)"

definition getHealthyUpstreams :: "upstream list \<Rightarrow> upstream list" where
  "getHealthyUpstreams ups = foldr insert_upstream (filter uc_healthy ups) []"

section \<open>The race\<close>

text \<open>
  What \<open>selectUpstream\<close> receives: an upstream that has the asset, the error of one that failed, the end of the channel of upstreams once all have
  answered, or the end of the request. A list of errors is the value of \<open>errors.Join\<close>; the empty list is \<open>nil\<close>.
\<close>

datatype select_event =
    Receives upstream
  | Receives_error err
  | Channel_closed
  | Context_done err

fun select_loop :: "err list \<Rightarrow> select_event list \<Rightarrow> upstream option \<times> err list" where
  "select_loop errs [] = (None, errs)"
| "select_loop errs (Receives u # es) = (Some u, errs)"
| "select_loop errs (Receives_error e # es) = select_loop (if e = ErrCanceled then errs else errs @ [e]) es"
| "select_loop errs (Channel_closed # es) = (None, errs)"
| "select_loop errs (Context_done e # es) = (None, e # errs)"

definition selectUpstream :: "upstream list \<Rightarrow> select_event list \<Rightarrow> upstream option \<times> err list" where
  "selectUpstream ucs es = (case ucs of [] \<Rightarrow> (None, []) | [u] \<Rightarrow> (Some u, []) | _ \<Rightarrow> select_loop [] es)"

text \<open>What the goroutine of one upstream sends.\<close>

definition sends :: "(upstream \<Rightarrow> bool result) \<Rightarrow> upstream \<Rightarrow> select_event list" where
  "sends has u = (case has u of Inr b \<Rightarrow> if b then [Receives u] else [] | Inl e \<Rightarrow> if e = ErrCanceled then [] else [Receives_error e])"

text \<open>
  The events of a request that is not cancelled: everything that is sent, in any order; the channel is closed after all upstreams have sent, but the two
  channels are read in any order.
\<close>

definition is_upstream :: "select_event \<Rightarrow> bool" where
  "is_upstream e = (case e of Receives _ \<Rightarrow> True | _ \<Rightarrow> False)"

inductive arrivals :: "(upstream \<Rightarrow> bool result) \<Rightarrow> upstream list \<Rightarrow> select_event list \<Rightarrow> bool" for has ucs where
  "mset (xs @ ys) = mset (concat (map (sends has) ucs)) \<Longrightarrow> \<not> list_ex is_upstream ys \<Longrightarrow> arrivals has ucs (xs @ [Channel_closed] @ ys)"

definition selectNarInfoUpstream :: "upstream list \<Rightarrow> select_event list \<Rightarrow> upstream option \<times> err list" where
  "selectNarInfoUpstream ups es = selectUpstream (getHealthyUpstreams ups) es"

definition selectNarUpstream :: "upstream list \<Rightarrow> select_event list \<Rightarrow> upstream option \<times> err list" where
  "selectNarUpstream ucs es = selectUpstream ucs es"

text \<open>Both callers give up on any error, also when there is a winner. The narinfo of an upstream that fails counts as missing.\<close>

definition getNarInfoFromUpstream :: "upstream list \<Rightarrow> select_event list \<Rightarrow> string \<Rightarrow> (upstream \<times> narinfo) result" where
  "getNarInfoFromUpstream ups es h =
     (case selectNarInfoUpstream ups es of
        (_, e # errs) \<Rightarrow> Inl (ErrJoined (e # errs))
      | (None, []) \<Rightarrow> Inl ErrNotFound
      | (Some u, []) \<Rightarrow> (case uc_GetNarInfo u h of Inl _ \<Rightarrow> Inl ErrNotFound | Inr n \<Rightarrow> Inr (u, n)))"

definition getNarFromUpstream :: "upstream list \<Rightarrow> select_event list \<Rightarrow> upstream option \<Rightarrow> nar_url \<Rightarrow> reader result" where
  "getNarFromUpstream ups es uc u =
     rbind (url_String u) (\<lambda>_.
     case selectNarUpstream (case uc of Some x \<Rightarrow> [x] | None \<Rightarrow> getHealthyUpstreams ups) es of
       (_, e # errs) \<Rightarrow> Inl (ErrJoined (e # errs))
     | (None, []) \<Rightarrow> Inl ErrNotFound
     | (Some x, []) \<Rightarrow> uc_GetNar x u)"

section \<open>The order\<close>

lemma insert_upstream_mset: "mset (insert_upstream a us) = add_mset a (mset us)"
  by (induction us) auto

lemma compare_priority_small:
  assumes "uc_priority a < 2 ^ 63" "uc_priority b < 2 ^ 63"
  shows "compare_priority a b < 0 \<longleftrightarrow> uc_priority a < uc_priority b"
proof -
  let ?a = "uint (uc_priority a)" and ?b = "uint (uc_priority b)"
  have bounds: "0 \<le> ?a" "?a < 2 ^ 63" "0 \<le> ?b" "?b < 2 ^ 63"
    using assms by (simp_all add: word_less_def)
  have "sint (uc_priority a - uc_priority b) = signed_take_bit 63 (?a - ?b)"
  proof -
    have "uint (uc_priority a - uc_priority b) = take_bit 64 (?a - ?b)" by (simp add: uint_word_ariths take_bit_eq_mod)
    then have "sint (uc_priority a - uc_priority b) = signed_take_bit 63 (take_bit 64 (?a - ?b))" by (simp add: sint_uint)
    then show ?thesis by (simp only: signed_take_bit_take_bit) simp
  qed
  also have "\<dots> = ?a - ?b" by (rule signed_take_bit_int_eq_self; use bounds in linarith)
  finally show ?thesis by (simp add: compare_priority_def word_less_def)
qed

lemma insert_upstream_sorted:
  assumes "sorted (map uc_priority us)" "\<forall>x \<in> set (a # us). uc_priority x < 2 ^ 63"
  shows "sorted (map uc_priority (insert_upstream a us))"
  using assms
proof (induction us)
  case (Cons b us)
  have set: "set (insert_upstream a us) = insert a (set us)" using insert_upstream_mset [of a us] by (metis set_mset_add_mset_insert set_mset_mset)
  show ?case
  proof (cases "compare_priority b a < 0")
    case True
    then have "uc_priority b \<le> uc_priority a" using compare_priority_small [of b a] Cons.prems(2) by simp
    then show ?thesis using Cons True set by auto
  next
    case False
    then have "uc_priority a \<le> uc_priority b" using compare_priority_small [of b a] Cons.prems(2) by simp
    then show ?thesis using Cons.prems(1) False by fastforce
  qed
qed simp

lemma getHealthyUpstreams_mset: "mset (getHealthyUpstreams ups) = mset (filter uc_healthy ups)"
  unfolding getHealthyUpstreams_def by (induction ups) (simp_all add: insert_upstream_mset)

lemma getHealthyUpstreams_sorted:
  assumes "\<forall>u \<in> set ups. uc_priority u < 2 ^ 63"
  shows "sorted (map uc_priority (getHealthyUpstreams ups))"
proof -
  have "sorted (map uc_priority (foldr insert_upstream us []))" if "\<forall>u \<in> set us. uc_priority u < 2 ^ 63" for us
    using that
  proof (induction us)
    case (Cons a us)
    have "set (foldr insert_upstream us []) = set us"
      by (induction us) (auto simp: insert_upstream_mset set_mset_mset [symmetric] simp del: set_mset_mset)
    then show ?case using Cons insert_upstream_sorted [of "foldr insert_upstream us []" a] by simp
  qed simp
  then show ?thesis using assms unfolding getHealthyUpstreams_def by auto
qed

section \<open>The winner\<close>

lemma select_loop_None: "\<not> list_ex is_upstream es \<Longrightarrow> fst (select_loop errs es) = None"
  by (induction errs es rule: select_loop.induct) (auto simp: is_upstream_def)

lemma select_loop_from: "select_loop errs es = (Some u, rest) \<Longrightarrow> Receives u \<in> set es"
  by (induction errs es rule: select_loop.induct) auto

lemma select_loop_calm:
  assumes "list_all is_upstream xs" "xs \<noteq> []"
  shows "\<exists>u. select_loop [] (xs @ ys) = (Some u, [])"
  using assms by (cases xs) (auto simp: is_upstream_def split: select_event.splits)

lemma set_sends:
  "x \<in> set (sends has u) \<longleftrightarrow> has u = Inr True \<and> x = Receives u \<or> (\<exists>e. has u = Inl e \<and> e \<noteq> ErrCanceled \<and> x = Receives_error e)"
  by (cases "has u") (auto simp: sends_def)

lemma sends_upstream: "Receives u \<in> set (concat (map (sends has) ucs)) \<longleftrightarrow> u \<in> set ucs \<and> has u = Inr True"
  by (auto simp: set_sends)

lemma sends_error: "Receives_error e \<in> set (concat (map (sends has) ucs)) \<longleftrightarrow> (\<exists>u \<in> set ucs. has u = Inl e) \<and> e \<noteq> ErrCanceled"
  by (auto simp: set_sends)

lemma sends_kinds: "x \<in> set (concat (map (sends has) ucs)) \<Longrightarrow> (\<exists>u. x = Receives u) \<or> (\<exists>e. x = Receives_error e)"
  by (auto simp: set_sends)

lemma set_arrivals:
  assumes "arrivals has ucs es"
  shows "set es = insert Channel_closed (set (concat (map (sends has) ucs)))"
  using assms by (cases, metis (no_types, opaque_lifting) Un_insert_left Un_insert_right append_Cons append_Nil list.simps(15) mset_eq_setD set_append)

text \<open>Without errors everything that arrives before the channel is closed is an upstream.\<close>

lemma select_calm:
  assumes "arrivals has ucs es" "\<forall>u \<in> set ucs. \<forall>e. has u = Inl e \<longrightarrow> e = ErrCanceled"
  shows "if \<exists>u \<in> set ucs. has u = Inr True then \<exists>u. select_loop [] es = (Some u, []) else select_loop [] es = (None, [])"
  using assms(1)
proof cases
  case (1 xs ys)
  have only: "is_upstream x" if "x \<in> set (xs @ ys)" for x
  proof -
    have "x \<in> set (concat (map (sends has) ucs))" using that mset_eq_setD [OF 1(2)] by blast
    then show ?thesis using sends_kinds [of x has ucs] sends_error assms(2) by (fastforce simp: is_upstream_def)
  qed
  have ys: "ys = []" using 1(3) only by (cases ys) auto
  show ?thesis
  proof (cases xs)
    case Nil
    then have "concat (map (sends has) ucs) = []" using 1(2) ys by (metis append.right_neutral mset_zero_iff)
    then have "\<not> (\<exists>u \<in> set ucs. has u = Inr True)" by (auto simp: sends_def)
    then show ?thesis using 1 Nil ys by simp
  next
    case (Cons x xs')
    then obtain u where u: "x = Receives u" using only [of x] by (auto simp: is_upstream_def split: select_event.splits)
    have "x \<in> set (concat (map (sends has) ucs))" using Cons mset_eq_setD [OF 1(2)] by auto
    then have "u \<in> set ucs \<and> has u = Inr True" using sends_upstream u by metis
    then show ?thesis using 1(1) Cons u by auto
  qed
qed

section \<open>Properties\<close>

text \<open>The upstreams that are asked are exactly the healthy ones, each as often as it is configured, in the order of their priorities as long as these are below
  \<open>2\<^sup>6\<^sup>3\<close>, where the difference of two priorities does not wrap around.\<close>

theorem getHealthyUpstreams_spec:
  assumes "\<forall>u \<in> set ups. uc_priority u < 2 ^ 63"
  shows "mset (getHealthyUpstreams ups) = mset (filter uc_healthy ups) \<and> sorted (map uc_priority (getHealthyUpstreams ups))"
  using getHealthyUpstreams_mset getHealthyUpstreams_sorted [OF assms] by blast

text \<open>C24. The race between at least two upstreams is won only by one that has the asset, for every order of the answers. When no upstream fails it has a winner exactly
  when an upstream has the asset.\<close>

theorem selectUpstream_winner:
  assumes "2 \<le> length ucs" "arrivals has ucs es"
  shows "(\<forall>u errs. selectUpstream ucs es = (Some u, errs) \<longrightarrow> u \<in> set ucs \<and> has u = Inr True) \<and>
    ((\<forall>u \<in> set ucs. \<forall>e. has u = Inl e \<longrightarrow> e = ErrCanceled) \<longrightarrow>
      (if \<exists>u \<in> set ucs. has u = Inr True then \<exists>u. selectUpstream ucs es = (Some u, []) else selectUpstream ucs es = (None, [])))"
proof -
  have race: "selectUpstream ucs es = select_loop [] es"
    using assms(1) by (auto simp: selectUpstream_def split: list.splits)
  show ?thesis unfolding race
    using select_loop_from set_arrivals [OF assms(2)] sends_upstream select_calm [OF assms(2)] by (metis insertE select_event.distinct(3))
qed

definition plain_upstream :: "64 word \<Rightarrow> upstream" where
  "plain_upstream p = \<lparr>uc_priority = p, uc_healthy = True, uc_HasNarInfo = \<lambda>_. Inr False, uc_HasNar = \<lambda>_. Inr False,
     uc_GetNarInfo = \<lambda>_. Inl ErrUpstreamNotFound, uc_GetNar = \<lambda>_. Inl ErrUpstreamNotFound\<rparr>"

theorem getHealthyUpstreams_spec_witness:
  "mset (getHealthyUpstreams [plain_upstream 40, plain_upstream 30]) = mset (filter uc_healthy [plain_upstream 40, plain_upstream 30]) \<and>
   sorted (map uc_priority (getHealthyUpstreams [plain_upstream 40, plain_upstream 30]))"
  by (rule getHealthyUpstreams_spec) (simp add: plain_upstream_def)

theorem selectUpstream_winner_witness:
  "\<exists>u. selectUpstream [plain_upstream 40, plain_upstream 30] [Receives (plain_upstream 30), Channel_closed] = (Some u, [])"
proof -
  let ?has = "\<lambda>u. Inr (uc_priority u = 30)"
  have "arrivals ?has [plain_upstream 40, plain_upstream 30] ([Receives (plain_upstream 30)] @ [Channel_closed] @ [])"
    by (rule arrivals.intros) (simp_all add: sends_def plain_upstream_def)
  then have "arrivals ?has [plain_upstream 40, plain_upstream 30] [Receives (plain_upstream 30), Channel_closed]" by simp
  from selectUpstream_winner [OF _ this] show ?thesis by (auto simp: plain_upstream_def)
qed

text \<open>One upstream that fails can hide the answer of another: the winner is dropped when an error arrived before it.\<close>

lemma getNarInfoFromUpstream_error_hides:
  assumes "getHealthyUpstreams ups = ucs" "2 \<le> length ucs" "e \<noteq> ErrCanceled"
  shows "getNarInfoFromUpstream ups (Receives_error e # Receives u # es) h = Inl (ErrJoined [e])"
  using assms by (auto simp: getNarInfoFromUpstream_def selectNarInfoUpstream_def selectUpstream_def split: list.splits)

section \<open>Trust\<close>

text \<open>An upstream as the cache sees it: the client of \<open>Upstream_Cache\<close> on its network.\<close>

definition as_upstream :: "nix_verifier \<Rightarrow> (reader \<Rightarrow> reader result) \<Rightarrow> network \<Rightarrow> upstream_cache \<Rightarrow> upstream" where
  "as_upstream nv pooled w c =
     \<lparr>uc_priority = up_priority c, uc_healthy = up_isHealthy c, uc_HasNarInfo = (\<lambda>h. fst (HasNarInfo_upstream c h w)),
      uc_HasNar = (\<lambda>u. fst (HasNar_upstream c u w)), uc_GetNarInfo = (\<lambda>h. fst (GetNarInfo_upstream nv c h w)),
      uc_GetNar = (\<lambda>u. fst (GetNar_upstream pooled c u w))\<rparr>"






text \<open>The errors that are joined are those of HEAD requests, never a timeout or a cancellation.\<close>

lemma select_loop_errors:
  "set (snd (select_loop errs es)) \<subseteq> set errs \<union> {e. Receives_error e \<in> set es \<and> e \<noteq> ErrCanceled} \<union> {e. Context_done e \<in> set es}"
  by (induction errs es rule: select_loop.induct) auto

lemma joined_errors:
  assumes "getNarInfoFromUpstream (map (\<lambda>(w, c). as_upstream nv pooled w c) cs) es h = Inl e"
    and "arrivals (\<lambda>u. uc_HasNarInfo u h) (getHealthyUpstreams (map (\<lambda>(w, c). as_upstream nv pooled w c) cs)) es"
  shows "e = ErrNotFound \<or> (\<exists>errs. e = ErrJoined errs \<and>
    (\<forall>x \<in> set errs. x \<noteq> ErrCanceled \<and> \<not> isTimeout x \<and> (x = ErrUpstream \<or> (\<exists>(w, c) \<in> set cs. Inl x \<in> set (nw_replies w)))))"
proof (cases "e = ErrNotFound")
  case False
  let ?ups = "map (\<lambda>(w, c). as_upstream nv pooled w c) cs"
  obtain errs u where e: "e = ErrJoined errs" and sel: "selectUpstream (getHealthyUpstreams ?ups) es = (u, errs)"
    using assms(1) False by (auto simp: getNarInfoFromUpstream_def selectNarInfoUpstream_def split: prod.splits list.splits option.splits sum.splits)
  have set_es: "set es = insert Channel_closed (set (concat (map (sends (\<lambda>u. uc_HasNarInfo u h)) (getHealthyUpstreams ?ups))))"
    using set_arrivals [OF assms(2)] .
  have "x \<noteq> ErrCanceled \<and> \<not> isTimeout x \<and> (x = ErrUpstream \<or> (\<exists>(w, c) \<in> set cs. Inl x \<in> set (nw_replies w)))" if x: "x \<in> set errs" for x
  proof -
    have "x \<in> set (snd (select_loop [] es))"
      using sel x by (auto simp: selectUpstream_def split: list.splits)
    then have "Receives_error x \<in> set es \<and> x \<noteq> ErrCanceled \<or> Context_done x \<in> set es" using select_loop_errors [of "[]" es] by auto
    then have "Receives_error x \<in> set (concat (map (sends (\<lambda>u. uc_HasNarInfo u h)) (getHealthyUpstreams ?ups)))" and nc: "x \<noteq> ErrCanceled"
      using set_es sends_kinds by fastforce+
    then obtain y where y: "y \<in> set (getHealthyUpstreams ?ups)" "uc_HasNarInfo y h = Inl x" using sends_error by metis
    then have "y \<in> set (filter uc_healthy ?ups)" using getHealthyUpstreams_mset mset_eq_setD by metis
    then have "y \<in> set ?ups" by simp
    then obtain w c where "(w, c) \<in> set cs" "y = as_upstream nv pooled w c" by auto
    with y(2) nc HasNarInfo_error [of c h w x] show ?thesis by (auto simp: as_upstream_def)
  qed
  then show ?thesis using e by blast
qed simp


end
