(* ===== verification/Cache_Pull.thy ===== *)
theory Cache_Pull
  imports Cache_Nar Upstream_Selection
begin

text \<open>
  Pulling from upstreams in \<open>pkg/cache/cache.go\<close>: \<open>pullNarIntoStore\<close>, \<open>pullNarInfo\<close>, the whole of \<open>GetNarInfo\<close>, and \<open>GetNar\<close> up to the
  stream of the temporary file, as one request that runs at a time. What goroutines do to each other during a download is the subject of
  \<open>Download_State\<close> and \<open>Download_Coordination\<close>. Here the download of a narinfo, which its request waits for, runs within the request. A request waits for the start of the download
  of a NAR: when the upstream fails, or the temporary file, the download ends while the request waits; otherwise it is a background job that runs as a whole later.
\<close>

section \<open>The surroundings of a request\<close>

text \<open>
  The upstreams and the order in which they answer, the temporary files (\<open>pe_temp\<close> gives what a reader of the file gets: the bytes that were written and the
  error the download ended with; an error of its own when the file cannot be created), the codec, the schedule of the chunker, the number of polls before the timeout,
  the error of a download that the request joined, and the error of the context of the request when the client leaves while the request waits, and the end of the same context as the stream of a
  NAR sees it. A \<open>pull_env\<close> adds what other
  servers and goroutines do to the state while the request waits.
\<close>

record pull_setup =
  pe_upstreams :: "upstream list"
  pe_narinfo_race :: "select_event list"
  pe_nar_race :: "select_event list"
  pe_temp :: "reader \<Rightarrow> reader result"
  pe_zstd :: zstd_codec
  pe_sched :: "cdc_event list"
  pe_polls :: nat
  pe_joined :: "err option"
  pe_gone :: "err option"
  pe_context :: stream_ctx

record ('s, 'c, 'l) pull_env = pull_setup +
  pe_others :: "('s, 'c, 'l) cache_state \<Rightarrow> ('s, 'c, 'l) cache_state"

definition with_others :: "pull_setup \<Rightarrow> (('s, 'c, 'l) cache_state \<Rightarrow> ('s, 'c, 'l) cache_state) \<Rightarrow> ('s, 'c, 'l) pull_env" where
  "with_others ps f = pull_setup.extend ps (pull_env.fields f)"

lemma others_with_others [simp]: "pe_others (with_others ps f) = f"
  by (simp add: with_others_def pull_setup.extend_def pull_env.fields_def)

text \<open>A wait takes an entry of the schedule of failures; an error there is that of a context that is done.\<close>

definition wait_others :: "('s, 'c, 'l) pull_env \<Rightarrow> (('s, 'c, 'l) cache_state, unit) prog" where
  "wait_others pe = thenE (in_db db_ping) (modifyE (pe_others pe))"

section \<open>Downloads of NARs\<close>

definition lookupPreferredUpstreamURL ::
  "('s, 'c, 'l) cache_conf \<Rightarrow> ('s, 'c, 'l) pull_env \<Rightarrow> nar_url \<Rightarrow> (('s, 'c, 'l) cache_state, nar_url option \<times> narinfo option) prog" where
  "lookupPreferredUpstreamURL c pe u =
     bindE (hasUpstreamJob (url_Hash u)) (\<lambda>job.
     if \<not> isCDCEnabled c \<or> url_Compression u \<noteq> ''none'' \<or> job then returnE (None, None)
     else
       bindE (liftE (url_String u)) (\<lambda>t.
       bindE (attemptE (in_db (GetNarInfoHashByNarURL t))) (\<lambda>r.
       returnE (case r of
          Inl _ \<Rightarrow> (None, None)
        | Inr narInfoHash \<Rightarrow>
            if narInfoHash = [] then (None, None)
            else (case getNarInfoFromUpstream (pe_upstreams pe) (pe_narinfo_race pe) narInfoHash of
               Inl _ \<Rightarrow> (None, None)
             | Inr (_, ni) \<Rightarrow>
                 (case ParseURL (n_URL ni) of
                    Inl _ \<Rightarrow> (None, Some ni)
                  | Inr v \<Rightarrow> if url_Compression v = ''none'' then (None, Some ni) else (Some v, Some ni)))))))"

text \<open>
  \<open>pullNarIntoStore\<close>. With chunking on and a compressed NAR whose size is known, the decompressed body goes through the temporary file into the chunker;
  otherwise the body is written to the temporary file and stored from there, as chunks or as a whole. \<open>u\<close> names what is stored, \<open>downloadURL\<close> what is asked for; the chunking
  leaves \<open>u\<close> without compression. \<open>open_nar\<close> is what comes before the start of the download is signalled.
\<close>

definition downloadURL :: "nar_url \<Rightarrow> nar_url option \<Rightarrow> nar_url" where
  "downloadURL u preferred = (case preferred of Some v \<Rightarrow> v | None \<Rightarrow> u)"

definition declared_size :: "narinfo option \<Rightarrow> 64 word" where
  "declared_size ni = (case ni of Some n \<Rightarrow> n_NarSize n | None \<Rightarrow> 0)"

definition chunks_as_it_comes :: "('s, 'c, 'l) cache_conf \<Rightarrow> nar_url \<Rightarrow> narinfo option \<Rightarrow> bool" where
  "chunks_as_it_comes c v ni \<longleftrightarrow> isCDCEnabled c \<and> url_Compression v \<noteq> ''none'' \<and> declared_size ni \<noteq> 0 \<and> \<not> cc_cdcLazyChunking c"

definition open_nar ::
  "('s, 'c, 'l) cache_conf \<Rightarrow> ('s, 'c, 'l) pull_env \<Rightarrow> nar_url \<Rightarrow> nar_url option \<Rightarrow> upstream option \<Rightarrow> narinfo option \<Rightarrow> reader result" where
  "open_nar c pe u preferred uc ni =
     (let v = downloadURL u preferred in
      rbind (getNarFromUpstream (pe_upstreams pe) (pe_nar_race pe) uc v) (\<lambda>body.
        pe_temp pe
          (if chunks_as_it_comes c v ni
           then (case DecompressReader (cc_chunkLib c) body (url_Compression v) of Inr r \<Rightarrow> r | Inl e \<Rightarrow> \<lparr>rd_data = [], rd_err = Some e\<rparr>)
           else body)))"

definition pull_nar ::
  "('s, 'c, 'l) cache_conf \<Rightarrow> ('s, 'c, 'l) pull_env \<Rightarrow> nar_url \<Rightarrow> nar_url option \<Rightarrow> upstream option \<Rightarrow> narinfo option
   \<Rightarrow> (('s, 'c, 'l) cache_state, unit) prog" where
  "pull_nar c pe u preferred uc ni =
     bindE (liftE (url_String u)) (\<lambda>_.
     bindE (liftE (open_nar c pe u preferred uc ni)) (\<lambda>file.
     if chunks_as_it_comes c (downloadURL u preferred) ni then
       thenE (storeNarWithCDCFromReader c (pe_sched pe) (returnE ()) file (unat (declared_size ni)) (u\<lparr>url_Compression := ''none''\<rparr>))
         (ignoreE (checkAndFixNarInfosForNar c (u\<lparr>url_Compression := ''none''\<rparr>)))
     else
       thenE (case rd_err file of None \<Rightarrow> returnE () | Some e \<Rightarrow> raiseE e)
       (if isCDCEnabled c \<and> \<not> cc_cdcLazyChunking c then
          thenE (storeNarWithCDC c (pe_sched pe) (returnE ()) file u) (ignoreE (checkAndFixNarInfosForNar c (u\<lparr>url_Compression := ''none''\<rparr>)))
        else
          thenE (storeNarFromTempFile c (pe_zstd pe) u file)
         (thenE (whenE (isCDCEnabled c \<and> cc_cdcLazyChunking c) (maybeBackgroundMigrateNarToChunks c u))
            (ignoreE (checkAndFixNarInfosForNar c u))))))"

definition track :: "string \<Rightarrow> (('s, 'c, 'l) cache_state, unit) prog" where
  "track key = modifyE (\<lambda>s. s\<lparr>cst_upstreamJobs := key # cst_upstreamJobs s\<rparr>)"

definition untrack :: "string \<Rightarrow> (('s, 'c, 'l) cache_state, unit) prog" where
  "untrack key = modifyE (\<lambda>s. s\<lparr>cst_upstreamJobs := removeAll key (cst_upstreamJobs s)\<rparr>)"

text \<open>The job of a NAR: the download, and then the end of its tracking and of the download lock that was taken for it.\<close>

definition run_pull ::
  "('s, 'c, 'l) cache_conf \<Rightarrow> ('s, 'c, 'l) pull_env \<Rightarrow> nar_url \<Rightarrow> nar_url option \<Rightarrow> upstream option \<Rightarrow> narinfo option
   \<Rightarrow> (('s, 'c, 'l) cache_state, unit) prog" where
  "run_pull c pe u preferred uc ni =
     finallyE (pull_nar c pe u preferred uc ni)
       (thenE (untrack (narJobKey (url_Hash u))) (in_locks (lo_Unlock (cc_downloadLocker c) (narJobKey (url_Hash u)))))"

section \<open>Coordination\<close>

text \<open>How a request finds the download it needs: under way already, not needed since the asset is there, started by the request, ended by an error before it started, or given
  up after polling.\<close>

datatype pulled = Joined | Present | Started | Failed err | Gave_up err

primrec poll_asset ::
  "('s, 'c, 'l) pull_env \<Rightarrow> (('s, 'c, 'l) cache_state, bool) prog \<Rightarrow> err \<Rightarrow> nat \<Rightarrow> (('s, 'c, 'l) cache_state, pulled) prog" where
  "poll_asset pe hasAsset e 0 = returnE (Gave_up e)"
| "poll_asset pe hasAsset e (Suc n) =
     bindE (attemptE (wait_others pe)) (\<lambda>r.
       case r of
         Inl _ \<Rightarrow> returnE (Gave_up e)
       | Inr _ \<Rightarrow> bindE hasAsset (\<lambda>b. if b then returnE Present else poll_asset pe hasAsset e n))"

definition coordinate ::
  "('s, 'c, 'l) cache_conf \<Rightarrow> ('s, 'c, 'l) pull_env \<Rightarrow> string \<Rightarrow> (('s, 'c, 'l) cache_state, bool) prog \<Rightarrow> (('s, 'c, 'l) cache_state, pulled) prog
   \<Rightarrow> (('s, 'c, 'l) cache_state, pulled) prog" where
  "coordinate c pe lockKey hasAsset startJob =
     bindE (getsE (\<lambda>s. lockKey \<in> set (cst_upstreamJobs s))) (\<lambda>tracked.
     if tracked then thenE (modifyE (pe_others pe)) (returnE Joined)
     else
       bindE (attemptE (in_locks (lo_Lock (cc_downloadLocker c) lockKey))) (\<lambda>r.
         case r of
           Inl e \<Rightarrow> poll_asset pe hasAsset e (pe_polls pe)
         | Inr _ \<Rightarrow>
             bindE hasAsset (\<lambda>b.
             if b then thenE (ignoreE (in_locks (lo_Unlock (cc_downloadLocker c) lockKey))) (returnE Present)
             else thenE (track lockKey) startJob)))"

definition nar_asset :: "('s, 'c, 'l) cache_conf \<Rightarrow> nar_url \<Rightarrow> (('s, 'c, 'l) cache_state, bool) prog" where
  "nar_asset c u =
     bindE (HasNarInStore c u) (\<lambda>hasInStore.
     if hasInStore then returnE True
     else if \<not> isCDCEnabled c then returnE False
     else
       bindE (attemptE (in_db (getNarFileFromDB c u))) (\<lambda>r.
         case r of
           Inl _ \<Rightarrow> returnE False
         | Inr nr \<Rightarrow>
             if nf_total_chunks nr > 0 then returnE True
             else bindE (in_db (getsE db_now)) (\<lambda>now.
               returnE (case nf_chunking_started_at nr of None \<Rightarrow> False | Some t \<Rightarrow> now < t + cdcChunkingLockTTL))))"

text \<open>A request waits until the job has started or has ended. What fails before the start ends the job, which is not tracked any more when the wait is over; a job that has
  started goes on in the background.\<close>

definition start_nar ::
  "('s, 'c, 'l) cache_conf \<Rightarrow> ('s, 'c, 'l) pull_env \<Rightarrow> nar_url \<Rightarrow> nar_url option \<Rightarrow> upstream option \<Rightarrow> narinfo option
   \<Rightarrow> (('s, 'c, 'l) cache_state, pulled) prog" where
  "start_nar c pe u preferred uc ni =
     (case open_nar c pe u preferred uc ni of
        Inl e \<Rightarrow> thenE (ignoreE (run_pull c pe u preferred uc ni)) (returnE (Failed e))
      | Inr _ \<Rightarrow> thenE (spawn (PullNarJob u preferred uc ni)) (thenE (modifyE (pe_others pe)) (returnE Started)))"

definition prePullNar ::
  "('s, 'c, 'l) cache_conf \<Rightarrow> ('s, 'c, 'l) pull_env \<Rightarrow> nar_url \<Rightarrow> nar_url option \<Rightarrow> upstream option \<Rightarrow> narinfo option
   \<Rightarrow> (('s, 'c, 'l) cache_state, pulled) prog" where
  "prePullNar c pe u preferred uc ni =
     bindE (liftE (url_String u)) (\<lambda>_.
       coordinate c pe (narJobKey (url_Hash u)) (nar_asset c u) (start_nar c pe u preferred uc ni))"

section \<open>Downloads of narinfos\<close>

definition normalize_pulled :: "('s, 'c, 'l) cache_conf \<Rightarrow> nar_url \<Rightarrow> narinfo \<Rightarrow> narinfo result" where
  "normalize_pulled c u ni =
     (if isCDCEnabled c \<and> \<not> cc_cdcLazyChunking c \<or> n_Compression ni = ''none'' then
        rbind (url_String (mk_nar_url (url_Hash u) ''none'' (url_Query u))) (\<lambda>t.
          Inr (ni\<lparr>n_Compression := ''none'', n_URL := t, n_FileHash := None, n_FileSize := 0\<rparr>))
      else Inr ni)"

definition wait_for_writers :: "('s, 'c, 'l) cache_conf \<Rightarrow> string \<Rightarrow> (('s, 'c, 'l) cache_state, unit) prog" where
  "wait_for_writers c h =
     thenE (in_locks (lo_Lock (cc_downloadLocker c) (migrationLockKey h)))
    (thenE (ignoreE (in_locks (lo_Unlock (cc_downloadLocker c) (migrationLockKey h))))
       (withReadLock c (narInfoLockKey h) (returnE ())))"

text \<open>An error of signing is logged and forgotten: the download counts as a success.\<close>

definition store_pulled :: "('s, 'c, 'l) cache_conf \<Rightarrow> string \<Rightarrow> narinfo \<Rightarrow> (('s, 'c, 'l) cache_state, unit) prog" where
  "store_pulled c h ni = (case signNarInfo c ni of Inl _ \<Rightarrow> returnE () | Inr n \<Rightarrow> storeInDatabase c h n)"

definition pullNarInfo :: "('s, 'c, 'l) cache_conf \<Rightarrow> ('s, 'c, 'l) pull_env \<Rightarrow> string \<Rightarrow> (('s, 'c, 'l) cache_state, unit) prog" where
  "pullNarInfo c pe h =
     thenE (wait_for_writers c h)
     (bindE (attemptE (getNarInfoFromDatabase c h)) (\<lambda>r.
       case r of
         Inr _ \<Rightarrow> returnE ()
       | Inl _ \<Rightarrow>
           bindE (liftE (getNarInfoFromUpstream (pe_upstreams pe) (pe_narinfo_race pe) h)) (\<lambda>(uc, ni).
           bindE (liftE (ParseURL (n_URL ni))) (\<lambda>u.
           thenE (prePullNar c pe u None (Some uc) (Some ni))
           (bindE (liftE (normalize_pulled c u ni)) (store_pulled c h))))))"

definition narinfo_asset :: "('s, 'c, 'l) cache_conf \<Rightarrow> string \<Rightarrow> (('s, 'c, 'l) cache_state, bool) prog" where
  "narinfo_asset c h =
     bindE (attemptE (getNarInfoFromDatabase c h)) (\<lambda>r.
       case r of Inr _ \<Rightarrow> returnE True | Inl _ \<Rightarrow> in_store (nis_HasNarInfo (cc_narInfoStore c) h))"

text \<open>The job of a narinfo and the release of its lock; the request waits for both, and raises the error of the download. When the client leaves meanwhile, the request ends with the
  error of its context and the download goes on.\<close>

definition unless_gone :: "('s, 'c, 'l) pull_env \<Rightarrow> (('s, 'c, 'l) cache_state, 'a) prog \<Rightarrow> (('s, 'c, 'l) cache_state, 'a) prog" where
  "unless_gone pe m = (case pe_gone pe of None \<Rightarrow> m | Some e \<Rightarrow> raiseE e)"

definition prePullNarInfo :: "('s, 'c, 'l) cache_conf \<Rightarrow> ('s, 'c, 'l) pull_env \<Rightarrow> string \<Rightarrow> (('s, 'c, 'l) cache_state, unit) prog" where
  "prePullNarInfo c pe h =
     bindE (coordinate c pe (narInfoJobKey h) (narinfo_asset c h) (returnE Started)) (\<lambda>p.
       case p of
         Present \<Rightarrow> returnE ()
       | Gave_up e \<Rightarrow> raiseE e
       | Failed e \<Rightarrow> raiseE e
       | Joined \<Rightarrow> thenE (wait_others pe) (unless_gone pe (case pe_joined pe of None \<Rightarrow> returnE () | Some e \<Rightarrow> raiseE e))
       | Started \<Rightarrow>
           bindE (attemptE (finallyE (pullNarInfo c pe h)
             (thenE (untrack (narInfoJobKey h)) (in_locks (lo_Unlock (cc_downloadLocker c) (narInfoJobKey h)))))) (\<lambda>r.
           thenE (modifyE (pe_others pe)) (unless_gone pe (liftE r))))"

section \<open>Requests for narinfos\<close>

definition migrationRetryAttempts :: nat where "migrationRetryAttempts = 10"

primrec retry_database ::
  "('s, 'c, 'l) cache_conf \<Rightarrow> ('s, 'c, 'l) pull_env \<Rightarrow> string \<Rightarrow> err \<Rightarrow> nat \<Rightarrow> (('s, 'c, 'l) cache_state, narinfo) prog" where
  "retry_database c pe h storageErr 0 = raiseE storageErr"
| "retry_database c pe h storageErr (Suc n) =
     bindE (attemptE (getNarInfoFromDatabase c h)) (\<lambda>r.
       case r of
         Inr ni \<Rightarrow> returnE ni
       | Inl e \<Rightarrow>
           if e \<noteq> ErrNotFound then raiseE storageErr
           else thenE (wait_others pe) (retry_database c pe h storageErr n))"

definition handleStorageFetchError ::
  "('s, 'c, 'l) cache_conf \<Rightarrow> ('s, 'c, 'l) pull_env \<Rightarrow> string \<Rightarrow> err \<Rightarrow> (('s, 'c, 'l) cache_state, narinfo) prog" where
  "handleStorageFetchError c pe h storageErr =
     (if storageErr = ErrNotFound then thenE (wait_for_writers c h) (retry_database c pe h storageErr migrationRetryAttempts)
      else raiseE storageErr)"

definition pull_or_miss :: "('s, 'c, 'l) cache_conf \<Rightarrow> ('s, 'c, 'l) pull_env \<Rightarrow> bool \<Rightarrow> string \<Rightarrow> (('s, 'c, 'l) cache_state, narinfo) prog" where
  "pull_or_miss c pe uploadOnly h =
     (if uploadOnly then raiseE ErrNotFound
      else thenE (prePullNarInfo c pe h) (getNarInfoFromDatabase c h))"

definition GetNarInfo :: "('s, 'c, 'l) cache_conf \<Rightarrow> ('s, 'c, 'l) pull_env \<Rightarrow> bool \<Rightarrow> string \<Rightarrow> (('s, 'c, 'l) cache_state, narinfo) prog" where
  "GetNarInfo c pe uploadOnly h =
     bindE (attemptE (getNarInfoFromDatabase c h)) (\<lambda>r.
       case r of
         Inr ni \<Rightarrow>
           thenE (case ParseURL (n_URL ni) of
                    Inr u \<Rightarrow> whenE (url_Compression u \<noteq> ''none'') (maybeBackgroundMigrateNarToChunks c u)
                  | Inl _ \<Rightarrow> returnE ())
             (returnE ni)
       | Inl e \<Rightarrow>
           if e \<noteq> ErrNotFound \<and> e \<noteq> ErrNarInfoPurged then raiseE e
           else
             bindE (in_store (nis_HasNarInfo (cc_narInfoStore c) h)) (\<lambda>inStore.
             if \<not> inStore then pull_or_miss c pe uploadOnly h
             else
               bindE (attemptE (getNarInfoFromStore c h)) (\<lambda>r2.
                 case r2 of
                   Inr ni \<Rightarrow> returnE ni
                 | Inl e2 \<Rightarrow>
                     if e2 = ErrNarInfoPurged then pull_or_miss c pe uploadOnly h
                     else handleStorageFetchError c pe h e2)))"

section \<open>Requests for NARs\<close>

text \<open>A NAR is served from the storage, or from the temporary file of its download.\<close>

datatype nar_reply = From_storage int "reader option" nar_url | From_download nar_url

definition serve_stored ::
  "('s, 'c, 'l) cache_conf \<Rightarrow> stream_ctx \<Rightarrow> (('s, 'c, 'l) cache_state \<Rightarrow> ('s, 'c, 'l) cache_state) list \<Rightarrow> nar_url \<Rightarrow> bool \<Rightarrow> (('s, 'c, 'l) cache_state, nar_reply) prog" where
  "serve_stored c cx envs u hasInStore =
     bindE (serveNarFromStorageViaPipe c cx envs u hasInStore) (\<lambda>(n, out, v). returnE (From_storage n out v))"

definition GetNar ::
  "('s, 'c, 'l) cache_conf \<Rightarrow> ('s, 'c, 'l) pull_env \<Rightarrow> (('s, 'c, 'l) cache_state \<Rightarrow> ('s, 'c, 'l) cache_state) list \<Rightarrow> bool \<Rightarrow> nar_url
   \<Rightarrow> (('s, 'c, 'l) cache_state, nar_reply) prog" where
  "GetNar c pe envs uploadOnly u =
     bindE (liftE (url_String u)) (\<lambda>_.
     withReadLock c (narJobKey (url_Hash u))
       (bindE (GetNar_here c (pe_context pe) envs uploadOnly u) (\<lambda>a.
          case a of
            Served n out v \<Rightarrow> returnE (From_storage n out v)
          | Pull \<Rightarrow>
              bindE (lookupOriginalNarURL u) (\<lambda>v.
              bindE (lookupPreferredUpstreamURL c pe v) (\<lambda>(preferred, ni).
              bindE (prePullNar c pe v preferred None ni) (\<lambda>p.
              bindE (HasNarInStore c v) (\<lambda>hasNarInStore.
              if hasNarInStore \<or> p = Present then serve_stored c (pe_context pe) envs v hasNarInStore
              else unless_gone pe (case p of
                 Gave_up e \<Rightarrow> raiseE e
               | Failed e \<Rightarrow> raiseE e
               | Joined \<Rightarrow> (case pe_joined pe of None \<Rightarrow> returnE (From_download v) | Some e \<Rightarrow> raiseE e)
               | _ \<Rightarrow> returnE (From_download v)))))))))"

section \<open>What every operation keeps\<close>

lemma keeps_track [cache_keeps]: "keeps (cache_inv ok I K L) (track key)" "keeps (cache_inv ok I K L) (untrack key)"
  unfolding track_def untrack_def by (rule keeps_modifyE, simp add: cache_inv_def)+

lemma keeps_wait_others:
  assumes "\<And>s. cache_inv ok I K L s \<Longrightarrow> cache_inv ok I K L (pe_others pe s)"
  shows "keeps (cache_inv ok I K L) (wait_others pe)"
  unfolding wait_others_def by (intro keeps_intros cache_keeps db_keeps keeps_modifyE assms)

context cache_env
begin

lemma keeps_pull_nar:
  assumes "\<And>b. ok (kl_sum (cc_chunkLib c) b)"
  shows "keeps (cache_inv ok I K L) (pull_nar c pe u preferred uc ni)"
  unfolding pull_nar_def storeNarWithCDC_def
  by (intro keeps_intros cache_keeps keeps_storeNarWithCDCFromReader keeps_storeNarFromTempFile keeps_checkAndFixNarInfosForNar assms)

lemma keeps_run_pull:
  assumes "\<And>b. ok (kl_sum (cc_chunkLib c) b)"
  shows "keeps (cache_inv ok I K L) (run_pull c pe u preferred uc ni)"
  unfolding run_pull_def by (intro keeps_intros keeps_pull_nar cache_keeps env_keeps assms)

lemma keeps_coordinate:
  assumes "\<And>s. cache_inv ok I K L s \<Longrightarrow> cache_inv ok I K L (pe_others pe s)"
    and "keeps (cache_inv ok I K L) hasAsset" "keeps (cache_inv ok I K L) startJob"
  shows "keeps (cache_inv ok I K L) (coordinate c pe lockKey hasAsset startJob)"
proof -
  have "keeps (cache_inv ok I K L) (poll_asset pe hasAsset e n)" for e n
    by (induction n) (auto intro!: keeps_intros keeps_wait_others assms(1,2) split: sum.split)
  then show ?thesis unfolding coordinate_def by (intro keeps_intros env_keeps cache_keeps keeps_modifyE assms)
qed

lemma keeps_start_nar:
  assumes "\<And>b. ok (kl_sum (cc_chunkLib c) b)" "\<And>s. cache_inv ok I K L s \<Longrightarrow> cache_inv ok I K L (pe_others pe s)"
  shows "keeps (cache_inv ok I K L) (start_nar c pe u preferred uc ni)"
  unfolding start_nar_def by (intro keeps_intros keeps_run_pull cache_keeps keeps_modifyE assms)

lemma keeps_nar_asset: "keeps (cache_inv ok I K L) (nar_asset c u)"
  unfolding nar_asset_def by (intro keeps_intros keeps_HasNarInStore cache_keeps db_keeps)

lemma keeps_prePullNar:
  assumes "\<And>b. ok (kl_sum (cc_chunkLib c) b)" "\<And>s. cache_inv ok I K L s \<Longrightarrow> cache_inv ok I K L (pe_others pe s)"
  shows "keeps (cache_inv ok I K L) (prePullNar c pe u preferred uc ni)"
  unfolding prePullNar_def by (intro keeps_intros keeps_coordinate keeps_nar_asset keeps_start_nar cache_keeps assms)

lemma keeps_wait_for_writers: "keeps (cache_inv ok I K L) (wait_for_writers c h)"
  unfolding wait_for_writers_def by (intro keeps_intros keeps_locked env_keeps)

lemma keeps_pullNarInfo:
  assumes "\<And>b. ok (kl_sum (cc_chunkLib c) b)" "\<And>s. cache_inv ok I K L s \<Longrightarrow> cache_inv ok I K L (pe_others pe s)"
  shows "keeps (cache_inv ok I K L) (pullNarInfo c pe h)"
  unfolding pullNarInfo_def store_pulled_def
  by (intro keeps_intros keeps_wait_for_writers keeps_getNarInfoFromDatabase keeps_prePullNar cache_keeps assms)

lemma keeps_prePullNarInfo:
  assumes "\<And>b. ok (kl_sum (cc_chunkLib c) b)" "\<And>s. cache_inv ok I K L s \<Longrightarrow> cache_inv ok I K L (pe_others pe s)"
  shows "keeps (cache_inv ok I K L) (prePullNarInfo c pe h)"
proof -
  have "keeps (cache_inv ok I K L) (narinfo_asset c h)"
    unfolding narinfo_asset_def by (intro keeps_intros keeps_getNarInfoFromDatabase env_keeps)
  then have "keeps (cache_inv ok I K L) (coordinate c pe (narInfoJobKey h) (narinfo_asset c h) (returnE Started))"
    by (intro keeps_coordinate assms keeps_returnE)
  then show ?thesis unfolding prePullNarInfo_def unless_gone_def
    by (intro keeps_bindE) (auto intro!: keeps_intros keeps_wait_others keeps_pullNarInfo keeps_modifyE assms cache_keeps env_keeps split: pulled.split option.split)
qed

lemma keeps_GetNarInfo:
  assumes "\<And>b. ok (kl_sum (cc_chunkLib c) b)" "\<And>s. cache_inv ok I K L s \<Longrightarrow> cache_inv ok I K L (pe_others pe s)"
  shows "keeps (cache_inv ok I K L) (GetNarInfo c pe b h)"
proof -
  have "keeps (cache_inv ok I K L) (retry_database c pe h e n)" for e n
    by (induction n) (auto intro!: keeps_intros keeps_getNarInfoFromDatabase keeps_wait_others assms split: sum.split)
  then have "keeps (cache_inv ok I K L) (handleStorageFetchError c pe h e)" for e
    unfolding handleStorageFetchError_def by (intro keeps_intros keeps_wait_for_writers)
  moreover have "keeps (cache_inv ok I K L) (pull_or_miss c pe b h)"
    unfolding pull_or_miss_def by (intro keeps_intros keeps_prePullNarInfo keeps_getNarInfoFromDatabase assms)
  ultimately show ?thesis unfolding GetNarInfo_def
    by (intro keeps_intros keeps_getNarInfoFromDatabase keeps_getNarInfoFromStore cache_keeps env_keeps)
qed

lemma keeps_GetNar:
  assumes "\<And>b. ok (kl_sum (cc_chunkLib c) b)" "\<And>s. cache_inv ok I K L s \<Longrightarrow> cache_inv ok I K L (pe_others pe s)"
    and "\<forall>env \<in> set envs. \<forall>s. cache_inv ok I K L s \<longrightarrow> cache_inv ok I K L (env s)"
  shows "keeps (cache_inv ok I K L) (GetNar c pe envs b u)"
proof -
  have serve: "keeps (cache_inv ok I K L) (serve_stored c cx envs v h)" for cx v h
    unfolding serve_stored_def serveNarFromStorageViaPipe_def
    by (intro keeps_intros cache_keeps db_keeps keeps_getNarFromStore keeps_getNarFromChunks assms(3))
  have "keeps (cache_inv ok I K L) (lookupPreferredUpstreamURL c pe v)" "keeps (cache_inv ok I K L) (lookupOriginalNarURL v)" for v
    unfolding lookupPreferredUpstreamURL_def lookupOriginalNarURL_def nar_file_of_def by (intro keeps_intros cache_keeps db_keeps)+
  then show ?thesis unfolding GetNar_def unless_gone_def
    by (intro keeps_intros keeps_locked keeps_GetNar_here keeps_prePullNar keeps_HasNarInStore serve assms keeps_bindE)
       (auto intro!: keeps_intros keeps_prePullNar keeps_HasNarInStore serve assms split: nar_answer.split pulled.split option.split)
qed

end

end
