(* ===== verification/Cache_Requests.thy ===== *)
theory Cache_Requests
  imports Cache_Local Cache_Pull
begin

text \<open>
  The cache as a whole: the requests and background runs it serves, one after the other or, while a NAR is streamed from growing chunks, between
  the queries of that stream, and the invariant they all keep on the local stores.
\<close>

text \<open>
  One constructor per operation that a client, a timer or a background goroutine starts. \<open>Get_NarInfo\<close> and \<open>Get_Nar\<close> carry the requests that complete while they
  wait for others, \<open>Get_Nar\<close> also those that complete between the queries of its stream; \<open>Run_Background\<close> lets the oldest background goroutine run.
\<close>

datatype request =
    Get_NarInfo pull_setup "request list" bool string
  | Put_NarInfo "string \<Rightarrow> narinfo result" string string
  | Delete_NarInfo string
  | Get_Nar pull_setup "request list" "request list" bool nar_url
  | Put_Nar "cdc_event list" "reader \<Rightarrow> reader result" nar_url reader
  | Delete_Nar nar_url
  | Fix_NarInfo string
  | Purge_NarInfo string nar_url
  | Pin_Closure string
  | Unpin_Closure string
  | Run_LRU
  | Run_Deleted_Cleanup
  | Run_Lazy_Recovery nat nat
  | Run_Background pull_setup "bytes \<Rightarrow> reader result"

definition run_job ::
  "('s, 'c, 'l) cache_conf \<Rightarrow> pull_setup \<Rightarrow> (bytes \<Rightarrow> reader result) \<Rightarrow> background_job \<Rightarrow> (('s, 'c, 'l) cache_state, unit) prog" where
  "run_job c ps copy j =
     (case j of
        MigrateNarInfoJob h n \<Rightarrow> ignoreE (MigrateNarInfoToDatabase c h n True)
      | MigrateNarToChunksJob u \<Rightarrow> ignoreE (MigrateNarToChunks c (pe_sched ps) copy u)
      | PullNarJob u preferred uc ni \<Rightarrow> ignoreE (run_pull c (with_others ps id) u preferred uc ni))"

definition run_background ::
  "('s, 'c, 'l) cache_conf \<Rightarrow> pull_setup \<Rightarrow> (bytes \<Rightarrow> reader result) \<Rightarrow> (('s, 'c, 'l) cache_state, unit) prog" where
  "run_background c ps copy =
     bindE (getsE cst_background) (\<lambda>js.
       case js of
         [] \<Rightarrow> returnE ()
       | j # rest \<Rightarrow> thenE (modifyE (\<lambda>s. s\<lparr>cst_background := rest\<rparr>)) (run_job c ps copy j))"

definition in_turn :: "('x \<Rightarrow> 'x) list \<Rightarrow> 'x \<Rightarrow> 'x" where
  "in_turn fs = fold (\<lambda>f s. f s) fs"

text \<open>The state a request leaves, whether it succeeds or fails.\<close>

primrec handle :: "('s, 'c, 'l) cache_conf \<Rightarrow> request \<Rightarrow> ('s, 'c, 'l) cache_state \<Rightarrow> ('s, 'c, 'l) cache_state" where
  "handle c (Get_NarInfo ps others uploadOnly h) = snd \<circ> GetNarInfo c (with_others ps (in_turn (map (handle c) others))) uploadOnly h"
| "handle c (Put_NarInfo Parse h body) = snd \<circ> PutNarInfo c Parse h body"
| "handle c (Delete_NarInfo h) = snd \<circ> DeleteNarInfo c h"
| "handle c (Get_Nar ps others between uploadOnly u) =
     snd \<circ> GetNar c (with_others ps (in_turn (map (handle c) others))) (map (handle c) between) uploadOnly u"
| "handle c (Put_Nar sched copy u r) = snd \<circ> PutNar c sched copy u r"
| "handle c (Delete_Nar u) = snd \<circ> DeleteNar c u"
| "handle c (Fix_NarInfo h) = snd \<circ> CheckAndFixNarInfo c h"
| "handle c (Purge_NarInfo h u) = snd \<circ> purgeNarInfo c h u"
| "handle c (Pin_Closure h) = snd \<circ> PinClosure h"
| "handle c (Unpin_Closure h) = snd \<circ> UnpinClosure h"
| "handle c Run_LRU = snd \<circ> runLRU c"
| "handle c Run_Deleted_Cleanup = snd \<circ> runCDCDeletedCleanup c"
| "handle c (Run_Lazy_Recovery cutoff n) = snd \<circ> runCDCLazyRecovery c cutoff n"
| "handle c (Run_Background ps copy) = snd \<circ> run_background c ps copy"

definition run_requests :: "('s, 'c, 'l) cache_conf \<Rightarrow> request list \<Rightarrow> ('s, 'c, 'l) cache_state \<Rightarrow> ('s, 'c, 'l) cache_state" where
  "run_requests c rs s = foldl (\<lambda>t r. handle c r t) s rs"

lemma in_turn_inv: "(\<And>f s. f \<in> set fs \<Longrightarrow> P s \<Longrightarrow> P (f s)) \<Longrightarrow> P s \<Longrightarrow> P (in_turn fs s)"
  unfolding in_turn_def by (induction fs arbitrary: s) auto

context cache_env
begin

lemma keeps_run_background:
  assumes "\<And>b. ok (kl_sum (cc_chunkLib c) b)"
  shows "keeps (cache_inv ok I K L) (run_background c ps copy)"
proof -
  have "keeps (cache_inv ok I K L) (run_job c ps copy j)" for j
    unfolding run_job_def by (cases j) (auto intro!: keeps_intros keeps_MigrateNarInfo keeps_MigrateNarToChunks keeps_run_pull assms)
  moreover have "keeps (cache_inv ok I K L) (modifyE (\<lambda>s. s\<lparr>cst_background := rest\<rparr>))" for rest
    by (rule keeps_modifyE) (simp add: cache_inv_def)
  ultimately show ?thesis unfolding run_background_def by (intro keeps_intros) (auto intro!: keeps_intros split: list.split)
qed

lemma handle_inv:
  assumes "\<And>b. ok (kl_sum (cc_chunkLib c) b)"
  shows "cache_inv ok I K L s \<Longrightarrow> cache_inv ok I K L (handle c r s)"
proof (induction r arbitrary: s)
  case (Get_NarInfo ps rs b h)
  then have "cache_inv ok I K L t \<Longrightarrow> cache_inv ok I K L (in_turn (map (handle c) rs) t)" for t
    by - (rule in_turn_inv [where P = "cache_inv ok I K L"], auto)
  then have "keeps (cache_inv ok I K L) (GetNarInfo c (with_others ps (in_turn (map (handle c) rs))) b h)" by (intro keeps_GetNarInfo assms) simp
  with Get_NarInfo.prems show ?case by (simp add: keepsD)
next
  case (Get_Nar ps rs es b u)
  then have "cache_inv ok I K L t \<Longrightarrow> cache_inv ok I K L (in_turn (map (handle c) rs) t)" for t
    by - (rule in_turn_inv [where P = "cache_inv ok I K L"], auto)
  then have "keeps (cache_inv ok I K L) (GetNar c (with_others ps (in_turn (map (handle c) rs))) (map (handle c) es) b u)"
    using Get_Nar.IH(2) by (intro keeps_GetNar assms) auto
  with Get_Nar.prems show ?case by (simp add: keepsD)
qed (auto intro!: keepsD [OF keeps_PutNar] keepsD [OF keeps_DeleteNar] keepsD [OF keeps_run_background] keepsD [OF keeps_PutNarInfo]
     keepsD [OF keeps_deleteNarInfoFromStore] keepsD [OF keeps_purgeNarInfo] keepsD [OF keeps_CheckAndFixNarInfo]
     keepsD [OF keeps_pins(1)] keepsD [OF keeps_pins(2)] keepsD [OF keeps_eviction(1)] keepsD [OF keeps_eviction(2)] keepsD [OF keeps_eviction(3)]
     assms simp: DeleteNarInfo_def)

lemma run_requests_inv:
  assumes "\<And>b. ok (kl_sum (cc_chunkLib c) b)" "cache_inv ok I K L s"
  shows "cache_inv ok I K L (run_requests c rs s)"
  using assms(2) by (induction rs arbitrary: s) (simp_all add: run_requests_def handle_inv [OF assms(1)])

end

text \<open>Whatever requests, timers and background goroutines the cache serves, in any order, whatever they end with and whichever queries and system
  calls fail: on the local stores the database keeps its keys unique and its references intact, the store of NARs and narinfos stays well
  formed, and so does the chunk store. The only assumption on the hash function is that its text is a chunk hash.\<close>

theorem cache_invariant:
  assumes "\<And>x. chunk_hash (kl_sum (cc_chunkLib c) x)"
    and "cache_inv chunk_hash (store_wf s) (chunk_inv zc b) (\<lambda>_. True) st"
  shows "cache_inv chunk_hash (store_wf s) (chunk_inv zc b) (\<lambda>_. True) (run_requests (on_local_stores nc zc s b c) rs st)"
proof (rule local_cache.run_requests_inv)
  show "chunk_hash (kl_sum (cc_chunkLib (on_local_stores nc zc s b c)) x)" for x using assms(1) by (simp add: on_local_stores_def)
qed (rule assms(2))

definition demo_hash_lib :: chunk_lib where
  "demo_hash_lib = demo_chunk_lib\<lparr>kl_sum := (\<lambda>b. replicate 64 (if even (length b) then CHR ''a'' else CHR ''b''))\<rparr>"

definition demo_local_conf :: "(file_system, file_system, unit) cache_conf" where
  "demo_local_conf =
     \<lparr>cc_narStore = local_nar_store [], cc_narInfoStore = local_narinfo_store \<lparr>nc_String = n_StorePath, nc_Parse = (\<lambda>_. Inl ErrNarInfoParse)\<rparr> [],
      cc_chunkStore = Some (local_chunk_store plain_codec []),
      cc_cdcEnabled = True, cc_cdcLazyChunking = False, cc_cdcDeleteDelay = 0, cc_chunkLib = demo_hash_lib,
      cc_downloadLocker = locker.truncate demo_locker, cc_cacheLocker = demo_locker, cc_hostName = ''ncps'', cc_shouldSignNarinfo = True,
      cc_recordAgeIgnoreTouch = 300, cc_maxSize = 100, cc_nix = demo_lib\<rparr>"

definition demo_local_state :: "(file_system, file_system, unit) cache_state" where
  "demo_local_state = idle_cache empty_db (small_store [None, Some 28]) (empty_fs []) ()"

definition demo_setup :: pull_setup where
  "demo_setup = \<lparr>pe_upstreams = [plain_upstream 40], pe_narinfo_race = [], pe_nar_race = [], pe_temp = Inr, pe_zstd = plain_codec, pe_sched = [], pe_polls = 1,
     pe_joined = None, pe_gone = None, pe_context = None\<rparr>"

definition demo_requests :: "request list" where
  "demo_requests = [Put_Nar [TakeTimer, TakeChunk] Inr demo_nar (reader_of ''abcd''), Get_Nar demo_setup [] [Run_LRU, Delete_Nar demo_nar] False demo_nar,
     Get_NarInfo demo_setup [Run_Background demo_setup (Inr \<circ> reader_of)] False ''h'', Run_LRU]"

theorem cache_invariant_witness:
  "cache_inv chunk_hash (store_wf []) (chunk_inv plain_codec []) (\<lambda>_. True)
     (run_requests (on_local_stores \<lparr>nc_String = n_StorePath, nc_Parse = (\<lambda>_. Inl ErrNarInfoParse)\<rparr> plain_codec [] [] demo_local_conf) demo_requests demo_local_state)"
proof (rule cache_invariant)
  show "chunk_hash (kl_sum (cc_chunkLib demo_local_conf) x)" for x
    by (simp add: demo_local_conf_def demo_hash_lib_def chunk_hash_def is_hex_def numeral_eq_Suc)
  show "cache_inv chunk_hash (store_wf []) (chunk_inv plain_codec []) (\<lambda>_. True) demo_local_state"
    using small_store_wf
    by (simp add: cache_inv_def demo_local_state_def idle_cache_def chunk_inv_def empty_fs_chunks db_wf_def keys_wf_def fk_wf_def links_wf_def empty_db_def)
qed

end
