(* ===== verification/Cache_Pull_Props.thy ===== *)
theory Cache_Pull_Props
  imports Cache_Pull Cache_NarInfo_Props Cache_Nar_Props
begin

text \<open>
  What a request for something this cache does not have leads to: the narinfo an upstream serves is signed, stored and returned, and its NAR is downloaded and
  can be served from the store.
\<close>

section \<open>A narinfo that is not here\<close>

text \<open>The lockers grant what is asked for.\<close>

definition obliging :: "('s, 'c, 'l) cache_conf \<Rightarrow> bool" where
  "obliging c \<longleftrightarrow> (\<forall>k l. fst (lo_Lock (cc_downloadLocker c) k l) = Inr () \<and> fst (lo_Unlock (cc_downloadLocker c) k l) = Inr () \<and>
     fst (lo_RLock (cc_cacheLocker c) k l) = Inr () \<and> fst (lo_RUnlock (cc_cacheLocker c) k l) = Inr ())"

lemma obliging_locks:
  assumes "obliging c"
  shows "\<exists>l. in_locks (lo_Lock (cc_downloadLocker c) k) s = (Inr (), s\<lparr>cst_locks := l\<rparr>)"
    "\<exists>l. in_locks (lo_Unlock (cc_downloadLocker c) k) s = (Inr (), s\<lparr>cst_locks := l\<rparr>)"
    "\<exists>l. in_locks (lo_RLock (cc_cacheLocker c) k) s = (Inr (), s\<lparr>cst_locks := l\<rparr>)"
    "\<exists>l. in_locks (lo_RUnlock (cc_cacheLocker c) k) s = (Inr (), s\<lparr>cst_locks := l\<rparr>)"
  using assms by (simp_all add: obliging_def in_locks_def split: prod.split) (metis fst_conv)+







lemma keys_differ [simp]: "narJobKey x \<noteq> narInfoJobKey y" "narInfoJobKey y \<noteq> narJobKey x"
  by (simp_all add: narJobKey_def narInfoJobKey_def)








section \<open>A narinfo whose NAR cannot be pulled\<close>

text \<open>No other instance is downloading: the lock of a download can be taken.\<close>

definition unlocked :: "('s, 'c, 'l) cache_conf \<Rightarrow> bool" where
  "unlocked c \<longleftrightarrow> (\<forall>k l. fst (lo_TryLock (cc_downloadLocker c) k l) = Inr True)"





section \<open>A NAR that is not here\<close>

text \<open>After a download the file sizes of the narinfos are repaired: on quiet databases and calm local stores this leaves the store as it is.\<close>

definition settled :: "file_system \<Rightarrow> (file_system, 'c, 'l) cache_state \<Rightarrow> bool" where
  "settled f s \<longleftrightarrow> quiet (cst_db s) \<and> cst_store s = f"

lemma settled_in_db: "keeps quiet m \<Longrightarrow> keeps (settled f) (in_db m)"
  by (auto simp: keeps_def settled_def in_db_def split: prod.splits)

lemma quiet_queries:
  "keeps quiet (GetNarInfoHashesByURL t)" "keeps quiet (GetNarInfoByHash h)" "keeps quiet (UpdateNarInfoFileSize h n)" "keeps quiet (UpdateNarInfoFileHash h x)"
  "keeps quiet (getNarFileFromDB c u)" "keeps quiet db_ping"
proof -
  show "keeps quiet (GetNarInfoHashesByURL t)" "keeps quiet (GetNarInfoByHash h)" "keeps quiet (UpdateNarInfoFileSize h n)" "keeps quiet (UpdateNarInfoFileHash h x)"
    "keeps quiet db_ping"
    by (auto simp: keeps_def quiet_def GetNarInfoHashesByURL_def GetNarInfoByHash_def UpdateNarInfoFileSize_def UpdateNarInfoFileHash_def db_ping_def
        select_def select_one_def exec_def returnE_def)
  show "keeps quiet (getNarFileFromDB c u)" using getNarFileFromDB_quiet by (metis keeps_def snd_conv)
qed

lemma settled_all_or_nothing:
  fixes m :: "((file_system, 'c, 'l) cache_state, 'a) prog"
  assumes "keeps (settled f) m"
  shows "keeps (settled f) (all_or_nothing m)"
proof (rule keepsI)
  fix s :: "(file_system, 'c, 'l) cache_state"
  assume "settled f s"
  with assms have "settled f (snd (m s))" by (rule keepsD)
  then show "settled f (snd (all_or_nothing m s))"
    by (auto simp: all_or_nothing_def settled_def quiet_def rollback_def split: prod.splits sum.splits)
qed

lemma settled_transaction:
  assumes "keeps (settled f) fn"
  shows "keeps (settled f) (withTransaction fn)"
proof -
  have once: "keeps (settled f) (executeTransaction fn)"
    unfolding executeTransaction_def by (intro keeps_intros settled_all_or_nothing settled_in_db quiet_queries assms)
  have "keeps (settled f) (attempts k fn)" for k
    by (induction k) (auto intro!: keeps_intros settled_in_db quiet_queries once)
  then show ?thesis unfolding withTransaction_def .
qed

lemma settled_HasNarInStore:
  assumes "cc_narStore c = local_nar_store dir" "store_calm dir f"
  shows "keeps (settled f) (HasNarInStore c u)"
proof -
  have "HasNar_local dir v f = (fst (HasNar_local dir v f), f)" for v
    using assms(2) by (cases "nar_path dir v") (auto simp: HasNar_local_def returnE_def store_calm_def bindE_def attemptE_def os_Stat_def)
  then have "snd (HasNar_local dir v f) = f" for v by (metis snd_conv)
  then have "keeps (settled f) (in_store (ns_HasNar (cc_narStore c) v))" for v
    by (auto simp: keeps_def settled_def in_store_def assms(1) local_nar_store_def split: prod.splits) (metis snd_conv)
  then show ?thesis unfolding HasNarInStore_def Let_def by (intro keeps_intros)
qed

lemma settled_repair:
  assumes "cc_narStore c = local_nar_store dir" "store_calm dir f"
  shows "keeps (settled f) (checkAndFixNarInfosForNar c u)"
proof -
  have "keeps (settled f) (HasNarInChunks c v)" for v
    unfolding HasNarInChunks_def not_found_false_def by (intro keeps_intros settled_in_db quiet_queries)
  then have "keeps (settled f) (CheckAndFixNarInfo c h)" for h
    unfolding CheckAndFixNarInfo_def checkAndFixNarInfoNoCompression_def fixNarInfoFileSize_def getNarActualSize_def
    by (intro keeps_intros settled_in_db settled_transaction settled_HasNarInStore [OF assms] quiet_queries)
  then have "keeps (settled f) (each_error (CheckAndFixNarInfo c) hs)" for hs
    by (induction hs) (auto intro!: keeps_intros)
  then show ?thesis unfolding checkAndFixNarInfosForNar_def by (intro keeps_bindE keeps_liftE settled_in_db quiet_queries)
qed

lemma pull_nar_stores:
  fixes s :: "(file_system, 'c, 'l) cache_state"
  assumes c: "\<not> isCDCEnabled c" "cc_narStore c = local_nar_store dir" "url_String u = Inr x"
    and s: "quiet (cst_db s)" "store_wf dir (cst_store s)" "store_calm dir (cst_store s)" "nar_path dir (stored_url u) = Inr p" "nars dir (cst_store s) p = None"
    and up: "getNarFromUpstream (pe_upstreams pe) (pe_nar_race pe) uc u = Inr (reader_of nar)" "pe_temp pe (reader_of nar) = Inr (reader_of nar)"
  obtains t where "pull_nar c pe u None uc ni s = (Inr (), t)" "quiet (cst_db t)" "store_wf dir (cst_store t)" "store_calm dir (cst_store t)"
    "nars dir (cst_store t) p = Some (stored_bytes (pe_zstd pe) u nar)"
proof -
  obtain f d where f: "storeNarFromTempFile c (pe_zstd pe) u (reader_of nar) s = (Inr (), s\<lparr>cst_store := f, cst_db := d\<rparr>)" "quiet d"
    "store_wf dir f" "store_calm dir f" "nars dir f p = Some (stored_bytes (pe_zstd pe) u nar)"
    by (rule local_nars.store_leaves [OF c(2) s])
  let ?t = "s\<lparr>cst_store := f, cst_db := d\<rparr>"
  have "settled f (snd (checkAndFixNarInfosForNar c u ?t))"
    using f(2) by (intro keepsD [OF settled_repair [OF c(2) f(4)]]) (simp add: settled_def)
  moreover have "pull_nar c pe u None uc ni s = (Inr (), snd (checkAndFixNarInfosForNar c u ?t))"
    using c up f(1)
    by (auto simp: pull_nar_def open_nar_def chunks_as_it_comes_def downloadURL_def bindE_def liftE_def thenE_def whenE_def returnE_def ignoreE_def attemptE_def reader_of_def
        Let_def split: prod.split)
  ultimately show thesis using that f(3-5) by (auto simp: settled_def)
qed

section \<open>Properties\<close>



text \<open>C3. Once the background job of a NAR has run, the NAR that the upstream delivered is served from the store byte by byte, also when it is kept compressed; the job is not
  tracked any more.\<close>

theorem pulled_nar_served:
  fixes s :: "(file_system, 'c, 'l) cache_state"
  assumes "\<not> isCDCEnabled c" "cc_narStore c = local_nar_store dir" "url_String u = Inr x" "\<not> url_TransparentZstd u" "obliging c"
    and "quiet (cst_db s)" "store_wf dir (cst_store s)" "store_calm dir (cst_store s)" "nar_path dir (stored_url u) = Inr p" "nars dir (cst_store s) p = None"
    and "getNarFromUpstream (pe_upstreams pe) (pe_nar_race pe) uc u = Inr (reader_of nar)" "pe_temp pe (reader_of nar) = Inr (reader_of nar)"
    and "kl_open (cc_chunkLib c) ''zstd'' (reader_of (zc_compress (pe_zstd pe) nar)) = Inr (reader_of nar)"
  shows "\<exists>t n v t'. run_pull c pe u None uc ni s = (Inr (), t) \<and> narJobKey (url_Hash u) \<notin> set (cst_upstreamJobs t) \<and>
    GetNar c pe' envs uploadOnly u t = (Inr (From_storage n (Some (reader_of nar)) v), t')"
proof -
  let ?key = "narJobKey (url_Hash u)"
  obtain t where t: "pull_nar c pe u None uc ni s = (Inr (), t)" "quiet (cst_db t)" "store_wf dir (cst_store t)" "store_calm dir (cst_store t)"
    "nars dir (cst_store t) p = Some (stored_bytes (pe_zstd pe) u nar)"
    by (rule pull_nar_stores [OF assms(1-3,6-12)])
  let ?t = "t\<lparr>cst_upstreamJobs := removeAll ?key (cst_upstreamJobs t)\<rparr>"
  obtain l where "in_locks (lo_Unlock (cc_downloadLocker c) ?key) ?t = (Inr (), ?t\<lparr>cst_locks := l\<rparr>)" using obliging_locks(2) [OF assms(5)] by blast
  then have run: "run_pull c pe u None uc ni s = (Inr (), ?t\<lparr>cst_locks := l\<rparr>)"
    by (simp add: run_pull_def finallyE_def t(1) thenE_def bindE_def untrack_def modifyE_def)
  obtain l1 where lock: "in_locks (lo_RLock (cc_cacheLocker c) ?key) (?t\<lparr>cst_locks := l\<rparr>) = (Inr (), ?t\<lparr>cst_locks := l1\<rparr>)"
    using obliging_locks(3) [OF assms(5), of ?key "?t\<lparr>cst_locks := l\<rparr>"] by auto
  have opens: "if url_Compression u = ''none'' then kl_open (cc_chunkLib c) ''zstd'' (reader_of (stored_bytes (pe_zstd pe) u nar)) = Inr (reader_of nar)
      else stored_bytes (pe_zstd pe) u nar = nar"
    using assms(13) by (simp add: stored_bytes_def)
  obtain n v t' where "GetNar_here c (pe_context pe') envs uploadOnly u (?t\<lparr>cst_locks := l1\<rparr>) = (Inr (Served n (Some (reader_of nar)) v), t')"
    using local_nars.get_stored [OF assms(1-4), of "?t\<lparr>cst_locks := l1\<rparr>" p "stored_bytes (pe_zstd pe) u nar" nar "pe_context pe'" envs uploadOnly, OF _ _ _ assms(9) _ opens] t(2-5)
    by auto
  then have "\<exists>t''. GetNar c pe' envs uploadOnly u (?t\<lparr>cst_locks := l\<rparr>) = (Inr (From_storage n (Some (reader_of nar)) v), t'')"
    using assms(3) lock by (simp add: GetNar_def withReadLock_def bindE_def liftE_def thenE_def finallyE_def returnE_def)
  then show ?thesis using run by auto
qed

text \<open>With lazy chunking, a NAR that is asked for without compression but preferred in another one is kept as it was downloaded, compressed once more, under the name of the
  uncompressed NAR.\<close>

lemma lazy_pull_mislabels:
  assumes "isCDCEnabled c" "cc_cdcLazyChunking c" "url_String u = Inr x" "url_Compression v = ''xz''"
    and "getNarFromUpstream (pe_upstreams pe) (pe_nar_race pe) uc v = Inr (reader_of xz)" "pe_temp pe (reader_of xz) = Inr (reader_of xz)"
  shows "pull_nar c pe u (Some v) uc ni s =
    thenE (storeNarFromTempFile c (pe_zstd pe) u (reader_of xz))
      (thenE (maybeBackgroundMigrateNarToChunks c u) (ignoreE (checkAndFixNarInfosForNar c u))) s"
  using assms by (simp add: pull_nar_def open_nar_def chunks_as_it_comes_def downloadURL_def bindE_def liftE_def thenE_def whenE_def returnE_def reader_of_def)

section \<open>Examples\<close>

definition demo_serving :: upstream where
  "demo_serving = (plain_upstream 40)\<lparr>uc_GetNarInfo := \<lambda>_. Inr demo_narinfo, uc_GetNar := \<lambda>_. Inr (reader_of ''abc'')\<rparr>"

definition demo_env :: "('s, 'c, 'l) pull_env" where
  "demo_env = \<lparr>pe_upstreams = [demo_serving], pe_narinfo_race = [], pe_nar_race = [], pe_temp = Inr, pe_zstd = plain_codec, pe_sched = [], pe_polls = 0,
     pe_joined = None, pe_gone = None, pe_context = None, pe_others = id\<rparr>"




lemma demo_obliging: "obliging demo_conf" "obliging demo_disk_conf" "unlocked demo_conf"
  by (simp_all add: obliging_def unlocked_def demo_conf_def demo_disk_conf_def demo_locker_def returnE_def locker.truncate_def)





theorem pulled_nar_served_witness:
  "\<exists>t n v t'. run_pull demo_disk_conf demo_env demo_nar None None None (demo_disk (small_store [])) = (Inr (), t) \<and>
     narJobKey (url_Hash demo_nar) \<notin> set (cst_upstreamJobs t) \<and>
     GetNar demo_disk_conf demo_env [] False demo_nar t = (Inr (From_storage n (Some (reader_of ''abc'')) v), t')"
proof -
  obtain x where x: "url_String demo_nar = Inr x" using demo_nar_string by blast
  obtain p where p: "nar_path [] (stored_url demo_nar) = Inr p" using demo_stored(2) by blast
  have c: "\<not> isCDCEnabled demo_disk_conf" "cc_narStore demo_disk_conf = local_nar_store []" "\<not> url_TransparentZstd demo_nar"
    "kl_open (cc_chunkLib demo_disk_conf) ''zstd'' (reader_of (zc_compress (pe_zstd demo_env) ''abc'')) = Inr (reader_of ''abc'')"
    "pe_temp demo_env (reader_of ''abc'') = Inr (reader_of ''abc'')"
    by (simp_all add: demo_disk_conf_def isCDCEnabled_def demo_nar_def mk_nar_url_def demo_zstd_lib_def plain_codec_def reader_of_def demo_env_def)
  have up: "getNarFromUpstream (pe_upstreams demo_env) (pe_nar_race demo_env) None demo_nar = Inr (reader_of ''abc'')"
    using x by (simp add: getNarFromUpstream_def demo_env_def selectNarUpstream_def getHealthyUpstreams_def selectUpstream_def demo_serving_def plain_upstream_def)
  show ?thesis
    using pulled_nar_served [OF c(1,2) x c(3) demo_obliging(2) demo_disk_quiet(1) _ _ p _ up c(5,4)] small_store_wf small_store_calm small_store_empty
    by (simp add: demo_disk_quiet(2))
qed

end
