(* ===== verification/Server.thy ===== *)
theory Server
  imports Cache_Pull Cache_Eviction Nix_Cache_Info
begin

text \<open>
  Package \<open>pkg/server\<close>: the HTTP handlers, from the request the router has matched to the reply. A handler runs the operations of the cache and never fails
  itself: every error becomes a reply. The texts of error messages are not modelled, nor are the log and the traces.
\<close>

section \<open>Requests and replies\<close>

text \<open>What the router has matched of the path. The middle one of the three patterns of NARs has the extension of the file name.\<close>

datatype route =
    R_cache_info
  | R_narinfo string
  | R_nar string string
  | R_pin string
  | R_pins

datatype verb = V_get | V_head | V_put | V_delete | V_post

record server_request =
  sq_verb :: verb
  sq_upload :: bool
  sq_route :: route
  sq_rawQuery :: string
  sq_AcceptEncoding :: string
  sq_body :: reader

text \<open>The body is what was written. With \<open>hr_open\<close> the handler still writes. A reply whose body is shorter than its length says fails at the client; one without a length
  ends where the handler returns.\<close>

record http_reply =
  hr_status :: nat
  hr_ContentType :: "string option"
  hr_ContentLength :: "int option"
  hr_ContentEncoding :: "string option"
  hr_body :: bytes
  hr_open :: bool

definition http_Error :: "nat \<Rightarrow> http_reply" where
  "http_Error code = \<lparr>hr_status = code, hr_ContentType = Some ''text/plain'', hr_ContentLength = None, hr_ContentEncoding = None, hr_body = [], hr_open = False\<rparr>"

text \<open>A handler that returns without writing anything: \<open>net/http\<close> answers 200 with an empty body.\<close>

definition WriteHeader :: "nat \<Rightarrow> http_reply" where
  "WriteHeader code = \<lparr>hr_status = code, hr_ContentType = None, hr_ContentLength = None, hr_ContentEncoding = None, hr_body = [], hr_open = False\<rparr>"

definition nothing_written :: http_reply where "nothing_written = WriteHeader 200"

definition request_over :: "err \<Rightarrow> bool" where
  "request_over e \<longleftrightarrow> errors_Is e ErrCanceled \<or> errors_Is e ErrDeadlineExceeded"

record server_conf =
  sv_deletePermitted :: bool
  sv_putPermitted :: bool

section \<open>Small handlers\<close>

definition nixCacheInfo :: string where
  "nixCacheInfo = ''StoreDir: /nix/store'' @ [CHR ''\<newline>''] @ ''WantMassQuery: 1'' @ [CHR ''\<newline>''] @ ''Priority: 10''"

definition getNixCacheInfo :: http_reply where
  "getNixCacheInfo = (WriteHeader 200)\<lparr>hr_body := nixCacheInfo\<rparr>"

definition reply_error :: "err \<Rightarrow> http_reply" where
  "reply_error e = (if errors_Is e ErrNotFound then http_Error 404 else http_Error 500)"

definition pinClosure :: "string \<Rightarrow> (('s, 'c, 'l) cache_state, http_reply) prog" where
  "pinClosure h =
     bindE (attemptE (PinClosure h)) (\<lambda>r. returnE (case r of Inl e \<Rightarrow> reply_error e | Inr _ \<Rightarrow> WriteHeader 200))"

definition unpinClosure :: "string \<Rightarrow> (('s, 'c, 'l) cache_state, http_reply) prog" where
  "unpinClosure h =
     bindE (attemptE (UnpinClosure h)) (\<lambda>r. returnE (case r of Inl _ \<Rightarrow> http_Error 500 | Inr _ \<Rightarrow> WriteHeader 200))"

text \<open>\<open>json.Encoder\<close> on hashes, which need no escapes.\<close>

definition json_strings :: "string list \<Rightarrow> string" where
  "json_strings xs = ''['' @ join_with '','' (map (\<lambda>x. [CHR 34] @ x @ [CHR 34]) xs) @ '']'' @ [CHR ''\<newline>'']"

definition listPins :: "(('s, 'c, 'l) cache_state, http_reply) prog" where
  "listPins =
     bindE (attemptE cache_ListPinnedClosures) (\<lambda>r. returnE (case r of
        Inl _ \<Rightarrow> http_Error 500
      | Inr hashes \<Rightarrow> (WriteHeader 200)\<lparr>hr_ContentType := Some ''application/json'', hr_body := json_strings hashes\<rparr>))"

section \<open>Narinfos\<close>

text \<open>The narinfo that is sent has the normalized URL; \<open>Str\<close> is the printer of go-nix.\<close>

definition narinfo_to_send :: "narinfo \<Rightarrow> narinfo result" where
  "narinfo_to_send ni =
     (if n_URL ni = [] then Inr ni
      else rbind (ParseURL (n_URL ni)) (\<lambda>u. rbind (Normalize u) (\<lambda>v. rbind (url_String v) (\<lambda>t. Inr (ni\<lparr>n_URL := t\<rparr>)))))"

definition getNarInfo ::
  "('s, 'c, 'l) cache_conf \<Rightarrow> ('s, 'c, 'l) pull_env \<Rightarrow> (narinfo \<Rightarrow> string) \<Rightarrow> bool \<Rightarrow> bool \<Rightarrow> string \<Rightarrow> (('s, 'c, 'l) cache_state, http_reply) prog" where
  "getNarInfo c pe Str withBody uploadOnly h =
     bindE (attemptE (GetNarInfo c pe uploadOnly h)) (\<lambda>r. returnE (case r of
        Inl e \<Rightarrow> if errors_Is e ErrNotFound then http_Error 404 else if request_over e then nothing_written else http_Error 500
      | Inr ni \<Rightarrow>
          (case narinfo_to_send ni of
             Inl _ \<Rightarrow> http_Error 500
           | Inr m \<Rightarrow> (WriteHeader 200)\<lparr>hr_ContentType := Some ''text/x-nix-narinfo'', hr_ContentLength := Some (int (length (Str m))),
               hr_body := (if withBody then Str m else [])\<rparr>)))"

definition putNarInfo ::
  "server_conf \<Rightarrow> ('s, 'c, 'l) cache_conf \<Rightarrow> (string \<Rightarrow> narinfo result) \<Rightarrow> string \<Rightarrow> reader \<Rightarrow> (('s, 'c, 'l) cache_state, http_reply) prog" where
  "putNarInfo sv c Parse h body =
     (if \<not> sv_putPermitted sv then returnE (http_Error 405)
      else bindE (attemptE (PutNarInfo c (\<lambda>x. case rd_err body of None \<Rightarrow> Parse x | Some e \<Rightarrow> Inl e) h (rd_data body)))
        (\<lambda>r. returnE (case r of Inl _ \<Rightarrow> http_Error 500 | Inr _ \<Rightarrow> WriteHeader 204)))"

definition deleteNarInfo :: "server_conf \<Rightarrow> ('s, 'c, 'l) cache_conf \<Rightarrow> string \<Rightarrow> (('s, 'c, 'l) cache_state, http_reply) prog" where
  "deleteNarInfo sv c h =
     (if \<not> sv_deletePermitted sv then returnE (http_Error 405)
      else bindE (attemptE (DeleteNarInfo c h)) (\<lambda>r. returnE (case r of Inl e \<Rightarrow> reply_error e | Inr _ \<Rightarrow> WriteHeader 204)))"

section \<open>Content negotiation\<close>

definition is_space :: "char \<Rightarrow> bool" where
  "is_space ch \<longleftrightarrow> ch \<in> {CHR '' '', CHR 0x09, CHR 0x0A, CHR 0x0B, CHR 0x0C, CHR 0x0D}"

definition trim_space :: "string \<Rightarrow> string" where
  "trim_space s = rev (dropWhile is_space (rev (dropWhile is_space s)))"

text \<open>The encodings a client names, without their weights.\<close>

definition accepted :: "string \<Rightarrow> string list" where
  "accepted ae = map (\<lambda>v. trim_space (hd (split_on (CHR '';'') v))) (split_on (CHR '','') ae)"

definition parseAcceptEncoding :: "string \<Rightarrow> string" where
  "parseAcceptEncoding ae =
     (if ''zstd'' \<in> set (accepted ae) then ''zstd''
      else if ''br'' \<in> set (accepted ae) then ''br''
      else if ''gzip'' \<in> set (accepted ae) then ''gzip''
      else [])"

text \<open>The writers of the encodings, applied to all that is written: libraries.\<close>

record encoders =
  en_zstd :: "bytes \<Rightarrow> bytes"
  en_br :: "bytes \<Rightarrow> bytes"
  en_gzip :: "bytes \<Rightarrow> bytes"

definition encode_body :: "encoders \<Rightarrow> string \<Rightarrow> bytes \<Rightarrow> bytes" where
  "encode_body en enc b =
     (if enc = ''zstd'' then en_zstd en b else if enc = ''br'' then en_br en b else if enc = ''gzip'' then en_gzip en b else b)"

section \<open>NARs\<close>

definition request_url :: "string \<Rightarrow> string \<Rightarrow> string \<Rightarrow> nar_url result" where
  "request_url h extension rawQuery =
     rbind (CompressionTypeFromExtension extension) (\<lambda>comp.
       Inr (mk_nar_url h comp (fst (parse_query_loop (split_on (CHR ''&'') rawQuery) [] False))))"

definition withNarURL ::
  "string \<Rightarrow> string \<Rightarrow> string \<Rightarrow> (nar_url \<Rightarrow> (('s, 'c, 'l) cache_state, http_reply) prog) \<Rightarrow> (('s, 'c, 'l) cache_state, http_reply) prog" where
  "withNarURL h extension rawQuery handler =
     (case request_url h extension rawQuery of Inl _ \<Rightarrow> returnE (http_Error 400) | Inr nu \<Rightarrow> handler nu)"

text \<open>What \<open>GetNar\<close> of the cache returns: a URL, a size and a reader, or no reader for a stream of growing chunks that is still open. A stream from a download has no size;
  \<open>stream\<close> is what it delivers in the end and the compression of its temporary file.\<close>

definition nar_result :: "reader \<times> string \<Rightarrow> nar_reply \<Rightarrow> nar_url \<times> int \<times> reader option" where
  "nar_result stream p =
     (case p of
        From_storage n out v \<Rightarrow> (v, n, out)
      | From_download v \<Rightarrow> (v\<lparr>url_Compression := snd stream\<rparr>, - 1, Some (fst stream)))"

definition selected_encoding :: "bool \<Rightarrow> nar_url \<Rightarrow> string \<Rightarrow> string \<times> bool" where
  "selected_encoding withBody nu ae =
     (if url_Compression nu = ''none'' \<and> withBody then (if url_TransparentZstd nu then (''zstd'', True) else (parseAcceptEncoding ae, False))
      else ([], False))"

definition nar_header :: "string \<Rightarrow> int \<Rightarrow> http_reply" where
  "nar_header enc n =
     (WriteHeader 200)\<lparr>hr_ContentType := Some ''application/x-nix-nar'', hr_ContentLength := (if enc = [] \<and> n > 0 then Some n else None),
       hr_ContentEncoding := (if enc \<noteq> [] then Some enc else None)\<rparr>"

text \<open>A failing read is logged, and the handler returns as after the last byte.\<close>

definition send_nar :: "encoders \<Rightarrow> bool \<Rightarrow> string \<Rightarrow> nar_url \<times> int \<times> reader option \<Rightarrow> http_reply" where
  "send_nar en withBody ae res =
     (case res of (nu, n, out) \<Rightarrow>
      (case selected_encoding withBody nu ae of (enc, servedRawZstd) \<Rightarrow>
       if \<not> withBody \<and> n > 0 then nar_header enc n
       else (case out of
          None \<Rightarrow> (nar_header enc n)\<lparr>hr_open := True\<rparr>
        | Some r \<Rightarrow>
            if withBody then (nar_header enc n)\<lparr>hr_body := (if servedRawZstd then rd_data r else encode_body en enc (rd_data r))\<rparr>
            else (case rd_err r of
               Some _ \<Rightarrow> http_Error 500
             | None \<Rightarrow> (nar_header enc n)\<lparr>hr_ContentLength := Some (int (length (rd_data r)))\<rparr>))))"

definition nar_error :: "err \<Rightarrow> http_reply" where
  "nar_error e = (if errors_Is e ErrNotFound \<or> errors_Is e ErrUpstreamNotFound then http_Error 404 else if request_over e then nothing_written else http_Error 500)"

definition fetch_nar ::
  "('s, 'c, 'l) cache_conf \<Rightarrow> ('s, 'c, 'l) pull_env \<Rightarrow> (('s, 'c, 'l) cache_state \<Rightarrow> ('s, 'c, 'l) cache_state) list \<Rightarrow> encoders \<Rightarrow> reader \<times> string
   \<Rightarrow> bool \<Rightarrow> bool \<Rightarrow> string \<Rightarrow> nar_url \<Rightarrow> (('s, 'c, 'l) cache_state, http_reply) prog" where
  "fetch_nar c pe envs en stream withBody uploadOnly ae nu =
     bindE (attemptE (GetNar c pe envs uploadOnly nu)) (\<lambda>r. returnE (case r of
        Inl e \<Rightarrow> nar_error e
      | Inr p \<Rightarrow> send_nar en withBody ae (nar_result stream p)))"

definition getNar ::
  "('s, 'c, 'l) cache_conf \<Rightarrow> ('s, 'c, 'l) pull_env \<Rightarrow> (('s, 'c, 'l) cache_state \<Rightarrow> ('s, 'c, 'l) cache_state) list \<Rightarrow> encoders \<Rightarrow> reader \<times> string
   \<Rightarrow> bool \<Rightarrow> bool \<Rightarrow> string \<Rightarrow> nar_url \<Rightarrow> (('s, 'c, 'l) cache_state, http_reply) prog" where
  "getNar c pe envs en stream withBody uploadOnly ae nu =
     (let nu1 = nu\<lparr>url_TransparentZstd := (url_Compression nu = ''none'' \<and> ''zstd'' \<in> set (accepted ae) \<and> withBody)\<rparr> in
      if withBody then fetch_nar c pe envs en stream withBody uploadOnly ae nu1
      else
        bindE (attemptE (GetNarFileSize c nu1)) (\<lambda>r.
          case r of
            Inr n \<Rightarrow>
              if n > 0 then returnE ((WriteHeader 200)\<lparr>hr_ContentType := Some ''application/x-nix-nar'', hr_ContentLength := Some (int n)\<rparr>)
              else fetch_nar c pe envs en stream withBody uploadOnly ae nu1
          | Inl _ \<Rightarrow> fetch_nar c pe envs en stream withBody uploadOnly ae nu1))"

definition putNar ::
  "server_conf \<Rightarrow> ('s, 'c, 'l) cache_conf \<Rightarrow> cdc_event list \<Rightarrow> (reader \<Rightarrow> reader result) \<Rightarrow> reader \<Rightarrow> nar_url \<Rightarrow> (('s, 'c, 'l) cache_state, http_reply) prog" where
  "putNar sv c sched copy body nu =
     (if \<not> sv_putPermitted sv then returnE (http_Error 405)
      else bindE (attemptE (PutNar c sched copy nu body)) (\<lambda>r. returnE (case r of Inl _ \<Rightarrow> http_Error 500 | Inr _ \<Rightarrow> WriteHeader 204)))"

definition deleteNar :: "server_conf \<Rightarrow> ('s, 'c, 'l) cache_conf \<Rightarrow> nar_url \<Rightarrow> (('s, 'c, 'l) cache_state, http_reply) prog" where
  "deleteNar sv c nu =
     (if \<not> sv_deletePermitted sv then returnE (http_Error 405)
      else bindE (attemptE (DeleteNar c nu)) (\<lambda>r. returnE (case r of Inl e \<Rightarrow> reply_error e | Inr _ \<Rightarrow> WriteHeader 204)))"

section \<open>Routes\<close>

text \<open>
  The surroundings of a request: those of the cache, the codecs, the parser and printer of narinfos, what the stream of a download delivers, and what runs between the queries
  of a stream. The routes are registered at the root and below \<open>/upload\<close>, where nothing is pulled; uploads exist only there, deletions and pins only at the root. A route that
  is not registered for a method is refused by the router with 405.
\<close>

record ('s, 'c, 'l) server_env = "('s, 'c, 'l) pull_env" +
  se_encoders :: encoders
  se_codec :: "narinfo narinfo_codec"
  se_stream :: "reader \<times> string"
  se_between :: "(('s, 'c, 'l) cache_state \<Rightarrow> ('s, 'c, 'l) cache_state) list"
  se_copy :: "reader \<Rightarrow> reader result"

definition ServeHTTP ::
  "server_conf \<Rightarrow> ('s, 'c, 'l) cache_conf \<Rightarrow> ('s, 'c, 'l) server_env \<Rightarrow> server_request \<Rightarrow> (('s, 'c, 'l) cache_state, http_reply) prog" where
  "ServeHTTP sv c se rq =
     (let upload = sq_upload rq; pe = pull_env.truncate se;
          reading = (\<lambda>withBody. case sq_route rq of
             R_cache_info \<Rightarrow> returnE (if withBody then getNixCacheInfo else http_Error 405)
           | R_narinfo h \<Rightarrow> getNarInfo c pe (nc_String (se_codec se)) withBody upload h
           | R_nar h ext \<Rightarrow> withNarURL h ext (sq_rawQuery rq)
               (getNar c pe (se_between se) (se_encoders se) (se_stream se) withBody upload (sq_AcceptEncoding rq))
           | R_pins \<Rightarrow> if withBody \<and> \<not> upload then listPins else returnE (http_Error 405)
           | R_pin h \<Rightarrow> returnE (http_Error 405)) in
      case sq_verb rq of
        V_get \<Rightarrow> reading True
      | V_head \<Rightarrow> reading False
      | V_put \<Rightarrow>
          if \<not> upload then returnE (http_Error 405)
          else (case sq_route rq of
             R_narinfo h \<Rightarrow> putNarInfo sv c (nc_Parse (se_codec se)) h (sq_body rq)
           | R_nar h ext \<Rightarrow> withNarURL h ext (sq_rawQuery rq) (putNar sv c (pe_sched se) (se_copy se) (sq_body rq))
           | _ \<Rightarrow> returnE (http_Error 405))
      | V_delete \<Rightarrow>
          if upload then returnE (http_Error 405)
          else (case sq_route rq of
             R_narinfo h \<Rightarrow> deleteNarInfo sv c h
           | R_nar h ext \<Rightarrow> withNarURL h ext (sq_rawQuery rq) (deleteNar sv c)
           | R_pin h \<Rightarrow> unpinClosure h
           | _ \<Rightarrow> returnE (http_Error 405))
      | V_post \<Rightarrow> (case sq_route rq of R_pin h \<Rightarrow> if upload then returnE (http_Error 405) else pinClosure h | _ \<Rightarrow> returnE (http_Error 405)))"

end
