(* ===== verification/Server_Props.thy ===== *)
theory Server_Props
  imports Server Cache_Pull_Props
begin

text \<open>
  What clients of the server can rely on: a stored NAR arrives whole whatever encodings the client accepts, requests that are not permitted change nothing, and what
  becomes of the errors of upstreams.
\<close>

section \<open>NARs over HTTP\<close>

text \<open>The decoders of a client, by the content encoding of the reply.\<close>

record decoders =
  de_zstd :: "bytes \<Rightarrow> bytes option"
  de_br :: "bytes \<Rightarrow> bytes option"
  de_gzip :: "bytes \<Rightarrow> bytes option"

definition decoded :: "decoders \<Rightarrow> http_reply \<Rightarrow> bytes option" where
  "decoded de rp =
     (case hr_ContentEncoding rp of
        None \<Rightarrow> Some (hr_body rp)
      | Some enc \<Rightarrow>
          if enc = ''zstd'' then de_zstd de (hr_body rp) else if enc = ''br'' then de_br de (hr_body rp) else if enc = ''gzip'' then de_gzip de (hr_body rp) else None)"

definition decodes :: "decoders \<Rightarrow> encoders \<Rightarrow> chunk_lib \<Rightarrow> bool" where
  "decodes de en kl \<longleftrightarrow>
     (\<forall>b. de_zstd de (en_zstd en b) = Some b \<and> de_br de (en_br en b) = Some b \<and> de_gzip de (en_gzip en b) = Some b) \<and>
     (\<forall>b nar. kl_open kl ''zstd'' (reader_of b) = Inr (reader_of nar) \<longrightarrow> de_zstd de b = Some nar)"

lemma send_nar_decoded:
  assumes "decodes de en kl" "url_TransparentZstd v \<Longrightarrow> url_Compression v = ''none'' \<and> kl_open kl ''zstd'' (reader_of r) = Inr (reader_of nar)"
    and "\<not> url_TransparentZstd v \<Longrightarrow> r = nar" "n = - 1 \<or> n = int (length r)"
  shows "\<exists>rp. send_nar en True ae (v, n, Some (reader_of r)) = rp \<and> hr_status rp = 200 \<and> \<not> hr_open rp \<and> decoded de rp = Some nar \<and>
    (hr_ContentLength rp = None \<or> hr_ContentLength rp = Some (int (length (hr_body rp))))"
proof (cases "url_TransparentZstd v")
  case True
  then show ?thesis using assms(1,2)
    by (simp add: send_nar_def selected_encoding_def nar_header_def WriteHeader_def decoded_def decodes_def reader_of_def)
next
  case False
  with assms(1,3,4) show ?thesis
    by (auto simp: send_nar_def selected_encoding_def nar_header_def WriteHeader_def decoded_def decodes_def reader_of_def parseAcceptEncoding_def encode_body_def)
qed

text \<open>The NAR of a URL in a local store: compressed with zstd, or as it is.\<close>

definition nar_on_disk :: "chunk_lib \<Rightarrow> path \<Rightarrow> nar_url \<Rightarrow> bytes \<Rightarrow> file_system \<Rightarrow> bool" where
  "nar_on_disk kl dir u nar f \<longleftrightarrow>
     (case (nar_path dir u, nar_path dir (stored_url u)) of
        (Inr p, Inr q) \<Rightarrow>
          if url_Compression u = ''none'' \<and> nars dir f q \<noteq> None then kl_open kl ''zstd'' (reader_of (the (nars dir f q))) = Inr (reader_of nar)
          else nars dir f p = Some nar
      | _ \<Rightarrow> False)"

lemma transparent_url [simp]:
  "url_String (u\<lparr>url_TransparentZstd := z\<rparr>) = url_String u" "nar_path dir (u\<lparr>url_TransparentZstd := z\<rparr>) = nar_path dir u"
  "stored_url (u\<lparr>url_TransparentZstd := z\<rparr>) = (stored_url u)\<lparr>url_TransparentZstd := z\<rparr>"
proof -
  have "Normalize (u\<lparr>url_TransparentZstd := z\<rparr>) = Normalize u" by (simp add: Normalize_def split: option.split)
  then show "nar_path dir (u\<lparr>url_TransparentZstd := z\<rparr>) = nar_path dir u" by (simp add: nar_path_def)
qed (simp_all add: url_String_def pathWithCompression_def stored_url_def)

lemma transparent_on_disk [simp]: "nar_on_disk kl dir (u\<lparr>url_TransparentZstd := z\<rparr>) nar f = nar_on_disk kl dir u nar f"
  by (simp add: nar_on_disk_def split: sum.split)

lemma request_url_string: "request_url h ext q = Inr u \<Longrightarrow> \<exists>x. url_String u = Inr x"
  by (auto simp: request_url_def CompressionTypeFromExtension_def url_String_def pathWithCompression_def ToFileExtension_def mk_nar_url_def Let_def split: if_splits)

lemma GetNar_on_disk:
  fixes s :: "(file_system, 'c, 'l) cache_state"
  assumes c: "\<not> isCDCEnabled c" "cc_narStore c = local_nar_store dir" "obliging c" "url_String u = Inr x"
    and s: "quiet (cst_db s)" "store_wf dir (cst_store s)" "store_calm dir (cst_store s)" "nar_on_disk (cc_chunkLib c) dir u nar (cst_store s)"
  obtains n r v t where "GetNar c pe envs up u s = (Inr (From_storage n (Some (reader_of r)) v), t)" "n = - 1 \<or> n = int (length r)"
    "url_TransparentZstd v \<Longrightarrow> url_Compression v = ''none'' \<and> kl_open (cc_chunkLib c) ''zstd'' (reader_of r) = Inr (reader_of nar)"
    "\<not> url_TransparentZstd v \<Longrightarrow> r = nar"
proof -
  obtain p q where paths: "nar_path dir u = Inr p" "nar_path dir (stored_url u) = Inr q" using s(4) by (auto simp: nar_on_disk_def split: sum.splits)
  let ?z = "nars dir (cst_store s) q"
  let ?packed = "url_Compression u = ''none'' \<and> ?z \<noteq> None"
  have nar: "if ?packed then kl_open (cc_chunkLib c) ''zstd'' (reader_of (the ?z)) = Inr (reader_of nar) else nars dir (cst_store s) p = Some nar"
    using s(4) paths by (simp add: nar_on_disk_def)
  obtain l where lock: "in_locks (lo_RLock (cc_cacheLocker c) (narJobKey (url_Hash u))) s = (Inr (), s\<lparr>cst_locks := l\<rparr>)" using obliging_locks(3) [OF c(3)] by blast
  let ?s = "s\<lparr>cst_locks := l\<rparr>"
  have "\<exists>n r v t. getNarFromStore c u ?s = (Inr (n, reader_of r, v), t) \<and> url_TransparentZstd v = (?packed \<and> url_TransparentZstd u) \<and>
    url_Compression v \<in> {''none'', url_Compression u} \<and> (if ?packed \<and> url_TransparentZstd u then r = the ?z else r = nar) \<and> (n = - 1 \<or> n = int (length r))"
    by (rule local_nars.getNarFromStore_stored [OF c(2,4), where k = p and kz = q]) (use s(1-3) paths nar in simp_all)
  then obtain n r v t where get: "getNarFromStore c u ?s = (Inr (n, reader_of r, v), t)" "url_TransparentZstd v = (?packed \<and> url_TransparentZstd u)"
    "url_Compression v \<in> {''none'', url_Compression u}" "if ?packed \<and> url_TransparentZstd u then r = the ?z else r = nar" "n = - 1 \<or> n = int (length r)"
    by blast
  have "GetNar_here c (pe_context pe) envs up u ?s = (Inr (Served n (Some (reader_of r)) v), t)"
    by (rule local_nars.GetNar_here_stored [OF c(1,2,4), where kz = q and k = p]) (use s(2,3) paths nar get(1) in \<open>auto split: if_splits\<close>)
  then have "\<exists>t'. GetNar c pe envs up u s = (Inr (From_storage n (Some (reader_of r)) v), t')"
    using c(4) lock by (simp add: GetNar_def withReadLock_def bindE_def liftE_def thenE_def finallyE_def returnE_def)
  then show thesis using that get(2-5) nar by (auto split: if_splits)
qed

section \<open>Reading without downloads\<close>

definition downloads :: "('s, 'c, 'l) cache_state \<Rightarrow> string list \<times> background_job list" where
  "downloads s = (cst_upstreamJobs s, filter (\<lambda>j. case j of PullNarJob _ _ _ _ \<Rightarrow> True | _ \<Rightarrow> False) (cst_background s))"

named_theorems quiet_reads "operations that start no download"

lemma downloads_simps [simp]:
  "downloads (s\<lparr>cst_db := d\<rparr>) = downloads s" "downloads (s\<lparr>cst_store := f\<rparr>) = downloads s" "downloads (s\<lparr>cst_chunks := k\<rparr>) = downloads s"
  "downloads (s\<lparr>cst_locks := l\<rparr>) = downloads s"
  by (simp_all add: downloads_def)

lemma downloads_parts [quiet_reads]:
  "keeps (\<lambda>s. downloads s = D) (in_db m)" "keeps (\<lambda>s. downloads s = D) (in_store n)"
  "keeps (\<lambda>s. downloads s = D) (in_chunks k)" "keeps (\<lambda>s. downloads s = D) (in_locks l)"
  by (auto simp: keeps_def in_db_def in_store_def in_chunks_def in_locks_def split: prod.split)

lemma downloads_spawn [quiet_reads]: "keeps (\<lambda>s. downloads s = D) (maybeBackgroundMigrateNarToChunks c u)" "keeps (\<lambda>s. downloads s = D) (backgroundMigrateNarInfo h n)"
  unfolding maybeBackgroundMigrateNarToChunks_def BackgroundMigrateNarToChunks_def backgroundMigrateNarInfo_def spawn_def
  by (intro keeps_intros keeps_modifyE; simp add: downloads_def)+

lemma downloads_transaction [quiet_reads]:
  fixes fn :: "(('s, 'c, 'l) cache_state, 'a) prog"
  assumes "keeps (\<lambda>s. downloads s = D) fn"
  shows "keeps (\<lambda>s. downloads s = D) (withTransaction fn)"
proof -
  have aon: "keeps (\<lambda>s. downloads s = D) (all_or_nothing m)" if "keeps (\<lambda>s. downloads s = D) m" for m :: "(('s, 'c, 'l) cache_state, 'a) prog"
    using that by (auto simp: keeps_def all_or_nothing_def split: prod.split sum.split)
  have "keeps (\<lambda>s. downloads s = D) (executeTransaction fn)"
    unfolding executeTransaction_def by (intro keeps_intros aon quiet_reads assms)
  then have "keeps (\<lambda>s. downloads s = D) (attempts k fn)" for k
    by (induction k) (auto intro!: keeps_intros quiet_reads)
  then show ?thesis unfolding withTransaction_def .
qed

lemma downloads_locked [quiet_reads]:
  "keeps (\<lambda>s. downloads s = D) (isRemoteDownloadInProgress c h)" "keeps (\<lambda>s. downloads s = D) (hasUpstreamJob h)"
  "keeps (\<lambda>s. downloads s = D) fn \<Longrightarrow> keeps (\<lambda>s. downloads s = D) (withReadLock c key fn)"
  unfolding withReadLock_def isRemoteDownloadInProgress_def hasUpstreamJob_def
  by (auto intro!: keeps_intros quiet_reads split: sum.split bool.split)

lemma downloads_presence [quiet_reads]:
  "keeps (\<lambda>s. downloads s = D) (HasNarInStore c u)" "keeps (\<lambda>s. downloads s = D) (HasNarInChunks c u)" "keeps (\<lambda>s. downloads s = D) (HasNarFileRecord c u)"
  "keeps (\<lambda>s. downloads s = D) (GetNarFileSize c u)" "keeps (\<lambda>s. downloads s = D) (chunking_elsewhere c u)"
  unfolding HasNarInStore_def HasNarInChunks_def HasNarFileRecord_def GetNarFileSize_def chunking_elsewhere_def Let_def by (intro keeps_intros quiet_reads)+

lemma downloads_narinfo [quiet_reads]: "keeps (\<lambda>s. downloads s = D) (purgeNarInfo c h u)"
  "keeps (\<lambda>s. downloads s = D) (getNarInfoFromDatabase c h)" "keeps (\<lambda>s. downloads s = D) (getNarInfoFromStore c h)"
proof -
  show purge: "keeps (\<lambda>s. downloads s = D) (purgeNarInfo c h u)" for u
    unfolding purgeNarInfo_def deleteNarInfoFromStore_def deleteNarFromStore_def by (intro keeps_intros quiet_reads)
  show "keeps (\<lambda>s. downloads s = D) (getNarInfoFromDatabase c h)" "keeps (\<lambda>s. downloads s = D) (getNarInfoFromStore c h)"
    unfolding getNarInfoFromDatabase_def getNarInfoFromStore_def by (intro keeps_intros quiet_reads purge)+
qed

text \<open>What runs meanwhile does not count: its steps start no downloads.\<close>

definition aside :: "string list \<times> background_job list \<Rightarrow> (('s, 'c, 'l) cache_state \<Rightarrow> ('s, 'c, 'l) cache_state) \<Rightarrow> bool" where
  "aside D f \<longleftrightarrow> (\<forall>s. downloads s = D \<longrightarrow> downloads (f s) = D)"

lemma downloads_GetNarInfo:
  assumes "aside D (pe_others pe)"
  shows "keeps (\<lambda>s. downloads s = D) (GetNarInfo c pe True h)"
proof -
  have wait: "keeps (\<lambda>s. downloads s = D) (wait_others pe)"
    unfolding wait_others_def by (intro keeps_intros keeps_modifyE quiet_reads) (use assms in \<open>simp add: aside_def\<close>)
  have "keeps (\<lambda>s. downloads s = D) (retry_database c pe h e n)" for e n
    by (induction n) (auto intro!: keeps_intros quiet_reads wait split: sum.split)
  then have "keeps (\<lambda>s. downloads s = D) (handleStorageFetchError c pe h e)" for e
    unfolding handleStorageFetchError_def wait_for_writers_def by (intro keeps_intros quiet_reads)
  moreover have "keeps (\<lambda>s. downloads s = D) (pull_or_miss c pe True h)" by (simp add: pull_or_miss_def keeps_raiseE)
  ultimately show ?thesis unfolding GetNarInfo_def by (intro keeps_intros quiet_reads)
qed

lemma downloads_chunks:
  assumes "\<forall>env \<in> set envs. aside D env"
  shows "keeps (\<lambda>s. downloads s = D) (getNarFromChunks c cx envs u)"
proof -
  have stream: "keeps (\<lambda>s. downloads s = D) (streamChunksWithPrefetch cs raw hs cx)" "keeps (\<lambda>s. downloads s = D) (feed_chunks cs raw hs cx)" for cs raw hs cx
    unfolding fetch_chunk_def
    by (induction hs arbitrary: cx) (auto intro!: keeps_intros quiet_reads simp: fetch_chunk_def split: sum.split option.split)
  have step: "keeps (\<lambda>s. downloads s = D) (stream_step_at cs raw i st)" for cs raw i st
    unfolding stream_step_at_def stream_query_def feed_batch_def looking_def Let_def by (cases "ss_point st") (auto intro!: keeps_intros quiet_reads stream)
  have "keeps (\<lambda>s. downloads s = D) (run_stream cs raw j envs st)" for cs raw j st
    using assms
  proof (induction envs arbitrary: st)
    case (Cons env envs)
    then have "keeps (\<lambda>s. downloads s = D) (modifyE env)" by (intro keeps_modifyE) (simp add: aside_def)
    with Cons show ?case by (auto intro!: keeps_intros step split: stream_step.split)
  qed (simp add: keeps_returnE)
  then show ?thesis
    unfolding getNarFromChunks_def streamProgressiveChunks_def streamCompleteChunks_def init_chunk_stream_def
    by (auto intro!: keeps_intros quiet_reads stream split: bool.split option.split)
qed

lemma downloads_GetNar:
  assumes "\<forall>env \<in> set envs. aside D env"
  shows "keeps (\<lambda>s. downloads s = D) (GetNar c pe envs True u)"
proof -
  have store: "keeps (\<lambda>s. downloads s = D) (getNarFromStore c u)"
    unfolding getNarFromStore_def ensureNarFileRecord_def Let_def by (intro keeps_intros quiet_reads)
  have here: "keeps (\<lambda>s. downloads s = D) (GetNar_here c cx envs True u)" for cx
    unfolding GetNar_here_def serveNarFromStorageViaPipe_def by (intro keeps_intros quiet_reads store downloads_chunks assms)
  have served: "a \<noteq> Pull" if "GetNar_here c cx envs True u s = (Inr a, t)" for cx s a t
    using that by (auto simp: GetNar_here_def bindE_def thenE_def returnE_def raiseE_def split: if_splits prod.splits sum.splits)
  show ?thesis
    unfolding GetNar_def
    by (rule keeps_bindE [OF keeps_liftE], rule downloads_locked, rule keeps_bindE_results [OF here])
      (auto dest!: served intro!: keeps_intros split: nar_answer.split)
qed

section \<open>Properties\<close>

text \<open>C20. A GET of a NAR that the local store has is answered with 200 and a body that the client decodes, by the content encoding of the reply, to exactly the bytes of the NAR,
  whatever encodings the client accepts and whether the store keeps the NAR compressed or not. A content length, when one is sent, is that of the body.\<close>

theorem nar_request_served:
  fixes s :: "(file_system, 'c, 'l) cache_state"
  assumes "\<not> isCDCEnabled c" "cc_narStore c = local_nar_store dir" "obliging c"
    and "quiet (cst_db s)" "store_wf dir (cst_store s)" "store_calm dir (cst_store s)"
    and "request_url h ext q = Inr u" "nar_on_disk (cc_chunkLib c) dir u nar (cst_store s)" "decodes de (se_encoders se) (cc_chunkLib c)"
  shows "\<exists>rp t. ServeHTTP sv c se \<lparr>sq_verb = V_get, sq_upload = upload, sq_route = R_nar h ext, sq_rawQuery = q, sq_AcceptEncoding = ae, sq_body = body\<rparr> s = (Inr rp, t) \<and>
    hr_status rp = 200 \<and> \<not> hr_open rp \<and> decoded de rp = Some nar \<and> (hr_ContentLength rp = None \<or> hr_ContentLength rp = Some (int (length (hr_body rp))))"
proof -
  let ?u = "u\<lparr>url_TransparentZstd := url_Compression u = ''none'' \<and> ''zstd'' \<in> set (accepted ae)\<rparr>"
  obtain x where "url_String ?u = Inr x" using request_url_string [OF assms(7)] by auto
  then obtain n r v t where get: "GetNar c (pull_env.truncate se) (se_between se) upload ?u s = (Inr (From_storage n (Some (reader_of r)) v), t)" "n = - 1 \<or> n = int (length r)"
    "url_TransparentZstd v \<Longrightarrow> url_Compression v = ''none'' \<and> kl_open (cc_chunkLib c) ''zstd'' (reader_of r) = Inr (reader_of nar)" "\<not> url_TransparentZstd v \<Longrightarrow> r = nar"
    using GetNar_on_disk [OF assms(1-3), where u = ?u and s = s and nar = nar] assms(4-6,8) by (metis transparent_on_disk)
  then show ?thesis
    using send_nar_decoded [OF assms(9) get(3,4,2)] assms(7)
    by (simp add: ServeHTTP_def withNarURL_def getNar_def fetch_nar_def bindE_def attemptE_def returnE_def nar_result_def Let_def)
qed

text \<open>Without the permission to upload, no PUT changes anything, and without the permission to delete, no DELETE of a narinfo or a NAR does: the client gets 405, or 400
  for an extension that is not known.\<close>

theorem serve_guarded:
  assumes "sq_verb rq = V_put \<and> \<not> sv_putPermitted sv \<or> sq_verb rq = V_delete \<and> \<not> sv_deletePermitted sv \<and> (\<forall>h. sq_route rq \<noteq> R_pin h)"
  shows "\<exists>rp. ServeHTTP sv c se rq s = (Inr rp, s) \<and> hr_status rp \<in> {400, 405}"
  using assms
  by (auto simp: ServeHTTP_def Let_def putNarInfo_def putNar_def deleteNarInfo_def deleteNar_def withNarURL_def returnE_def http_Error_def split: route.split sum.split)

text \<open>C34. A GET or HEAD below \<open>/upload\<close> starts no download: neither a tracked job nor a background job of a NAR is added, whatever the cache is missing.\<close>

theorem upload_reads_pull_nothing:
  assumes "sq_upload rq" "sq_verb rq = V_get \<or> sq_verb rq = V_head"
    and "aside (downloads s) (pe_others se)" "\<forall>env \<in> set (se_between se). aside (downloads s) env"
  shows "downloads (snd (ServeHTTP sv c se rq s)) = downloads s"
proof -
  let ?P = "\<lambda>t. downloads t = downloads s" and ?pe = "pull_env.truncate se"
  have others: "aside (downloads s) (pe_others ?pe)" using assms(3) by (simp add: pull_env.truncate_def)
  have nar: "keeps ?P (getNar c ?pe (se_between se) en stream withBody True ae u)" for en stream withBody ae u
    unfolding getNar_def fetch_nar_def Let_def
    by (auto intro!: keeps_intros quiet_reads downloads_GetNar [OF assms(4)] split: sum.split)
  have narinfo: "keeps ?P (getNarInfo c ?pe Str withBody True h)" for Str withBody h
    unfolding getNarInfo_def by (intro keeps_intros downloads_GetNarInfo others)
  have "keeps ?P (ServeHTTP sv c se rq)"
    using assms(1,2)
    by (auto simp: ServeHTTP_def Let_def withNarURL_def intro!: keeps_intros nar narinfo split: route.split sum.split)
  then show ?thesis by (rule keepsD) simp
qed


text \<open>A stream that fails half way is a complete reply to the client.\<close>

lemma truncated_stream_looks_complete:
  assumes "url_Compression u = ''none'' \<or> \<not> url_TransparentZstd u"
  shows "send_nar en True ae (u, - 1, Some \<lparr>rd_data = b, rd_err = Some e\<rparr>) = send_nar en True ae (u, - 1, Some (reader_of b))"
  using assms by (simp add: send_nar_def reader_of_def split: prod.split)

lemma nixCacheInfo_parses:
  "nci_Parse nixCacheInfo = Inr \<lparr>nci_StoreDir = ''/nix/store'', nci_WantMassQuery = 1, nci_Priority = 10\<rparr>"
proof -
  have "nixCacheInfo = nci_print \<lparr>nci_StoreDir = ''/nix/store'', nci_WantMassQuery = 1, nci_Priority = 10\<rparr>"
    by (simp add: nixCacheInfo_def nci_print_def show_nat.simps) code_simp
  then show ?thesis using nci_Parse_print [of "\<lparr>nci_StoreDir = ''/nix/store'', nci_WantMassQuery = 1, nci_Priority = 10\<rparr>"] by simp
qed

section \<open>Examples\<close>

definition demo_encoders :: encoders where
  "demo_encoders = \<lparr>en_zstd = (\<lambda>b. CHR ''z'' # b), en_br = (\<lambda>b. CHR ''b'' # b), en_gzip = (\<lambda>b. CHR ''g'' # b)\<rparr>"

definition demo_decoders :: decoders where
  "demo_decoders =
     (let open = (\<lambda>b. case b of [] \<Rightarrow> None | _ # d \<Rightarrow> Some d) in \<lparr>de_zstd = open, de_br = open, de_gzip = open\<rparr>)"

definition demo_server_env :: "('s, 'c, 'l) pull_env \<Rightarrow> ('s, 'c, 'l) server_env" where
  "demo_server_env pe = pull_env.extend pe
     \<lparr>se_encoders = demo_encoders, se_codec = \<lparr>nc_String = n_StorePath, nc_Parse = (\<lambda>_. Inl ErrNarInfoParse)\<rparr>, se_stream = (reader_of [], ''none''), se_between = [],
      se_copy = Inr\<rparr>"

definition demo_get :: "bool \<Rightarrow> route \<Rightarrow> string \<Rightarrow> server_request" where
  "demo_get upload r ae = \<lparr>sq_verb = V_get, sq_upload = upload, sq_route = r, sq_rawQuery = [], sq_AcceptEncoding = ae, sq_body = reader_of []\<rparr>"

definition demo_closed :: server_conf where
  "demo_closed = \<lparr>sv_deletePermitted = False, sv_putPermitted = False\<rparr>"

lemma demo_decodes: "decodes demo_decoders demo_encoders demo_zstd_lib"
  by (auto simp: decodes_def demo_decoders_def demo_encoders_def demo_zstd_lib_def reader_of_def Let_def split: list.splits)

theorem nar_request_served_witness:
  "\<exists>f rp t. ServeHTTP demo_closed demo_disk_conf (demo_server_env demo_env) (demo_get False (R_nar plain_hash []) ''gzip, zstd'') (demo_disk f) = (Inr rp, t) \<and>
     hr_status rp = 200 \<and> decoded demo_decoders rp = Some ''abc''"
proof -
  have u: "request_url plain_hash [] [] = Inr demo_nar"
    by (simp add: request_url_def CompressionTypeFromExtension_def demo_nar_def)
  obtain p q where p: "nar_path [] demo_nar = Inr p" "nar_path [] (stored_url demo_nar) = Inr q" using demo_stored by blast
  obtain f where f: "ns_PutNar (local_nar_store []) (stored_url demo_nar) (reader_of ''zabc'') (small_store []) = (Inr (length ''zabc''), f)"
    "store_wf [] f" "store_calm [] f" "nars [] f q = Some ''zabc''"
    by (rule local_nars.put_new [OF small_store_wf small_store_calm p(2) small_store_empty])
  have "nar_on_disk (cc_chunkLib demo_disk_conf) [] demo_nar ''abc'' f"
    using p f(4) by (simp add: nar_on_disk_def demo_disk_conf_def demo_zstd_lib_def reader_of_def demo_nar_def mk_nar_url_def)
  moreover have "decodes demo_decoders (se_encoders (demo_server_env demo_env)) (cc_chunkLib demo_disk_conf)"
    using demo_decodes by (simp add: demo_server_env_def demo_disk_conf_def pull_env.extend_def)
  moreover have "\<not> isCDCEnabled demo_disk_conf" "cc_narStore demo_disk_conf = local_nar_store []" by (simp_all add: demo_disk_conf_def isCDCEnabled_def)
  ultimately show ?thesis
    using nar_request_served [OF _ _ demo_obliging(2) demo_disk_quiet(1) _ _ u, of "[]" f "''abc''" demo_decoders "demo_server_env demo_env"] f(2,3)
    unfolding demo_get_def demo_disk_quiet(2) by blast
qed

theorem serve_guarded_witness:
  "\<exists>rp. ServeHTTP demo_closed demo_disk_conf (demo_server_env demo_env) ((demo_get True (R_narinfo ''h'') [])\<lparr>sq_verb := V_put\<rparr>) (demo_disk (small_store [])) =
     (Inr rp, demo_disk (small_store [])) \<and> hr_status rp \<in> {400, 405}"
  by (rule serve_guarded) (simp add: demo_closed_def demo_get_def)

theorem upload_reads_pull_nothing_witness:
  "downloads (snd (ServeHTTP demo_closed demo_disk_conf (demo_server_env demo_env) (demo_get True (R_nar plain_hash ''xz'') []) (demo_disk (small_store [])))) =
   downloads (demo_disk (small_store []))"
  by (rule upload_reads_pull_nothing) (simp_all add: demo_get_def aside_def demo_server_env_def demo_env_def pull_env.extend_def)






end
