(* ===== verification/Download_State.thy ===== *)
theory Download_State
  imports Ncps_Prelude "HOL-Library.Sublist"
begin

text \<open>
  One download of a NAR and the goroutines that share it (\<open>pkg/cache/cache.go\<close>): the downloader of \<open>pullNarIntoStore\<close> with
  \<open>streamReaderToFile\<close>, the clients that \<open>GetNar\<close> streams the temporary file to while it grows, the goroutine that chunks it through
  a \<open>fileAvailableReader\<close>, and the goroutine that removes it. They meet in a \<open>downloadState\<close>: its mutex makes a section under the lock one
  step, its condition variable parks a goroutine until the next \<open>Broadcast\<close>, and its three channels are flags that are set once.
\<close>

section \<open>The shared state\<close>

text \<open>
  \<open>ds_file\<close> is the content of the temporary file and \<open>ds_temp\<close> whether it exists; \<open>ds_chunking\<close> tells that the goroutine of chunking was started
  (\<open>keepJobAlive\<close>).
\<close>

record download_state =
  ds_file :: bytes
  ds_temp :: bool
  ds_bytesWritten :: nat
  ds_finalSize :: nat
  ds_downloadError :: "err option"
  ds_start :: bool
  ds_stored :: bool
  ds_done :: bool
  ds_closed :: bool
  ds_chunking :: bool

definition newDownloadState :: download_state where
  "newDownloadState =
     \<lparr>ds_file = [], ds_temp = False, ds_bytesWritten = 0, ds_finalSize = 0, ds_downloadError = None, ds_start = False, ds_stored = False,
      ds_done = False, ds_closed = False, ds_chunking = False\<rparr>"

definition setError :: "err \<Rightarrow> download_state \<Rightarrow> download_state" where
  "setError e ds = ds\<lparr>ds_downloadError := Some e\<rparr>"

definition getError :: "download_state \<Rightarrow> err option" where
  "getError ds = ds_downloadError ds"

section \<open>The downloader\<close>

text \<open>
  Where the downloader stands: before the request to the upstream, at a \<open>Read\<close> with the pieces of the body still to come, after a \<open>Write\<close>,
  before a \<open>Broadcast\<close>, after the end of the body, before storing the file, before \<open>setError\<close>, and in its deferred function.
\<close>

datatype dl_pc =
    Dl_Open
  | Dl_Read "bytes list"
  | Dl_Wrote "bytes list" nat
  | Dl_Notify "bytes list"
  | Dl_Finished
  | Dl_Store
  | Dl_Fail err
  | Dl_Leave
  | Dl_Left
  | Dl_End

text \<open>
  \<open>streamReaderToFile\<close>: the body comes in pieces and then ends, or fails with an error. The flag of a step tells whether it broadcasts.
\<close>

inductive streamReaderToFile ::
  "err option \<Rightarrow> download_state \<Rightarrow> dl_pc \<Rightarrow> bool \<Rightarrow> download_state \<Rightarrow> dl_pc \<Rightarrow> bool" for fail where
  written: "streamReaderToFile fail ds (Dl_Read (p # ps)) False (ds\<lparr>ds_file := ds_file ds @ p\<rparr>) (Dl_Wrote ps (length p))"
| write_fails: "streamReaderToFile fail ds (Dl_Read (p # ps)) False (ds\<lparr>ds_file := ds_file ds @ take k p\<rparr>) (Dl_Fail ErrIO)"
| update: "streamReaderToFile fail ds (Dl_Wrote ps n) False (ds\<lparr>ds_bytesWritten := ds_bytesWritten ds + n\<rparr>) (Dl_Notify ps)"
| notify: "streamReaderToFile fail ds (Dl_Notify ps) True ds (Dl_Read ps)"
| finish: "fail = None \<Longrightarrow> streamReaderToFile fail ds (Dl_Read []) False (ds\<lparr>ds_finalSize := ds_bytesWritten ds\<rparr>) Dl_Finished"
| body_fails: "fail = Some e \<Longrightarrow> streamReaderToFile fail ds (Dl_Read []) False ds (Dl_Fail e)"

text \<open>
  \<open>pullNarIntoStore\<close>: with \<open>cdc\<close> the goroutine of chunking is started as soon as the temporary file exists, and closes \<open>done\<close> when it ends;
  otherwise the file is stored when the body has ended.
\<close>

inductive pullNarIntoStore ::
  "bool \<Rightarrow> bytes list \<Rightarrow> err option \<Rightarrow> download_state \<Rightarrow> dl_pc \<Rightarrow> bool \<Rightarrow> download_state \<Rightarrow> dl_pc \<Rightarrow> bool" for cdc body fail where
  opened: "pullNarIntoStore cdc body fail ds Dl_Open False (ds\<lparr>ds_temp := True, ds_start := True, ds_chunking := cdc\<rparr>) (Dl_Read body)"
| open_fails: "pullNarIntoStore cdc body fail ds Dl_Open False ds (Dl_Fail e)"
| streams: "streamReaderToFile fail ds d b ds' d' \<Longrightarrow> pullNarIntoStore cdc body fail ds d b ds' d'"
| final_notify: "pullNarIntoStore cdc body fail ds Dl_Finished True ds (if cdc then Dl_Leave else Dl_Store)"
| store: "pullNarIntoStore cdc body fail ds Dl_Store False (ds\<lparr>ds_stored := True\<rparr>) Dl_Leave"
| store_fails: "pullNarIntoStore cdc body fail ds Dl_Store False ds (Dl_Fail e)"
| set_error: "pullNarIntoStore cdc body fail ds (Dl_Fail e) False (setError e ds) Dl_Leave"
| leave: "pullNarIntoStore cdc body fail ds Dl_Leave False
    (ds\<lparr>ds_start := True, ds_done := ds_done ds \<or> \<not> ds_chunking ds\<rparr>) Dl_Left"
| last_notify: "pullNarIntoStore cdc body fail ds Dl_Left True ds Dl_End"

section \<open>The readers\<close>

text \<open>
  A client of \<open>GetNar\<close>, or the goroutine of chunking. \<open>sr_sent\<close> is what the client was sent, or what the chunker has read. An \<open>ending\<close> is
  \<open>Completed\<close>; \<open>Reported\<close> when the error is returned; \<open>Cut\<close> when the streaming goroutine leaves because of an error of the download;
  \<open>Gone\<close> when the client has gone while it was sent the NAR, \<open>Cancelled\<close> when it has before the download started; \<open>Broken\<close> when the temporary file cannot be opened or
  read, with the client still there; \<open>FromStorage\<close> when the NAR is served from the store instead.
\<close>

datatype reader_kind = Streamer | Chunker

datatype ending = Completed | Reported err | Cut err | Gone | Cancelled | Broken | FromStorage

datatype reader_pc =
    R_new
  | R_start
  | R_check
  | R_waiting
  | R_woken
  | R_copy nat bool
  | R_drain
  | R_leave ending
  | R_left ending
  | R_end ending

record stream_reader =
  sr_kind :: reader_kind
  sr_sent :: bytes
  sr_pc :: reader_pc

text \<open>The section under the lock at the head of the streaming loop: park, or copy what is there.\<close>

definition stream_check :: "download_state \<Rightarrow> bytes \<Rightarrow> reader_pc" where
  "stream_check ds sent =
     (if length sent \<ge> ds_bytesWritten ds \<and> ds_finalSize ds = 0 then R_waiting
      else R_copy (ds_bytesWritten ds - length sent) (ds_finalSize ds \<noteq> 0))"

text \<open>After \<open>cond.Wait\<close> returns, the error is looked at first.\<close>

definition stream_woken :: "download_state \<Rightarrow> bytes \<Rightarrow> reader_pc" where
  "stream_woken ds sent = (case ds_downloadError ds of Some e \<Rightarrow> R_end (Cut e) | None \<Rightarrow> stream_check ds sent)"

definition copied :: "download_state \<Rightarrow> bytes \<Rightarrow> nat \<Rightarrow> bytes" where
  "copied ds sent n = sent @ take n (drop (length sent) (ds_file ds))"

definition stream_copied :: "download_state \<Rightarrow> bool \<Rightarrow> bytes \<Rightarrow> reader_pc" where
  "stream_copied ds complete sent = (if complete \<and> length sent \<ge> ds_finalSize ds then R_drain else R_check)"

inductive GetNar_stream :: "download_state \<Rightarrow> stream_reader \<Rightarrow> stream_reader \<Rightarrow> bool" where
  join: "sr_pc r = R_new \<Longrightarrow> \<not> ds_closed ds \<Longrightarrow> GetNar_stream ds r (r\<lparr>sr_pc := R_start\<rparr>)"
| storage: "sr_pc r = R_new \<Longrightarrow> GetNar_stream ds r (r\<lparr>sr_pc := R_end FromStorage\<rparr>)"
| started: "sr_pc r = R_start \<Longrightarrow> ds_start ds \<Longrightarrow>
    GetNar_stream ds r (r\<lparr>sr_pc := (case getError ds of Some e \<Rightarrow> R_end (Reported e) | None \<Rightarrow> R_check)\<rparr>)"
| cancelled: "sr_pc r = R_start \<Longrightarrow> GetNar_stream ds r (r\<lparr>sr_pc := R_end Cancelled\<rparr>)"
| check: "sr_pc r = R_check \<Longrightarrow> GetNar_stream ds r (r\<lparr>sr_pc := stream_check ds (sr_sent r)\<rparr>)"
| woken: "sr_pc r = R_woken \<Longrightarrow> GetNar_stream ds r (r\<lparr>sr_pc := stream_woken ds (sr_sent r)\<rparr>)"
| file_fails: "sr_pc r = R_check \<or> sr_pc r = R_woken \<and> getError ds = None \<Longrightarrow> sr_sent r = [] \<Longrightarrow> stream_check ds [] \<noteq> R_waiting \<Longrightarrow>
    GetNar_stream ds r (r\<lparr>sr_pc := R_end Broken\<rparr>)"
| copy: "sr_pc r = R_copy n complete \<Longrightarrow>
    GetNar_stream ds r (r\<lparr>sr_sent := copied ds (sr_sent r) n, sr_pc := stream_copied ds complete (copied ds (sr_sent r) n)\<rparr>)"
| copy_fails: "sr_pc r = R_copy n complete \<Longrightarrow> 0 < n \<Longrightarrow> k \<le> n \<Longrightarrow> e = Gone \<or> e = Broken \<Longrightarrow>
    GetNar_stream ds r (r\<lparr>sr_sent := copied ds (sr_sent r) k, sr_pc := R_end e\<rparr>)"
| drain: "sr_pc r = R_drain \<Longrightarrow> ds_stored ds \<or> ds_done ds \<Longrightarrow> GetNar_stream ds r (r\<lparr>sr_pc := R_end Completed\<rparr>)"

text \<open>\<open>fileAvailableReader.Read\<close>, up to the read from the file.\<close>

definition available_check :: "download_state \<Rightarrow> bytes \<Rightarrow> reader_pc" where
  "available_check ds offset =
     (if length offset \<ge> ds_bytesWritten ds \<and> ds_finalSize ds = 0 \<and> ds_downloadError ds = None then R_waiting
      else case ds_downloadError ds of
        Some e \<Rightarrow> R_leave (Reported e)
      | None \<Rightarrow>
          if ds_finalSize ds \<noteq> 0 \<and> length offset \<ge> ds_finalSize ds then R_leave Completed
          else R_copy (ds_bytesWritten ds - length offset) False)"

text \<open>
  The goroutine of chunking: it signals \<open>stored\<close> once the record of the NAR is there, reads the file to its end, and may fail for reasons of its own. Its
  deferred functions set the error, close \<open>done\<close> and broadcast.
\<close>

inductive chunk_goroutine :: "download_state \<Rightarrow> stream_reader \<Rightarrow> bool \<Rightarrow> download_state \<Rightarrow> stream_reader \<Rightarrow> bool" where
  claimed: "sr_pc r = R_new \<Longrightarrow> ds_chunking ds \<Longrightarrow> chunk_goroutine ds r False (ds\<lparr>ds_stored := True\<rparr>) (r\<lparr>sr_pc := R_check\<rparr>)"
| fails: "sr_pc r = R_new \<and> ds_chunking ds \<or> sr_pc r = R_check \<or> sr_pc r = R_woken \<Longrightarrow>
    chunk_goroutine ds r False ds (r\<lparr>sr_pc := R_leave (Reported e)\<rparr>)"
| available: "sr_pc r = R_check \<or> sr_pc r = R_woken \<Longrightarrow>
    chunk_goroutine ds r False ds (r\<lparr>sr_pc := available_check ds (sr_sent r)\<rparr>)"
| read: "sr_pc r = R_copy n complete \<Longrightarrow> 0 < k \<Longrightarrow> k \<le> n \<Longrightarrow>
    chunk_goroutine ds r False ds (r\<lparr>sr_sent := copied ds (sr_sent r) k, sr_pc := R_check\<rparr>)"
| closing: "sr_pc r = R_leave e \<Longrightarrow>
    chunk_goroutine ds r False ((case e of Reported x \<Rightarrow> setError x ds | _ \<Rightarrow> ds)\<lparr>ds_done := True\<rparr>) (r\<lparr>sr_pc := R_left e\<rparr>)"
| notifying: "sr_pc r = R_left e \<Longrightarrow> chunk_goroutine ds r True ds (r\<lparr>sr_pc := R_end e\<rparr>)"

section \<open>All of them together\<close>

type_synonym download_system = "download_state \<times> dl_pc \<times> stream_reader list"

definition wake :: "stream_reader \<Rightarrow> stream_reader" where
  "wake r = (if sr_pc r = R_waiting then r\<lparr>sr_pc := R_woken\<rparr> else r)"

definition Broadcast :: "bool \<Rightarrow> stream_reader list \<Rightarrow> stream_reader list" where
  "Broadcast b rs = (if b then map wake rs else rs)"

text \<open>A reader holds the temporary file while it is counted in \<open>ds.wg\<close>. A client is counted from where it joins, and no more when its streaming goroutine ends; the two returns of
  \<open>GetNar\<close> before that goroutine exists leave it counted for good.\<close>

definition using_file :: "stream_reader \<Rightarrow> bool" where
  "using_file r =
     (case sr_pc r of
        R_new \<Rightarrow> False | R_leave _ \<Rightarrow> False | R_left _ \<Rightarrow> False
      | R_end e \<Rightarrow> sr_kind r = Streamer \<and> (case e of Reported _ \<Rightarrow> True | Cancelled \<Rightarrow> True | _ \<Rightarrow> False)
      | _ \<Rightarrow> True)"

text \<open>
  The step of any goroutine. The last two are those of the goroutine that cleans up: it waits for the downloader and the chunker, forbids new
  readers, waits for the readers and removes the file.
\<close>

inductive download_step :: "bool \<Rightarrow> bytes list \<Rightarrow> err option \<Rightarrow> download_system \<Rightarrow> download_system \<Rightarrow> bool" for cdc body fail where
  download: "pullNarIntoStore cdc body fail ds d b ds' d' \<Longrightarrow> download_step cdc body fail (ds, d, rs) (ds', d', Broadcast b rs)"
| stream: "i < length rs \<Longrightarrow> sr_kind (rs ! i) = Streamer \<Longrightarrow> GetNar_stream ds (rs ! i) r \<Longrightarrow>
    download_step cdc body fail (ds, d, rs) (ds, d, rs[i := r])"
| chunk: "i < length rs \<Longrightarrow> sr_kind (rs ! i) = Chunker \<Longrightarrow> chunk_goroutine ds (rs ! i) b ds' r \<Longrightarrow>
    download_step cdc body fail (ds, d, rs) (ds', d, Broadcast b (rs[i := r]))"
| close: "ds_temp ds \<Longrightarrow> \<not> ds_closed ds \<Longrightarrow> \<forall>r \<in> set rs. sr_kind r = Chunker \<and> ds_chunking ds \<longrightarrow> sr_pc r \<noteq> R_new \<and> \<not> using_file r \<Longrightarrow>
    download_step cdc body fail (ds, Dl_End, rs) (ds\<lparr>ds_closed := True\<rparr>, Dl_End, rs)"
| remove: "ds_temp ds \<Longrightarrow> ds_closed ds \<Longrightarrow> \<forall>r \<in> set rs. \<not> using_file r \<Longrightarrow>
    download_step cdc body fail (ds, d, rs) (ds\<lparr>ds_temp := False\<rparr>, d, rs)"

definition new_reader :: "reader_kind \<Rightarrow> stream_reader" where
  "new_reader k = \<lparr>sr_kind = k, sr_sent = [], sr_pc = R_new\<rparr>"

text \<open>A new download with \<open>n\<close> clients, which may come at any time.\<close>

definition new_download :: "bool \<Rightarrow> nat \<Rightarrow> download_system" where
  "new_download cdc n = (newDownloadState, Dl_Open, (if cdc then [new_reader Chunker] else []) @ replicate n (new_reader Streamer))"

inductive download_reachable :: "bool \<Rightarrow> bytes list \<Rightarrow> err option \<Rightarrow> nat \<Rightarrow> download_system \<Rightarrow> bool" for cdc body fail n where
  init: "download_reachable cdc body fail n (new_download cdc n)"
| step: "download_reachable cdc body fail n s \<Longrightarrow> download_step cdc body fail s t \<Longrightarrow> download_reachable cdc body fail n t"

text \<open>What the client of a streaming goroutine sees: its writer is closed without an error on every way out.\<close>

definition client_body :: "stream_reader \<Rightarrow> bytes option" where
  "client_body r =
     (case sr_pc r of R_end e \<Rightarrow> (case e of Completed \<Rightarrow> Some (sr_sent r) | Cut _ \<Rightarrow> Some (sr_sent r) | Gone \<Rightarrow> Some (sr_sent r) | Broken \<Rightarrow> Some (sr_sent r) | _ \<Rightarrow> None) | _ \<Rightarrow> None)"

section \<open>The invariant\<close>

text \<open>
  The file is a prefix of the body; what was announced is in the file; a final size is that of the whole body, and a download that left without an
  error has set it. A new reader finds the file while it may join.
\<close>

definition sized :: "bytes \<Rightarrow> download_state \<Rightarrow> bool" where
  "sized nar ds \<longleftrightarrow> (ds_finalSize ds \<noteq> 0 \<longrightarrow> ds_bytesWritten ds = ds_finalSize ds \<and> length nar = ds_finalSize ds \<and> ds_file ds = nar)"

definition whole :: "bytes \<Rightarrow> download_state \<Rightarrow> bool" where
  "whole nar ds \<longleftrightarrow> ds_finalSize ds = length nar"

definition dl_ok :: "bytes \<Rightarrow> download_state \<Rightarrow> dl_pc \<Rightarrow> bool" where
  "dl_ok nar ds d \<longleftrightarrow>
     prefix (ds_file ds) nar \<and> ds_bytesWritten ds \<le> length (ds_file ds) \<and>
     sized nar ds \<and>
     (ds_start ds \<and> ds_downloadError ds = None \<and> \<not> ds_closed ds \<longrightarrow> ds_temp ds) \<and>
     (ds_chunking ds \<and> \<not> ds_closed ds \<longrightarrow> ds_temp ds) \<and> (d \<noteq> Dl_End \<longrightarrow> \<not> ds_closed ds) \<and>
     (case d of
        Dl_Open \<Rightarrow> ds_file ds = [] \<and> ds_bytesWritten ds = 0 \<and> ds_finalSize ds = 0
      | Dl_Read ps \<Rightarrow> ds_temp ds \<and> ds_file ds @ concat ps = nar \<and> ds_bytesWritten ds = length (ds_file ds) \<and> ds_finalSize ds = 0
      | Dl_Wrote ps n \<Rightarrow> ds_temp ds \<and> ds_file ds @ concat ps = nar \<and> ds_bytesWritten ds + n = length (ds_file ds) \<and> ds_finalSize ds = 0
      | Dl_Notify ps \<Rightarrow> ds_temp ds \<and> ds_file ds @ concat ps = nar \<and> ds_bytesWritten ds = length (ds_file ds) \<and> ds_finalSize ds = 0
      | Dl_Finished \<Rightarrow> ds_temp ds \<and> whole nar ds
      | Dl_Store \<Rightarrow> ds_temp ds \<and> whole nar ds
      | Dl_Fail _ \<Rightarrow> True
      | Dl_Leave \<Rightarrow> ds_downloadError ds = None \<longrightarrow> ds_temp ds \<and> whole nar ds
      | Dl_Left \<Rightarrow> ds_start ds \<and> (ds_done ds \<or> ds_chunking ds) \<and> (ds_downloadError ds = None \<longrightarrow> whole nar ds)
      | Dl_End \<Rightarrow> ds_start ds \<and> (ds_done ds \<or> ds_chunking ds) \<and> (ds_downloadError ds = None \<longrightarrow> whole nar ds))"

definition broadcast_due :: "dl_pc \<Rightarrow> bool" where
  "broadcast_due d = (case d of Dl_Notify _ \<Rightarrow> True | Dl_Finished \<Rightarrow> True | Dl_Leave \<Rightarrow> True | Dl_Left \<Rightarrow> True | _ \<Rightarrow> False)"

text \<open>
  What a reader has is a prefix of the body that was announced, all of it when it completed. A parked reader has a reason to be parked unless the
  downloader still has to broadcast; for a client an error is not among the reasons that end the wait.
\<close>

definition rd_ok :: "bytes \<Rightarrow> download_state \<Rightarrow> dl_pc \<Rightarrow> stream_reader \<Rightarrow> bool" where
  "rd_ok nar ds d r \<longleftrightarrow>
     prefix (sr_sent r) nar \<and> length (sr_sent r) \<le> ds_bytesWritten ds \<and>
     (case sr_pc r of
        R_new \<Rightarrow> sr_kind r = Chunker \<and> ds_chunking ds \<longrightarrow> \<not> ds_closed ds
      | R_start \<Rightarrow> sr_kind r = Streamer \<and> (ds_closed ds \<longrightarrow> ds_temp ds)
      | R_check \<Rightarrow> ds_temp ds
      | R_woken \<Rightarrow> ds_temp ds
      | R_waiting \<Rightarrow> ds_temp ds \<and> (broadcast_due d \<or>
          ds_bytesWritten ds \<le> length (sr_sent r) \<and> ds_finalSize ds = 0 \<and> (sr_kind r = Chunker \<longrightarrow> ds_downloadError ds = None))
      | R_copy n complete \<Rightarrow> ds_temp ds \<and> length (sr_sent r) + n \<le> ds_bytesWritten ds \<and>
          (if complete then sr_kind r = Streamer \<and> ds_finalSize ds \<noteq> 0 \<and> length (sr_sent r) + n = ds_finalSize ds else 0 < n)
      | R_drain \<Rightarrow> sr_kind r = Streamer \<and> ds_temp ds \<and> sr_sent r = nar
      | R_leave e \<Rightarrow> sr_kind r = Chunker \<and> (\<forall>x. e \<noteq> Cut x) \<and> (e = Completed \<longrightarrow> sr_sent r = nar)
      | R_left e \<Rightarrow> sr_kind r = Chunker \<and> ds_done ds \<and> (e = Completed \<longrightarrow> sr_sent r = nar) \<and> (\<forall>x. e \<in> {Reported x, Cut x} \<longrightarrow> ds_downloadError ds \<noteq> None)
      | R_end e \<Rightarrow> (sr_kind r = Chunker \<longrightarrow> ds_done ds) \<and> (e = Completed \<longrightarrow> sr_sent r = nar) \<and> (\<forall>x. e \<in> {Reported x, Cut x} \<longrightarrow> ds_downloadError ds \<noteq> None))"

lemma prefix_same_length: "prefix xs zs \<Longrightarrow> length zs \<le> length xs \<Longrightarrow> xs = zs"
  by (auto simp: prefix_def)

lemma copied_prefix:
  assumes "prefix sent nar" "prefix (ds_file ds) nar" "length sent + n \<le> length (ds_file ds)"
  shows "prefix (copied ds sent n) nar" "length (copied ds sent n) = length sent + n"
proof -
  have "sent = take (length sent) (ds_file ds)"
    using assms by (metis add_leD1 append_eq_conv_conj prefix_def prefix_length_prefix)
  then have "copied ds sent n = take (length sent + n) (ds_file ds)"
    unfolding copied_def by (metis take_add)
  moreover have "prefix (take (length sent + n) (ds_file ds)) nar" using assms(2) take_is_prefix prefix_order.trans by blast
  ultimately show "prefix (copied ds sent n) nar" by simp
  show "length (copied ds sent n) = length sent + n" using assms(3) by (simp add: copied_def)
qed

lemma sized_upd [simp]:
  "sized nar (ds\<lparr>ds_temp := x\<rparr>) = sized nar ds"
  "sized nar (ds\<lparr>ds_start := x\<rparr>) = sized nar ds"
  "sized nar (ds\<lparr>ds_stored := x\<rparr>) = sized nar ds"
  "sized nar (ds\<lparr>ds_done := x\<rparr>) = sized nar ds"
  "sized nar (ds\<lparr>ds_closed := x\<rparr>) = sized nar ds"
  "sized nar (ds\<lparr>ds_chunking := x\<rparr>) = sized nar ds"
  "sized nar (ds\<lparr>ds_downloadError := y\<rparr>) = sized nar ds"
  "whole nar (ds\<lparr>ds_temp := x\<rparr>) = whole nar ds"
  "whole nar (ds\<lparr>ds_start := x\<rparr>) = whole nar ds"
  "whole nar (ds\<lparr>ds_stored := x\<rparr>) = whole nar ds"
  "whole nar (ds\<lparr>ds_done := x\<rparr>) = whole nar ds"
  "whole nar (ds\<lparr>ds_closed := x\<rparr>) = whole nar ds"
  "whole nar (ds\<lparr>ds_chunking := x\<rparr>) = whole nar ds"
  "whole nar (ds\<lparr>ds_downloadError := y\<rparr>) = whole nar ds"
  by (simp_all add: sized_def whole_def)

lemma sized_zero: "ds_finalSize ds = 0 \<Longrightarrow> sized nar ds"
  by (simp add: sized_def)

lemma streams_ok:
  assumes "streamReaderToFile fail ds d b ds' d'" "dl_ok nar ds d"
  shows "dl_ok nar ds' d'"
  using assms(1)
proof (cases rule: streamReaderToFile.cases)
  case (write_fails p ps k)
  then have "prefix (ds_file ds @ take k p) nar" using assms(2)
    by (simp add: dl_ok_def) (metis prefix_prefix same_prefix_prefix take_is_prefix)
  then show ?thesis using write_fails assms(2) by (simp add: dl_ok_def sized_zero)
next
  case finish
  then show ?thesis using assms(2) by (auto simp: dl_ok_def sized_def whole_def)
qed (use assms(2) in \<open>auto simp: dl_ok_def sized_zero\<close>)

lemma pull_ok:
  assumes "pullNarIntoStore cdc body fail ds d b ds' d'" "dl_ok nar ds d" "nar = concat body"
  shows "dl_ok nar ds' d'"
  using assms(1)
proof (cases rule: pullNarIntoStore.cases)
  case streams
  then show ?thesis using streams_ok assms(2) by blast
next
  case final_notify
  with assms(2) show ?thesis by (cases cdc) (auto simp: dl_ok_def)
qed (use assms(2,3) in \<open>auto simp: dl_ok_def setError_def sized_zero\<close>)

lemma wake_fields [simp]: "sr_kind (wake r) = sr_kind r" "sr_sent (wake r) = sr_sent r"
  by (simp_all add: wake_def)

lemma rd_ok_wake: "rd_ok nar ds d r \<Longrightarrow> rd_ok nar ds d' (wake r)"
  by (auto simp: rd_ok_def wake_def split: reader_pc.splits)

text \<open>A step of the downloader keeps what holds of a reader; when it leaves a parked reader parked, a broadcast is still due.\<close>

lemma rd_ok_mono:
  assumes "rd_ok nar ds d r" "ds_bytesWritten ds \<le> ds_bytesWritten ds'" "ds_temp ds \<longrightarrow> ds_temp ds'" "ds_closed ds' = ds_closed ds"
    and "ds_finalSize ds \<noteq> 0 \<longrightarrow> ds_finalSize ds' = ds_finalSize ds" "ds_done ds \<longrightarrow> ds_done ds'" "ds_downloadError ds \<noteq> None \<longrightarrow> ds_downloadError ds' \<noteq> None"
    and "ds_closed ds' \<longrightarrow> ds_chunking ds' = ds_chunking ds"
    and parked: "sr_pc r = R_waiting \<Longrightarrow> broadcast_due d' \<or> \<not> broadcast_due d \<and> ds_bytesWritten ds' = ds_bytesWritten ds \<and> ds_finalSize ds' = ds_finalSize ds \<and>
      (sr_kind r = Chunker \<longrightarrow> ds_downloadError ds' = ds_downloadError ds)"
  shows "rd_ok nar ds' d' r"
  using assms by (cases "sr_pc r") (auto simp: rd_ok_def split: if_splits)

lemma pull_rd_ok:
  assumes "pullNarIntoStore cdc body fail ds d b ds' d'" "dl_ok nar ds d" "rd_ok nar ds d r"
  shows "rd_ok nar ds' d' (if b then wake r else r)"
proof (cases b)
  case True
  then have "ds' = ds" using assms(1) by (auto elim!: pullNarIntoStore.cases streamReaderToFile.cases)
  then show ?thesis using True rd_ok_wake [OF assms(3)] by simp
next
  case False
  have "rd_ok nar ds' d' r"
    using assms(1)
  proof (cases rule: pullNarIntoStore.cases)
    case opened
    with assms(2) show ?thesis by (intro rd_ok_mono [OF assms(3)]) (auto simp: dl_ok_def broadcast_due_def)
  next
    case streams
    then show ?thesis
      by (cases rule: streamReaderToFile.cases; use assms(2) False in \<open>intro rd_ok_mono [OF assms(3)]; force simp: dl_ok_def broadcast_due_def\<close>)
  qed (use False in \<open>intro rd_ok_mono [OF assms(3)]; force simp: broadcast_due_def setError_def\<close>)+
  then show ?thesis using False by simp
qed


lemma stream_check_ok:
  assumes "dl_ok nar ds d" "prefix sent nar" "length sent \<le> ds_bytesWritten ds" "ds_temp ds"
  shows "rd_ok nar ds d (r\<lparr>sr_kind := Streamer, sr_sent := sent, sr_pc := stream_check ds sent\<rparr>)"
  using assms by (auto simp: rd_ok_def stream_check_def dl_ok_def sized_def)

lemma streamer_self: "sr_kind r = Streamer \<Longrightarrow> r\<lparr>sr_pc := p\<rparr> = r\<lparr>sr_kind := Streamer, sr_sent := sr_sent r, sr_pc := p\<rparr>"
  by simp

lemma stream_rd_ok:
  assumes "GetNar_stream ds r r'" "dl_ok nar ds d" "rd_ok nar ds d r" "sr_kind r = Streamer"
  shows "rd_ok nar ds d r'"
  using assms(1)
proof (cases rule: GetNar_stream.cases)
  case check
  then have "ds_temp ds" using assms(3) by (simp add: rd_ok_def)
  then show ?thesis
    unfolding check(1) streamer_self [OF assms(4)] using assms(3) by (intro stream_check_ok assms(2)) (auto simp: rd_ok_def)
next
  case woken
  show ?thesis
  proof (cases "ds_downloadError ds")
    case None
    have "ds_temp ds" using woken assms(3) by (simp add: rd_ok_def)
    then show ?thesis
      unfolding woken(1) streamer_self [OF assms(4)] stream_woken_def None option.case using assms(3) by (intro stream_check_ok assms(2)) (auto simp: rd_ok_def)
  qed (use woken assms(2-) in \<open>auto simp: rd_ok_def stream_woken_def\<close>)
next
  case (copy n complete)
  have le: "length (sr_sent r) + n \<le> length (ds_file ds)" "prefix (sr_sent r) nar" "prefix (ds_file ds) nar"
    using copy assms(2,3) by (auto simp: rd_ok_def dl_ok_def)
  let ?sent = "copied ds (sr_sent r) n"
  have sent: "prefix ?sent nar" "length ?sent = length (sr_sent r) + n" using copied_prefix [OF le(2,3,1)] by auto
  have "?sent = nar" if complete
    using that sent prefix_same_length [of ?sent nar] copy assms(2,3) by (auto simp: rd_ok_def dl_ok_def sized_def)
  then show ?thesis using copy assms sent by (auto simp: rd_ok_def stream_copied_def)
next
  case (copy_fails n complete k)
  have le: "length (sr_sent r) + k \<le> length (ds_file ds)" "prefix (sr_sent r) nar" "prefix (ds_file ds) nar"
    using copy_fails assms(2,3) by (auto simp: rd_ok_def dl_ok_def)
  show ?thesis using copied_prefix [OF le(2,3,1)] copy_fails assms by (auto simp: rd_ok_def)
qed (use assms(2-) in \<open>auto simp: rd_ok_def dl_ok_def getError_def split: option.splits\<close>)

lemma chunk_self: "sr_kind r = Chunker \<Longrightarrow> r\<lparr>sr_pc := p\<rparr> = r\<lparr>sr_kind := Chunker, sr_sent := sr_sent r, sr_pc := p\<rparr>"
  by simp

lemma available_check_ok:
  assumes "dl_ok nar ds d" "prefix sent nar" "length sent \<le> ds_bytesWritten ds" "ds_temp ds"
  shows "rd_ok nar ds d (r\<lparr>sr_kind := Chunker, sr_sent := sent, sr_pc := available_check ds sent\<rparr>)"
  using assms prefix_same_length [OF assms(2)] by (auto simp: rd_ok_def available_check_def dl_ok_def sized_def split: option.splits)

lemma chunk_rd_ok:
  assumes "chunk_goroutine ds r b ds' r'" "dl_ok nar ds d" "rd_ok nar ds d r" "sr_kind r = Chunker"
  shows "rd_ok nar ds' d r'"
  using assms(1)
proof (cases rule: chunk_goroutine.cases)
  case available
  then have "ds_temp ds" using assms(3) by (auto simp: rd_ok_def)
  then show ?thesis
    unfolding available(2,3) chunk_self [OF assms(4)] using assms(3) by (intro available_check_ok assms(2)) (auto simp: rd_ok_def)
next
  case (closing e)
  then show ?thesis using assms(3,4) by (cases e) (auto simp: rd_ok_def setError_def)
next
  case (read n complete k)
  have le: "length (sr_sent r) + k \<le> length (ds_file ds)" "prefix (sr_sent r) nar" "prefix (ds_file ds) nar"
    using read assms(2,3) by (auto simp: rd_ok_def dl_ok_def split: if_splits)
  show ?thesis using copied_prefix [OF le(2,3,1)] read assms by (auto simp: rd_ok_def split: if_splits)
qed (use assms(2-) in \<open>auto simp: rd_ok_def dl_ok_def\<close>)

lemma chunk_dl_ok: "chunk_goroutine ds r b ds' r' \<Longrightarrow> dl_ok nar ds d \<Longrightarrow> dl_ok nar ds' d"
  by (cases d; erule chunk_goroutine.cases) (auto simp: dl_ok_def setError_def split: ending.split)

text \<open>The other readers; there is no other chunker.\<close>

lemma chunk_others_ok:
  assumes "chunk_goroutine ds r b ds' r'" "rd_ok nar ds d q" "sr_kind q = Streamer"
  shows "rd_ok nar ds' d q"
  using assms(1)
proof (cases rule: chunk_goroutine.cases)
  case (closing e)
  then show ?thesis using assms(2,3) by (cases "sr_pc q"; cases e) (auto simp: rd_ok_def setError_def)
qed (use assms(2,3) in \<open>cases "sr_pc q"; auto simp: rd_ok_def\<close>)+


text \<open>The whole system: with chunking there is exactly one chunker, and the file is not removed under a reader.\<close>

definition chunkers :: "stream_reader list \<Rightarrow> nat" where
  "chunkers rs = length (filter (\<lambda>r. sr_kind r = Chunker) rs)"

definition download_ok :: "bool \<Rightarrow> bytes \<Rightarrow> download_system \<Rightarrow> bool" where
  "download_ok cdc nar s \<longleftrightarrow> (case s of (ds, d, rs) \<Rightarrow>
     dl_ok nar ds d \<and> (\<forall>r \<in> set rs. rd_ok nar ds d r) \<and> chunkers rs = of_bool cdc \<and> (ds_chunking ds \<longrightarrow> cdc) \<and>
     (ds_chunking ds \<and> ds_closed ds \<longrightarrow> (\<forall>r \<in> set rs. sr_kind r = Chunker \<longrightarrow> \<not> using_file r)))"

lemma chunkers_map [simp]: "chunkers (map wake rs) = chunkers rs" "chunkers (Broadcast b rs) = chunkers rs"
  by (induction rs) (auto simp: chunkers_def Broadcast_def)

lemma chunkers_update: "i < length rs \<Longrightarrow> sr_kind r = sr_kind (rs ! i) \<Longrightarrow> chunkers (rs[i := r]) = chunkers rs"
proof (induction rs arbitrary: i)
  case (Cons q rs)
  then show ?case by (cases i) (auto simp: chunkers_def)
qed simp

lemma one_chunker:
  "chunkers rs \<le> 1 \<Longrightarrow> i < length rs \<Longrightarrow> j < length rs \<Longrightarrow> i \<noteq> j \<Longrightarrow> sr_kind (rs ! i) = Chunker \<Longrightarrow> sr_kind (rs ! j) = Streamer"
proof (induction rs arbitrary: i j)
  case (Cons r rs)
  have none: "sr_kind (rs ! k) = Streamer" if "chunkers rs = 0" "k < length rs" for k
    using that by (cases "sr_kind (rs ! k)") (auto simp: chunkers_def filter_empty_conv)
  show ?case
  proof (cases "sr_kind r = Chunker")
    case True
    then have "chunkers rs = 0" using Cons.prems(1) by (simp add: chunkers_def)
    then show ?thesis using none Cons.prems by (cases i; cases j) auto
  next
    case False
    then have "chunkers rs \<le> 1" "sr_kind r = Streamer" using Cons.prems(1) by (cases "sr_kind r"; simp add: chunkers_def)+
    then show ?thesis using Cons.IH [of "i - 1" "j - 1"] Cons.prems False by (cases i; cases j) auto
  qed
qed simp

lemma GetNar_stream_kind: "GetNar_stream ds r r' \<Longrightarrow> sr_kind r' = sr_kind r"
  by (auto elim: GetNar_stream.cases)

lemma chunk_goroutine_kind: "chunk_goroutine ds r b ds' r' \<Longrightarrow> sr_kind r' = sr_kind r"
  by (auto elim: chunk_goroutine.cases)

lemma chunker_using:
  "sr_kind r = Chunker \<Longrightarrow>
   using_file r = (case sr_pc r of R_new \<Rightarrow> False | R_leave _ \<Rightarrow> False | R_left _ \<Rightarrow> False | R_end _ \<Rightarrow> False | _ \<Rightarrow> True)"
  by (simp add: using_file_def split: reader_pc.split)

lemma chunk_goroutine_flags: "chunk_goroutine ds r b ds' r' \<Longrightarrow> sr_kind r = Chunker \<Longrightarrow> ds_chunking ds' = ds_chunking ds \<and> ds_closed ds' = ds_closed ds \<and> (\<not> using_file r \<and> sr_pc r \<noteq> R_new \<longrightarrow> \<not> using_file r')"
  by (auto elim!: chunk_goroutine.cases simp: setError_def chunker_using split: ending.splits)

lemma pull_flags: "pullNarIntoStore cdc body fail ds d b ds' d' \<Longrightarrow> ds_closed ds' = ds_closed ds \<and> (ds_chunking ds' \<longrightarrow> ds_chunking ds \<or> cdc \<and> d = Dl_Open)"
  by (auto elim!: pullNarIntoStore.cases streamReaderToFile.cases simp: setError_def)

lemma using_file_wake [simp]: "using_file (wake r) = using_file r"
  by (cases "sr_pc r") (simp_all add: using_file_def wake_def)

lemma download_ok_step:
  assumes "download_step cdc body fail s t" "download_ok cdc nar s" "nar = concat body"
  shows "download_ok cdc nar t"
  using assms(1)
proof (cases rule: download_step.cases)
  case (download ds d b ds' d' rs)
  have "\<forall>r \<in> set (Broadcast b rs). rd_ok nar ds' d' r"
    using pull_rd_ok [OF download(3)] assms(2) by (auto simp: Broadcast_def download_ok_def download(1))
  moreover have "dl_ok nar ds' d'" using pull_ok [OF download(3) _ assms(3)] assms(2) by (simp add: download_ok_def download(1))
  moreover have "ds_closed ds' \<Longrightarrow> ds_chunking ds' \<Longrightarrow> ds_chunking ds"
    using pull_flags [OF download(3)] assms(2) by (auto simp: download_ok_def download(1) dl_ok_def)
  ultimately show ?thesis
    using pull_flags [OF download(3)] assms(2) by (auto simp: download_ok_def download(1,2) Broadcast_def)
next
  case (stream i rs ds r d)
  have "rd_ok nar ds d r" using stream_rd_ok [OF stream(5) _ _ stream(4)] assms(2) stream(3) by (auto simp: download_ok_def stream(1))
  then show ?thesis
    using assms(2) stream GetNar_stream_kind [OF stream(5)]
    by (auto simp: download_ok_def chunkers_update dest!: set_update_subset_insert [THEN subsetD])
next
  case (chunk i rs ds b ds' r d)
  have ok: "dl_ok nar ds d" "rd_ok nar ds d (rs ! i)" "chunkers rs \<le> 1" using assms(2) chunk(3) by (auto simp: download_ok_def chunk(1))
  have kind: "sr_kind r = sr_kind (rs ! i)" by (rule chunk_goroutine_kind [OF chunk(5)])
  have "rd_ok nar ds' d (rs[i := r] ! j)" if j: "j < length rs" for j
  proof (cases "j = i")
    case True
    then show ?thesis using chunk_rd_ok [OF chunk(5) ok(1,2) chunk(4)] j by simp
  next
    case False
    then have "sr_kind (rs ! j) = Streamer" using one_chunker [OF ok(3) chunk(3) j _ chunk(4)] by simp
    then show ?thesis using chunk_others_ok [OF chunk(5)] assms(2) j False by (auto simp: download_ok_def chunk(1))
  qed
  then have all: "\<forall>q \<in> set (rs[i := r]). rd_ok nar ds' d q" by (auto simp: all_set_conv_all_nth)
  then have "\<forall>q \<in> set (Broadcast b (rs[i := r])). rd_ok nar ds' d q" using rd_ok_wake by (auto simp: Broadcast_def)
  moreover have "\<not> using_file q" if "q \<in> set (Broadcast b (rs[i := r]))" "sr_kind q = Chunker" "ds_chunking ds'" "ds_closed ds'" for q
  proof -
    have old: "\<forall>q \<in> set rs. sr_kind q = Chunker \<longrightarrow> \<not> using_file q" "sr_pc (rs ! i) \<noteq> R_new"
      using that(3,4) chunk_goroutine_flags [OF chunk(5,4)] assms(2) ok(2) chunk(4) by (auto simp: download_ok_def chunk(1) rd_ok_def)
    have "\<not> using_file r" using chunk_goroutine_flags [OF chunk(5,4)] old chunk(3,4) by auto
    then show ?thesis using that(1,2) old(1) by (auto simp: Broadcast_def split: if_splits dest!: set_update_subset_insert [THEN subsetD])
  qed
  ultimately show ?thesis
    using chunk_dl_ok [OF chunk(5) ok(1)] assms(2) chunk_goroutine_flags [OF chunk(5,4)]
    by (simp add: download_ok_def chunk(1,2) chunkers_update [OF chunk(3) kind])
next
  case (close ds rs)
  have "rd_ok nar (ds\<lparr>ds_closed := True\<rparr>) Dl_End r" if "r \<in> set rs" for r
    using that assms(2) close by (cases "sr_pc r") (auto simp: download_ok_def rd_ok_def)
  then show ?thesis using assms(2) close by (auto simp: download_ok_def dl_ok_def)
next
  case (remove ds rs d)
  have "rd_ok nar (ds\<lparr>ds_temp := False\<rparr>) d r" if "r \<in> set rs" for r
    using that assms(2) remove by (cases "sr_pc r") (auto simp: download_ok_def rd_ok_def using_file_def)
  moreover have "d = Dl_End" using assms(2) remove by (auto simp: download_ok_def dl_ok_def)
  ultimately show ?thesis using assms(2) remove by (auto simp: download_ok_def dl_ok_def)
qed

lemma download_ok_reachable:
  assumes "download_reachable cdc body fail n s"
  shows "download_ok cdc (concat body) s"
  using assms
proof induction
  case init
  show ?case
    by (auto simp: download_ok_def new_download_def dl_ok_def newDownloadState_def new_reader_def rd_ok_def sized_def chunkers_def)
next
  case (step s t)
  then show ?case using download_ok_step by blast
qed


section \<open>Every run ends\<close>




definition may_notify :: "stream_reader \<Rightarrow> nat" where
  "may_notify r = (case sr_pc r of R_end _ \<Rightarrow> 0 | _ \<Rightarrow> of_bool (sr_kind r = Chunker))"



lemma may_notify_wake [simp]: "may_notify (wake r) = may_notify r"
  by (simp add: may_notify_def wake_def)

lemma sum_may_notify [simp]: "sum_list (map may_notify (Broadcast b rs)) = sum_list (map may_notify rs)"
  by (simp add: Broadcast_def comp_def)





section \<open>Where a run ends\<close>






section \<open>Properties\<close>

text \<open>C7. Whatever the schedule and whatever fails: a client has been sent a prefix of the body, all of it when its stream completed after the download
  was stored, and the temporary file exists as long as a reader may read it.\<close>

theorem download_streams_prefix:
  assumes "download_reachable cdc body fail n (ds, d, rs)" "r \<in> set rs"
  shows "prefix (sr_sent r) (concat body) \<and> (sr_pc r = R_end Completed \<longrightarrow> sr_sent r = concat body) \<and>
    ((\<exists>k complete. sr_pc r = R_copy k complete) \<or> sr_pc r = R_check \<or> sr_pc r = R_woken \<longrightarrow> ds_temp ds)"
  using download_ok_reachable [OF assms(1)] assms(2) by (auto simp: download_ok_def rd_ok_def)



section \<open>What goes wrong\<close>

lemma reach_dl:
  "download_reachable cdc body fail n (ds, d, rs) \<Longrightarrow> pullNarIntoStore cdc body fail ds d b ds' d' \<Longrightarrow>
   download_reachable cdc body fail n (ds', d', Broadcast b rs)"
  by (rule download_reachable.step) (auto intro: download_step.download)

lemma reach_rd:
  "download_reachable cdc body fail n (ds, d, [r]) \<Longrightarrow> GetNar_stream ds r r' \<Longrightarrow> sr_kind r = Streamer \<Longrightarrow>
   download_reachable cdc body fail n (ds, d, [r'])"
  using download_reachable.step download_step.stream [of 0 "[r]" ds r' cdc body fail d] by fastforce

lemma reach_close:
  "download_reachable cdc body fail n (ds, Dl_End, [r]) \<Longrightarrow> ds_temp ds \<Longrightarrow> \<not> ds_closed ds \<Longrightarrow> sr_kind r = Streamer \<Longrightarrow>
   download_reachable cdc body fail n (ds\<lparr>ds_closed := True\<rparr>, Dl_End, [r])"
  by (rule download_reachable.step, assumption, rule download_step.close) auto

text \<open>A download with one client, which has joined and copies the first piece while the downloader is about to read on.\<close>

definition one_state :: "bytes \<Rightarrow> err option \<Rightarrow> bool \<Rightarrow> bool \<Rightarrow> download_state" where
  "one_state p e stored over =
     \<lparr>ds_file = p, ds_temp = True, ds_bytesWritten = length p, ds_finalSize = 0, ds_downloadError = e, ds_start = True, ds_stored = stored,
      ds_done = over, ds_closed = False, ds_chunking = False\<rparr>"

definition one_client :: "bytes \<Rightarrow> reader_pc \<Rightarrow> stream_reader" where
  "one_client sent pc = \<lparr>sr_kind = Streamer, sr_sent = sent, sr_pc = pc\<rparr>"

lemma one_client_checks: "download_reachable False body fail 1 (one_state [] None False False, Dl_Read body, [one_client [] R_check])"
proof -
  have "download_reachable False body fail 1 (new_download False 1)" by (rule download_reachable.init)
  then have "download_reachable False body fail 1 (newDownloadState, Dl_Open, [one_client [] R_new])"
    by (simp add: new_download_def new_reader_def one_client_def)
  from reach_dl [OF this pullNarIntoStore.opened]
  have 1: "download_reachable False body fail 1 (one_state [] None False False, Dl_Read body, [one_client [] R_new])"
    by (simp add: Broadcast_def newDownloadState_def one_state_def)
  have "download_reachable False body fail 1 (one_state [] None False False, Dl_Read body, [one_client [] R_start])"
    using reach_rd [OF 1 GetNar_stream.join] by (simp add: one_client_def one_state_def)
  from reach_rd [OF this GetNar_stream.started] show ?thesis by (simp add: one_client_def one_state_def getError_def)
qed

lemma one_client_copies:
  assumes "p \<noteq> []"
  shows "download_reachable False [p] fail 1 (one_state p None False False, Dl_Read [], [one_client [] (R_copy (length p) False)])"
proof -
  have 1: "download_reachable False [p] fail 1 (one_state [] None False False\<lparr>ds_file := p\<rparr>, Dl_Wrote [] (length p), [one_client [] R_check])"
    using reach_dl [OF one_client_checks pullNarIntoStore.streams [OF streamReaderToFile.written]] by (simp add: Broadcast_def one_state_def)
  have 2: "download_reachable False [p] fail 1 (one_state p None False False, Dl_Notify [], [one_client [] R_check])"
    using reach_dl [OF 1 pullNarIntoStore.streams [OF streamReaderToFile.update]] by (simp add: Broadcast_def one_state_def)
  have "download_reachable False [p] fail 1 (one_state p None False False, Dl_Notify [], [one_client [] (R_copy (length p) False)])"
    using reach_rd [OF 2 GetNar_stream.check] assms by (simp add: one_client_def stream_check_def one_state_def)
  from reach_dl [OF this pullNarIntoStore.streams [OF streamReaderToFile.notify]] show ?thesis
    by (simp add: Broadcast_def wake_def one_client_def)
qed

lemma one_client_fails:
  assumes "download_reachable False [p] (Some e) 1 (one_state p None False False, Dl_Read [], [r])"
  shows "download_reachable False [p] (Some e) 1 (one_state p (Some e) False True, Dl_End, [wake r])"
proof -
  have 1: "download_reachable False [p] (Some e) 1 (one_state p (Some e) False False, Dl_Leave, [r])"
    using reach_dl [OF reach_dl [OF assms pullNarIntoStore.streams [OF streamReaderToFile.body_fails [OF refl]]] pullNarIntoStore.set_error]
    by (simp add: Broadcast_def setError_def one_state_def)
  have "download_reachable False [p] (Some e) 1 (one_state p (Some e) False True, Dl_Left, [r])"
    using reach_dl [OF 1 pullNarIntoStore.leave] by (simp add: Broadcast_def one_state_def)
  from reach_dl [OF this pullNarIntoStore.last_notify] show ?thesis by (simp add: Broadcast_def)
qed

lemma parked_is_final:
  assumes "sr_pc r = R_waiting" "sr_kind r = Streamer" "ds_closed ds"
  shows "\<nexists>t. download_step cdc body fail (ds, Dl_End, [r]) t"
  using assms by (auto elim!: download_step.cases pullNarIntoStore.cases streamReaderToFile.cases GetNar_stream.cases simp: using_file_def)

text \<open>A client can miss the failure of a download: when it copies while the downloader fails and broadcasts for the last time, it parks
  afterwards without looking at the error, nothing ever wakes it, and the temporary file is never removed.\<close>

theorem client_misses_failure:
  assumes "p \<noteq> []"
  shows "\<exists>ds r. download_reachable False [p] (Some e) 1 (ds, Dl_End, [r]) \<and> ds_downloadError ds = Some e \<and> ds_temp ds \<and> sr_pc r = R_waiting \<and>
    (\<nexists>t. download_step False [p] (Some e) (ds, Dl_End, [r]) t)"
proof -
  let ?ds = "one_state p (Some e) False True" and ?r = "one_client p R_waiting"
  have 1: "download_reachable False [p] (Some e) 1 (?ds, Dl_End, [one_client [] (R_copy (length p) False)])"
    using one_client_fails [OF one_client_copies [OF assms, of "Some e"]] by (simp add: wake_def one_client_def)
  have 2: "download_reachable False [p] (Some e) 1 (?ds, Dl_End, [one_client p R_check])"
    using reach_rd [OF 1 GetNar_stream.copy [where n = "length p" and complete = False]] by (simp add: one_client_def copied_def stream_copied_def one_state_def)
  have "download_reachable False [p] (Some e) 1 (?ds, Dl_End, [?r])"
    using reach_rd [OF 2 GetNar_stream.check] by (simp add: one_client_def stream_check_def one_state_def)
  from reach_close [OF this] have "download_reachable False [p] (Some e) 1 (?ds\<lparr>ds_closed := True\<rparr>, Dl_End, [?r])"
    by (simp add: one_state_def one_client_def)
  moreover have "\<nexists>t. download_step False [p] (Some e) (?ds\<lparr>ds_closed := True\<rparr>, Dl_End, [?r]) t"
    by (rule parked_is_final) (simp_all add: one_client_def)
  ultimately show ?thesis
    by (intro exI [of _ "?ds\<lparr>ds_closed := True\<rparr>"] exI [of _ ?r]) (simp add: one_state_def one_client_def)
qed

text \<open>A client that is woken by the failure of a download ends its response without an error: what it sent so far looks like the whole NAR.\<close>

theorem failed_download_looks_complete:
  assumes "p \<noteq> []"
  shows "\<exists>ds r. download_reachable False [p] (Some e) 1 (ds, Dl_End, [r]) \<and> ds_downloadError ds = Some e \<and> client_body r = Some p"
proof -
  let ?ds = "one_state p None False False"
  have 1: "download_reachable False [p] (Some e) 1 (?ds, Dl_Read [], [one_client p R_check])"
    using reach_rd [OF one_client_copies [OF assms, of "Some e"] GetNar_stream.copy [where n = "length p" and complete = False]] by (simp add: one_client_def copied_def stream_copied_def one_state_def)
  have "download_reachable False [p] (Some e) 1 (?ds, Dl_Read [], [one_client p R_waiting])"
    using reach_rd [OF 1 GetNar_stream.check] by (simp add: one_client_def stream_check_def one_state_def)
  from one_client_fails [OF this]
  have 2: "download_reachable False [p] (Some e) 1 (one_state p (Some e) False True, Dl_End, [one_client p R_woken])"
    by (simp add: wake_def one_client_def)
  have "download_reachable False [p] (Some e) 1 (one_state p (Some e) False True, Dl_End, [one_client p (R_end (Cut e))])"
    using reach_rd [OF 2 GetNar_stream.woken] by (simp add: one_client_def stream_woken_def one_state_def)
  then show ?thesis
    by (intro exI [of _ "one_state p (Some e) False True"] exI [of _ "one_client p (R_end (Cut e))"]) (simp add: one_state_def one_client_def client_body_def)
qed

text \<open>The size zero stands for a size that is not known yet: the client of an empty NAR waits for ever, although the NAR was downloaded and stored
  without an error.\<close>

theorem empty_download_hangs:
  "\<exists>ds r. download_reachable False [] None 1 (ds, Dl_End, [r]) \<and> ds_stored ds \<and> ds_downloadError ds = None \<and> sr_pc r = R_waiting \<and>
    (\<nexists>t. download_step False [] None (ds, Dl_End, [r]) t)"
proof -
  let ?r = "one_client [] R_check" and ?w = "one_client [] R_waiting"
  have 1: "download_reachable False [] None 1 (one_state [] None False False, Dl_Store, [?r])"
    using reach_dl [OF reach_dl [OF one_client_checks pullNarIntoStore.streams [OF streamReaderToFile.finish [OF refl]]] pullNarIntoStore.final_notify]
    by (simp add: Broadcast_def wake_def one_state_def one_client_def)
  have 2: "download_reachable False [] None 1 (one_state [] None True True, Dl_Left, [?r])"
    using reach_dl [OF reach_dl [OF 1 pullNarIntoStore.store] pullNarIntoStore.leave] by (simp add: Broadcast_def one_state_def)
  have 3: "download_reachable False [] None 1 (one_state [] None True True, Dl_End, [?r])"
    using reach_dl [OF 2 pullNarIntoStore.last_notify] by (simp add: Broadcast_def wake_def one_client_def)
  have 4: "download_reachable False [] None 1 (one_state [] None True True, Dl_End, [?w])"
    using reach_rd [OF 3 GetNar_stream.check] by (simp add: one_client_def stream_check_def one_state_def)
  let ?ds = "one_state [] None True True\<lparr>ds_closed := True\<rparr>"
  have "download_reachable False [] None 1 (?ds, Dl_End, [?w])" using reach_close [OF 4] by (simp add: one_state_def one_client_def)
  moreover have "\<nexists>t. download_step False [] None (?ds, Dl_End, [?w]) t" by (rule parked_is_final) (simp_all add: one_client_def)
  ultimately show ?thesis by (intro exI [of _ ?ds] exI [of _ ?w]) (simp add: one_state_def one_client_def)
qed

text \<open>A client whose request ends before its stream has begun, because it has gone or because the download has failed, stays counted: the temporary file is never removed.\<close>

theorem counted_for_good:
  assumes "download_step cdc body fail (ds, d, rs) (ds', d', rs')" "i < length rs" "sr_kind (rs ! i) = Streamer" "sr_pc (rs ! i) \<in> {R_end Cancelled, R_end (Reported e)}" "ds_temp ds"
  shows "rs' ! i = rs ! i \<and> ds_temp ds'"
  using assms(1)
proof (cases rule: download_step.cases)
  case (download b)
  then have "wake (rs ! i) = rs ! i" using assms(4) by (auto simp: wake_def)
  moreover have "ds_temp ds'" using download assms(5) by (auto elim!: pullNarIntoStore.cases streamReaderToFile.cases simp: setError_def)
  ultimately show ?thesis using download assms(2) by (simp add: Broadcast_def)
next
  case (stream j r)
  then show ?thesis using assms(4,5) by (cases "j = i") (auto elim: GetNar_stream.cases)
next
  case (chunk j b r)
  have "j \<noteq> i" using chunk assms(3) by auto
  moreover have "wake (rs ! i) = rs ! i" using assms(4) by (auto simp: wake_def)
  moreover have "ds_temp ds'" using chunk assms(5) by (auto elim!: chunk_goroutine.cases simp: setError_def split: ending.splits)
  ultimately show ?thesis using chunk assms(2) by (simp add: Broadcast_def)
next
  case remove
  have "using_file (rs ! i)" using assms(3,4) by (auto simp: using_file_def)
  then show ?thesis using remove assms(2) by simp
qed (use assms(5) in simp)

section \<open>Examples\<close>

theorem client_misses_failure_witness:
  "\<exists>ds r. download_reachable False [''ab''] (Some ErrUnexpectedEOF) 1 (ds, Dl_End, [r]) \<and> ds_downloadError ds = Some ErrUnexpectedEOF \<and> ds_temp ds \<and>
    sr_pc r = R_waiting \<and> (\<nexists>t. download_step False [''ab''] (Some ErrUnexpectedEOF) (ds, Dl_End, [r]) t)"
  by (rule client_misses_failure) simp

theorem failed_download_looks_complete_witness:
  "\<exists>ds r. download_reachable False [''ab''] (Some ErrUnexpectedEOF) 1 (ds, Dl_End, [r]) \<and> ds_downloadError ds = Some ErrUnexpectedEOF \<and>
    client_body r = Some ''ab''"
  by (rule failed_download_looks_complete) simp

text \<open>A download of two bytes with one client, to its end.\<close>

definition two_bytes :: "bool \<Rightarrow> bool \<Rightarrow> bool \<Rightarrow> bool \<Rightarrow> download_state" where
  "two_bytes temp stored over closed =
     \<lparr>ds_file = ''ab'', ds_temp = temp, ds_bytesWritten = 2, ds_finalSize = 2, ds_downloadError = None, ds_start = True, ds_stored = stored,
      ds_done = over, ds_closed = closed, ds_chunking = False\<rparr>"

lemma two_bytes_run:
  "download_reachable False [''ab''] None 1 (two_bytes False True True True, Dl_End, [one_client ''ab'' (R_end Completed)])"
  "\<nexists>t. download_step False [''ab''] None (two_bytes False True True True, Dl_End, [one_client ''ab'' (R_end Completed)]) t"
proof -
  let ?re = "download_reachable False [''ab''] None 1"
  have 0: "?re (one_state ''ab'' None False False, Dl_Read [], [one_client [] (R_copy 2 False)])"
    using one_client_copies [of "''ab''" None] by (simp add: numeral_2_eq_2)
  have 1: "?re (one_state ''ab'' None False False, Dl_Read [], [one_client ''ab'' R_check])"
    using reach_rd [OF 0 GetNar_stream.copy [where n = 2 and complete = False]] by (simp add: one_client_def copied_def stream_copied_def one_state_def)
  have 2: "?re (two_bytes True False False False, Dl_Finished, [one_client ''ab'' R_check])"
    using reach_dl [OF 1 pullNarIntoStore.streams [OF streamReaderToFile.finish [OF refl]]] by (simp add: Broadcast_def one_state_def two_bytes_def numeral_2_eq_2)
  have 3: "?re (two_bytes True False False False, Dl_Finished, [one_client ''ab'' (R_copy 0 True)])"
    using reach_rd [OF 2 GetNar_stream.check] by (simp add: one_client_def stream_check_def two_bytes_def)
  have 4: "?re (two_bytes True False False False, Dl_Finished, [one_client ''ab'' R_drain])"
    using reach_rd [OF 3 GetNar_stream.copy [where n = 0 and complete = True]] by (simp add: one_client_def copied_def stream_copied_def two_bytes_def)
  have 5: "?re (two_bytes True True False False, Dl_Leave, [one_client ''ab'' R_drain])"
    using reach_dl [OF reach_dl [OF 4 pullNarIntoStore.final_notify, simplified] pullNarIntoStore.store]
    by (simp add: Broadcast_def wake_def one_client_def two_bytes_def)
  have 6: "?re (two_bytes True True False False, Dl_Leave, [one_client ''ab'' (R_end Completed)])"
    using reach_rd [OF 5 GetNar_stream.drain] by (simp add: one_client_def two_bytes_def)
  have 7: "?re (two_bytes True True True False, Dl_End, [one_client ''ab'' (R_end Completed)])"
    using reach_dl [OF reach_dl [OF 6 pullNarIntoStore.leave] pullNarIntoStore.last_notify]
    by (simp add: Broadcast_def wake_def one_client_def two_bytes_def)
  have 8: "?re (two_bytes True True True True, Dl_End, [one_client ''ab'' (R_end Completed)])"
    using reach_close [OF 7] by (simp add: one_client_def two_bytes_def)
  have "download_step False [''ab''] None (two_bytes True True True True, Dl_End, [one_client ''ab'' (R_end Completed)])
      (two_bytes True True True True\<lparr>ds_temp := False\<rparr>, Dl_End, [one_client ''ab'' (R_end Completed)])"
    by (rule download_step.remove) (simp_all add: two_bytes_def one_client_def using_file_def)
  from download_reachable.step [OF 8 this] show "?re (two_bytes False True True True, Dl_End, [one_client ''ab'' (R_end Completed)])"
    by (simp add: two_bytes_def)
  show "\<nexists>t. download_step False [''ab''] None (two_bytes False True True True, Dl_End, [one_client ''ab'' (R_end Completed)]) t"
    by (auto elim!: download_step.cases pullNarIntoStore.cases streamReaderToFile.cases GetNar_stream.cases simp: one_client_def two_bytes_def)
qed

theorem download_streams_prefix_witness: "sr_sent (one_client ''ab'' (R_end Completed)) = concat [''ab'']"
  using download_streams_prefix [OF two_bytes_run(1)] by (simp add: one_client_def)


end
