(* ===== verification/Download_Coordination.thy ===== *)
theory Download_Coordination
  imports Ncps_Prelude
begin

text \<open>
  \<open>coordinateDownload\<close> of \<open>pkg/cache/cache.go\<close>: how requests on several servers for one asset agree on a single download. Each server has its own table
  \<open>upstreamJobs\<close>; the download lock and the storage are shared. The asset is one key: a NAR (\<open>waitForStorage\<close> false) or a narinfo
  (\<open>waitForStorage\<close> true). The lock is held until it is released (its holder refreshes it in time); acquiring it may fail.
\<close>

section \<open>Jobs and requests\<close>

text \<open>
  A job is one download: it runs, then keeps the asset in storage, or fails; it is removed from the table of its server and then closes \<open>done\<close>.
  \<open>jb_start\<close> and \<open>jb_stored\<close> tell that those channels are closed, \<open>jb_load\<close> that the bytes are still coming from the upstream. A NAR that is cut into chunks on the way
  (\<open>jb_cdc\<close>) has two goroutines: one goes on loading whatever becomes of the other, which claims the NAR, closes \<open>stored\<close> and only then cuts it (\<open>J_chunk\<close>), and
  may fail in the middle. \<open>jb_kept\<close> remembers that the job has stored or claimed the asset.
\<close>

datatype job_phase = J_run | J_chunk | J_kept | J_failed | J_gone | J_done

record job =
  jb_server :: nat
  jb_cdc :: bool
  jb_phase :: job_phase
  jb_load :: bool
  jb_start :: bool
  jb_stored :: bool
  jb_kept :: bool

datatype coord_result = Observed nat | Asset_present | Timed_out

text \<open>
  Where a request stands: before the first look at the table, waiting for a job it found there, waiting for the lock, polling the storage after the lock was refused,
  under the lock before the check of the storage and before the second look at the table, waiting for a job under the lock, about to release the
  lock, and returned with a goroutine left behind that releases it.
\<close>

datatype coord_pc =
    C_start
  | C_join nat
  | C_lock
  | C_poll
  | C_check
  | C_reg
  | C_wait nat
  | C_release nat
  | C_background nat
  | C_ret coord_result

text \<open>\<open>co_asset\<close> is what the storage has, a claim that is being cut included; \<open>co_calm\<close> holds as long as no look at the storage has failed, nothing was removed from it, and no
  cutting of chunks has failed.\<close>

record coordination =
  co_lock :: "nat option"
  co_calm :: bool
  co_asset :: bool
  co_table :: "nat \<Rightarrow> nat option"
  co_jobs :: "job list"
  co_server :: "nat list"
  co_pcs :: "coord_pc list"

definition new_job :: "nat \<Rightarrow> bool \<Rightarrow> job" where
  "new_job sv cdc = \<lparr>jb_server = sv, jb_cdc = cdc, jb_phase = J_run, jb_load = True, jb_start = False, jb_stored = False, jb_kept = False\<rparr>"

definition job_ready :: "bool \<Rightarrow> job \<Rightarrow> bool" where
  "job_ready waitForStorage j = (if waitForStorage then jb_stored j else jb_start j)"

definition goto :: "nat \<Rightarrow> coord_pc \<Rightarrow> coordination \<Rightarrow> coordination" where
  "goto i pc c = c\<lparr>co_pcs := (co_pcs c)[i := pc]\<rparr>"

definition set_job :: "nat \<Rightarrow> job \<Rightarrow> coordination \<Rightarrow> coordination" where
  "set_job k j c = c\<lparr>co_jobs := (co_jobs c)[k := j]\<rparr>"

section \<open>Steps\<close>

text \<open>A request may be cancelled while it waits for a job. A look at the storage that fails counts as no (\<open>check_fails\<close>; while polling it only means one more round).\<close>

inductive coordinateDownload :: "bool \<Rightarrow> nat \<Rightarrow> coordination \<Rightarrow> coord_pc \<Rightarrow> coordination \<Rightarrow> bool" for waitForStorage i where
  found: "co_table c (co_server c ! i) = Some k \<Longrightarrow> coordinateDownload waitForStorage i c C_start (goto i (C_join k) c)"
| not_found: "co_table c (co_server c ! i) = None \<Longrightarrow> coordinateDownload waitForStorage i c C_start (goto i C_lock c)"
| joined: "job_ready waitForStorage (co_jobs c ! k) \<or> jb_phase (co_jobs c ! k) = J_done \<Longrightarrow>
    coordinateDownload waitForStorage i c (C_join k) (goto i (C_ret (Observed k)) c)"
| join_cancelled: "coordinateDownload waitForStorage i c (C_join k) (goto i (C_ret (Observed k)) c)"
| locked: "co_lock c = None \<Longrightarrow> coordinateDownload waitForStorage i c C_lock (goto i C_check (c\<lparr>co_lock := Some i\<rparr>))"
| lock_fails: "coordinateDownload waitForStorage i c C_lock (goto i C_poll c)"
| appeared: "co_asset c \<Longrightarrow> coordinateDownload waitForStorage i c C_poll (goto i (C_ret Asset_present) c)"
| timed_out: "coordinateDownload waitForStorage i c C_poll (goto i (C_ret Timed_out) c)"
| present: "co_asset c \<Longrightarrow> coordinateDownload waitForStorage i c C_check (goto i (C_ret Asset_present) (c\<lparr>co_lock := None\<rparr>))"
| absent: "\<not> co_asset c \<Longrightarrow> coordinateDownload waitForStorage i c C_check (goto i C_reg c)"
| check_fails: "coordinateDownload waitForStorage i c C_check (goto i C_reg (c\<lparr>co_calm := False\<rparr>))"
| tracked: "co_table c (co_server c ! i) = Some k \<Longrightarrow> coordinateDownload waitForStorage i c C_reg (goto i (C_wait k) c)"
| starts: "co_table c (co_server c ! i) = None \<Longrightarrow>
    coordinateDownload waitForStorage i c C_reg
      (goto i (C_wait (length (co_jobs c)))
        (c\<lparr>co_table := (co_table c)(co_server c ! i \<mapsto> length (co_jobs c)), co_jobs := co_jobs c @ [new_job (co_server c ! i) cdc]\<rparr>))"
| waited: "job_ready waitForStorage (co_jobs c ! k) \<or> jb_phase (co_jobs c ! k) = J_done \<Longrightarrow>
    coordinateDownload waitForStorage i c (C_wait k) (goto i (C_release k) c)"
| wait_cancelled: "coordinateDownload waitForStorage i c (C_wait k) (goto i (C_release k) c)"
| release_now: "waitForStorage \<Longrightarrow> coordinateDownload waitForStorage i c (C_release k) (goto i (C_ret (Observed k)) (c\<lparr>co_lock := None\<rparr>))"
| release_later: "\<not> waitForStorage \<Longrightarrow> coordinateDownload waitForStorage i c (C_release k) (goto i (C_background k) c)"
| released: "jb_stored (co_jobs c ! k) \<or> jb_phase (co_jobs c ! k) = J_done \<Longrightarrow>
    coordinateDownload waitForStorage i c (C_background k) (goto i (C_ret (Observed k)) (c\<lparr>co_lock := None\<rparr>))"

text \<open>The goroutines of job \<open>k\<close>. Without chunks it is one goroutine, which loads no more when it fails.\<close>

inductive job_step :: "nat \<Rightarrow> coordination \<Rightarrow> job \<Rightarrow> coordination \<Rightarrow> bool" for k where
  begins: "jb_phase j = J_run \<Longrightarrow> job_step k c j (set_job k (j\<lparr>jb_start := True\<rparr>) c)"
| loaded: "jb_load j \<Longrightarrow> job_step k c j (set_job k (j\<lparr>jb_load := False\<rparr>) c)"
| keeps_asset: "jb_phase j = J_run \<Longrightarrow> \<not> jb_load j \<Longrightarrow> job_step k c j (set_job k (j\<lparr>jb_phase := J_kept, jb_kept := True\<rparr>) (c\<lparr>co_asset := True\<rparr>))"
| claims: "jb_phase j = J_run \<Longrightarrow> jb_cdc j \<Longrightarrow> job_step k c j (set_job k (j\<lparr>jb_phase := J_chunk, jb_start := True, jb_kept := True\<rparr>) (c\<lparr>co_asset := True\<rparr>))"
| fails: "jb_phase j = J_run \<Longrightarrow>
    job_step k c j (set_job k (j\<lparr>jb_phase := J_failed, jb_load := jb_load j \<and> jb_cdc j\<rparr>) (c\<lparr>co_calm := co_calm c \<and> \<not> (jb_load j \<and> jb_cdc j)\<rparr>))"
| record_fails: "jb_phase j = J_kept \<Longrightarrow> \<not> jb_stored j \<Longrightarrow> job_step k c j (set_job k (j\<lparr>jb_phase := J_failed\<rparr>) c)"
| chunking_fails: "jb_phase j = J_chunk \<Longrightarrow> job_step k c j (set_job k (j\<lparr>jb_phase := J_failed\<rparr>) (c\<lparr>co_asset := False, co_calm := False\<rparr>))"
| chunked: "jb_phase j = J_chunk \<Longrightarrow> jb_stored j \<Longrightarrow> job_step k c j (set_job k (j\<lparr>jb_phase := J_kept\<rparr>) c)"
| signals: "jb_phase j = J_kept \<or> jb_phase j = J_chunk \<Longrightarrow> job_step k c j (set_job k (j\<lparr>jb_stored := True\<rparr>) c)"
| untracked: "jb_phase j = J_failed \<or> jb_phase j = J_kept \<and> jb_stored j \<Longrightarrow>
    job_step k c j (set_job k (j\<lparr>jb_phase := J_gone, jb_start := True\<rparr>) (c\<lparr>co_table := (co_table c)(jb_server j := None)\<rparr>))"
| ends: "jb_phase j = J_gone \<Longrightarrow> job_step k c j (set_job k (j\<lparr>jb_phase := J_done\<rparr>) c)"

text \<open>Others may remove the asset: a request that deletes it, the eviction, a claim that is too old.\<close>

inductive coord_step :: "bool \<Rightarrow> coordination \<Rightarrow> coordination \<Rightarrow> bool" for waitForStorage where
  request: "i < length (co_pcs c) \<Longrightarrow> coordinateDownload waitForStorage i c (co_pcs c ! i) c' \<Longrightarrow> coord_step waitForStorage c c'"
| job: "k < length (co_jobs c) \<Longrightarrow> job_step k c (co_jobs c ! k) c' \<Longrightarrow> coord_step waitForStorage c c'"
| lost: "coord_step waitForStorage c (c\<lparr>co_asset := False, co_calm := False\<rparr>)"

text \<open>Requests on the servers \<open>svs\<close> for an asset that nobody has yet.\<close>

definition new_requests :: "nat list \<Rightarrow> coordination" where
  "new_requests svs = \<lparr>co_lock = None, co_calm = True, co_asset = False, co_table = Map.empty, co_jobs = [], co_server = svs, co_pcs = replicate (length svs) C_start\<rparr>"

inductive coord_reachable :: "bool \<Rightarrow> nat list \<Rightarrow> coordination \<Rightarrow> bool" for waitForStorage svs where
  init: "coord_reachable waitForStorage svs (new_requests svs)"
| step: "coord_reachable waitForStorage svs c \<Longrightarrow> coord_step waitForStorage c c' \<Longrightarrow> coord_reachable waitForStorage svs c'"

section \<open>The invariant\<close>



















section \<open>Properties\<close>


section \<open>Cancelled requests for a narinfo\<close>

lemma coord_request:
  "coord_reachable w svs c \<Longrightarrow> coordinateDownload w i c (co_pcs c ! i) c' \<Longrightarrow> i < length (co_pcs c) \<Longrightarrow> coord_reachable w svs c'"
  by (rule coord_reachable.step) (auto intro: coord_step.request)

lemma coord_job:
  "coord_reachable w svs c \<Longrightarrow> job_step k c (co_jobs c ! k) c' \<Longrightarrow> k < length (co_jobs c) \<Longrightarrow> coord_reachable w svs c'"
  by (rule coord_reachable.step) (auto intro: coord_step.job)

definition two_servers :: "nat option \<Rightarrow> bool \<Rightarrow> bool \<Rightarrow> (nat \<Rightarrow> nat option) \<Rightarrow> job list \<Rightarrow> coord_pc \<Rightarrow> coord_pc \<Rightarrow> coordination" where
  "two_servers l calm asset tab js p q =
     \<lparr>co_lock = l, co_calm = calm, co_asset = asset, co_table = tab, co_jobs = js, co_server = [0, 1], co_pcs = [p, q]\<rparr>"

lemmas two_servers_simps = two_servers_def goto_def set_job_def numeral_2_eq_2

lemma two_servers_init: "coord_reachable w [0, 1] (two_servers None True False Map.empty [] C_start C_start)"
  using coord_reachable.init [of w "[0, 1]"] by (simp add: new_requests_def two_servers_simps)

text \<open>The steps of the first request, the first job, and the whole way of a request to a new job.\<close>

lemma first_step:
  "coord_reachable w [0, 1] (two_servers l calm asset tab js p q) \<Longrightarrow>
   coordinateDownload w 0 (two_servers l calm asset tab js p q) p c' \<Longrightarrow> coord_reachable w [0, 1] c'"
  by (erule coord_request [where i = 0]) (simp_all add: two_servers_def)

lemma second_step:
  "coord_reachable w [0, 1] (two_servers l calm asset tab js p q) \<Longrightarrow>
   coordinateDownload w 1 (two_servers l calm asset tab js p q) q c' \<Longrightarrow> coord_reachable w [0, 1] c'"
  by (erule coord_request [where i = 1]) (simp_all add: two_servers_def)

lemma first_job:
  "coord_reachable w [0, 1] (two_servers l calm asset tab (j # js) p q) \<Longrightarrow>
   job_step 0 (two_servers l calm asset tab (j # js) p q) j c' \<Longrightarrow> coord_reachable w [0, 1] c'"
  by (erule coord_job [where k = 0]) (simp_all add: two_servers_def)

lemma request_downloads:
  assumes "coord_reachable w [0, 1] (two_servers None calm False tab js C_start q)" "tab 0 = None"
  shows "coord_reachable w [0, 1] (two_servers (Some 0) calm False (tab(0 \<mapsto> length js)) (js @ [new_job 0 cdc]) (C_wait (length js)) q)"
proof -
  have 1: "coord_reachable w [0, 1] (two_servers None calm False tab js C_lock q)"
    using first_step [OF assms(1) coordinateDownload.not_found] assms(2) by (simp add: two_servers_simps)
  have 2: "coord_reachable w [0, 1] (two_servers (Some 0) calm False tab js C_check q)"
    using first_step [OF 1 coordinateDownload.locked] by (simp add: two_servers_simps)
  have 3: "coord_reachable w [0, 1] (two_servers (Some 0) calm False tab js C_reg q)"
    using first_step [OF 2 coordinateDownload.absent] by (simp add: two_servers_simps)
  show ?thesis
    using first_step [OF 3 coordinateDownload.starts [where cdc = cdc]] assms(2) by (simp add: two_servers_simps)
qed

lemma other_downloads:
  assumes "coord_reachable w [0, 1] (two_servers None calm False tab js q C_start)" "tab 1 = None"
  shows "coord_reachable w [0, 1] (two_servers (Some 1) calm False (tab(1 \<mapsto> length js)) (js @ [new_job 1 cdc]) q (C_wait (length js)))"
proof -
  have 1: "coord_reachable w [0, 1] (two_servers None calm False tab js q C_lock)"
    using second_step [OF assms(1) coordinateDownload.not_found] assms(2) by (simp add: two_servers_simps)
  have 2: "coord_reachable w [0, 1] (two_servers (Some 1) calm False tab js q C_check)"
    using second_step [OF 1 coordinateDownload.locked] by (simp add: two_servers_simps)
  have 3: "coord_reachable w [0, 1] (two_servers (Some 1) calm False tab js q C_reg)"
    using second_step [OF 2 coordinateDownload.absent] by (simp add: two_servers_simps)
  show ?thesis
    using second_step [OF 3 coordinateDownload.starts [where cdc = cdc]] assms(2) by (simp add: two_servers_simps)
qed

text \<open>For a narinfo the same does not hold: a request that is cancelled while it waits releases the lock although its job still runs, and another
  server starts a second download of the same narinfo.\<close>

theorem cancelled_request_duplicates:
  "\<exists>c. coord_reachable True [0, 1] c \<and> length (co_jobs c) = 2 \<and> jb_phase (co_jobs c ! 0) = J_run \<and> jb_phase (co_jobs c ! 1) = J_run"
proof -
  from request_downloads [OF two_servers_init, where cdc = False]
  have 1: "coord_reachable True [0, 1] (two_servers (Some 0) True False [0 \<mapsto> 0] [new_job 0 False] (C_wait 0) C_start)" by simp
  have 2: "coord_reachable True [0, 1] (two_servers (Some 0) True False [0 \<mapsto> 0] [new_job 0 False] (C_release 0) C_start)"
    using first_step [OF 1 coordinateDownload.wait_cancelled] by (simp add: two_servers_simps)
  have 3: "coord_reachable True [0, 1] (two_servers None True False [0 \<mapsto> 0] [new_job 0 False] (C_ret (Observed 0)) C_start)"
    using first_step [OF 2 coordinateDownload.release_now] by (simp add: two_servers_simps)
  from other_downloads [OF this, where cdc = False]
  have "coord_reachable True [0, 1] (two_servers (Some 1) True False [0 \<mapsto> 0, 1 \<mapsto> 1] [new_job 0 False, new_job 1 False] (C_ret (Observed 0)) (C_wait 1))" by simp
  then show ?thesis by (intro exI conjI) (assumption, simp_all add: two_servers_def new_job_def)
qed

section \<open>A chunking that fails\<close>

text \<open>A NAR that is cut into chunks while it is loaded: the lock is released when the NAR is claimed. When the cutting then fails, the claim is gone, and another server starts a
  second download although the first one still loads.\<close>

theorem failed_chunking_duplicates:
  "\<exists>c. coord_reachable False [0, 1] c \<and> length (co_jobs c) = 2 \<and> jb_load (co_jobs c ! 0) \<and> jb_load (co_jobs c ! 1) \<and> \<not> co_calm c"
proof -
  let ?j = "\<lparr>jb_server = 0, jb_cdc = True, jb_phase = J_chunk, jb_load = True, jb_start = True, jb_stored = False, jb_kept = True\<rparr>"
  from request_downloads [OF two_servers_init, where cdc = True]
  have 1: "coord_reachable False [0, 1] (two_servers (Some 0) True False [0 \<mapsto> 0] [new_job 0 True] (C_wait 0) C_start)" by simp
  have 2: "coord_reachable False [0, 1] (two_servers (Some 0) True True [0 \<mapsto> 0] [?j] (C_wait 0) C_start)"
    using first_job [OF 1 job_step.claims] by (simp add: two_servers_simps new_job_def)
  have 3: "coord_reachable False [0, 1] (two_servers (Some 0) True True [0 \<mapsto> 0] [?j\<lparr>jb_stored := True\<rparr>] (C_wait 0) C_start)"
    using first_job [OF 2 job_step.signals] by (simp add: two_servers_simps)
  have 4: "coord_reachable False [0, 1] (two_servers (Some 0) True True [0 \<mapsto> 0] [?j\<lparr>jb_stored := True\<rparr>] (C_release 0) C_start)"
    using first_step [OF 3 coordinateDownload.waited] by (simp add: two_servers_simps job_ready_def)
  have 5: "coord_reachable False [0, 1] (two_servers (Some 0) True True [0 \<mapsto> 0] [?j\<lparr>jb_stored := True\<rparr>] (C_background 0) C_start)"
    using first_step [OF 4 coordinateDownload.release_later] by (simp add: two_servers_simps)
  have 6: "coord_reachable False [0, 1] (two_servers None True True [0 \<mapsto> 0] [?j\<lparr>jb_stored := True\<rparr>] (C_ret (Observed 0)) C_start)"
    using first_step [OF 5 coordinateDownload.released] by (simp add: two_servers_simps)
  have 7: "coord_reachable False [0, 1] (two_servers None False False [0 \<mapsto> 0] [?j\<lparr>jb_stored := True, jb_phase := J_failed\<rparr>] (C_ret (Observed 0)) C_start)"
    using first_job [OF 6 job_step.chunking_fails] by (simp add: two_servers_simps)
  have "[0 \<mapsto> 0] (1 :: nat) = (None :: nat option)" by simp
  from other_downloads [OF 7 this, where cdc = True] show ?thesis by (intro exI conjI) (assumption, simp_all add: two_servers_def new_job_def)
qed

section \<open>Examples\<close>


end
