(* ===== verification/Spec2Isabelle.thy ===== *)
theory Spec2Isabelle
  imports Nix_Cache_Info Circuit_Breaker Local_Lock Redis_RWLock_Props Redis_Locker_Props Cluster_Config_Props Fsck_Verdict Cache_Requests Cache_Pull_Props Server_Props Download_State Download_Coordination
begin

text \<open>
  Verification of ncps, a proxy cache for Nix binary caches (the Go program under \<open>src/\<close>).
\<close>

end
